(* ===== verification/Cpt_Prelude.thy ===== *)
theory Cpt_Prelude
  imports Complex_Main "HOL-Library.Word"
begin

text \<open>
  Shared vocabulary of the development: the numeric types of the tool, the collections
  of rewrite rules the component theories extend, and list lemmas that several
  components use.

  A \<^verbatim>\<open>double\<close> of the source is a \<^typ>\<open>real\<close>: the sums, differences and maxima the tool
  forms are exact here, rounding is not modelled.  Counters and hash values keep their
  width as words.
\<close>

type_synonym time = real
type_synonym u64 = "64 word"
type_synonym i32 = "32 word"

named_theorems clock_simps
  \<open>observers of the clock operations\<close>
named_theorems sync_simps
  \<open>what the synchronisation operations do to single clock components\<close>
named_theorems vec_simps
  \<open>the abstraction of the vector operations to lists\<close>
named_theorems hmap_simps
  \<open>the abstraction of the hash map operations to maps\<close>
named_theorems handle_simps
  \<open>observers of the handle tables\<close>

section \<open>Lists used as stacks that grow at the end\<close>

lemma take_Suc_update:
  "i < length xs \<Longrightarrow> take (Suc i) (xs[i := x]) = take i xs @ [x]"
  by (simp add: take_Suc_conv_app_nth)

section \<open>Association lists\<close>

text \<open>Assignment to a key: in place when the key is there, at the end otherwise.\<close>

fun upsert :: "'k \<Rightarrow> 'v \<Rightarrow> ('k \<times> 'v) list \<Rightarrow> ('k \<times> 'v) list" where
  "upsert k v [] = [(k, v)]"
| "upsert k v ((k', v') # xs) = (if k = k' then (k, v) # xs else (k', v') # upsert k v xs)"

lemma upsert_nth:
  "i < length xs \<Longrightarrow> distinct (map fst xs) \<Longrightarrow> fst (xs ! i) = k \<Longrightarrow> upsert k v xs = xs[i := (k, v)]"
proof (induction k v xs arbitrary: i rule: upsert.induct)
  case (2 k v k' v' xs)
  show ?case
  proof (cases i)
    case (Suc j)
    then have "k \<in> fst ` set xs" using 2 by (auto intro: rev_image_eqI)
    moreover have "k' \<notin> fst ` set xs" using 2 by simp
    ultimately have "k \<noteq> k'" by blast
    then show ?thesis using 2 Suc by simp
  qed (use 2 in simp)
qed simp

lemma upsert_new: "k \<notin> fst ` set xs \<Longrightarrow> upsert k v xs = xs @ [(k, v)]"
  by (induction k v xs rule: upsert.induct) auto

lemma upsert_snoc: "k \<notin> fst ` set xs \<Longrightarrow> upsert k v (xs @ [(k, w)]) = xs @ [(k, v)]"
  by (induction k v xs rule: upsert.induct) auto

lemma map_of_upsert [simp]: "map_of (upsert k v xs) = (map_of xs)(k \<mapsto> v)"
  by (induction k v xs rule: upsert.induct) (auto simp: fun_eq_iff)

text \<open>Taking out the entry at an index.\<close>

lemma map_of_remove:
  assumes "distinct (map fst xs)" and "i < length xs"
  shows "map_of (take i xs @ drop (Suc i) xs) = (map_of xs)(fst (xs ! i) := None)"
    and "distinct (map fst (take i xs @ drop (Suc i) xs))"
proof -
  let ?k = "fst (xs ! i)"
  have xs: "xs = take i xs @ xs ! i # drop (Suc i) xs" using assms(2) by (simp add: id_take_nth_drop [symmetric])
  have d: "distinct (map fst (take i xs) @ ?k # map fst (drop (Suc i) xs))"
    using assms(1) by (subst (asm) xs) simp
  then have out: "map_of (take i xs) ?k = None" "map_of (drop (Suc i) xs) ?k = None"
    by (auto simp: map_of_eq_None_iff)
  have "map_of xs = map_of (take i xs @ (?k, snd (xs ! i)) # drop (Suc i) xs)" using xs by simp
  then have "map_of xs x = (if x = ?k then Some (snd (xs ! i)) else map_of (take i xs @ drop (Suc i) xs) x)" for x
    using out by (simp add: map_add_def split: option.split)
  then show "map_of (take i xs @ drop (Suc i) xs) = (map_of xs)(?k := None)"
    using out by (auto simp: fun_eq_iff map_add_def)
  show "distinct (map fst (take i xs @ drop (Suc i) xs))" using d by auto
qed

section \<open>Maxima\<close>

lemma max_if_less: "(if a < b then b else a) = max a (b::'a::linorder)"
  by (auto simp: max_def)

lemma max_shift: "max a b + (c::real) = max (a + c) (b + c)"
  by (simp add: max_def)

end
