(* ===== verification/Cpt_Clock.thy ===== *)
theory Cpt_Clock
  imports Cpt_Prelude
begin

text \<open>
  The clocks of \<^verbatim>\<open>include/criticalPath.h\<close>: the metric classes, the triple \<^verbatim>\<open>cpClocks\<close>, the
  clock of a synchronisation object (\<^verbatim>\<open>syncClock\<close>) and the clock of a thread
  (\<^verbatim>\<open>threadClock\<close>) with its stack of states.

  A running clock is stored as an offset: switching it on subtracts the current time,
  switching it off adds the current time, so that the stored value is the accumulated
  time only while the clock is off.  \<open>now\<close> stands for the value \<^verbatim>\<open>getTime()\<close> would return at
  the call, \<open>running\<close> for \<^verbatim>\<open>analysis_flags->running\<close>.  The source locations a clock keeps
  for its diagnostics are not part of the model.
\<close>

section \<open>States and clocks\<close>

datatype ClockState =
    STATE_UNINIT | STATE_INIT | STATE_NONE | STATE_USEFUL | STATE_MPI | STATE_OMP | STATE_GPU
  | STATE_LAST

datatype ClockType = CLOCK_USEFUL | CLOCK_OMPI | CLOCK_OOMP | CLOCK_OGPU

text \<open>The indices \<^verbatim>\<open>0 \<dots> CLOCK_LAST - 1\<close> in the order a loop visits them.\<close>

definition clock_types :: "ClockType list" where
  "clock_types = [CLOCK_USEFUL, CLOCK_OMPI, CLOCK_OOMP, CLOCK_OGPU]"

text \<open>
  The table \<^verbatim>\<open>State\<close>: which clocks run in which state.  \<^const>\<open>STATE_UNINIT\<close> and
  \<^const>\<open>STATE_LAST\<close> have no row; nothing is known about a read there.
\<close>

fun State :: "ClockState \<Rightarrow> ClockType \<Rightarrow> bool" where
  "State STATE_INIT _ = False"
| "State STATE_NONE c = (c \<noteq> CLOCK_USEFUL)"
| "State STATE_USEFUL _ = True"
| "State STATE_MPI c = (c = CLOCK_OOMP \<or> c = CLOCK_OGPU)"
| "State STATE_OMP c = (c = CLOCK_OMPI \<or> c = CLOCK_OGPU)"
| "State STATE_GPU c = (c = CLOCK_OMPI \<or> c = CLOCK_OOMP)"

section \<open>Metrics\<close>

record TimeMetric =
  tm_value :: time

definition TimeMetric_of :: "time \<Rightarrow> TimeMetric" where
  "TimeMetric_of t = \<lparr>tm_value = t\<rparr>"

definition tm_maxUpdate :: "TimeMetric \<Rightarrow> TimeMetric \<Rightarrow> TimeMetric" where
  "tm_maxUpdate m other =
     (if tm_value m < tm_value other then m\<lparr>tm_value := tm_value other\<rparr> else m)"

definition tm_add :: "TimeMetric \<Rightarrow> time \<Rightarrow> TimeMetric" where
  "tm_add m t = m\<lparr>tm_value := tm_value m + t\<rparr>"

definition tm_Reset :: "TimeMetric \<Rightarrow> time \<Rightarrow> TimeMetric" where
  "tm_Reset m t = m\<lparr>tm_value := t\<rparr>"

definition tm_getTime :: "TimeMetric \<Rightarrow> time" where
  "tm_getTime m = tm_value m"

record DependentMetric =
  refValue :: time
  depValue :: u64

definition DependentMetric_of :: "time \<Rightarrow> DependentMetric" where
  "DependentMetric_of t = \<lparr>refValue = t, depValue = 0\<rparr>"

definition dm_maxUpdate :: "DependentMetric \<Rightarrow> DependentMetric \<Rightarrow> DependentMetric" where
  "dm_maxUpdate m other =
     (if refValue m < refValue other
      then m\<lparr>refValue := refValue other, depValue := depValue other\<rparr> else m)"

definition dm_add :: "DependentMetric \<Rightarrow> DependentMetric \<Rightarrow> DependentMetric" where
  "dm_add m ref = m\<lparr>refValue := refValue m + refValue ref, depValue := depValue m + depValue ref\<rparr>"

text \<open>
  \<^verbatim>\<open>cpClocks::AddAll\<close> passes a \<^verbatim>\<open>double\<close>; for this class the argument is converted by the
  constructor \<^verbatim>\<open>DependentMetric(double)\<close>.
\<close>

definition dm_addTime :: "DependentMetric \<Rightarrow> time \<Rightarrow> DependentMetric" where
  "dm_addTime m t = dm_add m (DependentMetric_of t)"

definition dm_Reset :: "DependentMetric \<Rightarrow> time \<Rightarrow> DependentMetric" where
  "dm_Reset m t = m\<lparr>refValue := t, depValue := 0\<rparr>"

definition dm_getTime :: "DependentMetric \<Rightarrow> time" where
  "dm_getTime m = refValue m"

text \<open>
  The interface the clock templates require of their metric class \<^verbatim>\<open>T\<close>.  Joining is
  associative and idempotent on whole metrics and takes the maximum of the times, so a
  sequence of joins depends on the times joined only through their maximum.
\<close>

locale metric =
  fixes getTime :: "'m \<Rightarrow> time"
    and maxUpdate :: "'m \<Rightarrow> 'm \<Rightarrow> 'm"
    and add :: "'m \<Rightarrow> time \<Rightarrow> 'm"
    and Reset :: "'m \<Rightarrow> time \<Rightarrow> 'm"
  assumes getTime_maxUpdate: "getTime (maxUpdate a b) = max (getTime a) (getTime b)"
    and maxUpdate_selects: "maxUpdate a b = (if getTime a < getTime b then b else a)"
    and getTime_add: "getTime (add a t) = getTime a + t"
    and add_add: "add (add a s) t = add a (s + t)"
    and getTime_Reset: "getTime (Reset a t) = t"
begin

lemma maxUpdate_assoc: "maxUpdate (maxUpdate a b) c = maxUpdate a (maxUpdate b c)"
  by (auto simp: maxUpdate_selects)

lemma maxUpdate_idem: "maxUpdate a a = a"
  by (simp add: maxUpdate_selects)

lemma maxUpdate_absorb: "getTime b \<le> getTime a \<Longrightarrow> maxUpdate a b = a"
  by (simp add: maxUpdate_selects)

lemma getTime_fold_maxUpdate:
  "getTime (fold (\<lambda>b a. maxUpdate a b) bs a) = Max (insert (getTime a) (getTime ` set bs))"
proof (induction bs arbitrary: a)
  case (Cons b bs)
  show ?case
    by (simp add: Cons.IH getTime_maxUpdate insert_commute)
       (cases "bs = []"; simp add: max.assoc max.commute max.left_commute)
qed simp

lemma fold_maxUpdate_perm:
  "set bs = set cs \<Longrightarrow>
     getTime (fold (\<lambda>b a. maxUpdate a b) bs a) = getTime (fold (\<lambda>b a. maxUpdate a b) cs a)"
  by (simp add: getTime_fold_maxUpdate)

lemma start_stop_elapsed: "getTime (add (add a (- s)) t) = getTime a + (t - s)"
  by (simp add: getTime_add)

end

interpretation tm: metric tm_getTime tm_maxUpdate tm_add tm_Reset
  by unfold_locales
     (auto simp: tm_getTime_def tm_maxUpdate_def tm_add_def tm_Reset_def max_def)

interpretation dm: metric dm_getTime dm_maxUpdate dm_addTime dm_Reset
  by unfold_locales
     (auto simp: dm_getTime_def dm_maxUpdate_def dm_add_def dm_addTime_def dm_Reset_def
        DependentMetric_of_def max_def)

section \<open>The triple of a clock\<close>

text \<open>\<^verbatim>\<open>BaseMetric\<close> as the build configures it (\<^verbatim>\<open>NUM_UC_INT64\<close> is 0).\<close>

type_synonym BaseMetric = TimeMetric

record cpClocks =
  thread :: BaseMetric
  proc :: BaseMetric
  critical :: BaseMetric

definition cpClocks_of :: "time \<Rightarrow> cpClocks" where
  "cpClocks_of t = \<lparr>thread = TimeMetric_of t, proc = TimeMetric_of t, critical = TimeMetric_of t\<rparr>"

definition cp_Reset :: "cpClocks \<Rightarrow> time \<Rightarrow> cpClocks" where
  "cp_Reset c t =
     \<lparr>thread = tm_Reset (thread c) t, proc = tm_Reset (proc c) t,
      critical = tm_Reset (critical c) t\<rparr>"

definition cp_AddAll :: "cpClocks \<Rightarrow> time \<Rightarrow> cpClocks" where
  "cp_AddAll c t =
     \<lparr>thread = tm_add (thread c) t, proc = tm_add (proc c) t, critical = tm_add (critical c) t\<rparr>"

definition cp_OmpHBefore :: "cpClocks \<Rightarrow> cpClocks \<Rightarrow> cpClocks" where
  "cp_OmpHBefore this cc =
     this\<lparr>proc := tm_maxUpdate (proc this) (proc cc),
          critical := tm_maxUpdate (critical this) (critical cc)\<rparr>"

text \<open>\<^verbatim>\<open>OmpHAfter\<close> updates its argument, which is the result here.\<close>

definition cp_OmpHAfter :: "cpClocks \<Rightarrow> cpClocks \<Rightarrow> cpClocks" where
  "cp_OmpHAfter this cc =
     cc\<lparr>proc := tm_maxUpdate (proc cc) (proc this),
        critical := tm_maxUpdate (critical cc) (critical this)\<rparr>"

section \<open>Call counters\<close>

record MPI_COUNTS =
  send :: u64
  recv :: u64
  isend :: u64
  irecv :: u64
  coll :: u64
  icoll :: u64
  test :: u64
  wait :: u64
  pers :: u64
  probe :: u64

definition MPI_COUNTS_zero :: MPI_COUNTS where
  "MPI_COUNTS_zero = \<lparr>send = 0, recv = 0, isend = 0, irecv = 0, coll = 0, icoll = 0, test = 0,
     wait = 0, pers = 0, probe = 0\<rparr>"

definition mpi_counts_add :: "MPI_COUNTS \<Rightarrow> MPI_COUNTS \<Rightarrow> MPI_COUNTS" where
  "mpi_counts_add c o' =
     \<lparr>send = send c + send o', recv = recv c + recv o', isend = isend c + isend o',
      irecv = irecv c + irecv o', coll = coll c + coll o', icoll = icoll c + icoll o',
      test = test c + test o', wait = wait c + wait o', pers = pers c + pers o',
      probe = probe c + probe o'\<rparr>"

record omptCounts =
  taskCreate :: i32
  taskSchedule :: i32
  implTaskBegin :: i32
  implTaskEnd :: i32
  syncRegionBegin :: i32
  syncRegionEnd :: i32
  mutexAcquire :: i32

definition omptCounts_zero :: omptCounts where
  "omptCounts_zero = \<lparr>taskCreate = 0, taskSchedule = 0, implTaskBegin = 0, implTaskEnd = 0,
     syncRegionBegin = 0, syncRegionEnd = 0, mutexAcquire = 0\<rparr>"

definition ompt_counts_add :: "omptCounts \<Rightarrow> omptCounts \<Rightarrow> omptCounts" where
  "ompt_counts_add c o' =
     \<lparr>taskCreate = taskCreate c + taskCreate o', taskSchedule = taskSchedule c + taskSchedule o',
      implTaskBegin = implTaskBegin c + implTaskBegin o',
      implTaskEnd = implTaskEnd c + implTaskEnd o',
      syncRegionBegin = syncRegionBegin c + syncRegionBegin o',
      syncRegionEnd = syncRegionEnd c + syncRegionEnd o',
      mutexAcquire = mutexAcquire c + mutexAcquire o'\<rparr>"

section \<open>Clocks of synchronisation objects and of threads\<close>

text \<open>The array \<^verbatim>\<open>clocks[CLOCK_LAST]\<close> is a function on its index type.\<close>

record syncClock =
  clocks :: "ClockType \<Rightarrow> cpClocks"
  sync_state :: ClockState

definition syncClock_init :: syncClock where
  "syncClock_init = \<lparr>clocks = (\<lambda>_. cpClocks_of 0), sync_state = STATE_INIT\<rparr>"

text \<open>\<^verbatim>\<open>threadClock\<close> derives from \<^verbatim>\<open>syncClock\<close> and from \<^verbatim>\<open>MPI_COUNTS\<close>.\<close>

record threadClock = syncClock +
  thread_id :: i32
  openmp_thread :: bool
  clock_state_stack :: "ClockState list"
  counts :: MPI_COUNTS

definition threadClock_new :: "i32 \<Rightarrow> time \<Rightarrow> bool \<Rightarrow> threadClock" where
  "threadClock_new threadid useful openmp =
     \<lparr>clocks = (\<lambda>_. cpClocks_of 0)(CLOCK_USEFUL := (cpClocks_of 0)\<lparr>critical := TimeMetric_of useful\<rparr>),
      sync_state = STATE_INIT, thread_id = threadid, openmp_thread = openmp,
      clock_state_stack = [STATE_INIT], counts = MPI_COUNTS_zero\<rparr>"

definition GetState :: "threadClock \<Rightarrow> ClockState" where
  "GetState tc = last (clock_state_stack tc)"

definition threadClock_copy :: "i32 \<Rightarrow> threadClock \<Rightarrow> threadClock" where
  "threadClock_copy next_id other =
     (let tc = threadClock_new next_id 0 False;
          tc = (if GetState other \<noteq> STATE_INIT
                then tc\<lparr>clock_state_stack := clock_state_stack tc @ [GetState other]\<rparr> else tc)
      in tc\<lparr>clocks := (clocks tc)(CLOCK_USEFUL := clocks other CLOCK_USEFUL,
              CLOCK_OMPI := clocks other CLOCK_OMPI, CLOCK_OOMP := clocks other CLOCK_OOMP)\<rparr>)"

text \<open>The body of the loop in \<^verbatim>\<open>SwitchState\<close>, and the loop over all clocks.\<close>

definition switch_clock ::
  "ClockState \<Rightarrow> ClockState \<Rightarrow> time \<Rightarrow> ClockType \<Rightarrow> (ClockType \<Rightarrow> cpClocks) \<Rightarrow> (ClockType \<Rightarrow> cpClocks)"
where
  "switch_clock old_cs new_cs t i cl =
     (if State old_cs i = State new_cs i then cl
      else if \<not> State old_cs i \<and> State new_cs i then cl(i := cp_AddAll (cl i) (- t))
      else cl(i := cp_AddAll (cl i) t))"

definition SwitchState ::
  "time \<Rightarrow> ClockState \<Rightarrow> ClockState \<Rightarrow> time \<Rightarrow> threadClock \<Rightarrow> threadClock"
where
  "SwitchState now old_cs new_cs t tc =
     (if old_cs = new_cs then tc
      else let t = (if t = 0 then now else t)
           in tc\<lparr>clocks := fold (switch_clock old_cs new_cs t) clock_types (clocks tc)\<rparr>)"

definition enterState ::
  "bool \<Rightarrow> time \<Rightarrow> time \<Rightarrow> ClockState \<Rightarrow> threadClock \<Rightarrow> threadClock"
where
  "enterState running now t cs tc =
     (if \<not> running then tc
      else let tc = SwitchState now (GetState tc) cs t tc
           in tc\<lparr>clock_state_stack := clock_state_stack tc @ [cs]\<rparr>)"

definition exitState ::
  "bool \<Rightarrow> time \<Rightarrow> time \<Rightarrow> bool \<Rightarrow> threadClock \<Rightarrow> threadClock"
where
  "exitState running now t isRunning tc =
     (if \<not> running \<or> \<not> isRunning then tc
      else let old_cs = GetState tc
           in if old_cs = STATE_INIT then tc
              else let tc = tc\<lparr>clock_state_stack := butlast (clock_state_stack tc)\<rparr>
                   in SwitchState now old_cs (GetState tc) t tc)"

text \<open>
  The overload with the expected states: its body is that of \<^const>\<open>exitState\<close>, the
  expectations are the assertions \<open>exitState_dchecks\<close>.
\<close>

definition exitState_dchecks :: "bool \<Rightarrow> time \<Rightarrow> bool \<Rightarrow> ClockState \<Rightarrow> ClockState \<Rightarrow> threadClock \<Rightarrow> bool"
where
  "exitState_dchecks running now isRunning oldcs nextcs tc \<longleftrightarrow>
     (running \<and> isRunning \<longrightarrow>
        oldcs = GetState tc \<and>
        (1 < length (clock_state_stack tc) \<or> oldcs = STATE_INIT) \<and>
        nextcs = GetState (exitState running now 0 isRunning tc))"

definition setState ::
  "bool \<Rightarrow> time \<Rightarrow> time \<Rightarrow> ClockState \<Rightarrow> threadClock \<Rightarrow> threadClock"
where
  "setState running now t cs tc =
     (if \<not> running \<and> cs \<noteq> STATE_INIT then tc
      else let tc = SwitchState now (GetState tc) cs t tc
           in tc\<lparr>clock_state_stack := butlast (clock_state_stack tc) @ [cs]\<rparr>)"

definition resetState :: "threadClock \<Rightarrow> threadClock" where
  "resetState tc =
     tc\<lparr>clocks := fold (\<lambda>i cl. cl(i := cp_Reset (cl i) 0)) clock_types (clocks tc),
        clock_state_stack := [STATE_INIT]\<rparr>"

definition compareState :: "ClockState \<Rightarrow> threadClock \<Rightarrow> bool" where
  "compareState cs tc \<longleftrightarrow> GetState tc = cs"

section \<open>Happens-before arcs of OpenMP\<close>

text \<open>The first use of a synchronisation clock records the state of the thread.\<close>

definition CheckArc :: "syncClock \<Rightarrow> threadClock \<Rightarrow> bool \<times> syncClock" where
  "CheckArc sc tc =
     (if sync_state sc = STATE_INIT then (True, sc\<lparr>sync_state := GetState tc\<rparr>) else (False, sc))"

definition CheckArc_dcheck :: "syncClock \<Rightarrow> threadClock \<Rightarrow> bool" where
  "CheckArc_dcheck sc tc \<longleftrightarrow> sync_state sc = STATE_INIT \<or> GetState tc = sync_state sc"

definition OmpHBefore :: "bool \<Rightarrow> syncClock \<Rightarrow> threadClock \<Rightarrow> syncClock" where
  "OmpHBefore running sc tc =
     (if \<not> running then sc
      else case CheckArc sc tc of
        (fresh, sc) \<Rightarrow>
          if fresh
          then sc\<lparr>clocks := (clocks sc)(CLOCK_USEFUL := clocks tc CLOCK_USEFUL,
                   CLOCK_OOMP := clocks tc CLOCK_OOMP, CLOCK_OMPI := clocks tc CLOCK_OMPI)\<rparr>
          else sc\<lparr>clocks := (clocks sc)
                   (CLOCK_USEFUL := cp_OmpHBefore (clocks sc CLOCK_USEFUL) (clocks tc CLOCK_USEFUL),
                    CLOCK_OOMP := cp_OmpHBefore (clocks sc CLOCK_OOMP) (clocks tc CLOCK_OOMP),
                    CLOCK_OMPI := cp_OmpHBefore (clocks sc CLOCK_OMPI) (clocks tc CLOCK_OMPI))\<rparr>)"

definition OmpHAfter :: "bool \<Rightarrow> syncClock \<Rightarrow> threadClock \<Rightarrow> syncClock \<times> threadClock" where
  "OmpHAfter running sc tc =
     (if \<not> running then (sc, tc)
      else let sc = snd (CheckArc sc tc)
           in (sc, tc\<lparr>clocks := (clocks tc)
                   (CLOCK_USEFUL := cp_OmpHAfter (clocks sc CLOCK_USEFUL) (clocks tc CLOCK_USEFUL),
                    CLOCK_OOMP := cp_OmpHAfter (clocks sc CLOCK_OOMP) (clocks tc CLOCK_OOMP),
                    CLOCK_OMPI := cp_OmpHAfter (clocks sc CLOCK_OMPI) (clocks tc CLOCK_OMPI))\<rparr>))"

definition OmpCReset :: "bool \<Rightarrow> syncClock \<Rightarrow> syncClock" where
  "OmpCReset running sc =
     (if \<not> running then sc
      else sc\<lparr>clocks := (clocks sc)
               (CLOCK_USEFUL := cp_Reset (clocks sc CLOCK_USEFUL) 0,
                CLOCK_OMPI := cp_Reset (clocks sc CLOCK_OMPI) 0,
                CLOCK_OOMP := cp_Reset (clocks sc CLOCK_OOMP) 0),
              sync_state := STATE_INIT\<rparr>)"

section \<open>Observers\<close>

text \<open>
  The value of one component of one clock; \<open>sel\<close> is \<^const>\<open>thread\<close>, \<^const>\<open>proc\<close> or
  \<^const>\<open>critical\<close>.
\<close>

definition cval :: "(cpClocks \<Rightarrow> BaseMetric) \<Rightarrow> ('a syncClock_scheme) \<Rightarrow> ClockType \<Rightarrow> time" where
  "cval sel sc i = tm_value (sel (clocks sc i))"

definition is_sel :: "(cpClocks \<Rightarrow> BaseMetric) \<Rightarrow> bool" where
  "is_sel sel \<longleftrightarrow> sel = thread \<or> sel = proc \<or> sel = critical"

lemma is_sel_intros [simp]: "is_sel thread" "is_sel proc" "is_sel critical"
  by (simp_all add: is_sel_def)

lemma tm_value_simps [clock_simps]:
  "tm_value (TimeMetric_of t) = t"
  "tm_value (tm_add m t) = tm_value m + t"
  "tm_value (tm_Reset m t) = t"
  "tm_value (tm_maxUpdate m m') = max (tm_value m) (tm_value m')"
  by (auto simp: TimeMetric_of_def tm_add_def tm_Reset_def tm_maxUpdate_def)

lemma sel_simps [clock_simps]:
  assumes "is_sel sel"
  shows "tm_value (sel (cp_AddAll c t)) = tm_value (sel c) + t"
    and "tm_value (sel (cp_Reset c t)) = t"
    and "tm_value (sel (cpClocks_of t)) = t"
  using assms
  by (auto simp: is_sel_def cp_AddAll_def cp_Reset_def cpClocks_of_def clock_simps)

lemma clocks_SwitchState:
  "clocks (SwitchState now old_cs new_cs t tc) i =
     (let t = (if t = 0 then now else t)
      in if State old_cs i = State new_cs i then clocks tc i
         else cp_AddAll (clocks tc i) (if State new_cs i then - t else t))"
  by (cases i) (auto simp: SwitchState_def switch_clock_def clock_types_def Let_def)

lemma cval_SwitchState [clock_simps]:
  assumes "is_sel sel"
  shows "cval sel (SwitchState now old_cs new_cs t tc) i =
    cval sel tc i + (of_bool (State old_cs i) - of_bool (State new_cs i)) * (if t = 0 then now else t)"
  using assms by (auto simp: cval_def clocks_SwitchState Let_def clock_simps)

lemma SwitchState_frame [clock_simps]:
  "clock_state_stack (SwitchState now old_cs new_cs t tc) = clock_state_stack tc"
  "sync_state (SwitchState now old_cs new_cs t tc) = sync_state tc"
  "thread_id (SwitchState now old_cs new_cs t tc) = thread_id tc"
  "counts (SwitchState now old_cs new_cs t tc) = counts tc"
  by (simp_all add: SwitchState_def Let_def)

lemma cval_frame [clock_simps]:
  "cval sel (tc\<lparr>clock_state_stack := st\<rparr>) i = cval sel tc i"
  "cval sel (tc\<lparr>counts := n\<rparr>) i = cval sel tc i"
  "cval sel (sc\<lparr>sync_state := s\<rparr>) i = cval sel sc i"
  by (simp_all add: cval_def)

lemma stack_enterState [clock_simps]:
  "clock_state_stack (enterState running now t cs tc) =
     (if running then clock_state_stack tc @ [cs] else clock_state_stack tc)"
  by (simp add: enterState_def clock_simps Let_def)

lemma stack_exitState [clock_simps]:
  "clock_state_stack (exitState running now t isRunning tc) =
     (if running \<and> isRunning \<and> GetState tc \<noteq> STATE_INIT
      then butlast (clock_state_stack tc) else clock_state_stack tc)"
  by (simp add: exitState_def clock_simps Let_def)

lemma stack_setState [clock_simps]:
  "clock_state_stack (setState running now t cs tc) =
     (if running \<or> cs = STATE_INIT then butlast (clock_state_stack tc) @ [cs]
      else clock_state_stack tc)"
  by (simp add: setState_def clock_simps Let_def)

lemma cval_threadClock_new [clock_simps]:
  "is_sel sel \<Longrightarrow> cval sel (threadClock_new n 0 omp) i = 0"
  by (cases i)
     (auto simp: cval_def threadClock_new_def clock_simps is_sel_def cpClocks_of_def)

lemma stack_threadClock_new [simp]:
  "clock_state_stack (threadClock_new n u omp) = [STATE_INIT]"
  "GetState (threadClock_new n u omp) = STATE_INIT"
  by (simp_all add: threadClock_new_def GetState_def)

section \<open>Effect of the arcs on single clocks\<close>

text \<open>
  The arcs concern the components \<^const>\<open>proc\<close> and \<^const>\<open>critical\<close> of the three clocks other
  than \<^const>\<open>CLOCK_OGPU\<close>.
\<close>

definition joined :: "(cpClocks \<Rightarrow> BaseMetric) \<Rightarrow> ClockType \<Rightarrow> bool" where
  "joined sel i \<longleftrightarrow> (sel = proc \<or> sel = critical) \<and> i \<noteq> CLOCK_OGPU"

lemma joined_is_sel: "joined sel i \<Longrightarrow> is_sel sel"
  by (auto simp: joined_def is_sel_def)

lemma joined_critical [simp]:
  "joined critical CLOCK_USEFUL" "joined critical CLOCK_OMPI" "joined critical CLOCK_OOMP"
  "joined proc CLOCK_USEFUL" "joined proc CLOCK_OMPI" "joined proc CLOCK_OOMP"
  by (simp_all add: joined_def)

lemma cval_OmpHBefore [sync_simps]:
  assumes "joined sel i"
  shows "cval sel (OmpHBefore running sc tc) i =
    (if \<not> running then cval sel sc i
     else if sync_state sc = STATE_INIT then cval sel tc i
     else max (cval sel sc i) (cval sel tc i))"
  using assms
  by (cases i)
     (auto simp: joined_def cval_def OmpHBefore_def CheckArc_def cp_OmpHBefore_def clock_simps)

lemma sync_state_OmpHBefore [sync_simps]:
  "sync_state (OmpHBefore running sc tc) =
     (if running \<and> sync_state sc = STATE_INIT then GetState tc else sync_state sc)"
  by (simp add: OmpHBefore_def CheckArc_def)

lemma cval_OmpHAfter [sync_simps]:
  assumes "joined sel i"
  shows "cval sel (snd (OmpHAfter running sc tc)) i =
    (if running then max (cval sel tc i) (cval sel sc i) else cval sel tc i)"
  using assms
  by (cases i)
     (auto simp: joined_def cval_def OmpHAfter_def CheckArc_def cp_OmpHAfter_def clock_simps Let_def)

lemma OmpHAfter_frame [sync_simps]:
  "cval thread (snd (OmpHAfter running sc tc)) i = cval thread tc i"
  "clock_state_stack (snd (OmpHAfter running sc tc)) = clock_state_stack tc"
  "GetState (snd (OmpHAfter running sc tc)) = GetState tc"
  "clocks (fst (OmpHAfter running sc tc)) = clocks sc"
  "cval sel (fst (OmpHAfter running sc tc)) i = cval sel sc i"
  "sync_state (fst (OmpHAfter running sc tc)) =
     (if running \<and> sync_state sc = STATE_INIT then GetState tc else sync_state sc)"
  by (cases i; simp add: cval_def OmpHAfter_def CheckArc_def cp_OmpHAfter_def GetState_def Let_def)+

lemma cval_OmpCReset [sync_simps]:
  assumes "joined sel i"
  shows "cval sel (OmpCReset running sc) i = (if running then 0 else cval sel sc i)"
  using assms
  by (cases i) (auto simp: joined_def cval_def OmpCReset_def cp_Reset_def clock_simps)

lemma sync_state_OmpCReset [sync_simps]:
  "sync_state (OmpCReset running sc) = (if running then STATE_INIT else sync_state sc)"
  by (simp add: OmpCReset_def)

lemma cval_syncClock_init [sync_simps]:
  "is_sel sel \<Longrightarrow> cval sel syncClock_init i = 0"
  by (simp add: cval_def syncClock_init_def clock_simps)

end
