(* ===== verification/Cpt_Critical_Path.thy ===== *)
theory Cpt_Critical_Path
  imports Cpt_Clock
begin

text \<open>
  The purpose of the \<^const>\<open>critical\<close> (and, within a process, the \<^const>\<open>proc\<close>) component of
  the useful-computation clock: after any sequence of work phases, releases, acquires and
  resets of synchronisation objects, it holds the length of the longest path of useful
  work that leads to the current point of the thread.
\<close>

section \<open>Executions\<close>

datatype hb_event =
    Work nat time time        \<comment> \<open>thread, begin and end of a phase of useful computation\<close>
  | Release nat nat           \<comment> \<open>thread and synchronisation object: \<^verbatim>\<open>OmpHappensBefore\<close>\<close>
  | Acquire nat nat           \<comment> \<open>thread and synchronisation object: \<^verbatim>\<open>OmpHappensAfter\<close>\<close>
  | Renew nat                 \<comment> \<open>synchronisation object: \<^verbatim>\<open>OmpClockReset\<close>\<close>

record hb_sys =
  thr :: "nat \<Rightarrow> threadClock"
  syn :: "nat \<Rightarrow> syncClock"

text \<open>All threads are inside the OpenMP runtime, as they are when the tool sees an arc.\<close>

definition hb_init :: "time \<Rightarrow> hb_sys" where
  "hb_init t0 =
     \<lparr>thr = (\<lambda>n. enterState True t0 0 STATE_OMP (threadClock_new (of_nat n) 0 True)),
      syn = (\<lambda>_. syncClock_init)\<rparr>"

fun hb_step :: "hb_event \<Rightarrow> hb_sys \<Rightarrow> hb_sys" where
  "hb_step (Work t a b) s =
     s\<lparr>thr := (thr s)(t := exitState True b 0 True (enterState True a 0 STATE_USEFUL (thr s t)))\<rparr>"
| "hb_step (Release t x) s = s\<lparr>syn := (syn s)(x := OmpHBefore True (syn s x) (thr s t))\<rparr>"
| "hb_step (Acquire t x) s =
     (let (sc, tc) = OmpHAfter True (syn s x) (thr s t)
      in s\<lparr>thr := (thr s)(t := tc), syn := (syn s)(x := sc)\<rparr>)"
| "hb_step (Renew x) s = s\<lparr>syn := (syn s)(x := OmpCReset True (syn s x))\<rparr>"

text \<open>An execution lists its latest event first.\<close>

fun hb_run :: "time \<Rightarrow> hb_event list \<Rightarrow> hb_sys" where
  "hb_run t0 [] = hb_init t0"
| "hb_run t0 (ev # es) = hb_step ev (hb_run t0 es)"

section \<open>Paths of useful work\<close>

datatype hb_node = Thr nat | Syn nat

fun extends :: "hb_event \<Rightarrow> hb_node \<Rightarrow> bool" where
  "extends (Work t _ _) n = (n = Thr t)"
| "extends (Renew x) n = (n = Syn x)"
| "extends (Release _ _) n = False"
| "extends (Acquire _ _) n = False"

text \<open>
  \<open>hb_path es n w\<close>: some chain of work phases, each after the one before it in program
  order or through a release and a later acquire of the same object, ends at \<open>n\<close> and has
  total length \<open>w\<close>.
\<close>

inductive hb_path :: "hb_event list \<Rightarrow> hb_node \<Rightarrow> time \<Rightarrow> bool" where
  path_begin: "hb_path [] (Thr t) 0"
| path_work: "hb_path es (Thr t) w \<Longrightarrow> hb_path (Work t a b # es) (Thr t) (w + (b - a))"
| path_keep: "hb_path es n w \<Longrightarrow> \<not> extends ev n \<Longrightarrow> hb_path (ev # es) n w"
| path_release: "hb_path es (Thr t) w \<Longrightarrow> hb_path (Release t x # es) (Syn x) w"
| path_acquire: "hb_path es (Syn x) w \<Longrightarrow> hb_path (Acquire t x # es) (Thr t) w"

inductive_cases path_NilE: "hb_path [] n w"
inductive_cases path_WorkE: "hb_path (Work t a b # es) n w"
inductive_cases path_ReleaseE: "hb_path (Release t x # es) n w"
inductive_cases path_AcquireE: "hb_path (Acquire t x # es) n w"
inductive_cases path_RenewE: "hb_path (Renew x # es) n w"

lemma hb_path_Nil [simp]: "hb_path [] n w \<longleftrightarrow> (\<exists>t. n = Thr t \<and> w = 0)"
  by (auto elim: path_NilE intro: hb_path.intros)

lemma hb_path_Work [simp]:
  "hb_path (Work t a b # es) n w \<longleftrightarrow>
     (if n = Thr t then hb_path es n (w - (b - a)) else hb_path es n w)"
proof -
  have "hb_path es (Thr t) (w - (b - a)) \<Longrightarrow> hb_path (Work t a b # es) (Thr t) w"
    using path_work [of es t "w - (b - a)" a b] by simp
  then show ?thesis
    by (auto elim!: path_WorkE intro: path_keep)
qed

lemma hb_path_Release [simp]:
  "hb_path (Release t x # es) n w \<longleftrightarrow> hb_path es n w \<or> n = Syn x \<and> hb_path es (Thr t) w"
  by (auto elim!: path_ReleaseE intro: path_keep path_release)

lemma hb_path_Acquire [simp]:
  "hb_path (Acquire t x # es) n w \<longleftrightarrow> hb_path es n w \<or> n = Thr t \<and> hb_path es (Syn x) w"
  by (auto elim!: path_AcquireE intro: path_keep path_acquire)

lemma hb_path_Renew [simp]:
  "hb_path (Renew x # es) n w \<longleftrightarrow> n \<noteq> Syn x \<and> hb_path es n w"
  by (auto elim!: path_RenewE intro: path_keep)

section \<open>The clock holds the longest path\<close>

definition longest :: "hb_event list \<Rightarrow> hb_node \<Rightarrow> time \<Rightarrow> bool" where
  "longest es n v \<longleftrightarrow> hb_path es n v \<and> (\<forall>w. hb_path es n w \<longrightarrow> w \<le> v)"

definition forward :: "hb_event list \<Rightarrow> bool" where
  "forward es \<longleftrightarrow> (\<forall>t a b. Work t a b \<in> set es \<longrightarrow> a \<le> b)"

text \<open>
  The invariant.  An object without a path to it stands at 0; one that has not been used
  since its reset has no path.
\<close>

definition hb_inv :: "(cpClocks \<Rightarrow> BaseMetric) \<Rightarrow> hb_event list \<Rightarrow> hb_sys \<Rightarrow> bool" where
  "hb_inv sel es s \<longleftrightarrow>
     (\<forall>t. clock_state_stack (thr s t) = [STATE_INIT, STATE_OMP] \<and>
          0 \<le> cval sel (thr s t) CLOCK_USEFUL \<and>
          longest es (Thr t) (cval sel (thr s t) CLOCK_USEFUL)) \<and>
     (\<forall>x. if \<exists>w. hb_path es (Syn x) w
          then sync_state (syn s x) \<noteq> STATE_INIT \<and> 0 \<le> cval sel (syn s x) CLOCK_USEFUL \<and>
               longest es (Syn x) (cval sel (syn s x) CLOCK_USEFUL)
          else cval sel (syn s x) CLOCK_USEFUL = 0)"

lemma hb_inv_thread:
  assumes "hb_inv sel es s"
  shows "GetState (thr s t) = STATE_OMP"
    and "clock_state_stack (thr s t) = [STATE_INIT, STATE_OMP]"
    and "0 \<le> cval sel (thr s t) CLOCK_USEFUL"
    and "longest es (Thr t) (cval sel (thr s t) CLOCK_USEFUL)"
  using assms by (auto simp: hb_inv_def GetState_def)

lemma hb_inv_sync:
  assumes "hb_inv sel es s"
  shows "hb_path es (Syn x) w \<Longrightarrow> sync_state (syn s x) \<noteq> STATE_INIT"
    and "hb_path es (Syn x) w \<Longrightarrow> longest es (Syn x) (cval sel (syn s x) CLOCK_USEFUL)"
    and "\<forall>w. \<not> hb_path es (Syn x) w \<Longrightarrow> cval sel (syn s x) CLOCK_USEFUL = 0"
    and "0 \<le> cval sel (syn s x) CLOCK_USEFUL"
  using assms by (auto simp: hb_inv_def) (metis order_refl)+

lemma cval_work:
  assumes "is_sel sel" and "GetState tc = STATE_OMP"
  shows "cval sel (exitState True b 0 True (enterState True a 0 STATE_USEFUL tc)) CLOCK_USEFUL
           = cval sel tc CLOCK_USEFUL + (b - a)"
    and "clock_state_stack (exitState True b 0 True (enterState True a 0 STATE_USEFUL tc))
           = clock_state_stack tc"
  using assms
  by (auto simp: exitState_def enterState_def Let_def clock_simps GetState_def)

lemma hb_inv_init: "is_sel sel \<Longrightarrow> hb_inv sel [] (hb_init t0)"
  by (auto simp: hb_inv_def hb_init_def longest_def enterState_def Let_def clock_simps
      sync_simps threadClock_new_def GetState_def cval_threadClock_new [unfolded threadClock_new_def])

lemma longest_max:
  assumes "longest es n v" and "longest es m v'"
  shows "hb_path es n (max v v') \<or> hb_path es m (max v v')"
    and "hb_path es n w \<or> hb_path es m w \<Longrightarrow> w \<le> max v v'"
  using assms by (auto simp: longest_def max_def not_le intro: order_trans less_imp_le)

lemma hb_inv_work:
  assumes inv: "hb_inv sel es s" and sel: "is_sel sel" and ab: "a \<le> b"
  shows "hb_inv sel (Work t a b # es) (hb_step (Work t a b) s)"
proof -
  have "longest (Work t a b # es) (Thr t) (cval sel (thr s t) CLOCK_USEFUL + (b - a))"
    using hb_inv_thread(4) [OF inv, of t] by (auto simp: longest_def algebra_simps)
  moreover have "longest (Work t a b # es) n v = longest es n v" if "n \<noteq> Thr t" for n v
    using that by (auto simp: longest_def)
  ultimately show ?thesis
    using inv ab hb_inv_thread [OF inv, of t]
    by (auto simp: hb_inv_def cval_work [OF sel])
qed

lemma hb_inv_release:
  assumes inv: "hb_inv sel es s" and sel: "joined sel CLOCK_USEFUL"
  shows "hb_inv sel (Release t x # es) (hb_step (Release t x) s)"
proof -
  let ?tc = "thr s t" and ?sc = "syn s x"
  let ?v = "cval sel (OmpHBefore True ?sc ?tc) CLOCK_USEFUL"
  note tc = hb_inv_thread [OF inv, of t]
  have other: "longest (Release t x # es) n v = longest es n v" if "n \<noteq> Syn x" for n v
    using that by (auto simp: longest_def)
  have "longest (Release t x # es) (Syn x) ?v"
  proof (cases "\<exists>w. hb_path es (Syn x) w")
    case True
    then obtain w where w: "hb_path es (Syn x) w" by blast
    show ?thesis
      using longest_max [OF hb_inv_sync(2) [OF inv w] tc(4)] hb_inv_sync(1) [OF inv w]
      by (auto simp: longest_def sync_simps sel)
  next
    case False
    then have "?v = cval sel ?tc CLOCK_USEFUL"
      using hb_inv_sync(3) [OF inv, of x] tc(3) by (auto simp: sync_simps sel)
    then show ?thesis
      using False tc(4) by (auto simp: longest_def)
  qed
  moreover have "0 \<le> ?v"
    using tc(3) by (auto simp: sync_simps sel)
  moreover have "\<exists>w. hb_path es (Syn x) w \<or> hb_path es (Thr t) w"
    using tc(4) by (auto simp: longest_def)
  ultimately show ?thesis
    using inv tc by (auto simp: hb_inv_def other sync_simps)
qed

lemma hb_inv_acquire:
  assumes inv: "hb_inv sel es s" and sel: "joined sel CLOCK_USEFUL"
  shows "hb_inv sel (Acquire t x # es) (hb_step (Acquire t x) s)"
proof -
  let ?tc = "thr s t" and ?sc = "syn s x"
  let ?v = "cval sel (snd (OmpHAfter True ?sc ?tc)) CLOCK_USEFUL"
  note tc = hb_inv_thread [OF inv, of t]
  have other: "longest (Acquire t x # es) n v = longest es n v" if "n \<noteq> Thr t" for n v
    using that by (auto simp: longest_def)
  have "longest (Acquire t x # es) (Thr t) ?v"
  proof (cases "\<exists>w. hb_path es (Syn x) w")
    case True
    then obtain w where w: "hb_path es (Syn x) w" by blast
    show ?thesis
      using longest_max [OF tc(4) hb_inv_sync(2) [OF inv w]]
      by (auto simp: longest_def sync_simps sel)
  next
    case False
    then have "?v = cval sel ?tc CLOCK_USEFUL"
      using hb_inv_sync(3) [OF inv, of x] tc(3) by (auto simp: sync_simps sel)
    then show ?thesis
      using False tc(4) by (auto simp: longest_def)
  qed
  moreover have "0 \<le> ?v"
    using tc(3) by (auto simp: sync_simps sel)
  ultimately show ?thesis
    using inv tc by (auto simp: hb_inv_def other sync_simps split_beta)
qed

lemma hb_inv_renew:
  assumes inv: "hb_inv sel es s" and sel: "joined sel CLOCK_USEFUL"
  shows "hb_inv sel (Renew x # es) (hb_step (Renew x) s)"
proof -
  have other: "longest (Renew x # es) n v = longest es n v" if "n \<noteq> Syn x" for n v
    using that by (auto simp: longest_def)
  show ?thesis
    using inv by (auto simp: hb_inv_def other sync_simps sel)
qed

lemma hb_inv_run:
  assumes "joined sel CLOCK_USEFUL" and "forward es"
  shows "hb_inv sel es (hb_run t0 es)"
  using assms(2)
proof (induction es)
  case Nil
  show ?case by (simp add: hb_inv_init joined_is_sel [OF assms(1)])
next
  case (Cons ev es)
  then have inv: "hb_inv sel es (hb_run t0 es)"
    by (simp add: forward_def)
  show ?case
  proof (cases ev)
    case (Work t a b)
    with Cons.prems have "a \<le> b" by (auto simp: forward_def)
    with inv show ?thesis
      by (simp only: Work hb_run.simps hb_inv_work joined_is_sel [OF assms(1)])
  next
    case (Release t x)
    with inv show ?thesis by (simp only: Release hb_run.simps hb_inv_release assms(1))
  next
    case (Acquire t x)
    with inv show ?thesis by (simp only: Acquire hb_run.simps hb_inv_acquire assms(1))
  next
    case (Renew x)
    with inv show ?thesis by (simp only: Renew hb_run.simps hb_inv_renew assms(1))
  qed
qed

text \<open>
  C1: After every execution whose work phases run forward in time, the critical
  (cross-process) and the process-local useful-computation clock of a thread are the
  lengths of a path of useful work that ends at that thread, and no such path is longer.
\<close>

theorem critical_is_longest_path:
  assumes "forward es"
  shows "longest es (Thr t) (cval critical (thr (hb_run t0 es) t) CLOCK_USEFUL) \<and>
         longest es (Thr t) (cval proc (thr (hb_run t0 es) t) CLOCK_USEFUL)"
  using hb_inv_thread(4) [OF hb_inv_run [OF _ assms]] by simp

theorem critical_is_longest_path_witness:
  "let es = [Acquire 1 0, Work 1 2 5, Release 0 0, Work 0 1 8]
   in forward es \<and>
      longest es (Thr 1) (cval critical (thr (hb_run 0 es) 1) CLOCK_USEFUL) \<and>
      cval critical (thr (hb_run 0 es) 1) CLOCK_USEFUL = 7"
proof -
  let ?es = "[Acquire 1 0, Work 1 2 5, Release 0 0, Work 0 1 8]"
  have fwd: "forward ?es" by (auto simp: forward_def)
  have long: "longest ?es (Thr 1) (cval critical (thr (hb_run 0 ?es) 1) CLOCK_USEFUL)"
    by (rule critical_is_longest_path [OF fwd, THEN conjunct1])
  have seven: "longest ?es (Thr 1) 7"
    by (auto simp: longest_def)
  have "cval critical (thr (hb_run 0 ?es) 1) CLOCK_USEFUL = 7"
    using long seven by (auto simp: longest_def intro: antisym)
  with fwd long show ?thesis by (simp add: Let_def)
qed

end
