(* ===== verification/Cpt_Atomic.thy ===== *)
theory Cpt_Atomic
  imports Cpt_Clock
begin

text \<open>
  The two compare-and-swap loops of the tool, \<^verbatim>\<open>update_maximum\<close> and \<^verbatim>\<open>atomic_add<double>\<close>,
  run by any number of threads on one \<^verbatim>\<open>std::atomic\<close>.  A step is one atomic access; a
  \<^verbatim>\<open>compare_exchange_weak\<close> may also fail although the value matches.  Every interleaving
  has the effect of performing the updates one after the other, which is what the
  sequential operations \<^const>\<open>tm_maxUpdate\<close> and \<^const>\<open>tm_add\<close> of \<^theory_text>\<open>Cpt_Clock\<close> assume.
\<close>

section \<open>Compare-and-swap loops\<close>

text \<open>
  The program counter of one call: before its first load, in the loop with the last value
  it saw, or returned.  The argument of the call is kept throughout.
\<close>

datatype ('c, 'v) cas_pc = Start 'v | Loop 'c 'v | Done 'v

fun arg_of :: "('c, 'v) cas_pc \<Rightarrow> 'v" where
  "arg_of (Start v) = v"
| "arg_of (Loop p v) = v"
| "arg_of (Done v) = v"

lemma map_arg_update:
  "t < length pcs \<Longrightarrow> arg_of (pcs ! t) = arg_of pc \<Longrightarrow> map arg_of (pcs[t := pc]) = map arg_of pcs"
  by (metis list_update_id map_update)

type_synonym ('c, 'v) cas_state = "'c \<times> ('c, 'v) cas_pc list"

text \<open>
  \<open>upd p v\<close> is the value a successful exchange stores when \<open>p\<close> is the value seen,
  \<open>stop p v\<close> the condition under which the loop is left without an exchange.
\<close>

inductive cas_step ::
  "('c \<Rightarrow> 'v \<Rightarrow> 'c) \<Rightarrow> ('c \<Rightarrow> 'v \<Rightarrow> bool) \<Rightarrow> ('c, 'v) cas_state \<Rightarrow> ('c, 'v) cas_state \<Rightarrow> bool"
  for upd stop
where
  cas_load: "t < length pcs \<Longrightarrow> pcs ! t = Start v \<Longrightarrow>
     cas_step upd stop (cur, pcs) (cur, pcs[t := Loop cur v])"
| cas_leave: "t < length pcs \<Longrightarrow> pcs ! t = Loop p v \<Longrightarrow> stop p v \<Longrightarrow>
     cas_step upd stop (cur, pcs) (cur, pcs[t := Done v])"
| cas_succeed: "t < length pcs \<Longrightarrow> pcs ! t = Loop cur v \<Longrightarrow> \<not> stop cur v \<Longrightarrow>
     cas_step upd stop (cur, pcs) (upd cur v, pcs[t := Done v])"
| cas_fail: "t < length pcs \<Longrightarrow> pcs ! t = Loop p v \<Longrightarrow> \<not> stop p v \<Longrightarrow>
     cas_step upd stop (cur, pcs) (cur, pcs[t := Loop cur v])"

inductive cas_reach ::
  "('c \<Rightarrow> 'v \<Rightarrow> 'c) \<Rightarrow> ('c \<Rightarrow> 'v \<Rightarrow> bool) \<Rightarrow> 'c \<Rightarrow> 'v list \<Rightarrow> ('c, 'v) cas_state \<Rightarrow> bool"
  for upd stop c0 vs
where
  reach_start: "cas_reach upd stop c0 vs (c0, map Start vs)"
| reach_step: "cas_reach upd stop c0 vs s \<Longrightarrow> cas_step upd stop s s' \<Longrightarrow> cas_reach upd stop c0 vs s'"

text \<open>\<^verbatim>\<open>update_maximum\<close>: leave unless the value seen is smaller, then store the argument.\<close>

definition um_upd :: "time \<Rightarrow> time \<Rightarrow> time" where
  "um_upd prev_value value = value"

definition um_stop :: "time \<Rightarrow> time \<Rightarrow> bool" where
  "um_stop prev_value value \<longleftrightarrow> \<not> prev_value < value"

text \<open>\<^verbatim>\<open>atomic_add\<close>: store the sum with the value seen, retry until the exchange succeeds.\<close>

definition aa_upd :: "time \<Rightarrow> time \<Rightarrow> time" where
  "aa_upd old value_to_add = old + value_to_add"

definition aa_stop :: "time \<Rightarrow> time \<Rightarrow> bool" where
  "aa_stop old value_to_add \<longleftrightarrow> False"

section \<open>Every interleaving is a sequence of updates\<close>

text \<open>
  What a call that is alone does: it leaves the value, or exchanges it once.  A loop is linearisable when
  a reason to leave without an exchange stays one whatever the exchanges of the other threads do.
\<close>

definition cas_effect :: "('c \<Rightarrow> 'v \<Rightarrow> 'c) \<Rightarrow> ('c \<Rightarrow> 'v \<Rightarrow> bool) \<Rightarrow> 'c \<Rightarrow> 'v \<Rightarrow> 'c" where
  "cas_effect upd stop c v = (if stop c v then c else upd c v)"

locale cas_loop =
  fixes upd :: "'c \<Rightarrow> 'v \<Rightarrow> 'c" and stop :: "'c \<Rightarrow> 'v \<Rightarrow> bool"
  assumes stop_stable: "stop c v \<Longrightarrow> \<not> stop c w \<Longrightarrow> stop (upd c w) v"
begin

abbreviation eff :: "'c \<Rightarrow> 'v \<Rightarrow> 'c" where
  "eff \<equiv> cas_effect upd stop"

definition seen_before :: "'c \<Rightarrow> 'c \<Rightarrow> bool" where
  "seen_before p c \<longleftrightarrow> (\<exists>ws. c = fold (\<lambda>w c. eff c w) ws p)"

lemma seen_before_refl: "seen_before c c"
  unfolding seen_before_def by (rule exI [of _ "[]"]) simp

lemma seen_before_upd: "seen_before p c \<Longrightarrow> seen_before p (eff c v)"
  unfolding seen_before_def
proof (elim exE)
  fix ws assume "c = fold (\<lambda>w c. eff c w) ws p"
  then have "eff c v = fold (\<lambda>w c. eff c w) (ws @ [v]) p" by simp
  then show "\<exists>ws. eff c v = fold (\<lambda>w c. eff c w) ws p" by blast
qed

lemma stop_seen_before: "seen_before p c \<Longrightarrow> stop p v \<Longrightarrow> stop c v"
proof -
  have "stop p v \<Longrightarrow> stop (fold (\<lambda>w c. eff c w) ws p) v" for ws
    by (induction ws arbitrary: p) (simp_all add: cas_effect_def stop_stable)
  then show "seen_before p c \<Longrightarrow> stop p v \<Longrightarrow> stop c v"
    by (auto simp: seen_before_def)
qed

text \<open>The calls that have returned took effect in the order \<open>ds\<close>.\<close>

definition linearised :: "'c \<Rightarrow> 'v list \<Rightarrow> ('c, 'v) cas_state \<Rightarrow> nat list \<Rightarrow> bool" where
  "linearised c0 vs s ds \<longleftrightarrow>
     map arg_of (snd s) = vs \<and> distinct ds \<and>
     set ds = {t. t < length (snd s) \<and> snd s ! t = Done (vs ! t)} \<and>
     fst s = fold (\<lambda>t c. eff c (vs ! t)) ds c0 \<and>
     (\<forall>t p v. t < length (snd s) \<and> snd s ! t = Loop p v \<longrightarrow> seen_before p (fst s))"

lemma linearisedI:
  assumes "map arg_of pcs = vs" and "distinct ds"
    and "\<And>t. t \<in> set ds \<longleftrightarrow> t < length pcs \<and> pcs ! t = Done (vs ! t)"
    and "cur = fold (\<lambda>t c. eff c (vs ! t)) ds c0"
    and "\<And>t p v. t < length pcs \<Longrightarrow> pcs ! t = Loop p v \<Longrightarrow> seen_before p cur"
  shows "linearised c0 vs (cur, pcs) ds"
  using assms by (auto simp: linearised_def)

lemma linearisedD:
  assumes "linearised c0 vs (cur, pcs) ds"
  shows "map arg_of pcs = vs" and "distinct ds"
    and "t \<in> set ds \<longleftrightarrow> t < length pcs \<and> pcs ! t = Done (vs ! t)"
    and "cur = fold (\<lambda>t c. eff c (vs ! t)) ds c0"
    and "t < length pcs \<Longrightarrow> pcs ! t = Loop p v \<Longrightarrow> seen_before p cur"
    and "t < length pcs \<Longrightarrow> arg_of (pcs ! t) = vs ! t"
  using assms by (auto simp: linearised_def)

lemma linearised_start: "linearised c0 vs (c0, map Start vs) []"
  by (rule linearisedI) (auto simp: o_def)

lemma linearised_quiet:
  assumes lin: "linearised c0 vs (cur, pcs) ds" and t: "t < length pcs"
    and pc: "pcs ! t = Start v \<or> pcs ! t = Loop p v"
  shows "linearised c0 vs (cur, pcs[t := Loop cur v]) ds"
proof (rule linearisedI)
  show "map arg_of (pcs[t := Loop cur v]) = vs"
    using linearisedD(1) [OF lin] t pc by (auto simp: map_arg_update)
  show "u \<in> set ds \<longleftrightarrow> u < length (pcs[t := Loop cur v]) \<and> pcs[t := Loop cur v] ! u = Done (vs ! u)" for u
    using linearisedD(3) [OF lin, of u] t pc by (auto simp: nth_list_update)
  show "seen_before q cur"
    if "u < length (pcs[t := Loop cur v])" "pcs[t := Loop cur v] ! u = Loop q w" for u q w
    using that linearisedD(5) [OF lin, of u q w] t
    by (cases "u = t") (auto simp: seen_before_refl)
qed (use linearisedD [OF lin] in auto)

lemma linearised_return:
  assumes lin: "linearised c0 vs (cur, pcs) ds" and t: "t < length pcs"
    and pc: "pcs ! t = Loop p v" and cur': "cur' = eff cur v"
  shows "linearised c0 vs (cur', pcs[t := Done v]) (ds @ [t])"
proof (rule linearisedI)
  have v: "v = vs ! t" using linearisedD(6) [OF lin t] pc by simp
  show "map arg_of (pcs[t := Done v]) = vs"
    using linearisedD(1) [OF lin] t pc by (auto simp: map_arg_update)
  show "distinct (ds @ [t])"
    using linearisedD(2,3) [OF lin] pc by simp
  show "u \<in> set (ds @ [t]) \<longleftrightarrow> u < length (pcs[t := Done v]) \<and> pcs[t := Done v] ! u = Done (vs ! u)" for u
    using linearisedD(3) [OF lin, of u] t v by (cases "u = t") auto
  show "cur' = fold (\<lambda>t c. eff c (vs ! t)) (ds @ [t]) c0"
    using linearisedD(4) [OF lin] by (simp add: cur' v)
  show "seen_before q cur'"
    if "u < length (pcs[t := Done v])" "pcs[t := Done v] ! u = Loop q w" for u q w
    using that linearisedD(5) [OF lin, of u q w] t cur'
    by (cases "u = t") (auto simp: seen_before_upd)
qed

lemma linearised_step:
  assumes "cas_step upd stop s s'" and "linearised c0 vs s ds"
  shows "\<exists>ds'. linearised c0 vs s' ds'"
  using assms
proof cases
  case (cas_load t pcs v cur)
  then show ?thesis using assms(2) linearised_quiet by blast
next
  case (cas_leave t pcs p v cur)
  then have "seen_before p cur" using assms(2) by (auto simp: linearised_def)
  then have "eff cur v = cur" using cas_leave stop_seen_before by (auto simp: cas_effect_def)
  then show ?thesis using cas_leave assms(2) linearised_return [of c0 vs cur pcs ds t p v cur] by auto
next
  case (cas_succeed t pcs cur v)
  then have "upd cur v = eff cur v" by (simp add: cas_effect_def)
  then show ?thesis using cas_succeed assms(2) linearised_return by metis
next
  case (cas_fail t pcs p v cur)
  then show ?thesis using assms(2) linearised_quiet by blast
qed

lemma reach_linearised: "cas_reach upd stop c0 vs s \<Longrightarrow> \<exists>ds. linearised c0 vs s ds"
proof (induction rule: cas_reach.induct)
  case reach_start
  show ?case using linearised_start by blast
next
  case (reach_step s s')
  then show ?case using linearised_step by blast
qed

lemma all_done_order:
  assumes "cas_reach upd stop c0 vs (cur, map Done vs)"
  shows "\<exists>ds. distinct ds \<and> set ds = {..<length vs} \<and> cur = fold (\<lambda>t c. eff c (vs ! t)) ds c0"
proof -
  obtain ds where ds: "linearised c0 vs (cur, map Done vs) ds"
    using reach_linearised [OF assms] by blast
  have "{t. t < length vs \<and> map Done vs ! t = (Done (vs ! t) :: ('c, 'v) cas_pc)} = {..<length vs}"
    by auto
  with ds show ?thesis by (auto simp: linearised_def)
qed

end

interpretation um: cas_loop um_upd um_stop
  by unfold_locales (simp add: um_upd_def um_stop_def)

interpretation aa: cas_loop aa_upd aa_stop
  by unfold_locales (simp add: aa_stop_def)

section \<open>The two loops\<close>

lemma fold_um_upd:
  "fold (\<lambda>t c. cas_effect um_upd um_stop c (f t)) ds c = Max (insert c (f ` set ds))"
proof (induction ds arbitrary: c)
  case (Cons t ds)
  have "cas_effect um_upd um_stop c (f t) = max c (f t)" by (simp add: cas_effect_def um_upd_def um_stop_def max_def)
  then show ?case
    by (simp add: Cons.IH insert_commute)
       (cases "ds = []"; simp add: max.assoc max.commute max.left_commute)
qed simp

lemma fold_aa_upd:
  "fold (\<lambda>t c. cas_effect aa_upd aa_stop c (f t)) ds c = c + sum_list (map f ds)"
  by (induction ds arbitrary: c) (simp_all add: cas_effect_def aa_upd_def aa_stop_def)

lemma image_nth_lessThan: "(\<lambda>t. vs ! t) ` {..<length vs} = set vs"
  by (auto simp: set_conv_nth)

lemma um_all_done:
  assumes "cas_reach um_upd um_stop c0 vs (cur, map Done vs)"
  shows "cur = Max (insert c0 (set vs))"
proof -
  obtain ds where "set ds = {..<length vs}" and "cur = fold (\<lambda>t c. cas_effect um_upd um_stop c (vs ! t)) ds c0"
    using um.all_done_order [OF assms] by blast
  then show ?thesis by (simp only: fold_um_upd image_nth_lessThan)
qed

lemma aa_all_done:
  assumes "cas_reach aa_upd aa_stop c0 vs (cur, map Done vs)"
  shows "cur = c0 + sum_list vs"
proof -
  obtain ds where ds: "distinct ds" "set ds = {..<length vs}"
      and cur: "cur = fold (\<lambda>t c. cas_effect aa_upd aa_stop c (vs ! t)) ds c0"
    using aa.all_done_order [OF assms] by blast
  have "sum_list (map (\<lambda>t. vs ! t) ds) = (\<Sum>t<length vs. vs ! t)"
    using ds by (simp add: sum_list_distinct_conv_sum_set)
  also have "\<dots> = sum_list vs"
    by (simp add: sum_list_sum_nth atLeast0LessThan)
  finally show ?thesis
    by (simp add: cur fold_aa_upd)
qed

text \<open>
  C19: However the steps of any number of concurrent \<^verbatim>\<open>update_maximum\<close> calls interleave, and
  however often an exchange fails, the value at the end is the maximum of the initial
  value and all arguments; it is also what the calls one after the other, in any order,
  compute with \<^verbatim>\<open>TimeMetric::maxUpdate\<close>.
\<close>

theorem update_maximum_linearisable:
  assumes "cas_reach um_upd um_stop c0 vs (cur, map Done vs)"
  shows "cur = Max (insert c0 (set vs)) \<and>
         cur = tm_getTime (fold (\<lambda>b a. tm_maxUpdate a b) (map TimeMetric_of vs) (TimeMetric_of c0))"
proof -
  have "cur = Max (insert c0 (set vs))" by (rule um_all_done [OF assms])
  moreover have "tm_getTime ` set (map TimeMetric_of vs) = set vs"
    by (auto simp: tm_getTime_def TimeMetric_of_def image_image)
  ultimately show ?thesis
    unfolding tm.getTime_fold_maxUpdate by (simp add: tm_getTime_def TimeMetric_of_def)
qed

text \<open>
  However the steps of any number of concurrent \<^verbatim>\<open>atomic_add\<close> calls interleave, the value
  at the end is the initial value plus the sum of all arguments: no addition is lost.
\<close>

theorem atomic_add_linearisable:
  assumes "cas_reach aa_upd aa_stop c0 vs (cur, map Done vs)"
  shows "cur = c0 + sum_list vs"
  by (rule aa_all_done [OF assms])

text \<open>
  A run of two calls with arguments 3 and 5 on the value 1: the second call wins the
  exchange, the first one fails and then leaves its loop.
\<close>

lemma um_example_run: "cas_reach um_upd um_stop 1 [3, 5] (5, map Done [3, 5])"
proof -
  have "cas_reach um_upd um_stop 1 [3, 5] (1, [Start 3, Start 5])"
    using reach_start [of um_upd um_stop 1 "[3, 5]"] by simp
  then have "cas_reach um_upd um_stop 1 [3, 5] (1, [Loop 1 3, Start 5])"
    by (rule reach_step) (use cas_load [of 0 "[Start 3, Start 5]" 3 um_upd um_stop 1] in simp)
  then have "cas_reach um_upd um_stop 1 [3, 5] (1, [Loop 1 3, Loop 1 5])"
    by (rule reach_step) (use cas_load [of 1 "[Loop 1 3, Start 5]" 5 um_upd um_stop 1] in simp)
  then have "cas_reach um_upd um_stop 1 [3, 5] (5, [Loop 1 3, Done 5])"
    by (rule reach_step)
       (use cas_succeed [of 1 "[Loop 1 3, Loop 1 5]" 1 5 um_stop um_upd] in
         \<open>simp add: um_upd_def um_stop_def\<close>)
  then have "cas_reach um_upd um_stop 1 [3, 5] (5, [Loop 5 3, Done 5])"
    by (rule reach_step)
       (use cas_fail [of 0 "[Loop 1 3, Done 5]" 1 3 um_stop um_upd 5] in \<open>simp add: um_stop_def\<close>)
  then have "cas_reach um_upd um_stop 1 [3, 5] (5, [Done 3, Done 5])"
    by (rule reach_step)
       (use cas_leave [of 0 "[Loop 5 3, Done 5]" 5 3 um_stop um_upd 5] in \<open>simp add: um_stop_def\<close>)
  then show ?thesis by simp
qed

theorem update_maximum_linearisable_witness:
  "cas_reach um_upd um_stop 1 [3, 5] (5, map Done [3, 5]) \<and> (5::time) = Max (insert 1 (set [3, 5]))"
  using um_example_run update_maximum_linearisable [OF um_example_run] by simp

lemma aa_example_run: "cas_reach aa_upd aa_stop 1 [3, 5] (9, map Done [3, 5])"
proof -
  have "cas_reach aa_upd aa_stop 1 [3, 5] (1, [Start 3, Start 5])"
    using reach_start [of aa_upd aa_stop 1 "[3, 5]"] by simp
  then have "cas_reach aa_upd aa_stop 1 [3, 5] (1, [Loop 1 3, Start 5])"
    by (rule reach_step) (use cas_load [of 0 "[Start 3, Start 5]" 3 aa_upd aa_stop 1] in simp)
  then have "cas_reach aa_upd aa_stop 1 [3, 5] (1, [Loop 1 3, Loop 1 5])"
    by (rule reach_step) (use cas_load [of 1 "[Loop 1 3, Start 5]" 5 aa_upd aa_stop 1] in simp)
  then have "cas_reach aa_upd aa_stop 1 [3, 5] (6, [Loop 1 3, Done 5])"
    by (rule reach_step)
       (use cas_succeed [of 1 "[Loop 1 3, Loop 1 5]" 1 5 aa_stop aa_upd] in
         \<open>simp add: aa_upd_def aa_stop_def\<close>)
  then have "cas_reach aa_upd aa_stop 1 [3, 5] (6, [Loop 6 3, Done 5])"
    by (rule reach_step)
       (use cas_fail [of 0 "[Loop 1 3, Done 5]" 1 3 aa_stop aa_upd 6] in \<open>simp add: aa_stop_def\<close>)
  then have "cas_reach aa_upd aa_stop 1 [3, 5] (9, [Done 3, Done 5])"
    by (rule reach_step)
       (use cas_succeed [of 0 "[Loop 6 3, Done 5]" 6 3 aa_stop aa_upd] in
         \<open>simp add: aa_upd_def aa_stop_def\<close>)
  then show ?thesis by simp
qed

theorem atomic_add_linearisable_witness:
  "cas_reach aa_upd aa_stop 1 [3, 5] (9, map Done [3, 5]) \<and> (9::time) = 1 + sum_list [3, 5]"
  by (rule conjI [OF aa_example_run atomic_add_linearisable [OF aa_example_run]])

section \<open>The calls return\<close>

text \<open>
  The only step that leaves everything as it is is an exchange that fails although the value matches.
  The others make progress: the potential below drops.  A thread that has not loaded or whose value is
  out of date costs one more than one that is up to date; a successful exchange may put all others out of
  date, which is less than what the call that returns is worth.
\<close>

definition cas_progress ::
  "('c \<Rightarrow> 'v \<Rightarrow> 'c) \<Rightarrow> ('c \<Rightarrow> 'v \<Rightarrow> bool) \<Rightarrow> ('c, 'v) cas_state \<Rightarrow> ('c, 'v) cas_state \<Rightarrow> bool"
where
  "cas_progress upd stop s s' \<longleftrightarrow> cas_step upd stop s s' \<and> s' \<noteq> s"

fun pc_weight :: "nat \<Rightarrow> 'c \<Rightarrow> ('c, 'v) cas_pc \<Rightarrow> nat" where
  "pc_weight n cur (Start v) = n + 2"
| "pc_weight n cur (Loop p v) = (if p = cur then n + 1 else n + 2)"
| "pc_weight n cur (Done v) = 0"

definition potential :: "('c, 'v) cas_state \<Rightarrow> nat" where
  "potential s = sum_list (map (pc_weight (length (snd s)) (fst s)) (snd s))"

lemma sum_list_update_nat:
  "t < length xs \<Longrightarrow> sum_list (map f (xs[t := x])) + f (xs ! t) = sum_list (map f xs) + (f x :: nat)"
  by (induction xs arbitrary: t) (auto split: nat.split)

lemma pc_weight_other: "pc_weight n cur' pc \<le> pc_weight n cur pc + 1"
  by (cases pc) auto

lemma weights_other: "sum_list (map (pc_weight n cur') pcs) \<le> sum_list (map (pc_weight n cur) pcs) + length pcs"
proof (induction pcs)
  case (Cons pc pcs)
  then show ?case using pc_weight_other [of n cur' pc cur] by simp
qed simp

lemma progress_drops:
  assumes "cas_progress upd stop s s'"
  shows "potential s' < potential s"
proof -
  have "cas_step upd stop s s'" using assms by (simp add: cas_progress_def)
  then show ?thesis
  proof cases
    case (cas_load t pcs v cur)
    then show ?thesis
      using sum_list_update_nat [of t pcs "pc_weight (length pcs) cur" "Loop cur v"] by (simp add: potential_def)
  next
    case (cas_leave t pcs p v cur)
    then show ?thesis
      using sum_list_update_nat [of t pcs "pc_weight (length pcs) cur" "Done v"]
      by (simp add: potential_def split: if_splits)
  next
    case (cas_succeed t pcs cur v)
    then show ?thesis
      using sum_list_update_nat [of t pcs "pc_weight (length pcs) cur" "Done v"]
        weights_other [of "length pcs" "upd cur v" "pcs[t := Done v]" cur] by (simp add: potential_def)
  next
    case (cas_fail t pcs p v cur)
    then have "p \<noteq> cur" using assms by (metis cas_progress_def list_update_id)
    then show ?thesis
      using cas_fail sum_list_update_nat [of t pcs "pc_weight (length pcs) cur" "Loop cur v"] by (simp add: potential_def)
  qed
qed

lemma progress_bound: "(cas_progress upd stop ^^ n) s s' \<Longrightarrow> n + potential s' \<le> potential s"
proof (induction n arbitrary: s')
  case (Suc n)
  then obtain u where "(cas_progress upd stop ^^ n) s u" "cas_progress upd stop u s'" by auto
  then show ?case using Suc.IH [of u] progress_drops [of upd stop u s'] by linarith
qed simp

lemma reach_progress: "cas_reach upd stop c0 vs s \<Longrightarrow> (cas_progress upd stop ^^ n) s s' \<Longrightarrow> cas_reach upd stop c0 vs s'"
proof (induction n arbitrary: s')
  case (Suc n)
  then show ?case by (auto simp: cas_progress_def intro: reach_step)
qed simp

lemma potential_start: "potential (c0, map Start vs) = length vs * (length vs + 2)"
  by (induction vs) (simp_all add: potential_def o_def sum_list_triv)

lemma reach_potential: "cas_reach upd stop c0 vs s \<Longrightarrow> potential s \<le> length vs * (length vs + 2)"
proof (induction rule: cas_reach.induct)
  case reach_start
  then show ?case by (simp add: potential_start)
next
  case (reach_step s s')
  then show ?case using progress_drops [of upd stop s s'] by (cases "s' = s") (auto simp: cas_progress_def)
qed

lemma cas_reach_args: "cas_reach upd stop c0 vs s \<Longrightarrow> map arg_of (snd s) = vs"
proof (induction rule: cas_reach.induct)
  case (reach_step s s')
  have "map arg_of (snd s') = map arg_of (snd s)"
    using reach_step(2) by cases (simp_all add: map_arg_update)
  with reach_step.IH show ?case by simp
qed (simp add: o_def)

lemma no_progress_done:
  assumes r: "cas_reach upd stop c0 vs (cur, pcs)" and n: "\<nexists>s'. cas_progress upd stop (cur, pcs) s'"
  shows "pcs = map Done vs"
proof -
  have args: "map arg_of pcs = vs" using cas_reach_args [OF r] by simp
  have "pcs ! t = Done (arg_of (pcs ! t))" if t: "t < length pcs" for t
  proof (rule ccontr)
    assume nd: "pcs ! t \<noteq> Done (arg_of (pcs ! t))"
    have upd: "(c, pcs[t := pc]) \<noteq> (cur, pcs)" if "pc \<noteq> pcs ! t" for c pc using t that by (metis nth_list_update_eq prod.inject)
    show False
    proof (cases "pcs ! t")
      case (Start v)
      then show False using n cas_load [OF t Start, of upd stop cur] upd [of "Loop cur v" cur] by (auto simp: cas_progress_def)
    next
      case (Loop p v)
      show False
      proof (cases "stop p v")
        case True
        then show False using n cas_leave [OF t Loop, of stop upd cur] upd [of "Done v" cur] Loop by (auto simp: cas_progress_def)
      next
        case False
        then show False
          using n cas_succeed [of t pcs cur v stop upd] cas_fail [of t pcs p v stop upd cur] t Loop
            upd [of "Done v" "upd cur v"] upd [of "Loop cur v" cur]
          by (cases "p = cur") (auto simp: cas_progress_def)
      qed
    qed (use nd in simp)
  qed
  then show ?thesis unfolding args [symmetric] by (intro nth_equalityI) simp_all
qed

text \<open>
  C33: Concurrent calls of \<^verbatim>\<open>update_maximum\<close>, and of \<^verbatim>\<open>atomic_add\<close>, return with the right result unless
  exchanges keep failing without a reason: from any reachable state of \<open>n\<close> calls there are at most
  \<open>n (n + 2)\<close> steps apart from exchanges that fail although the value matches, in any interleaving,
  and when no such step is left all calls have returned and the value is the maximum, or the sum, of
  the initial value and all arguments.
\<close>

theorem cas_loops_finish:
  "(cas_reach um_upd um_stop c0 vs s \<and> (cas_progress um_upd um_stop ^^ n) s s' \<longrightarrow>
      n \<le> length vs * (length vs + 2) \<and>
      ((\<nexists>s''. cas_progress um_upd um_stop s' s'') \<longrightarrow> s' = (Max (insert c0 (set vs)), map Done vs))) \<and>
   (cas_reach aa_upd aa_stop c0 vs s \<and> (cas_progress aa_upd aa_stop ^^ n) s s' \<longrightarrow>
      n \<le> length vs * (length vs + 2) \<and>
      ((\<nexists>s''. cas_progress aa_upd aa_stop s' s'') \<longrightarrow> s' = (c0 + sum_list vs, map Done vs)))"
proof -
  have bound: "n \<le> length vs * (length vs + 2)"
    if "cas_reach upd stop c0 vs s" "(cas_progress upd stop ^^ n) s s'" for upd stop :: "time \<Rightarrow> time \<Rightarrow> _"
    using progress_bound [OF that(2)] reach_potential [OF that(1)] by linarith
  have fin: "cas_reach upd stop c0 vs (fst s', map Done vs) \<and> s' = (fst s', map Done vs)"
    if "cas_reach upd stop c0 vs s" "(cas_progress upd stop ^^ n) s s'" "\<nexists>s''. cas_progress upd stop s' s''"
    for upd stop :: "time \<Rightarrow> time \<Rightarrow> _"
    using reach_progress [OF that(1,2)] no_progress_done [of upd stop c0 vs "fst s'" "snd s'"] that(3)
    by (metis prod.collapse)
  show ?thesis
  proof (intro conjI impI; (elim conjE)?)
    assume "cas_reach um_upd um_stop c0 vs s" "(cas_progress um_upd um_stop ^^ n) s s'"
    then show "n \<le> length vs * (length vs + 2)" by (rule bound)
  next
    assume "cas_reach um_upd um_stop c0 vs s" "(cas_progress um_upd um_stop ^^ n) s s'" "\<nexists>s''. cas_progress um_upd um_stop s' s''"
    from fin [OF this] show "s' = (Max (insert c0 (set vs)), map Done vs)" using um_all_done by metis
  next
    assume "cas_reach aa_upd aa_stop c0 vs s" "(cas_progress aa_upd aa_stop ^^ n) s s'"
    then show "n \<le> length vs * (length vs + 2)" by (rule bound)
  next
    assume "cas_reach aa_upd aa_stop c0 vs s" "(cas_progress aa_upd aa_stop ^^ n) s s'" "\<nexists>s''. cas_progress aa_upd aa_stop s' s''"
    from fin [OF this] show "s' = (c0 + sum_list vs, map Done vs)" using aa_all_done by metis
  qed
qed

lemma done_no_progress: "\<nexists>s''. cas_progress upd stop (cur, map Done vs) s''"
  by (auto simp: cas_progress_def elim!: cas_step.cases)

theorem cas_loops_finish_witness:
  "cas_reach um_upd um_stop 1 [3, 5] (5, map Done [3, 5]) \<and> cas_reach aa_upd aa_stop 1 [3, 5] (9, map Done [3, 5]) \<and>
   (5, map Done [3, 5]) = (Max (insert 1 (set [3, 5])) :: time, map Done [3, 5 :: time] :: (time, time) cas_pc list) \<and>
   (9, map Done [3, 5]) = (1 + sum_list [3, 5] :: time, map Done [3, 5 :: time] :: (time, time) cas_pc list)"
proof -
  have r: "(cas_progress upd stop ^^ 0) x x" for upd stop and x :: "(time, time) cas_state" by simp
  note um = cas_loops_finish [of 1 "[3, 5]" "(5, map Done [3, 5])" 0 "(5, map Done [3, 5])",
      THEN conjunct1, THEN mp, OF conjI, OF um_example_run r, THEN conjunct2, THEN mp, OF done_no_progress]
  note aa = cas_loops_finish [of 1 "[3, 5]" "(9, map Done [3, 5])" 0 "(9, map Done [3, 5])",
      THEN conjunct2, THEN mp, OF conjI, OF aa_example_run r, THEN conjunct2, THEN mp, OF done_no_progress]
  show ?thesis by (intro conjI um_example_run aa_example_run um aa)
qed

end
