(* ===== verification/Cpt_Vector.thy ===== *)
theory Cpt_Vector
  imports Cpt_Prelude "HOL-Library.Monad_Syntax"
begin

text \<open>
  \<^verbatim>\<open>containers/Vector.h\<close>: the tool's own growing array, over raw memory with explicit
  object lifetimes.  A buffer is a list of cells; a cell is raw memory, a live object, or
  a live object whose value has been moved out.  Every access that C++ leaves undefined
  (constructing over a live object, assigning to or destroying raw memory, reading a value
  that is not there, freeing a buffer with live objects in it, an index outside the buffer)
  is the value \<^const>\<open>None\<close>.  The main results say that no operation gets there and that
  the vector behaves like a list.

  The model is the template at a type with a destructor; sizes are natural numbers
  (a \<^verbatim>\<open>uptr\<close> product \<^verbatim>\<open>cap * 5\<close> beyond \<open>2 ^ 64\<close> exceeds any address space), and \<^verbatim>\<open>malloc\<close> returns
  memory.  An argument is a value: a reference into the vector itself is not covered.
\<close>

section \<open>Raw memory\<close>

datatype 'a cell = Raw | Obj 'a | Moved

type_synonym 'a buffer = "'a cell list"

definition new_obj :: "nat \<Rightarrow> 'a \<Rightarrow> 'a buffer \<Rightarrow> 'a buffer option" where
  "new_obj i x b = (if i < length b \<and> b ! i = Raw then Some (b[i := Obj x]) else None)"

definition assign_obj :: "nat \<Rightarrow> 'a \<Rightarrow> 'a buffer \<Rightarrow> 'a buffer option" where
  "assign_obj i x b = (if i < length b \<and> b ! i \<noteq> Raw then Some (b[i := Obj x]) else None)"

definition destroy :: "nat \<Rightarrow> 'a buffer \<Rightarrow> 'a buffer option" where
  "destroy i b = (if i < length b \<and> b ! i \<noteq> Raw then Some (b[i := Raw]) else None)"

definition move_out :: "nat \<Rightarrow> 'a buffer \<Rightarrow> ('a \<times> 'a buffer) option" where
  "move_out i b =
     (if i < length b then (case b ! i of Obj x \<Rightarrow> Some (x, b[i := Moved]) | _ \<Rightarrow> None) else None)"

definition read_obj :: "nat \<Rightarrow> 'a buffer \<Rightarrow> 'a option" where
  "read_obj i b = (if i < length b then (case b ! i of Obj x \<Rightarrow> Some x | _ \<Rightarrow> None) else None)"

definition free_buf :: "'a buffer \<Rightarrow> unit option" where
  "free_buf b = (if \<forall>c \<in> set b. c = Raw then Some () else None)"

text \<open>A counting loop over the given indices, stopping at undefined behaviour.\<close>

fun loop :: "('i \<Rightarrow> 's \<Rightarrow> 's option) \<Rightarrow> 'i list \<Rightarrow> 's \<Rightarrow> 's option" where
  "loop f [] s = Some s"
| "loop f (i # is) s = do { s' \<leftarrow> f i s; loop f is s' }"

text \<open>\<^verbatim>\<open>::new (d) T(std::move(*s))\<close> and \<^verbatim>\<open>*d = std::move(*s)\<close>.\<close>

definition move_construct :: "nat \<Rightarrow> nat \<Rightarrow> 'a buffer \<Rightarrow> 'a buffer option" where
  "move_construct d s b = do { (x, b) \<leftarrow> move_out s b; new_obj d x b }"

definition move_assign :: "nat \<Rightarrow> nat \<Rightarrow> 'a buffer \<Rightarrow> 'a buffer option" where
  "move_assign d s b = do { (x, b) \<leftarrow> move_out s b; assign_obj d x b }"

section \<open>The vector\<close>

text \<open>
  \<^verbatim>\<open>begin_\<close> points to the buffer and is null when the buffer is empty, \<^verbatim>\<open>end_\<close> is \<^verbatim>\<open>begin_\<close> plus
  \<open>vend\<close>, \<^verbatim>\<open>last_\<close> is \<^verbatim>\<open>begin_\<close> plus the length of the buffer.
\<close>

record 'a Vector =
  vbuf :: "'a buffer"
  vend :: nat

definition Vector_new :: "'a Vector" where
  "Vector_new = \<lparr>vbuf = [], vend = 0\<rparr>"

definition Vector_size :: "'a Vector \<Rightarrow> nat" where
  "Vector_size v = vend v"

definition Vector_capacity :: "'a Vector \<Rightarrow> nat" where
  "Vector_capacity v = length (vbuf v)"

definition Vector_empty :: "'a Vector \<Rightarrow> bool" where
  "Vector_empty v \<longleftrightarrow> vend v = 0"

definition growth :: "nat \<Rightarrow> nat \<Rightarrow> nat" where
  "growth cap0 required_cap =
     (let cap = cap0 * 5 div 4;
          cap = (if cap < 16 then 16 else cap)
      in if cap < required_cap then required_cap else cap)"

definition Vector_ensure_size :: "nat \<Rightarrow> 'a Vector \<Rightarrow> 'a Vector option" where
  "Vector_ensure_size required_cap v =
     (if required_cap \<le> Vector_capacity v then Some v
      else do {
        let size0 = Vector_size v;
        let cap = growth (Vector_capacity v) required_cap;
        (old, new_data) \<leftarrow> loop (\<lambda>i (old, new_data). do {
            (x, old) \<leftarrow> move_out i old;
            new_data \<leftarrow> new_obj i x new_data;
            old \<leftarrow> destroy i old;
            Some (old, new_data) }) [0..<size0] (vbuf v, replicate cap Raw);
        _ \<leftarrow> free_buf old;
        Some \<lparr>vbuf = new_data, vend = size0\<rparr> })"

definition Vector_reserve :: "nat \<Rightarrow> 'a Vector \<Rightarrow> 'a Vector option" where
  "Vector_reserve new_cap v =
     (if new_cap > Vector_capacity v then Vector_ensure_size new_cap v else Some v)"

definition Vector_clear :: "'a Vector \<Rightarrow> 'a Vector option" where
  "Vector_clear v =
     (if vbuf v = [] \<or> vend v = 0 then Some (v\<lparr>vend := 0\<rparr>)
      else do { b \<leftarrow> loop destroy [0..<vend v] (vbuf v); Some \<lparr>vbuf = b, vend = 0\<rparr> })"

definition Vector_reset :: "'a Vector \<Rightarrow> 'a Vector option" where
  "Vector_reset v = do {
     v \<leftarrow> Vector_clear v;
     _ \<leftarrow> (if vbuf v \<noteq> [] then free_buf (vbuf v) else Some ());
     Some \<lparr>vbuf = [], vend = 0\<rparr> }"

definition Vector_at :: "nat \<Rightarrow> 'a Vector \<Rightarrow> 'a option" where
  "Vector_at i v = read_obj i (vbuf v)"

definition Vector_store :: "nat \<Rightarrow> 'a \<Rightarrow> 'a Vector \<Rightarrow> 'a Vector option" where
  "Vector_store i x v = do { b \<leftarrow> assign_obj i x (vbuf v); Some (v\<lparr>vbuf := b\<rparr>) }"

definition Vector_push_back :: "'a \<Rightarrow> 'a Vector \<Rightarrow> 'a Vector option" where
  "Vector_push_back x v = do {
     v \<leftarrow> (if vend v = length (vbuf v) then Vector_ensure_size (Vector_size v + 1) v else Some v);
     b \<leftarrow> new_obj (vend v) x (vbuf v);
     Some \<lparr>vbuf = b, vend = vend v + 1\<rparr> }"

definition Vector_pop_back :: "'a Vector \<Rightarrow> 'a Vector option" where
  "Vector_pop_back v =
     (if vend v = 0 then None
      else do { b \<leftarrow> destroy (vend v - 1) (vbuf v); Some \<lparr>vbuf = b, vend = vend v - 1\<rparr> })"

definition Vector_getBack :: "'a Vector \<Rightarrow> 'a option" where
  "Vector_getBack v = (if vend v = 0 then None else read_obj (vend v - 1) (vbuf v))"

definition Vector_setBack :: "'a \<Rightarrow> 'a Vector \<Rightarrow> 'a Vector option" where
  "Vector_setBack x v =
     (if vend v = 0 then None
      else do { b \<leftarrow> assign_obj (vend v - 1) x (vbuf v); Some (v\<lparr>vbuf := b\<rparr>) })"

text \<open>\<^verbatim>\<open>insert(pos, item)\<close>: positions are indices, the returned iterator is its index.\<close>

definition Vector_insert :: "nat \<Rightarrow> 'a \<Rightarrow> 'a Vector \<Rightarrow> (nat \<times> 'a Vector) option" where
  "Vector_insert posIndex item v =
     (if posIndex = Vector_size v then do { v \<leftarrow> Vector_push_back item v; Some (posIndex, v) }
      else do {
        v \<leftarrow> (if Vector_size v = Vector_capacity v then Vector_ensure_size (Vector_size v + 1) v
              else Some v);
        b \<leftarrow> move_construct (vend v) (vend v - 1) (vbuf v);
        b \<leftarrow> loop (\<lambda>p. move_assign (p + 1) p) (rev [posIndex..<vend v - 1]) b;
        b \<leftarrow> assign_obj posIndex item b;
        Some (posIndex, \<lparr>vbuf = b, vend = vend v + 1\<rparr>) })"

text \<open>\<^verbatim>\<open>insert(pos, first, last)\<close>: the inserted range is a list of values.\<close>

definition Vector_insert_range :: "nat \<Rightarrow> 'a list \<Rightarrow> 'a Vector \<Rightarrow> (nat \<times> 'a Vector) option" where
  "Vector_insert_range posIndex items v =
     (if items = [] then Some (posIndex, v)
      else do {
        let itemsToInsert = length items;
        v \<leftarrow> (if Vector_size v + itemsToInsert > Vector_capacity v
              then Vector_ensure_size (Vector_size v + itemsToInsert) v else Some v);
        b \<leftarrow> loop (\<lambda>p b. if p + itemsToInsert \<ge> vend v
                         then move_construct (p + itemsToInsert) p b
                         else move_assign (p + itemsToInsert) p b) (rev [posIndex..<vend v]) (vbuf v);
        let shiftOverlap = min (vend v - posIndex) itemsToInsert;
        b \<leftarrow> loop (\<lambda>i. destroy (posIndex + i)) [0..<shiftOverlap] b;
        b \<leftarrow> loop (\<lambda>i. new_obj (posIndex + i) (items ! i)) [0..<itemsToInsert] b;
        Some (posIndex, \<lparr>vbuf = b, vend = vend v + itemsToInsert\<rparr>) })"

definition Vector_erase :: "nat \<Rightarrow> nat \<Rightarrow> 'a Vector \<Rightarrow> (nat \<times> 'a Vector) option" where
  "Vector_erase first_pos last_pos v =
     (if first_pos = last_pos then Some (last_pos, v)
      else do {
        let items_to_remove = last_pos - first_pos;
        b \<leftarrow> loop (\<lambda>p. move_assign (p - items_to_remove) p) [last_pos..<vend v] (vbuf v);
        b \<leftarrow> loop destroy [vend v - items_to_remove..<vend v] b;
        Some (first_pos, \<lparr>vbuf = b, vend = vend v - items_to_remove\<rparr>) })"

definition Vector_assign :: "'a list \<Rightarrow> 'a Vector \<Rightarrow> 'a Vector option" where
  "Vector_assign items v = do {
     v \<leftarrow> Vector_clear v;
     let n = length items;
     v \<leftarrow> Vector_reserve n v;
     b \<leftarrow> loop (\<lambda>i. new_obj i (items ! i)) [0..<n] (vbuf v);
     Some \<lparr>vbuf = b, vend = n\<rparr> }"

text \<open>\<^verbatim>\<open>resize\<close>; \<open>dflt\<close> is the value of \<^verbatim>\<open>T()\<close>.\<close>

definition Vector_resize :: "'a \<Rightarrow> nat \<Rightarrow> 'a Vector \<Rightarrow> 'a Vector option" where
  "Vector_resize dflt new_size v =
     (if new_size < Vector_size v
      then do { b \<leftarrow> loop destroy [new_size..<vend v] (vbuf v); Some \<lparr>vbuf = b, vend = new_size\<rparr> }
      else if new_size > Vector_size v
      then do {
        v \<leftarrow> Vector_reserve new_size v;
        b \<leftarrow> loop (\<lambda>p. new_obj p dflt) [vend v..<new_size] (vbuf v);
        Some \<lparr>vbuf = b, vend = new_size\<rparr> }
      else Some v)"

definition Vector_of_init :: "'a list \<Rightarrow> 'a Vector option" where
  "Vector_of_init init = do {
     v \<leftarrow> Vector_reserve (length init) Vector_new;
     loop (\<lambda>x v. do { b \<leftarrow> new_obj (vend v) x (vbuf v); Some \<lparr>vbuf = b, vend = vend v + 1\<rparr> }) init v }"

text \<open>The values in \<^verbatim>\<open>[begin(), end())\<close>, as a copy reads them.\<close>

definition Vector_elems :: "'a Vector \<Rightarrow> 'a list option" where
  "Vector_elems v = loop (\<lambda>i xs. do { x \<leftarrow> read_obj i (vbuf v); Some (xs @ [x]) }) [0..<vend v] []"

definition Vector_copy :: "'a Vector \<Rightarrow> 'a Vector option" where
  "Vector_copy other = do { xs \<leftarrow> Vector_elems other; Vector_assign xs Vector_new }"

text \<open>Assignment between two different vectors: by copy, and by move (which empties the source).\<close>

definition Vector_copy_assign :: "'a Vector \<Rightarrow> 'a Vector \<Rightarrow> 'a Vector option" where
  "Vector_copy_assign v other = do { xs \<leftarrow> Vector_elems other; Vector_assign xs v }"

definition Vector_move :: "'a Vector \<Rightarrow> 'a Vector \<times> 'a Vector" where
  "Vector_move other = (other, \<lparr>vbuf = [], vend = 0\<rparr>)"

definition Vector_move_assign :: "'a Vector \<Rightarrow> 'a Vector \<Rightarrow> ('a Vector \<times> 'a Vector) option" where
  "Vector_move_assign v other = do { _ \<leftarrow> Vector_reset v; Some (Vector_move other) }"

definition Vector_swap :: "'a Vector \<Rightarrow> 'a Vector \<Rightarrow> 'a Vector \<times> 'a Vector" where
  "Vector_swap v other = (other, v)"

fun Vector_eq_loop :: "nat list \<Rightarrow> 'a Vector \<Rightarrow> 'a Vector \<Rightarrow> bool option" where
  "Vector_eq_loop [] v other = Some True"
| "Vector_eq_loop (i # is) v other = do {
     x \<leftarrow> read_obj i (vbuf v);
     y \<leftarrow> read_obj i (vbuf other);
     if x \<noteq> y then Some False else Vector_eq_loop is v other }"

definition Vector_eq :: "'a Vector \<Rightarrow> 'a Vector \<Rightarrow> bool option" where
  "Vector_eq v other =
     (if Vector_size other \<noteq> Vector_size v then Some False
      else Vector_eq_loop [0..<Vector_size v] v other)"

section \<open>Buffers as functions on their indices\<close>

definition tab :: "(nat \<Rightarrow> 'a cell) \<Rightarrow> nat \<Rightarrow> 'a buffer" where
  "tab f n = map f [0..<n]"

lemma length_tab [simp]: "length (tab f n) = n"
  by (simp add: tab_def)

lemma nth_tab [simp]: "i < n \<Longrightarrow> tab f n ! i = f i"
  by (simp add: tab_def)

lemma tab_update: "(tab f n)[i := x] = tab (f(i := x)) n"
  by (rule nth_equalityI) (auto simp: nth_list_update)

lemma tab_cong: "(\<And>i. i < n \<Longrightarrow> f i = g i) \<Longrightarrow> tab f n = tab g n"
  by (simp add: tab_def)

lemma cell_ops_tab [vec_simps]:
  "new_obj i x (tab f n) = (if i < n \<and> f i = Raw then Some (tab (f(i := Obj x)) n) else None)"
  "assign_obj i x (tab f n) = (if i < n \<and> f i \<noteq> Raw then Some (tab (f(i := Obj x)) n) else None)"
  "destroy i (tab f n) = (if i < n \<and> f i \<noteq> Raw then Some (tab (f(i := Raw)) n) else None)"
  "move_out i (tab f n) =
     (if i < n then (case f i of Obj x \<Rightarrow> Some (x, tab (f(i := Moved)) n) | _ \<Rightarrow> None) else None)"
  "read_obj i (tab f n) = (if i < n then (case f i of Obj x \<Rightarrow> Some x | _ \<Rightarrow> None) else None)"
  by (auto simp: new_obj_def assign_obj_def destroy_def move_out_def read_obj_def tab_update
      split: cell.splits)

lemma loop_append: "loop f (xs @ ys) s = do { s' \<leftarrow> loop f xs s; loop f ys s' }"
  by (induction xs arbitrary: s) (auto split: Option.bind_splits)

lemma loop_up:
  assumes "a \<le> b" and "\<And>i. a \<le> i \<Longrightarrow> i < b \<Longrightarrow> f i (S i) = Some (S (Suc i))"
  shows "loop f [a..<b] (S a) = Some (S b)"
  using assms by (induction b rule: dec_induct) (simp_all add: loop_append)

lemma loop_down:
  assumes "a \<le> b" and "\<And>i. a \<le> i \<Longrightarrow> i < b \<Longrightarrow> f i (S (Suc i)) = Some (S i)"
  shows "loop f (rev [a..<b]) (S b) = Some (S a)"
  using assms by (induction b rule: dec_induct) simp_all

section \<open>Vectors represent lists\<close>

definition live :: "'a list \<Rightarrow> nat \<Rightarrow> 'a cell" where
  "live xs i = (if i < length xs then Obj (xs ! i) else Raw)"

text \<open>
  The invariant: the objects of the list, in order, then raw memory up to the capacity.
\<close>

definition vec_rep :: "'a Vector \<Rightarrow> 'a list \<Rightarrow> bool" where
  "vec_rep v xs \<longleftrightarrow>
     vend v = length xs \<and> length xs \<le> length (vbuf v) \<and> vbuf v = tab (live xs) (length (vbuf v))"

lemma vec_repE:
  assumes "vec_rep v xs"
  obtains n where "v = \<lparr>vbuf = tab (live xs) n, vend = length xs\<rparr>" and "length xs \<le> n"
  using assms by (metis vec_rep_def Vector.surjective old.unit.exhaust)

lemma vec_repI: "length xs \<le> n \<Longrightarrow> vec_rep \<lparr>vbuf = tab (live xs) n, vend = length xs\<rparr> xs"
  by (simp add: vec_rep_def)

lemma vec_rep_unique: "vec_rep v xs \<Longrightarrow> vec_rep v ys \<Longrightarrow> xs = ys"
proof (rule nth_equalityI)
  assume a: "vec_rep v xs" "vec_rep v ys"
  then show "length xs = length ys" by (simp add: vec_rep_def)
  fix i assume "i < length xs"
  then show "xs ! i = ys ! i"
    using a nth_tab [of i "length (vbuf v)" "live xs"] nth_tab [of i "length (vbuf v)" "live ys"]
    by (auto simp: vec_rep_def live_def)
qed

lemma live_snoc: "(live xs)(length xs := Obj x) = live (xs @ [x])"
  by (auto simp: live_def fun_eq_iff nth_append less_Suc_eq)

lemma live_Nil [simp]: "live [] = (\<lambda>_. Raw)"
  by (simp add: live_def fun_eq_iff)

lemma live_butlast: "xs \<noteq> [] \<Longrightarrow> (live xs)(length xs - 1 := Raw) = live (butlast xs)"
  by (auto simp: live_def fun_eq_iff nth_butlast)

lemma live_update: "i < length xs \<Longrightarrow> (live xs)(i := Obj x) = live (xs[i := x])"
  by (auto simp: live_def fun_eq_iff nth_list_update)

lemma replicate_tab: "replicate n Raw = tab (\<lambda>_. Raw) n"
  by (simp add: tab_def map_replicate_const)

lemma free_buf_tab [vec_simps]: "free_buf (tab f n) = (if \<forall>i < n. f i = Raw then Some () else None)"
  by (auto simp: free_buf_def tab_def)

lemma growth_bounds: "required_cap \<le> growth cap0 required_cap" "16 \<le> growth cap0 required_cap"
  by (auto simp: growth_def Let_def)

lemma ensure_size_rep:
  assumes "vec_rep v xs"
  shows "\<exists>v'. Vector_ensure_size k v = Some v' \<and> vec_rep v' xs \<and> k \<le> Vector_capacity v'"
proof -
  obtain n where v: "v = \<lparr>vbuf = tab (live xs) n, vend = length xs\<rparr>" and n: "length xs \<le> n"
    using assms by (rule vec_repE)
  let ?c = "growth n k"
  let ?S = "\<lambda>j. (tab (\<lambda>i. if i < j then Raw else live xs i) n, tab (\<lambda>i. if i < j then live xs i else Raw) ?c)"
  let ?f = "\<lambda>i (old, new_data). do {
            (x, old) \<leftarrow> move_out i old;
            new_data \<leftarrow> new_obj i x new_data;
            old \<leftarrow> destroy i old;
            Some (old, new_data) }"
  show ?thesis
  proof (cases "k \<le> n")
    case True
    then show ?thesis using assms v by (simp add: Vector_ensure_size_def Vector_capacity_def)
  next
    case False
    then have c: "length xs \<le> ?c" "k \<le> ?c" using n growth_bounds [of k n] by simp_all
    have "loop ?f [0..<length xs] (?S 0) = Some (?S (length xs))"
    proof (rule loop_up)
      fix i assume "i < length xs"
      then show "?f i (?S i) = Some (?S (Suc i))"
        using n c by (auto simp: vec_simps live_def fun_eq_iff intro!: tab_cong)
    qed simp
    moreover have "tab (\<lambda>i. if i < length xs then live xs i else Raw) ?c = tab (live xs) ?c"
      by (rule tab_cong) (simp add: live_def)
    ultimately show ?thesis
      using False n c
      by (simp add: v Vector_ensure_size_def Vector_capacity_def Vector_size_def replicate_tab
          vec_simps live_def [abs_def] vec_rep_def Let_def)
  qed
qed

lemma reserve_rep:
  assumes "vec_rep v xs"
  shows "\<exists>v'. Vector_reserve k v = Some v' \<and> vec_rep v' xs \<and> k \<le> Vector_capacity v'"
  using ensure_size_rep [OF assms, of k] assms by (auto simp: Vector_reserve_def not_less)

lemma Vector_new_rep: "vec_rep Vector_new []"
  by (simp add: Vector_new_def vec_rep_def tab_def)

lemma loop_destroy:
  assumes "k \<le> length xs" and "length xs \<le> n"
  shows "loop destroy [k..<length xs] (tab (live xs) n) = Some (tab (live (take k xs)) n)"
proof -
  let ?S = "\<lambda>j. tab (\<lambda>i. if k \<le> i \<and> i < j then Raw else live xs i) n"
  have "loop destroy [k..<length xs] (?S k) = Some (?S (length xs))"
    by (rule loop_up) (use assms in \<open>auto simp: vec_simps live_def intro!: tab_cong\<close>)
  moreover have "?S k = tab (live xs) n" by (rule tab_cong) auto
  moreover have "?S (length xs) = tab (live (take k xs)) n"
    using assms by (intro tab_cong) (auto simp: live_def)
  ultimately show ?thesis by simp
qed

lemma clear_rep:
  assumes "vec_rep v xs"
  shows "\<exists>v'. Vector_clear v = Some v' \<and> vec_rep v' [] \<and> Vector_capacity v' = Vector_capacity v"
proof -
  obtain n where v: "v = \<lparr>vbuf = tab (live xs) n, vend = length xs\<rparr>" and n: "length xs \<le> n"
    using assms by (rule vec_repE)
  show ?thesis
  proof (cases "xs = []")
    case True
    then show ?thesis by (simp add: v Vector_clear_def vec_rep_def Vector_capacity_def)
  next
    case False
    then have "tab (live xs) n \<noteq> []" using n by (metis length_greater_0_conv length_tab less_le_trans)
    then show ?thesis
      using False loop_destroy [of 0 xs n] n
      by (simp add: v Vector_clear_def vec_rep_def Vector_capacity_def)
  qed
qed

lemma reset_rep:
  assumes "vec_rep v xs"
  shows "Vector_reset v = Some Vector_new"
proof -
  obtain v' where v': "Vector_clear v = Some v'" and r: "vec_rep v' []"
    using clear_rep [OF assms] by blast
  obtain n where "v' = \<lparr>vbuf = tab (live []) n, vend = 0\<rparr>"
    using vec_repE [OF r] by (metis list.size(3))
  then show ?thesis by (simp add: Vector_reset_def v' vec_simps Vector_new_def)
qed

lemma at_rep:
  assumes "vec_rep v xs"
  shows "Vector_at i v = (if i < length xs then Some (xs ! i) else None)"
  by (rule vec_repE [OF assms]) (auto simp: Vector_at_def vec_simps live_def)

lemma store_rep:
  assumes "vec_rep v xs" and "i < length xs"
  shows "\<exists>v'. Vector_store i x v = Some v' \<and> vec_rep v' (xs[i := x])"
  by (rule vec_repE [OF assms(1)])
     (use assms(2) in \<open>simp add: Vector_store_def vec_simps live_update vec_rep_def\<close>, simp add: live_def)

lemma push_back_rep:
  assumes "vec_rep v xs"
  shows "\<exists>v'. Vector_push_back x v = Some v' \<and> vec_rep v' (xs @ [x])"
proof -
  have "\<exists>v1. (if vend v = length (vbuf v) then Vector_ensure_size (Vector_size v + 1) v else Some v) = Some v1
          \<and> vec_rep v1 xs \<and> length xs < length (vbuf v1)"
  proof (cases "vend v = length (vbuf v)")
    case True
    then show ?thesis
      using ensure_size_rep [OF assms, of "Vector_size v + 1"] assms
      by (auto simp: vec_rep_def Vector_size_def Vector_capacity_def)
  qed (use assms in \<open>auto simp: vec_rep_def\<close>)
  then obtain v1 where v1: "(if vend v = length (vbuf v) then Vector_ensure_size (Vector_size v + 1) v else Some v) = Some v1"
      and r: "vec_rep v1 xs" and l: "length xs < length (vbuf v1)" by blast
  obtain n where n: "v1 = \<lparr>vbuf = tab (live xs) n, vend = length xs\<rparr>"
    using r by (rule vec_repE)
  have "live xs (length xs) = Raw" by (simp add: live_def)
  then show ?thesis
    using l unfolding Vector_push_back_def v1 by (simp add: n vec_simps live_snoc vec_rep_def)
qed

lemma pop_back_rep:
  assumes "vec_rep v xs" and "xs \<noteq> []"
  shows "\<exists>v'. Vector_pop_back v = Some v' \<and> vec_rep v' (butlast xs)"
proof -
  obtain n where n: "v = \<lparr>vbuf = tab (live xs) n, vend = length xs\<rparr>" "length xs \<le> n"
    using assms(1) by (rule vec_repE)
  have "live xs (length xs - 1) \<noteq> Raw" "length xs - 1 < n"
    using assms(2) n(2) by (cases xs; simp add: live_def)+
  then show ?thesis
    using assms(2) live_butlast [OF assms(2)] n(2)
    by (simp add: n Vector_pop_back_def vec_simps vec_rep_def)
qed

lemma getBack_rep:
  assumes "vec_rep v xs"
  shows "Vector_getBack v = (if xs = [] then None else Some (last xs))"
proof -
  obtain n where n: "v = \<lparr>vbuf = tab (live xs) n, vend = length xs\<rparr>" "length xs \<le> n"
    using assms by (rule vec_repE)
  show ?thesis
    using n(2) by (cases xs rule: rev_cases) (auto simp: n Vector_getBack_def vec_simps live_def)
qed

lemma setBack_rep:
  assumes "vec_rep v xs" and "xs \<noteq> []"
  shows "\<exists>v'. Vector_setBack x v = Some v' \<and> vec_rep v' (butlast xs @ [x])"
proof -
  have l: "length xs - 1 < length xs" using assms(2) by simp
  have "xs[length xs - 1 := x] = butlast xs @ [x]"
    using assms(2) by (cases xs rule: rev_cases) simp_all
  moreover have "vend v \<noteq> 0" "Vector_setBack x v = Vector_store (length xs - 1) x v"
    using assms by (auto simp: vec_rep_def Vector_setBack_def Vector_store_def)
  ultimately show ?thesis
    using store_rep [OF assms(1) l, of x] by simp
qed

section \<open>Shifting\<close>

text \<open>
  The buffer while the elements from \<open>j\<close> on have been shifted right by \<open>m\<close>: the vacated cells
  hold moved-out objects where there was an object, and raw memory beyond.
\<close>

definition shifted :: "'a list \<Rightarrow> nat \<Rightarrow> nat \<Rightarrow> nat \<Rightarrow> 'a cell" where
  "shifted xs m j i =
     (if i < j then live xs i
      else if i < j + m then (if i < length xs then Moved else Raw)
      else if i < length xs + m then Obj (xs ! (i - m)) else Raw)"

lemma move_tab [vec_simps]:
  "move_construct d s (tab f n) =
     (if s < n \<and> d < n
      then (case f s of Obj x \<Rightarrow> if (f(s := Moved)) d = Raw then Some (tab (f(s := Moved, d := Obj x)) n) else None
            | _ \<Rightarrow> None) else None)"
  "move_assign d s (tab f n) =
     (if s < n \<and> d < n
      then (case f s of Obj x \<Rightarrow> if (f(s := Moved)) d \<noteq> Raw then Some (tab (f(s := Moved, d := Obj x)) n) else None
            | _ \<Rightarrow> None) else None)"
  by (auto simp: move_construct_def move_assign_def vec_simps split: cell.splits)

lemma shifted_step:
  assumes "j < length xs" and "0 < m"
  shows "shifted xs m (Suc j) j = Obj (xs ! j)"
    and "((shifted xs m (Suc j))(j := Moved)) (j + m) = Raw \<longleftrightarrow> length xs \<le> j + m"
    and "i < n \<Longrightarrow> ((shifted xs m (Suc j))(j := Moved, j + m := Obj (xs ! j))) i = shifted xs m j i"
  using assms by (auto simp: shifted_def live_def)

lemma shifted_all: "shifted xs m (length xs) = live xs"
  by (auto simp: shifted_def live_def fun_eq_iff)

lemma live_end: "live xs (length xs) = Raw"
  by (simp add: live_def)

lemma insert_range_shift:
  assumes "0 < m" and "pos \<le> length xs" and "length xs + m \<le> n"
  shows "loop (\<lambda>p b. if p + m \<ge> length xs then move_construct (p + m) p b else move_assign (p + m) p b)
           (rev [pos..<length xs]) (tab (live xs) n) = Some (tab (shifted xs m pos) n)"
proof -
  let ?f = "\<lambda>p b. if p + m \<ge> length xs then move_construct (p + m) p b else move_assign (p + m) p b"
  have "loop ?f (rev [pos..<length xs]) (tab (shifted xs m (length xs)) n) = Some (tab (shifted xs m pos) n)"
  proof (rule loop_down [OF assms(2)])
    fix j assume j: "pos \<le> j" "j < length xs"
    have "tab ((shifted xs m (Suc j))(j := Moved, j + m := Obj (xs ! j))) n = tab (shifted xs m j) n"
      by (rule tab_cong) (rule shifted_step(3) [OF j(2) assms(1)])
    then show "?f j (tab (shifted xs m (Suc j)) n) = Some (tab (shifted xs m j) n)"
      using j assms(3) shifted_step(1,2) [OF j(2) assms(1)] by (auto simp: vec_simps)
  qed
  then show ?thesis by (simp add: shifted_all)
qed

lemma insert_shift:
  assumes "pos < length xs" and "length xs < n"
  shows "do { b \<leftarrow> move_construct (length xs) (length xs - 1) (tab (live xs) n);
              loop (\<lambda>p. move_assign (p + 1) p) (rev [pos..<length xs - 1]) b }
         = Some (tab (shifted xs 1 pos) n)"
proof -
  let ?k = "length xs - 1"
  have k: "?k < length xs" "Suc ?k = length xs" "pos \<le> ?k" using assms(1) by simp_all
  have "tab ((shifted xs 1 (Suc ?k))(?k := Moved, ?k + 1 := Obj (xs ! ?k))) n = tab (shifted xs 1 ?k) n"
    by (rule tab_cong) (rule shifted_step(3) [OF k(1)], simp)
  then have "move_construct (length xs) ?k (tab (live xs) n) = Some (tab (shifted xs 1 ?k) n)"
    using shifted_step(1,2) [OF k(1), of 1] assms(2) k
    by (simp add: vec_simps shifted_all live_end)
  moreover have "loop (\<lambda>p. move_assign (p + 1) p) (rev [pos..<?k]) (tab (shifted xs 1 ?k) n)
                 = Some (tab (shifted xs 1 pos) n)"
  proof (rule loop_down [OF k(3)])
    fix j assume j: "pos \<le> j" "j < ?k"
    then have j': "j < length xs" by simp
    have "tab ((shifted xs 1 (Suc j))(j := Moved, j + 1 := Obj (xs ! j))) n = tab (shifted xs 1 j) n"
      by (rule tab_cong) (rule shifted_step(3) [OF j'], simp)
    then show "move_assign (j + 1) j (tab (shifted xs 1 (Suc j)) n) = Some (tab (shifted xs 1 j) n)"
      using j assms(2) shifted_step(1,2) [OF j', of 1] by (auto simp: vec_simps)
  qed
  ultimately show ?thesis by simp
qed

lemma nth_insert_list:
  assumes "pos \<le> length xs"
  shows "live (take pos xs @ ys @ drop pos xs) i =
    (if i < pos then live xs i else if i < pos + length ys then Obj (ys ! (i - pos))
     else if i < length xs + length ys then Obj (xs ! (i - length ys)) else Raw)"
  using assms by (auto simp: live_def nth_append min_def)

lemma insert_rep:
  assumes "vec_rep v xs" and "pos \<le> length xs"
  shows "\<exists>v'. Vector_insert pos x v = Some (pos, v') \<and> vec_rep v' (take pos xs @ [x] @ drop pos xs)"
proof (cases "pos = length xs")
  case True
  then show ?thesis
    using push_back_rep [OF assms(1), of x] assms(1)
    by (auto simp: Vector_insert_def Vector_size_def vec_rep_def)
next
  case False
  then have pos: "pos < length xs" using assms(2) by simp
  let ?r = "if Vector_size v = Vector_capacity v then Vector_ensure_size (Vector_size v + 1) v else Some v"
  have "\<exists>v1. ?r = Some v1 \<and> vec_rep v1 xs \<and> length xs < length (vbuf v1)"
    using ensure_size_rep [OF assms(1), of "Vector_size v + 1"] assms(1)
    by (auto simp: vec_rep_def Vector_size_def Vector_capacity_def)
  then obtain v1 where v1: "?r = Some v1" "vec_rep v1 xs" "length xs < length (vbuf v1)" by blast
  obtain n where n: "v1 = \<lparr>vbuf = tab (live xs) n, vend = length xs\<rparr>"
    using v1(2) by (rule vec_repE)
  have len: "length xs < n" using v1(3) by (simp add: n)
  obtain b where b: "move_construct (length xs) (length xs - 1) (tab (live xs) n) = Some b"
      "loop (\<lambda>p. move_assign (p + 1) p) (rev [pos..<length xs - 1]) b = Some (tab (shifted xs 1 pos) n)"
    using insert_shift [OF pos len] by (auto split: Option.bind_splits)
  have "tab ((shifted xs 1 pos)(pos := Obj x)) n = tab (live (take pos xs @ [x] @ drop pos xs)) n"
    using pos by (intro tab_cong) (subst nth_insert_list, auto simp: shifted_def)
  moreover have "assign_obj pos x (tab (shifted xs 1 pos) n) = Some (tab ((shifted xs 1 pos)(pos := Obj x)) n)"
    using pos len by (simp add: vec_simps shifted_def)
  moreover have "vend v \<noteq> pos" using assms(1) False by (simp add: vec_rep_def)
  ultimately show ?thesis
    using b pos len unfolding Vector_insert_def v1(1)
    by (auto simp: n Vector_size_def vec_rep_def)
qed

lemma insert_range_rep:
  assumes "vec_rep v xs" and "pos \<le> length xs"
  shows "\<exists>v'. Vector_insert_range pos ys v = Some (pos, v') \<and> vec_rep v' (take pos xs @ ys @ drop pos xs)"
proof (cases "ys = []")
  case True
  then show ?thesis using assms by (simp add: Vector_insert_range_def)
next
  case False
  let ?m = "length ys"
  let ?r = "if Vector_size v + ?m > Vector_capacity v then Vector_ensure_size (Vector_size v + ?m) v else Some v"
  have "\<exists>v1. ?r = Some v1 \<and> vec_rep v1 xs \<and> length xs + ?m \<le> length (vbuf v1)"
    using ensure_size_rep [OF assms(1), of "Vector_size v + ?m"] assms(1)
    by (auto simp: vec_rep_def Vector_size_def Vector_capacity_def)
  then obtain v1 where v1: "?r = Some v1" "vec_rep v1 xs" "length xs + ?m \<le> length (vbuf v1)" by blast
  obtain n where n: "v1 = \<lparr>vbuf = tab (live xs) n, vend = length xs\<rparr>"
    using v1(2) by (rule vec_repE)
  have len: "length xs + ?m \<le> n" using v1(3) by (simp add: n)
  let ?o = "min (length xs - pos) ?m"
  let ?S = "\<lambda>j. tab (\<lambda>i. if pos \<le> i \<and> i < pos + j then Raw else shifted xs ?m pos i) n"
  let ?T = "\<lambda>j. tab (\<lambda>i. if pos \<le> i \<and> i < pos + ?m then (if i < pos + j then Obj (ys ! (i - pos)) else Raw)
                        else shifted xs ?m pos i) n"
  have start: "?S 0 = tab (shifted xs ?m pos) n"
    by (rule tab_cong) auto
  have shift: "loop (\<lambda>p b. if p + ?m \<ge> length xs then move_construct (p + ?m) p b
                 else move_assign (p + ?m) p b) (rev [pos..<length xs]) (tab (live xs) n) = Some (?S 0)"
    using insert_range_shift [OF _ assms(2) len] False unfolding start by simp
  have clean: "loop (\<lambda>i. destroy (pos + i)) [0..<?o] (?S 0) = Some (?S ?o)"
    using len assms(2)
    by (intro loop_up) (auto simp: vec_simps shifted_def live_def intro!: tab_cong)
  have raw: "?S ?o = ?T 0"
    using len assms(2) by (intro tab_cong) (auto simp: shifted_def live_def)
  have build: "loop (\<lambda>i. new_obj (pos + i) (ys ! i)) [0..<?m] (?T 0) = Some (?T ?m)"
    using len assms(2) by (intro loop_up) (auto simp: vec_simps intro!: tab_cong)
  have final: "?T ?m = tab (live (take pos xs @ ys @ drop pos xs)) n"
    using assms(2) by (intro tab_cong) (subst nth_insert_list, auto simp: shifted_def)
  show ?thesis
    using False assms(2) len shift clean build unfolding Vector_insert_range_def Let_def v1(1)
    by (simp add: n raw final vec_rep_def)
qed

lemma erase_rep:
  assumes "vec_rep v xs" and "a \<le> l" and "l \<le> length xs"
  shows "\<exists>v'. Vector_erase a l v = Some (a, v') \<and> vec_rep v' (take a xs @ drop l xs)"
proof (cases "a = l")
  case True
  then show ?thesis using assms(1) by (simp add: Vector_erase_def)
next
  case False
  obtain n where n: "v = \<lparr>vbuf = tab (live xs) n, vend = length xs\<rparr>" "length xs \<le> n"
    using assms(1) by (rule vec_repE)
  obtain k where l: "l = a + k" and k: "0 < k"
    using False assms(2) by (metis le_neq_implies_less less_imp_add_positive)
  let ?n = "length xs"
  let ?S = "\<lambda>j. tab (\<lambda>i. if i < a then live xs i else if i + k < j then Obj (xs ! (i + k))
                        else if a + k \<le> i \<and> i < j then Moved else live xs i) n"
  let ?T = "\<lambda>j. tab (\<lambda>i. if ?n - k \<le> i \<and> i < j then Raw
                        else if i < a then live xs i else if i + k < ?n then Obj (xs ! (i + k))
                        else if a + k \<le> i \<and> i < ?n then Moved else live xs i) n"
  have ak: "a + k \<le> ?n" using assms(3) l by simp
  have "?S (a + k) = tab (live xs) n" by (rule tab_cong) auto
  moreover have "loop (\<lambda>p. move_assign (p - k) p) [a + k..<?n] (?S (a + k)) = Some (?S ?n)"
    using k ak n(2) by (intro loop_up) (auto simp: vec_simps live_def intro!: tab_cong)
  ultimately have shift: "loop (\<lambda>p. move_assign (p - k) p) [a + k..<?n] (tab (live xs) n) = Some (?S ?n)"
    by simp
  have "?S ?n = ?T (?n - k)" by (rule tab_cong) auto
  moreover have "loop destroy [?n - k..<?n] (?T (?n - k)) = Some (?T ?n)"
    using k ak n(2) by (intro loop_up) (auto simp: vec_simps live_def intro!: tab_cong)
  moreover have "?T ?n = tab (live (take a xs @ drop (a + k) xs)) n"
    using k ak by (intro tab_cong) (auto simp: live_def nth_append ac_simps)
  ultimately have clean: "loop destroy [?n - k..<?n] (?S ?n) = Some (tab (live (take a xs @ drop (a + k) xs)) n)"
    by (simp only:)
  show ?thesis
    using k ak n(2) by (simp add: n(1) l Vector_erase_def shift clean vec_rep_def)
qed

lemma loop_construct:
  assumes "length (xs @ ys) \<le> n"
  shows "loop (\<lambda>i. new_obj i ((xs @ ys) ! i)) [length xs..<length (xs @ ys)] (tab (live xs) n)
         = Some (tab (live (xs @ ys)) n)"
proof -
  let ?S = "\<lambda>j. tab (\<lambda>i. if i < j then live (xs @ ys) i else Raw) n"
  have "loop (\<lambda>i. new_obj i ((xs @ ys) ! i)) [length xs..<length (xs @ ys)] (?S (length xs))
        = Some (?S (length (xs @ ys)))"
    by (rule loop_up) (use assms in \<open>auto simp: vec_simps live_def intro!: tab_cong\<close>)
  moreover have "?S (length xs) = tab (live xs) n" "?S (length (xs @ ys)) = tab (live (xs @ ys)) n"
    by (rule tab_cong, auto simp: live_def nth_append)+
  ultimately show ?thesis by simp
qed

lemma assign_rep:
  assumes "vec_rep v xs"
  shows "\<exists>v'. Vector_assign ys v = Some v' \<and> vec_rep v' ys"
proof -
  obtain v1 where v1: "Vector_clear v = Some v1" "vec_rep v1 []"
    using clear_rep [OF assms] by blast
  obtain v2 where v2: "Vector_reserve (length ys) v1 = Some v2" "vec_rep v2 []" "length ys \<le> Vector_capacity v2"
    using reserve_rep [OF v1(2), of "length ys"] by blast
  obtain n where n: "v2 = \<lparr>vbuf = tab (live []) n, vend = 0\<rparr>"
    using vec_repE [OF v2(2)] by (metis list.size(3))
  then have "length ys \<le> n" using v2(3) by (simp add: Vector_capacity_def)
  then show ?thesis
    using loop_construct [of "[]" ys n] by (simp add: Vector_assign_def v1 v2 n vec_rep_def)
qed

lemma resize_rep:
  assumes "vec_rep v xs"
  shows "\<exists>v'. Vector_resize d k v = Some v' \<and> vec_rep v' (take k xs @ replicate (k - length xs) d)"
proof -
  obtain n where n: "v = \<lparr>vbuf = tab (live xs) n, vend = length xs\<rparr>" "length xs \<le> n"
    using assms by (rule vec_repE)
  consider "k < length xs" | "k = length xs" | "k > length xs" by linarith
  then show ?thesis
  proof cases
    case 1
    then show ?thesis
      using loop_destroy [of k xs n] n(2)
      by (simp add: n(1) Vector_resize_def Vector_size_def vec_rep_def)
  next
    case 2
    then show ?thesis using assms by (simp add: n(1) Vector_resize_def Vector_size_def)
  next
    case 3
    obtain v2 where v2: "Vector_reserve k v = Some v2" "vec_rep v2 xs" "k \<le> Vector_capacity v2"
      using reserve_rep [OF assms, of k] by blast
    obtain n' where n': "v2 = \<lparr>vbuf = tab (live xs) n', vend = length xs\<rparr>"
      using v2(2) by (rule vec_repE)
    let ?ys = "replicate (k - length xs) d"
    have "loop (\<lambda>i. new_obj i d) is b = loop (\<lambda>i. new_obj i ((xs @ ?ys) ! i)) is b"
      if "\<forall>i \<in> set is. length xs \<le> i \<and> i < k" for "is" and b :: "'a buffer"
      using that by (induction "is" arbitrary: b) (auto simp: nth_append cong: Option.bind_cong)
    then have "loop (\<lambda>i. new_obj i d) [length xs..<k] (tab (live xs) n') = Some (tab (live (xs @ ?ys)) n')"
      using loop_construct [of xs ?ys n'] 3 v2(3) by (simp add: n' Vector_capacity_def)
    then show ?thesis
      using 3 v2 by (simp add: n(1) n' Vector_resize_def Vector_size_def vec_rep_def Vector_capacity_def)
  qed
qed

lemma elems_rep:
  assumes "vec_rep v xs"
  shows "Vector_elems v = Some xs"
proof -
  obtain n where n: "v = \<lparr>vbuf = tab (live xs) n, vend = length xs\<rparr>" "length xs \<le> n"
    using assms by (rule vec_repE)
  have "loop (\<lambda>i ys. do { x \<leftarrow> read_obj i (vbuf v); Some (ys @ [x]) }) [0..<length xs] (take 0 xs)
        = Some (take (length xs) xs)"
    by (rule loop_up) (use n(2) in \<open>simp_all add: n(1) vec_simps live_def take_Suc_conv_app_nth\<close>)
  then show ?thesis by (simp add: Vector_elems_def n(1))
qed

lemma copy_rep:
  assumes "vec_rep v xs" and "vec_rep w ys"
  shows "\<exists>v'. Vector_copy w = Some v' \<and> vec_rep v' ys"
    and "\<exists>v'. Vector_copy_assign v w = Some v' \<and> vec_rep v' ys"
    and "Vector_move_assign v w = Some (w, Vector_new)"
  using assign_rep [OF Vector_new_rep, of ys] assign_rep [OF assms(1), of ys]
  by (simp_all add: Vector_copy_def Vector_copy_assign_def Vector_move_assign_def Vector_move_def
      elems_rep [OF assms(2)] reset_rep [OF assms(1)] Vector_new_def)

lemma of_init_rep: "\<exists>v. Vector_of_init (xs :: 'a list) = Some v \<and> vec_rep v xs"
proof -
  obtain v :: "'a Vector" where v: "Vector_reserve (length xs) Vector_new = Some v" "vec_rep v []" "length xs \<le> length (vbuf v)"
    using reserve_rep [OF Vector_new_rep, of "length xs"] by (auto simp: Vector_capacity_def)
  have "\<exists>v'. loop (\<lambda>x v. do { b \<leftarrow> new_obj (vend v) x (vbuf v); Some \<lparr>vbuf = b, vend = vend v + 1\<rparr> }) zs v
               = Some v' \<and> vec_rep v' (ys @ zs)"
    if "vec_rep v ys" "length ys + length zs \<le> length (vbuf v)" for zs ys and v :: "'a Vector"
    using that
  proof (induction zs arbitrary: v ys)
    case (Cons z zs)
    obtain n where n: "v = \<lparr>vbuf = tab (live ys) n, vend = length ys\<rparr>"
      using Cons.prems(1) by (rule vec_repE)
    show ?case
      using Cons.IH [of "\<lparr>vbuf = tab (live (ys @ [z])) n, vend = length ys + 1\<rparr>" "ys @ [z]"] Cons.prems(2)
      by (simp add: n vec_simps live_end live_snoc vec_rep_def)
  qed simp
  from this [OF v(2), of xs] show ?thesis using v by (simp add: Vector_of_init_def)
qed

lemma eq_loop_rep:
  assumes "vec_rep v xs" and "vec_rep w ys" and "length xs = length ys"
  shows "a \<le> length xs \<Longrightarrow> Vector_eq_loop [a..<length xs] v w = Some (drop a xs = drop a ys)"
proof (induction rule: inc_induct)
  case (step a)
  then have "Vector_at a v = Some (xs ! a)" "Vector_at a w = Some (ys ! a)"
    using assms by (simp_all add: at_rep)
  then show ?case
    using step assms(3) by (auto simp: upt_conv_Cons Vector_at_def Cons_nth_drop_Suc [symmetric])
qed (simp add: assms(3))

lemma eq_rep:
  assumes "vec_rep v xs" and "vec_rep w ys"
  shows "Vector_eq v w = Some (xs = ys)"
proof -
  have "vend v = length xs" "vend w = length ys" using assms by (simp_all add: vec_rep_def)
  then show ?thesis
    using eq_loop_rep [OF assms, of 0] by (auto simp: Vector_eq_def Vector_size_def)
qed

lemmas vec_reps = push_back_rep pop_back_rep setBack_rep store_rep insert_rep insert_range_rep erase_rep
  assign_rep resize_rep reserve_rep clear_rep

section \<open>Sequences of operations\<close>

datatype 'a vec_op =
    Push 'a | Pop | Back 'a | Store nat 'a | Insert nat 'a | Insert_range nat "'a list"
  | Erase nat nat | Assign "'a list" | Resize 'a nat | Reserve nat | Clear | Reset

fun vec_exec :: "'a vec_op \<Rightarrow> 'a Vector \<Rightarrow> 'a Vector option" where
  "vec_exec (Push x) v = Vector_push_back x v"
| "vec_exec Pop v = Vector_pop_back v"
| "vec_exec (Back x) v = Vector_setBack x v"
| "vec_exec (Store i x) v = Vector_store i x v"
| "vec_exec (Insert p x) v = map_option snd (Vector_insert p x v)"
| "vec_exec (Insert_range p ys) v = map_option snd (Vector_insert_range p ys v)"
| "vec_exec (Erase a l) v = map_option snd (Vector_erase a l v)"
| "vec_exec (Assign ys) v = Vector_assign ys v"
| "vec_exec (Resize d k) v = Vector_resize d k v"
| "vec_exec (Reserve k) v = Vector_reserve k v"
| "vec_exec Clear v = Vector_clear v"
| "vec_exec Reset v = Vector_reset v"

text \<open>The same operations on lists, with the preconditions the assertions of the code state.\<close>

fun list_exec :: "'a vec_op \<Rightarrow> 'a list \<Rightarrow> 'a list option" where
  "list_exec (Push x) xs = Some (xs @ [x])"
| "list_exec Pop xs = (if xs = [] then None else Some (butlast xs))"
| "list_exec (Back x) xs = (if xs = [] then None else Some (butlast xs @ [x]))"
| "list_exec (Store i x) xs = (if i < length xs then Some (xs[i := x]) else None)"
| "list_exec (Insert p x) xs = (if p \<le> length xs then Some (take p xs @ [x] @ drop p xs) else None)"
| "list_exec (Insert_range p ys) xs =
     (if p \<le> length xs then Some (take p xs @ ys @ drop p xs) else None)"
| "list_exec (Erase a l) xs = (if a \<le> l \<and> l \<le> length xs then Some (take a xs @ drop l xs) else None)"
| "list_exec (Assign ys) xs = Some ys"
| "list_exec (Resize d k) xs = Some (take k xs @ replicate (k - length xs) d)"
| "list_exec (Reserve k) xs = Some xs"
| "list_exec Clear xs = Some []"
| "list_exec Reset xs = Some []"

lemma exec_rep:
  assumes "vec_rep v xs" and "list_exec op xs = Some ys"
  shows "\<exists>v'. vec_exec op v = Some v' \<and> vec_rep v' ys"
proof (cases op)
  case (Insert p x)
  then show ?thesis using assms insert_rep [OF assms(1), of p x] by (auto split: if_splits)
next
  case (Insert_range p ys)
  then show ?thesis using assms insert_range_rep [OF assms(1), of p ys] by (auto split: if_splits)
next
  case (Erase a l)
  then show ?thesis using assms erase_rep [OF assms(1), of a l] by (auto split: if_splits)
next
  case (Reserve k)
  then show ?thesis using assms reserve_rep [OF assms(1), of k] by auto
next
  case Clear
  then show ?thesis using assms clear_rep [OF assms(1)] by auto
next
  case Reset
  then show ?thesis using assms reset_rep [OF assms(1)] by (simp add: Vector_new_rep)
qed (use assms vec_reps(1-4,8,9) in \<open>auto split: if_splits\<close>)

lemma loop_exec_rep:
  "vec_rep v xs \<Longrightarrow> loop list_exec ops xs = Some ys \<Longrightarrow> \<exists>v'. loop vec_exec ops v = Some v' \<and> vec_rep v' ys"
proof (induction ops arbitrary: v xs)
  case (Cons op ops)
  obtain zs where z: "list_exec op xs = Some zs" "loop list_exec ops zs = Some ys"
    using Cons.prems(2) by (auto split: Option.bind_splits)
  obtain v' where "vec_exec op v = Some v'" "vec_rep v' zs"
    using exec_rep [OF Cons.prems(1) z(1)] by blast
  then show ?case using Cons.IH [OF _ z(2)] by auto
qed simp

text \<open>
  C27: Any sequence of push, pop, insert, range insert, erase, assign, resize, reserve, clear
  and reset calls that respects the asserted preconditions runs on a new vector without
  undefined behaviour (no object is constructed twice, read after a move, leaked or destroyed
  twice), and the vector then holds exactly the list the same calls give.
\<close>

theorem vector_refines_list:
  assumes "loop list_exec ops [] = Some ys"
  shows "\<exists>v. loop vec_exec ops Vector_new = Some v \<and> Vector_elems v = Some ys \<and>
             Vector_size v = length ys \<and> Vector_size v \<le> Vector_capacity v \<and>
             (\<forall>i. Vector_at i v = (if i < length ys then Some (ys ! i) else None)) \<and>
             Vector_reset v = Some Vector_new"
proof -
  obtain v where v: "loop vec_exec ops Vector_new = Some v" "vec_rep v ys"
    using loop_exec_rep [OF Vector_new_rep assms] by blast
  then show ?thesis
    using elems_rep [OF v(2)] at_rep [OF v(2)] reset_rep [OF v(2)]
    by (auto simp: Vector_size_def Vector_capacity_def vec_rep_def)
qed

theorem vector_refines_list_witness:
  "let ops = [Push 1, Push 2, Push 3, Insert 1 9, Erase 0 1, Insert_range 2 [7, 8]]
   in loop list_exec ops [] = Some [9, 2, 7, 8, 3::nat] \<and>
      (\<exists>v. loop vec_exec ops Vector_new = Some v \<and> Vector_elems v = Some [9, 2, 7, 8, 3])"
proof -
  let ?ops = "[Push 1, Push 2, Push 3, Insert 1 9, Erase 0 1, Insert_range 2 [7, 8]] :: nat vec_op list"
  have r: "loop list_exec ?ops [] = Some [9, 2, 7, 8, 3]"
    by (simp add: numeral_2_eq_2)
  show ?thesis
    using vector_refines_list [OF r] r by (auto simp: Let_def)
qed

text \<open>
  Copies and moves of vectors: a copy and a copy assignment hold the elements of the source,
  a move assignment hands over the source's buffer after destroying the old elements, a list
  of initialisers is stored as it is, and \<^verbatim>\<open>operator==\<close> decides equality of the elements.
\<close>

theorem vector_copy_move_eq:
  assumes "vec_rep v xs" and "vec_rep w ys"
  shows "(\<exists>u. Vector_copy w = Some u \<and> vec_rep u ys) \<and>
         (\<exists>u. Vector_copy_assign v w = Some u \<and> vec_rep u ys) \<and>
         Vector_move_assign v w = Some (w, Vector_new) \<and>
         (\<exists>u. Vector_of_init xs = Some u \<and> vec_rep u xs) \<and>
         Vector_eq v w = Some (xs = ys)"
  using copy_rep [OF assms] of_init_rep eq_rep [OF assms] by simp

theorem vector_copy_move_eq_witness:
  "vec_rep \<lparr>vbuf = [Obj 4, Raw], vend = 1\<rparr> [4::nat] \<and> vec_rep \<lparr>vbuf = [Obj 5, Obj 6], vend = 2\<rparr> [5, 6::nat] \<and>
   Vector_eq \<lparr>vbuf = [Obj (4::nat), Raw], vend = 1\<rparr> \<lparr>vbuf = [Obj 5, Obj 6], vend = 2\<rparr> = Some False"
proof -
  have r: "vec_rep \<lparr>vbuf = [Obj 4, Raw], vend = 1\<rparr> [4::nat]"
      "vec_rep \<lparr>vbuf = [Obj 5, Obj 6], vend = 2\<rparr> [5, 6::nat]"
    by (simp_all add: vec_rep_def tab_def live_def upt_rec)
  show ?thesis using vector_copy_move_eq [OF r] r by simp
qed

section \<open>The stack interface\<close>

text \<open>
  What the clients that use a vector as a stack rely on: the operations succeed where the
  stack is deep enough, and act on the represented list.
\<close>

locale stack_contract =
  fixes rep :: "'v \<Rightarrow> 'a list \<Rightarrow> bool"
    and new :: 'v
    and push :: "'a \<Rightarrow> 'v \<Rightarrow> 'v option"
    and pop :: "'v \<Rightarrow> 'v option"
    and top :: "'v \<Rightarrow> 'a option"
    and set_top :: "'a \<Rightarrow> 'v \<Rightarrow> 'v option"
  assumes new_ok: "rep new []"
    and push_ok: "rep v xs \<Longrightarrow> \<exists>v'. push x v = Some v' \<and> rep v' (xs @ [x])"
    and pop_ok: "rep v xs \<Longrightarrow> xs \<noteq> [] \<Longrightarrow> \<exists>v'. pop v = Some v' \<and> rep v' (butlast xs)"
    and top_ok: "rep v xs \<Longrightarrow> top v = (if xs = [] then None else Some (last xs))"
    and set_top_ok: "rep v xs \<Longrightarrow> xs \<noteq> [] \<Longrightarrow> \<exists>v'. set_top x v = Some v' \<and> rep v' (butlast xs @ [x])"
begin

lemma push_pop:
  assumes "rep v xs"
  shows "\<exists>v' v''. push x v = Some v' \<and> pop v' = Some v'' \<and> rep v'' xs"
proof -
  obtain v' where v': "push x v = Some v'" "rep v' (xs @ [x])" using push_ok [OF assms] by blast
  show ?thesis using v' pop_ok [OF v'(2)] by auto
qed

end

interpretation vs: stack_contract vec_rep Vector_new Vector_push_back Vector_pop_back
    Vector_getBack Vector_setBack
  by unfold_locales
     (simp_all add: Vector_new_rep push_back_rep pop_back_rep getBack_rep setBack_rep)

end
