(* ===== verification/Cpt_Stopwatch.thy ===== *)
theory Cpt_Stopwatch
  imports Cpt_Clock
begin

text \<open>
  What the offsets of \<^theory_text>\<open>Cpt_Clock\<close> stand for: a run of state changes leaves in every
  clock exactly the time spent in states in which that clock is on.  The specification
  is a history of (time, state) pairs; the operations are those of \<^verbatim>\<open>threadClock\<close>.
\<close>

section \<open>Runs of state changes\<close>

datatype clock_op = Enter ClockState | Exit | Set ClockState

text \<open>One call at time \<open>t\<close> while the tool is running; the calls read the time themselves.\<close>

fun clock_step :: "time \<times> clock_op \<Rightarrow> threadClock \<Rightarrow> threadClock" where
  "clock_step (t, Enter cs) tc = enterState True t 0 cs tc"
| "clock_step (t, Exit) tc = exitState True t 0 True tc"
| "clock_step (t, Set cs) tc = setState True t 0 cs tc"

definition clock_run :: "(time \<times> clock_op) list \<Rightarrow> threadClock \<Rightarrow> threadClock" where
  "clock_run evs tc = fold clock_step evs tc"

fun stack_op :: "clock_op \<Rightarrow> ClockState list \<Rightarrow> ClockState list" where
  "stack_op (Enter cs) st = st @ [cs]"
| "stack_op Exit st = (if last st = STATE_INIT then st else butlast st)"
| "stack_op (Set cs) st = butlast st @ [cs]"

fun history :: "ClockState list \<Rightarrow> (time \<times> clock_op) list \<Rightarrow> (time \<times> ClockState) list" where
  "history st [] = []"
| "history st ((t, op) # evs) = (t, last (stack_op op st)) # history (stack_op op st) evs"

text \<open>The total length of the intervals of a history during which clock \<open>i\<close> is on.\<close>

fun on_time :: "ClockType \<Rightarrow> (time \<times> ClockState) list \<Rightarrow> time" where
  "on_time i ((s, cs) # (t, cs') # h) = (if State cs i then t - s else 0) + on_time i ((t, cs') # h)"
| "on_time i _ = 0"

section \<open>The clocks measure the time their states are on\<close>

lemma stack_clock_step [clock_simps]:
  "clock_state_stack (clock_step (t, op) tc) = stack_op op (clock_state_stack tc)"
  by (cases op) (simp_all add: clock_simps GetState_def)

lemma cval_clock_step:
  assumes "is_sel sel"
  shows "cval sel (clock_step (t, op) tc) i =
    cval sel tc i + (of_bool (State (GetState tc) i)
                     - of_bool (State (last (stack_op op (clock_state_stack tc))) i)) * t"
  using assms
  by (cases op)
     (auto simp: enterState_def exitState_def setState_def Let_def clock_simps GetState_def)

lemma clock_run_Cons: "clock_run (ev # evs) tc = clock_run evs (clock_step ev tc)"
  by (simp add: clock_run_def)

lemma clock_run_append: "clock_run (xs @ ys) tc = clock_run ys (clock_run xs tc)"
  by (simp add: clock_run_def)

lemma stack_clock_run [clock_simps]:
  "clock_state_stack (clock_run evs tc) = fold (stack_op \<circ> snd) evs (clock_state_stack tc)"
  by (induction evs arbitrary: tc) (auto simp: clock_run_def clock_simps)

lemma clock_run_on_time:
  assumes "is_sel sel"
  shows "cval sel (clock_run evs tc) i
           + of_bool (State (GetState (clock_run evs tc)) i) * last (s # map fst evs)
         = cval sel tc i + of_bool (State (GetState tc) i) * s
           + on_time i ((s, GetState tc) # history (clock_state_stack tc) evs)"
proof (induction evs arbitrary: tc s)
  case Nil
  show ?case by (simp add: clock_run_def)
next
  case (Cons ev evs)
  obtain t op where ev: "ev = (t, op)" by (cases ev)
  have st: "GetState (clock_step (t, op) tc) = last (stack_op op (clock_state_stack tc))"
    by (simp add: GetState_def clock_simps)
  show ?case
    using Cons.IH [of "clock_step (t, op) tc" t] cval_clock_step [OF assms, of t op tc i]
    by (auto simp: ev clock_run_Cons st clock_simps algebra_simps)
qed

lemma history_append:
  "history st (evs @ [(t, op)]) =
     history st evs @ [(t, last (stack_op op (fold (stack_op \<circ> snd) evs st)))]"
  by (induction evs arbitrary: st) (auto simp: comp_def)

lemma setState_is_clock_step:
  assumes "t \<noteq> 0"
  shows "setState running now t STATE_INIT tc = clock_step (t, Set STATE_INIT) tc"
  using assms by (simp add: setState_def SwitchState_def Let_def)

lemma clock_total:
  assumes "is_sel sel" and "T \<noteq> 0"
  shows "cval sel (setState running now T STATE_INIT (clock_run evs (threadClock_new n 0 omp))) i
         = on_time i ((s, STATE_INIT) # history [STATE_INIT] (evs @ [(T, Set STATE_INIT)]))"
proof -
  let ?tc = "threadClock_new n 0 omp"
  let ?evs = "evs @ [(T, Set STATE_INIT)]"
  have run: "setState running now T STATE_INIT (clock_run evs ?tc) = clock_run ?evs ?tc"
    by (simp add: setState_is_clock_step [OF assms(2)] clock_run_append clock_run_def)
  have "GetState (clock_run ?evs ?tc) = STATE_INIT"
    by (simp add: GetState_def clock_simps)
  then show ?thesis
    using clock_run_on_time [OF assms(1), of ?evs ?tc i s] assms(1)
    by (simp add: run clock_simps)
qed

section \<open>Bounds\<close>

lemma on_time_bounds:
  assumes "sorted (map fst h)" and "h \<noteq> []"
  shows "0 \<le> on_time i h \<and> on_time i h \<le> fst (last h) - fst (hd h)"
  using assms by (induction i h rule: on_time.induct) auto

lemma map_fst_history: "map fst (history st evs) = map fst evs"
  by (induction st evs rule: history.induct) simp_all

section \<open>Nested scopes\<close>

text \<open>The calls made by properly nested scopes such as the RAII timers.\<close>

inductive balanced :: "clock_op list \<Rightarrow> bool" where
  balanced_Nil: "balanced []"
| balanced_scope: "balanced ops \<Longrightarrow> cs \<noteq> STATE_INIT \<Longrightarrow> balanced (Enter cs # ops @ [Exit])"
| balanced_seq: "balanced xs \<Longrightarrow> balanced ys \<Longrightarrow> balanced (xs @ ys)"

lemma balanced_stack:
  "balanced ops \<Longrightarrow> fold stack_op ops st = st"
  by (induction ops arbitrary: st rule: balanced.induct) simp_all

lemma balanced_run_stack:
  assumes "balanced (map snd evs)"
  shows "clock_state_stack (clock_run evs tc) = clock_state_stack tc"
  using balanced_stack [OF assms, of "clock_state_stack tc"]
  by (simp add: clock_simps fold_map)

section \<open>Claims\<close>

text \<open>
  C4: A thread clock that starts fresh, goes through any sequence of enter, exit and set
  operations, and is put into \<^const>\<open>STATE_INIT\<close> at time \<open>T\<close> (as \<^verbatim>\<open>stopMeasurement\<close> does) holds in the
  thread, process and critical component of every clock exactly the total time spent in
  states in which that clock is on.
\<close>

theorem clock_measures_on_time:
  assumes "T \<noteq> 0"
    and "tc = setState running now T STATE_INIT (clock_run evs (threadClock_new n 0 omp))"
    and "spent = on_time i ((s, STATE_INIT) # history [STATE_INIT] (evs @ [(T, Set STATE_INIT)]))"
  shows "cval thread tc i = spent \<and> cval proc tc i = spent \<and> cval critical tc i = spent"
  unfolding assms(2,3) by (simp only: clock_total [OF _ assms(1)] is_sel_intros)

text \<open>A useful phase from 1 to 8 with an MPI call from 3 to 5 inside it.\<close>

theorem clock_measures_on_time_witness:
  "let evs = [(1, Set STATE_USEFUL), (3, Enter STATE_MPI), (5, Exit)];
       tc = setState True 0 8 STATE_INIT (clock_run evs (threadClock_new 0 0 False))
   in cval thread tc CLOCK_USEFUL = 5 \<and> cval critical tc CLOCK_OMPI = 5 \<and>
      cval proc tc CLOCK_OOMP = 7"
  using clock_measures_on_time [OF _ refl refl, of 8 True 0
      "[(1, Set STATE_USEFUL), (3, Enter STATE_MPI), (5, Exit)]" 0 False CLOCK_USEFUL 0]
    clock_measures_on_time [OF _ refl refl, of 8 True 0
      "[(1, Set STATE_USEFUL), (3, Enter STATE_MPI), (5, Exit)]" 0 False CLOCK_OMPI 0]
    clock_measures_on_time [OF _ refl refl, of 8 True 0
      "[(1, Set STATE_USEFUL), (3, Enter STATE_MPI), (5, Exit)]" 0 False CLOCK_OOMP 0]
  by simp

text \<open>
  Properly nested scopes (the RAII timers of the wrappers) leave the state stack of the
  thread as they found it, whatever the times of their calls.
\<close>

theorem nested_scopes_restore_stack:
  assumes "balanced (map snd evs)"
  shows "clock_state_stack (clock_run evs tc) = clock_state_stack tc"
  by (rule balanced_run_stack [OF assms])

theorem nested_scopes_restore_stack_witness:
  "let evs = [(1, Enter STATE_MPI), (2, Enter STATE_OMP), (3, Exit), (4, Exit)]
   in balanced (map snd evs) \<and>
      clock_state_stack (clock_run evs (threadClock_new 0 0 False)) = [STATE_INIT]"
proof -
  have "balanced (Enter STATE_MPI # (Enter STATE_OMP # [] @ [Exit]) @ [Exit])"
    by (intro balanced_scope balanced_Nil) simp_all
  then have b: "balanced (map snd [(1::time, Enter STATE_MPI), (2, Enter STATE_OMP), (3, Exit), (4, Exit)])"
    by simp
  show ?thesis
    using nested_scopes_restore_stack [OF b, of "threadClock_new 0 0 False"] b by simp
qed

section \<open>Arcs and running clocks\<close>

text \<open>The time a clock would show if it were stopped at time \<open>t\<close>.\<close>

definition shown :: "(cpClocks \<Rightarrow> BaseMetric) \<Rightarrow> threadClock \<Rightarrow> ClockType \<Rightarrow> time \<Rightarrow> time" where
  "shown sel tc i t = cval sel tc i + (if State (GetState tc) i then t else 0)"

lemma GetState_frame_OmpHAfter: "GetState (snd (OmpHAfter r sc tc)) = GetState tc"
  by (simp add: sync_simps)

text \<open>A change of state at time \<open>t\<close> does not change what a clock shows at that time; an acquire takes a maximum.\<close>

lemma shown_switch:
  assumes "is_sel sel"
  shows "shown sel (enterState True t 0 cs tc) c t = shown sel tc c t" "shown sel (exitState True t 0 r tc) c t = shown sel tc c t"
proof -
  have "cval sel (enterState True t 0 cs tc) c = cval sel tc c + (of_bool (State (GetState tc) c) - of_bool (State cs c)) * t"
    using assms by (simp add: enterState_def Let_def clock_simps)
  then show "shown sel (enterState True t 0 cs tc) c t = shown sel tc c t"
    by (simp add: shown_def GetState_def clock_simps)
  show "shown sel (exitState True t 0 r tc) c t = shown sel tc c t"
  proof (cases "r \<and> GetState tc \<noteq> STATE_INIT")
    case True
    let ?cs = "last (butlast (clock_state_stack tc))"
    have "cval sel (exitState True t 0 r tc) c = cval sel tc c + (of_bool (State (GetState tc) c) - of_bool (State ?cs c)) * t"
      using True assms by (simp add: exitState_def Let_def clock_simps GetState_def)
    moreover have "GetState (exitState True t 0 r tc) = ?cs" using True by (simp add: GetState_def clock_simps)
    ultimately show ?thesis by (simp add: shown_def)
  qed (auto simp: exitState_def)
qed

lemma shown_after:
  assumes "joined sel i"
  shows "shown sel (snd (OmpHAfter True sc tc)) i t =
     max (shown sel tc i t) (cval sel sc i + (if State (GetState tc) i then t else 0))"
  using assms by (simp add: shown_def sync_simps max_shift)

text \<open>
  An arc through an unused synchronisation object between two threads in the same state
  leaves the second thread, at every later time, with the larger of the two values the
  clocks would show: the offsets may be compared although the clocks are running.
\<close>

theorem arc_transfers_maximum:
  assumes "sync_state sc = STATE_INIT" and "GetState tc = GetState tc'"
    and "sel = proc \<or> sel = critical" and "i \<noteq> CLOCK_OGPU"
  shows "shown sel (snd (OmpHAfter True (OmpHBefore True sc tc) tc')) i t
         = max (shown sel tc' i t) (shown sel tc i t)"
proof -
  have "joined sel i" using assms(3,4) by (simp add: joined_def)
  then show ?thesis
    using assms(1,2) by (simp add: shown_def sync_simps max_shift)
qed

theorem arc_transfers_maximum_witness:
  "let tc = enterState True 2 0 STATE_OMP (threadClock_new 0 0 True);
       tc' = enterState True 7 0 STATE_OMP (threadClock_new 1 0 True)
   in sync_state syncClock_init = STATE_INIT \<and> GetState tc = GetState tc' \<and>
      shown critical (snd (OmpHAfter True (OmpHBefore True syncClock_init tc) tc')) CLOCK_OMPI 10 = 8"
proof -
  let ?tc = "enterState True 2 0 STATE_OMP (threadClock_new 0 0 True)"
  let ?tc' = "enterState True 7 0 STATE_OMP (threadClock_new 1 0 True)"
  have i: "sync_state syncClock_init = STATE_INIT" by (simp add: syncClock_init_def)
  have g: "GetState ?tc = STATE_OMP" "GetState ?tc' = STATE_OMP" by (simp_all add: GetState_def clock_simps)
  have s: "shown critical ?tc CLOCK_OMPI 10 = 8" "shown critical ?tc' CLOCK_OMPI 10 = 3"
    by (simp_all add: shown_def g) (simp_all add: enterState_def Let_def clock_simps)
  show ?thesis
    using arc_transfers_maximum [OF i, of ?tc ?tc' critical CLOCK_OMPI 10] i g s by (simp add: Let_def)
qed

text \<open>
  An \<^verbatim>\<open>OmpHAfter\<close> on a synchronisation object nobody has released since its creation is not
  neutral for a running clock: the clock is lifted to the start of the epoch, so that it
  shows at time \<open>t\<close> at least \<open>t\<close> itself, however little time its thread has spent.
\<close>

theorem unused_arc_lifts_running_clock:
  assumes "sel = proc \<or> sel = critical" and "i \<noteq> CLOCK_OGPU" and "State (GetState tc) i"
  shows "shown sel (snd (OmpHAfter True syncClock_init tc)) i t = max (shown sel tc i t) t"
proof -
  have "joined sel i" using assms(1,2) by (simp add: joined_def)
  then show ?thesis
    using assms(3) by (simp add: shown_def sync_simps max_shift joined_is_sel)
qed

theorem unused_arc_lifts_running_clock_witness:
  "let tc = enterState True 7 0 STATE_OMP (threadClock_new 1 0 True)
   in State (GetState tc) CLOCK_OMPI \<and> shown critical tc CLOCK_OMPI 10 = 3 \<and>
      shown critical (snd (OmpHAfter True syncClock_init tc)) CLOCK_OMPI 10 = 10"
proof -
  let ?tc = "enterState True 7 0 STATE_OMP (threadClock_new 1 0 True)"
  have g: "GetState ?tc = STATE_OMP" by (simp add: GetState_def clock_simps)
  have s: "shown critical ?tc CLOCK_OMPI 10 = 3"
    by (simp add: shown_def g) (simp add: enterState_def Let_def clock_simps)
  show ?thesis
    using unused_arc_lifts_running_clock [of critical CLOCK_OMPI ?tc 10] g s by (simp add: Let_def)
qed

end
