(* ===== verification/Cpt_State_Stack.thy ===== *)
theory Cpt_State_Stack
  imports Cpt_Vector Cpt_Stopwatch
begin

text \<open>
  \<^verbatim>\<open>threadClock\<close> keeps its states in a \<^verbatim>\<open>Vector\<close>; \<^theory_text>\<open>Cpt_Clock\<close> uses a list, whose last element is
  unspecified when the list is empty.  Here the operations of the clock are written once more over the
  vector, where reading the back of an empty vector is undefined behaviour and the value \<^const>\<open>None\<close>, and
  a run of them is shown to be the run of the list model.
\<close>

section \<open>The operations of the clock on the vector\<close>

text \<open>The stack of the first component is not used; the vector stands for it.\<close>

type_synonym vec_clock = "threadClock \<times> ClockState Vector"

definition vec_threadClock_new :: "i32 \<Rightarrow> time \<Rightarrow> bool \<Rightarrow> vec_clock option" where
  "vec_threadClock_new threadid useful openmp = do {
     v \<leftarrow> Vector_push_back STATE_INIT Vector_new;
     Some (threadClock_new threadid useful openmp, v) }"

definition vec_enterState :: "bool \<Rightarrow> time \<Rightarrow> time \<Rightarrow> ClockState \<Rightarrow> vec_clock \<Rightarrow> vec_clock option" where
  "vec_enterState running now t cs = (\<lambda>(tc, v).
     if \<not> running then Some (tc, v)
     else do {
       old_cs \<leftarrow> Vector_getBack v;
       v \<leftarrow> Vector_push_back cs v;
       Some (SwitchState now old_cs cs t tc, v) })"

definition vec_exitState :: "bool \<Rightarrow> time \<Rightarrow> time \<Rightarrow> bool \<Rightarrow> vec_clock \<Rightarrow> vec_clock option" where
  "vec_exitState running now t isRunning = (\<lambda>(tc, v).
     if \<not> running \<or> \<not> isRunning then Some (tc, v)
     else do {
       old_cs \<leftarrow> Vector_getBack v;
       if old_cs = STATE_INIT then Some (tc, v)
       else do {
         v \<leftarrow> Vector_pop_back v;
         new_cs \<leftarrow> Vector_getBack v;
         Some (SwitchState now old_cs new_cs t tc, v) } })"

definition vec_setState :: "bool \<Rightarrow> time \<Rightarrow> time \<Rightarrow> ClockState \<Rightarrow> vec_clock \<Rightarrow> vec_clock option" where
  "vec_setState running now t cs = (\<lambda>(tc, v).
     if \<not> running \<and> cs \<noteq> STATE_INIT then Some (tc, v)
     else do {
       old_cs \<leftarrow> Vector_getBack v;
       v \<leftarrow> Vector_setBack cs v;
       Some (SwitchState now old_cs cs t tc, v) })"

definition vec_resetState :: "vec_clock \<Rightarrow> vec_clock option" where
  "vec_resetState = (\<lambda>(tc, v). do {
     v \<leftarrow> Vector_reset v;
     v \<leftarrow> Vector_push_back STATE_INIT v;
     Some (tc\<lparr>clocks := fold (\<lambda>i cl. cl(i := cp_Reset (cl i) 0)) clock_types (clocks tc)\<rparr>, v) })"

text \<open>
  A call with its arguments: \<open>analysis_flags->running\<close>, the time of day, the time handed over (0 for none) and
  the state or \<open>isRunning\<close>.
\<close>

datatype clock_call =
    Call_enter bool time time ClockState
  | Call_exit bool time time bool
  | Call_set bool time time ClockState
  | Call_reset

fun vec_call :: "clock_call \<Rightarrow> vec_clock \<Rightarrow> vec_clock option" where
  "vec_call (Call_enter running now t cs) c = vec_enterState running now t cs c"
| "vec_call (Call_exit running now t isRunning) c = vec_exitState running now t isRunning c"
| "vec_call (Call_set running now t cs) c = vec_setState running now t cs c"
| "vec_call Call_reset c = vec_resetState c"

fun list_call :: "clock_call \<Rightarrow> threadClock \<Rightarrow> threadClock" where
  "list_call (Call_enter running now t cs) tc = enterState running now t cs tc"
| "list_call (Call_exit running now t isRunning) tc = exitState running now t isRunning tc"
| "list_call (Call_set running now t cs) tc = setState running now t cs tc"
| "list_call Call_reset tc = resetState tc"

text \<open>
  How the tool uses the clock: \<^verbatim>\<open>setState\<close> is called with \<^const>\<open>STATE_INIT\<close> only, when a measurement ends or the
  tool stops.  Any other state would replace the bottom of a stack of depth one.
\<close>

fun tool_call :: "clock_call \<Rightarrow> bool" where
  "tool_call (Call_set running now t cs) = (cs = STATE_INIT)"
| "tool_call _ = True"

section \<open>The simulation\<close>

definition stack_sim :: "vec_clock \<Rightarrow> threadClock \<Rightarrow> bool" where
  "stack_sim c tc \<longleftrightarrow>
     (\<exists>up. vec_rep (snd c) (STATE_INIT # up) \<and> tc = (fst c)\<lparr>clock_state_stack := STATE_INIT # up\<rparr>)"

lemma SwitchState_stack:
  "SwitchState now a b t (tc\<lparr>clock_state_stack := st\<rparr>) = (SwitchState now a b t tc)\<lparr>clock_state_stack := st\<rparr>"
  by (simp add: SwitchState_def Let_def)

lemma enter_sim:
  assumes "stack_sim c tc"
  shows "\<exists>c'. vec_enterState running now t cs c = Some c' \<and> stack_sim c' (enterState running now t cs tc)"
proof -
  obtain a v up where c: "c = (a, v)" "vec_rep v (STATE_INIT # up)" "tc = a\<lparr>clock_state_stack := STATE_INIT # up\<rparr>"
    using assms by (cases c) (auto simp: stack_sim_def)
  show ?thesis using vs.push_ok [OF c(2), of cs] vs.top_ok [OF c(2)] c
    by (auto simp: vec_enterState_def enterState_def stack_sim_def SwitchState_stack GetState_def SwitchState_frame)
qed

lemma exit_sim:
  assumes "stack_sim c tc"
  shows "\<exists>c'. vec_exitState running now t isRunning c = Some c' \<and> stack_sim c' (exitState running now t isRunning tc)"
proof -
  obtain a v up where c: "c = (a, v)" "vec_rep v (STATE_INIT # up)" "tc = a\<lparr>clock_state_stack := STATE_INIT # up\<rparr>"
    using assms by (cases c) (auto simp: stack_sim_def)
  show ?thesis
  proof (cases "last (STATE_INIT # up) = STATE_INIT")
    case True
    then show ?thesis using vs.top_ok [OF c(2)] c
      by (auto simp: vec_exitState_def exitState_def stack_sim_def GetState_def)
  next
    case False
    then have ne: "butlast (STATE_INIT # up) = STATE_INIT # butlast up" by auto
    obtain v' where v': "Vector_pop_back v = Some v'" "vec_rep v' (STATE_INIT # butlast up)"
      using vs.pop_ok [OF c(2)] unfolding ne by auto
    show ?thesis using vs.top_ok [OF c(2)] vs.top_ok [OF v'(2)] v' c False
      by (auto simp: vec_exitState_def exitState_def stack_sim_def GetState_def SwitchState_stack Let_def ne
          simp del: butlast.simps last.simps)
  qed
qed

lemma set_sim:
  assumes "stack_sim c tc"
  shows "\<exists>c'. vec_setState running now t STATE_INIT c = Some c' \<and> stack_sim c' (setState running now t STATE_INIT tc)"
proof -
  obtain a v up where c: "c = (a, v)" "vec_rep v (STATE_INIT # up)" "tc = a\<lparr>clock_state_stack := STATE_INIT # up\<rparr>"
    using assms by (cases c) (auto simp: stack_sim_def)
  have "\<exists>w. butlast (STATE_INIT # up) @ [STATE_INIT] = STATE_INIT # w" by (cases up) auto
  then obtain w where w: "butlast (STATE_INIT # up) @ [STATE_INIT] = STATE_INIT # w" by blast
  show ?thesis using vs.set_top_ok [OF c(2), of STATE_INIT] vs.top_ok [OF c(2)] c
    by (auto simp: vec_setState_def setState_def stack_sim_def GetState_def SwitchState_stack SwitchState_frame Let_def w
        simp del: butlast.simps last.simps)
qed

lemma reset_sim:
  assumes "stack_sim c tc"
  shows "\<exists>c'. vec_resetState c = Some c' \<and> stack_sim c' (resetState tc)"
proof -
  obtain a v up where c: "c = (a, v)" "vec_rep v (STATE_INIT # up)" "tc = a\<lparr>clock_state_stack := STATE_INIT # up\<rparr>"
    using assms by (cases c) (auto simp: stack_sim_def)
  obtain v1 where v1: "Vector_reset v = Some v1" "vec_rep v1 []" using reset_rep [OF c(2)] vs.new_ok by auto
  obtain v2 where v2: "Vector_push_back STATE_INIT v1 = Some v2" "vec_rep v2 [STATE_INIT]"
    using vs.push_ok [OF v1(2)] by (metis append_Nil)
  then show ?thesis using v1 c by (auto simp: vec_resetState_def resetState_def stack_sim_def)
qed

lemma vec_call_sim:
  assumes "stack_sim c tc" and "tool_call k"
  shows "\<exists>c'. vec_call k c = Some c' \<and> stack_sim c' (list_call k tc)"
  using assms enter_sim [OF assms(1)] exit_sim [OF assms(1)] set_sim [OF assms(1)] reset_sim [OF assms(1)]
  by (cases k) (simp_all del: split_paired_Ex)

lemma vec_calls_sim:
  assumes "stack_sim c tc" and "list_all tool_call ks"
  shows "\<exists>c'. loop vec_call ks c = Some c' \<and> stack_sim c' (fold list_call ks tc)"
  using assms
proof (induction ks arbitrary: c tc)
  case (Cons k ks)
  then obtain c' where "vec_call k c = Some c'" "stack_sim c' (list_call k tc)" using vec_call_sim by fastforce
  with Cons show ?case by simp
qed simp

text \<open>
  C32: The state stack of a thread, kept in a vector: after the constructor any sequence of \<^verbatim>\<open>enterState\<close>
  (with any state), \<^verbatim>\<open>exitState\<close>, \<^verbatim>\<open>resetState\<close> and \<^verbatim>\<open>setState(STATE_INIT)\<close>, which is how the tool calls
  \<^verbatim>\<open>setState\<close>, with the tool running or not, runs on the vector without undefined behaviour; the clocks and the stack
  are those of the list model, and the bottom of the stack is \<^const>\<open>STATE_INIT\<close>.
\<close>

theorem state_stack_on_vector:
  assumes "list_all tool_call ks"
  shows "\<exists>c0 c. vec_threadClock_new n u omp = Some c0 \<and> loop vec_call ks c0 = Some c \<and>
           Vector_elems (snd c) = Some (clock_state_stack (fold list_call ks (threadClock_new n u omp))) \<and>
           clocks (fst c) = clocks (fold list_call ks (threadClock_new n u omp)) \<and>
           Vector_at 0 (snd c) = Some STATE_INIT"
proof -
  obtain v0 where v0: "Vector_push_back STATE_INIT Vector_new = Some v0" "vec_rep v0 [STATE_INIT]"
    using vs.push_ok [OF vs.new_ok] by (metis append_Nil)
  then have "stack_sim (threadClock_new n u omp, v0) (threadClock_new n u omp)"
    by (auto simp: stack_sim_def threadClock_new_def)
  from vec_calls_sim [OF this assms] obtain c up where c: "loop vec_call ks (threadClock_new n u omp, v0) = Some c"
      "vec_rep (snd c) (STATE_INIT # up)"
      "fold list_call ks (threadClock_new n u omp) = (fst c)\<lparr>clock_state_stack := STATE_INIT # up\<rparr>"
    by (auto simp: stack_sim_def)
  show ?thesis using v0(1) c elems_rep [OF c(2)] at_rep [OF c(2), of 0]
    by (simp add: vec_threadClock_new_def del: split_paired_Ex)
qed

theorem state_stack_on_vector_witness:
  "let ks = [Call_enter True 1 0 STATE_USEFUL, Call_enter True 5 0 STATE_MPI, Call_exit True 7 0 True,
             Call_enter True 8 0 STATE_OMP, Call_set False 9 0 STATE_INIT, Call_exit True 9 0 True]
   in list_all tool_call ks \<and>
     (\<exists>c0 c. vec_threadClock_new 0 0 False = Some c0 \<and> loop vec_call ks c0 = Some c \<and>
        Vector_elems (snd c) = Some [STATE_INIT, STATE_USEFUL, STATE_INIT] \<and> Vector_at 0 (snd c) = Some STATE_INIT)"
  using state_stack_on_vector [of "[Call_enter True 1 0 STATE_USEFUL, Call_enter True 5 0 STATE_MPI, Call_exit True 7 0 True,
             Call_enter True 8 0 STATE_OMP, Call_set False 9 0 STATE_INIT, Call_exit True 9 0 True]" 0 0 False]
  by (simp add: clock_simps GetState_def Let_def) blast

end
