(* ===== verification/Cpt_HashMap.thy ===== *)
theory Cpt_HashMap
  imports Cpt_Prelude "HOL-Library.Monad_Syntax"
begin

unbundle bit_operations_syntax

text \<open>
  \<^verbatim>\<open>containers/CompactHashMap.h\<close> and \<^verbatim>\<open>containers/Hash.h\<close>: the hash map behind the OpenMP
  dependency and lock tables and the tables of predefined MPI handles.  Items live in one
  array in the order of their insertion, the bucket heads behind it; an item's \<^verbatim>\<open>Next\<close> is the
  index of the item it was chained in front of.  A read of a bucket or item that does not
  exist, a placement over a constructed item, and a chain that does not end are the value
  \<^const>\<open>None\<close>.

  The hash function is an argument of the operations, as \<^verbatim>\<open>Hash<K>\<close> is chosen by the key type.
\<close>

section \<open>Hashing\<close>

text \<open>\<^verbatim>\<open>Hash<T>\<close> and \<^verbatim>\<open>Hash<T *>\<close> on the value converted to \<^verbatim>\<open>size_t\<close>.\<close>

definition Hash :: "u64 \<Rightarrow> u64" where
  "Hash val = val + drop_bit 5 val"

text \<open>A 32-bit signed key (\<^verbatim>\<open>MPI_Fint\<close>) is sign-extended by the conversion.\<close>

definition Hash_int :: "i32 \<Rightarrow> u64" where
  "Hash_int val = Hash (signed_take_bit 31 (ucast val))"

definition bucket :: "('k \<Rightarrow> u64) \<Rightarrow> u64 \<Rightarrow> 'k \<Rightarrow> nat" where
  "bucket hash msk key = unat (hash key AND msk)"

text \<open>The mask of a table with \<open>cap\<close> items and twice as many buckets.\<close>

definition mask_of :: "nat \<Rightarrow> u64" where
  "mask_of cap = of_nat (cap * 2 - 1)"

section \<open>The table\<close>

record ('k, 'v) PairListItem =
  first :: 'k
  second :: 'v
  Next :: "nat option"

text \<open>
  \<open>items\<close> are the constructed items from \<^verbatim>\<open>begin_\<close> on, \<open>hend\<close> is \<^verbatim>\<open>end_ - begin_\<close>, \<open>hcap\<close> is
  \<^verbatim>\<open>last_ - begin_\<close>, \<open>heads\<close> the array of bucket heads at \<^verbatim>\<open>last_\<close>.
\<close>

record ('k, 'v) CompactHashMap =
  items :: "('k, 'v) PairListItem list"
  hend :: nat
  hcap :: nat
  heads :: "nat option list"
  hmask :: u64

definition hm_new :: "('k, 'v) CompactHashMap" where
  "hm_new = \<lparr>items = [], hend = 0, hcap = 0, heads = [], hmask = 0\<rparr>"

definition hm_reset :: "('k, 'v) CompactHashMap \<Rightarrow> ('k, 'v) CompactHashMap" where
  "hm_reset m = \<lparr>items = [], hend = 0, hcap = 0, heads = [], hmask = 0\<rparr>"

definition hm_size :: "('k, 'v) CompactHashMap \<Rightarrow> nat" where
  "hm_size m = hend m"

definition hm_empty :: "('k, 'v) CompactHashMap \<Rightarrow> bool" where
  "hm_empty m \<longleftrightarrow> hend m = 0"

definition head_at :: "nat \<Rightarrow> nat option list \<Rightarrow> nat option option" where
  "head_at b hs = (if b < length hs then Some (hs ! b) else None)"

text \<open>
  The loop \<^verbatim>\<open>do \<dots> while ((it = it->Next))\<close>.  The first argument bounds the number of items
  visited; the callers pass one more than there are items.
\<close>

fun chain_find :: "nat \<Rightarrow> ('k, 'v) PairListItem list \<Rightarrow> 'k \<Rightarrow> nat option \<Rightarrow> nat option option" where
  "chain_find 0 its key it = None"
| "chain_find (Suc n) its key None = Some None"
| "chain_find (Suc n) its key (Some i) =
     (if i < length its
      then if first (its ! i) = key then Some (Some i) else chain_find n its key (Next (its ! i))
      else None)"

definition hm_search ::
  "('k \<Rightarrow> u64) \<Rightarrow> 'k \<Rightarrow> ('k, 'v) CompactHashMap \<Rightarrow> nat option option"
where
  "hm_search hash key m =
     (if hmask m = 0 then Some None
      else do {
        it \<leftarrow> head_at (bucket hash (hmask m) key) (heads m);
        chain_find (Suc (length (items m))) (items m) key it })"

text \<open>\<^verbatim>\<open>find\<close>: the index of the item, or that of \<^verbatim>\<open>end_\<close>.\<close>

definition hm_find :: "('k \<Rightarrow> u64) \<Rightarrow> 'k \<Rightarrow> ('k, 'v) CompactHashMap \<Rightarrow> nat option" where
  "hm_find hash key m = do {
     it \<leftarrow> hm_search hash key m;
     Some (case it of Some i \<Rightarrow> i | None \<Rightarrow> hend m) }"

function grow_cap :: "nat \<Rightarrow> nat \<Rightarrow> nat" where
  "grow_cap cap Size = (if cap = 0 \<or> Size \<le> cap then cap else grow_cap (cap * 2) Size)"
  by auto
termination by (relation "measure (\<lambda>(cap, Size). Size - cap)") auto

declare grow_cap.simps [simp del]

text \<open>
  The body of the loop that moves item \<open>i\<close> and chains it into the new heads: its \<^verbatim>\<open>Next\<close> is the
  old head of the bucket.
\<close>

definition chain_item ::
  "('k \<Rightarrow> u64) \<Rightarrow> u64 \<Rightarrow> ('k, 'v) PairListItem \<Rightarrow>
   ('k, 'v) PairListItem list \<times> nat option list \<Rightarrow> (('k, 'v) PairListItem list \<times> nat option list) option"
where
  "chain_item hash msk it s = (case s of (its, hs) \<Rightarrow>
     do {
       old \<leftarrow> head_at (bucket hash msk (first it)) hs;
       Some (its @ [it\<lparr>Next := old\<rparr>], hs[bucket hash msk (first it) := Some (length its)]) })"

fun chain_all where
  "chain_all hash msk [] s = Some s"
| "chain_all hash msk (it # its) s = do { s' \<leftarrow> chain_item hash msk it s; chain_all hash msk its s' }"

definition hm_ReHash ::
  "('k \<Rightarrow> u64) \<Rightarrow> nat \<Rightarrow> ('k, 'v) CompactHashMap \<Rightarrow> (bool \<times> ('k, 'v) CompactHashMap) option"
where
  "hm_ReHash hash Size m =
     (if Size \<le> hm_size m then Some (False, m)
      else if Size \<le> hcap m then Some (False, m\<lparr>hend := Size\<rparr>)
      else do {
        let cap = hcap m * 2;
        let cap = (if cap = 0 then 16 else cap);
        let cap = grow_cap cap Size;
        let msk = mask_of cap;
        (its, hs) \<leftarrow> chain_all hash msk (items m) ([], replicate (cap * 2) None);
        Some (True, \<lparr>items = its, hend = Size, hcap = cap, heads = hs, hmask = msk\<rparr>) })"

text \<open>The common end of \<^verbatim>\<open>operator[]\<close> and \<^verbatim>\<open>insert\<close>: make room, construct the item, chain it in.\<close>

definition hm_append ::
  "('k \<Rightarrow> u64) \<Rightarrow> 'k \<Rightarrow> 'v \<Rightarrow> ('k, 'v) CompactHashMap \<Rightarrow> (nat \<times> ('k, 'v) CompactHashMap) option"
where
  "hm_append hash key val m = do {
     (grown, m) \<leftarrow> hm_ReHash hash (hm_size m + 1) m;
     let m = (if grown then m\<lparr>hmask := mask_of (hcap m)\<rparr> else m);
     let it = hend m - 1;
     if it = length (items m) \<and> it < hcap m
     then do {
       (its, hs) \<leftarrow> chain_item hash (hmask m) \<lparr>first = key, second = val, Next = None\<rparr> (items m, heads m);
       Some (it, m\<lparr>items := its, heads := hs\<rparr>) }
     else None }"

text \<open>\<^verbatim>\<open>operator[]\<close> returns a reference to \<^verbatim>\<open>second\<close>, here the index of its item; \<open>dflt\<close> is \<^verbatim>\<open>V()\<close>.\<close>

definition hm_index ::
  "('k \<Rightarrow> u64) \<Rightarrow> 'v \<Rightarrow> 'k \<Rightarrow> ('k, 'v) CompactHashMap \<Rightarrow> (nat \<times> ('k, 'v) CompactHashMap) option"
where
  "hm_index hash dflt key m = do {
     it \<leftarrow> hm_search hash key m;
     case it of Some i \<Rightarrow> Some (i, m) | None \<Rightarrow> hm_append hash key dflt m }"

definition hm_insert ::
  "('k \<Rightarrow> u64) \<Rightarrow> 'k \<Rightarrow> 'v \<Rightarrow> ('k, 'v) CompactHashMap \<Rightarrow> ((nat \<times> bool) \<times> ('k, 'v) CompactHashMap) option"
where
  "hm_insert hash key val m = do {
     it \<leftarrow> hm_search hash key m;
     case it of
       Some i \<Rightarrow> Some ((i, False), m)
     | None \<Rightarrow> do { (i, m) \<leftarrow> hm_append hash key val m; Some ((i, True), m) } }"

text \<open>Reading and writing through the reference, and \<^verbatim>\<open>map[key] = val\<close>.\<close>

definition hm_deref :: "nat \<Rightarrow> ('k, 'v) CompactHashMap \<Rightarrow> 'v option" where
  "hm_deref i m = (if i < length (items m) then Some (second (items m ! i)) else None)"

definition hm_store :: "nat \<Rightarrow> 'v \<Rightarrow> ('k, 'v) CompactHashMap \<Rightarrow> ('k, 'v) CompactHashMap option" where
  "hm_store i val m =
     (if i < length (items m)
      then Some (m\<lparr>items := (items m)[i := (items m ! i)\<lparr>second := val\<rparr>]\<rparr>) else None)"

definition hm_put ::
  "('k \<Rightarrow> u64) \<Rightarrow> 'v \<Rightarrow> 'k \<Rightarrow> 'v \<Rightarrow> ('k, 'v) CompactHashMap \<Rightarrow> ('k, 'v) CompactHashMap option"
where
  "hm_put hash dflt key val m = do { (i, m) \<leftarrow> hm_index hash dflt key m; hm_store i val m }"

definition hm_get ::
  "('k \<Rightarrow> u64) \<Rightarrow> 'k \<Rightarrow> ('k, 'v) CompactHashMap \<Rightarrow> 'v option option"
where
  "hm_get hash key m = do {
     i \<leftarrow> hm_find hash key m;
     if i = hend m then Some None else map_option Some (hm_deref i m) }"

section \<open>Chains\<close>

text \<open>The last index below \<open>n\<close> whose key falls into bucket \<open>b\<close>.\<close>

primrec last_in :: "('k \<Rightarrow> nat) \<Rightarrow> 'k list \<Rightarrow> nat \<Rightarrow> nat \<Rightarrow> nat option" where
  "last_in bk ks b 0 = None"
| "last_in bk ks b (Suc n) = (if bk (ks ! n) = b then Some n else last_in bk ks b n)"

abbreviation keys :: "('k, 'v) PairListItem list \<Rightarrow> 'k list" where
  "keys its \<equiv> map first its"

definition chained :: "('k \<Rightarrow> nat) \<Rightarrow> ('k, 'v) PairListItem list \<Rightarrow> nat option list \<Rightarrow> bool" where
  "chained bk its hs \<longleftrightarrow>
     (\<forall>i < length its. Next (its ! i) = last_in bk (keys its) (bk (first (its ! i))) i) \<and>
     (\<forall>b < length hs. hs ! b = last_in bk (keys its) b (length its))"

lemma last_in_append: "n \<le> length ks \<Longrightarrow> last_in bk (ks @ ks') b n = last_in bk ks b n"
  by (induction n) (auto simp: nth_append)

lemma chained_append:
  assumes "chained bk its hs" and "bk (first it) < length hs"
  shows "chained bk (its @ [it\<lparr>Next := hs ! bk (first it)\<rparr>]) (hs[bk (first it) := Some (length its)])"
  using assms by (auto simp: chained_def nth_append last_in_append nth_list_update less_Suc_eq)

lemma chain_find_last_in:
  assumes "chained bk its hs"
  shows "n \<le> length its \<Longrightarrow> n < fuel \<Longrightarrow>
    chain_find fuel its key (last_in bk (keys its) (bk key) n) =
      Some (last_in (\<lambda>k. if k = key then 0 else Suc 0) (keys its) 0 n)"
proof (induction n arbitrary: fuel)
  case 0
  then show ?case by (cases fuel) simp_all
next
  case (Suc n)
  obtain f where f: "fuel = Suc f" using Suc.prems(2) by (cases fuel) simp_all
  show ?case
  proof (cases "bk (keys its ! n) = bk key")
    case True
    then have nxt: "Next (its ! n) = last_in bk (keys its) (bk key) n"
      using assms Suc.prems(1) by (simp add: chained_def)
    then show ?thesis
      using Suc.IH [of f] Suc.prems True by (simp add: f)
  next
    case False
    then show ?thesis
      using Suc.IH [of fuel] Suc.prems by auto
  qed
qed

text \<open>For distinct keys the last index with a key is the only one.\<close>

lemma last_in_index:
  "n \<le> length ks \<Longrightarrow> distinct ks \<Longrightarrow>
    (last_in (\<lambda>k. if k = key then 0 else Suc 0) ks 0 n = Some i) = (i < n \<and> ks ! i = key)"
  by (induction n) (auto simp: nth_eq_iff_index_eq less_Suc_eq)

lemma last_in_none:
  "n \<le> length ks \<Longrightarrow>
    (last_in (\<lambda>k. if k = key then 0 else Suc 0) ks 0 n = None) = (key \<notin> set (take n ks))"
  by (induction n) (auto simp: take_Suc_conv_app_nth)

lemma grow_cap_ge: "0 < cap \<Longrightarrow> Size \<le> grow_cap cap Size \<and> cap \<le> grow_cap cap Size"
proof (induction cap Size rule: grow_cap.induct)
  case (1 cap Size)
  then show ?case by (subst (1 2) grow_cap.simps) auto
qed

section \<open>The invariant\<close>

definition hm_ok :: "('k \<Rightarrow> u64) \<Rightarrow> ('k, 'v) CompactHashMap \<Rightarrow> bool" where
  "hm_ok hash m \<longleftrightarrow>
     hend m = length (items m) \<and> hend m \<le> hcap m \<and> length (heads m) = hcap m * 2 \<and>
     hmask m = (if hcap m = 0 then 0 else mask_of (hcap m)) \<and>
     distinct (keys (items m)) \<and> chained (bucket hash (hmask m)) (items m) (heads m)"

definition hm_entries :: "('k, 'v) CompactHashMap \<Rightarrow> ('k \<times> 'v) list" where
  "hm_entries m = map (\<lambda>it. (first it, second it)) (items m)"

definition hm_map :: "('k, 'v) CompactHashMap \<Rightarrow> 'k \<rightharpoonup> 'v" where
  "hm_map m = map_of (hm_entries m)"

lemma hm_new_ok [simp]: "hm_ok hash hm_new" "hm_entries hm_new = []"
  by (simp_all add: hm_ok_def hm_new_def chained_def hm_entries_def)

lemma odd_mask_nonzero:
  assumes "0 < cap"
  shows "mask_of cap \<noteq> 0"
proof
  assume "mask_of cap = 0"
  then have "2 ^ 64 dvd cap * 2 - 1" by (simp only: mask_of_def word_of_nat_eq_0_iff) simp
  then have "2 dvd cap * 2 - 1" by (rule dvd_trans [rotated]) simp
  then show False using assms by presburger
qed

lemma bucket_less:
  assumes "0 < cap"
  shows "bucket hash (mask_of cap) key < cap * 2"
proof -
  have "unat (hash key AND mask_of cap) \<le> unat (mask_of cap)"
    using word_and_le1 [of "hash key" "mask_of cap"] by (simp only: word_le_nat_alt)
  also have "\<dots> \<le> cap * 2 - 1" by (simp only: mask_of_def unat_of_nat mod_less_eq_dividend)
  finally show ?thesis using assms by (simp add: bucket_def)
qed

lemma hm_ok_mask:
  assumes "hm_ok hash m"
  shows "hmask m = 0 \<longleftrightarrow> hcap m = 0"
    and "hcap m \<noteq> 0 \<Longrightarrow> bucket hash (hmask m) key < length (heads m)"
  using assms odd_mask_nonzero [of "hcap m"] bucket_less [of "hcap m" hash key]
  by (auto simp: hm_ok_def)

lemma hm_search_ok:
  assumes "hm_ok hash m"
  shows "hm_search hash key m =
    Some (last_in (\<lambda>k. if k = key then 0 else Suc 0) (keys (items m)) 0 (length (items m)))"
proof (cases "hcap m = 0")
  case True
  then have "items m = []" "hmask m = 0" using assms by (auto simp: hm_ok_def)
  then show ?thesis by (simp add: hm_search_def)
next
  case False
  let ?b = "bucket hash (hmask m) key"
  have ch: "chained (bucket hash (hmask m)) (items m) (heads m)" using assms unfolding hm_ok_def by blast
  have "head_at ?b (heads m) = Some (last_in (bucket hash (hmask m)) (keys (items m)) ?b (length (items m)))"
    using hm_ok_mask(2) [OF assms False, of key] ch by (simp add: head_at_def chained_def)
  then show ?thesis
    using chain_find_last_in [OF ch order_refl, of "Suc (length (items m))" key]
      hm_ok_mask(1) [OF assms] False
    by (simp add: hm_search_def)
qed

lemma hm_search_Some:
  assumes "hm_ok hash m"
  shows "hm_search hash key m = Some (Some i) \<longleftrightarrow> i < length (items m) \<and> first (items m ! i) = key"
proof -
  have "distinct (keys (items m))" using assms by (simp add: hm_ok_def)
  from last_in_index [OF _ this, of "length (items m)" key i] show ?thesis
    unfolding hm_search_ok [OF assms] option.inject by (auto simp del: last_in.simps)
qed

lemma hm_search_None:
  assumes "hm_ok hash m"
  shows "hm_search hash key m = Some None \<longleftrightarrow> key \<notin> set (keys (items m))"
  using last_in_none [of "length (items m)" "keys (items m)" key] by (simp add: hm_search_ok [OF assms])

lemma chain_all_ok:
  assumes "chained (bucket hash msk) its hs" and "\<And>k. bucket hash msk k < length hs"
  shows "\<exists>its' hs'. chain_all hash msk news (its, hs) = Some (its', hs') \<and>
     chained (bucket hash msk) its' hs' \<and> length hs' = length hs \<and>
     map (\<lambda>it. (first it, second it)) its' = map (\<lambda>it. (first it, second it)) (its @ news)"
  using assms
proof (induction news arbitrary: its hs)
  case (Cons it news)
  let ?b = "bucket hash msk (first it)"
  have "chained (bucket hash msk) (its @ [it\<lparr>Next := hs ! ?b\<rparr>]) (hs[?b := Some (length its)])"
    using chained_append [OF Cons.prems(1)] Cons.prems(2) by blast
  from Cons.IH [OF this] show ?case
    using Cons.prems(2) by (simp add: chain_item_def head_at_def)
qed simp

lemma hm_ReHash_ok:
  assumes "hm_ok hash m"
  shows "\<exists>g m'. hm_ReHash hash (hm_size m + 1) m = Some (g, m') \<and> hend m' = Suc (length (items m')) \<and>
     hend m' \<le> hcap m' \<and> length (heads m') = hcap m' * 2 \<and> hmask m' = mask_of (hcap m') \<and>
     chained (bucket hash (hmask m')) (items m') (heads m') \<and> hm_entries m' = hm_entries m"
proof (cases "hm_size m + 1 \<le> hcap m")
  case True
  then have "hm_ReHash hash (hm_size m + 1) m = Some (False, m\<lparr>hend := hm_size m + 1\<rparr>)"
    by (simp add: hm_ReHash_def)
  moreover have "hcap m \<noteq> 0" using True by linarith
  ultimately show ?thesis
    using assms True unfolding hm_ok_def hm_size_def by (auto simp: hm_entries_def)
next
  case False
  define cap where "cap = grow_cap (if hcap m * 2 = 0 then 16 else hcap m * 2) (hm_size m + 1)"
  define msk :: u64 where "msk = mask_of cap"
  have cap: "hm_size m + 1 \<le> cap" "0 < cap"
    using grow_cap_ge [of "if hcap m * 2 = 0 then 16 else hcap m * 2" "hm_size m + 1"]
    by (auto simp: cap_def split: if_splits)
  have "chained (bucket hash msk) [] (replicate (cap * 2) None)"
    by (simp add: chained_def)
  moreover have "bucket hash msk k < length (replicate (cap * 2) None)" for k
    using bucket_less [OF cap(2)] by (simp add: msk_def)
  ultimately obtain its hs where its: "chain_all hash msk (items m) ([], replicate (cap * 2) None) = Some (its, hs)"
      "chained (bucket hash msk) its hs" "length hs = cap * 2"
      "map (\<lambda>it. (first it, second it)) its = map (\<lambda>it. (first it, second it)) (items m)"
    using chain_all_ok [of hash msk "[]" "replicate (cap * 2) None" "items m"] by auto
  have "length its = length (items m)"
    using its(4) by (metis length_map)
  moreover have "hend m = length (items m)" using assms unfolding hm_ok_def by blast
  ultimately show ?thesis
    using False cap its unfolding hm_ReHash_def Let_def cap_def [symmetric] msk_def [symmetric]
    by (auto simp: hm_size_def hm_entries_def msk_def)
qed

lemma keys_entries: "keys (items m) = map fst (hm_entries m)"
  by (simp add: hm_entries_def)

lemma hm_append_ok:
  assumes "hm_ok hash m" and new: "key \<notin> set (map fst (hm_entries m))"
  shows "\<exists>m'. hm_append hash key val m = Some (length (items m), m') \<and> hm_ok hash m' \<and>
              hm_entries m' = hm_entries m @ [(key, val)]"
proof -
  obtain g r where r: "hm_ReHash hash (hm_size m + 1) m = Some (g, r)"
      "hend r = Suc (length (items r))" "hend r \<le> hcap r" "length (heads r) = hcap r * 2"
      "hmask r = mask_of (hcap r)" "chained (bucket hash (hmask r)) (items r) (heads r)"
      "hm_entries r = hm_entries m"
    using hm_ReHash_ok [OF assms(1)] by blast
  let ?b = "bucket hash (hmask r) key"
  let ?it = "\<lparr>first = key, second = val, Next = heads r ! ?b\<rparr>"
  let ?m = "r\<lparr>items := items r @ [?it], heads := (heads r)[?b := Some (length (items r))]\<rparr>"
  have b: "?b < length (heads r)" using r(2-5) bucket_less [of "hcap r" hash key] by simp
  have same: "(if g then r\<lparr>hmask := mask_of (hcap r)\<rparr> else r) = r" using r(5) by simp
  have len: "length (items r) = length (items m)"
    using r(7) by (metis hm_entries_def length_map)
  have "hm_append hash key val m = Some (length (items m), ?m)"
    using r(2,3) b len unfolding hm_append_def r(1) Option.bind.bind_lunit prod.case Let_def same
    by (simp add: chain_item_def head_at_def)
  moreover have "chained (bucket hash (hmask r)) (items ?m) (heads ?m)"
    using chained_append [OF r(6), of "\<lparr>first = key, second = val, Next = None\<rparr>"] b by simp
  moreover have "hm_entries ?m = hm_entries m @ [(key, val)]"
    using r(7) by (simp add: hm_entries_def)
  moreover have "distinct (keys (items ?m))"
    using assms unfolding keys_entries calculation(3) by (simp add: hm_ok_def keys_entries)
  ultimately show ?thesis
    using r(2-5) by (auto simp: hm_ok_def)
qed

lemma hm_search_cases:
  assumes "hm_ok hash m"
  obtains (found) i where "hm_search hash key m = Some (Some i)" "i < length (items m)"
      "hm_entries m ! i = (key, second (items m ! i))" "hm_map m key = Some (second (items m ! i))"
    | (absent) "hm_search hash key m = Some None" "key \<notin> set (map fst (hm_entries m))" "hm_map m key = None"
proof -
  obtain r where r: "hm_search hash key m = Some r" using hm_search_ok [OF assms] by blast
  show ?thesis
  proof (cases r)
    case None
    then show ?thesis
      using absent r hm_search_None [OF assms, of key] by (simp add: hm_map_def map_of_eq_None_iff keys_entries)
  next
    case (Some i)
    then have i: "i < length (items m)" "first (items m ! i) = key"
      using r hm_search_Some [OF assms, of key i] by simp_all
    have e: "hm_entries m ! i = (key, second (items m ! i))" "i < length (hm_entries m)"
      using i by (simp_all add: hm_entries_def)
    have "distinct (map fst (hm_entries m))" using assms by (simp add: hm_ok_def keys_entries)
    then have "hm_map m key = Some (second (items m ! i))"
      using e by (metis hm_map_def map_of_eq_Some_iff nth_mem)
    then show ?thesis using found r Some i e by blast
  qed
qed

lemma hm_insert_ok:
  assumes "hm_ok hash m"
  shows "\<exists>i b m'. hm_insert hash key val m = Some ((i, b), m') \<and> hm_ok hash m' \<and>
     (case hm_map m key of
        Some old \<Rightarrow> \<not> b \<and> m' = m \<and> hm_entries m' ! i = (key, old)
      | None \<Rightarrow> b \<and> hm_entries m' = hm_entries m @ [(key, val)] \<and> i = length (hm_entries m))"
  by (rule hm_search_cases [OF assms, of key])
     (use assms hm_append_ok [OF assms, of key val] in \<open>auto simp: hm_insert_def hm_entries_def\<close>)

lemma hm_store_ok:
  assumes "hm_ok hash m" and "i < length (items m)"
  shows "\<exists>m'. hm_store i val m = Some m' \<and> hm_ok hash m' \<and>
              hm_entries m' = (hm_entries m)[i := (fst (hm_entries m ! i), val)]"
proof -
  let ?its = "(items m)[i := (items m ! i)\<lparr>second := val\<rparr>]"
  have k: "keys ?its = keys (items m)"
    using assms(2) by (auto simp: map_update intro!: nth_equalityI simp: nth_list_update)
  have "\<forall>j < length (items m). first (?its ! j) = first (items m ! j) \<and> Next (?its ! j) = Next (items m ! j)"
    using assms(2) by (auto simp: nth_list_update)
  then have "hm_ok hash (m\<lparr>items := ?its\<rparr>)"
    using assms unfolding hm_ok_def chained_def by (simp add: k)
  then show ?thesis using assms(2) by (auto simp: hm_store_def hm_entries_def map_update)
qed

lemma hm_index_ok:
  assumes "hm_ok hash m"
  shows "\<exists>i m'. hm_index hash dflt key m = Some (i, m') \<and> hm_ok hash m' \<and> i < length (items m') \<and>
     first (items m' ! i) = key \<and>
     hm_entries m' = (if key \<in> dom (hm_map m) then hm_entries m else hm_entries m @ [(key, dflt)])"
proof (rule hm_search_cases [OF assms, of key])
  fix i
  assume a: "hm_search hash key m = Some (Some i)" "i < length (items m)"
    "hm_entries m ! i = (key, second (items m ! i))" "hm_map m key = Some (second (items m ! i))"
  then show ?thesis using assms by (auto simp: hm_index_def hm_entries_def)
next
  assume a: "hm_search hash key m = Some None" "key \<notin> set (map fst (hm_entries m))" "hm_map m key = None"
  obtain m' where m': "hm_append hash key dflt m = Some (length (items m), m')" "hm_ok hash m'"
      "hm_entries m' = hm_entries m @ [(key, dflt)]"
    using hm_append_ok [OF assms a(2)] by blast
  have l: "length (items m') = Suc (length (items m))"
    using arg_cong [OF m'(3), of length] by (simp add: hm_entries_def)
  have "keys (items m') ! length (items m) = key"
    using m'(3) by (simp add: keys_entries nth_append) (simp add: hm_entries_def)
  then show ?thesis using a m' l by (auto simp: hm_index_def)
qed

text \<open>The same three operations as seen by a caller that keeps values in the table.\<close>

lemma hm_map_at: "hm_ok hash m \<Longrightarrow> i < length (items m) \<Longrightarrow> hm_map m (first (items m ! i)) = Some (second (items m ! i))"
proof -
  assume ok: "hm_ok hash m" and i: "i < length (items m)"
  then have "distinct (map fst (hm_entries m))" by (simp add: hm_ok_def keys_entries)
  moreover have "(first (items m ! i), second (items m ! i)) \<in> set (hm_entries m)" using i by (auto simp: hm_entries_def)
  ultimately show ?thesis by (simp add: hm_map_def)
qed

lemma hm_insert_map:
  assumes "hm_ok hash m"
  shows "\<exists>i b m'. hm_insert hash key val m = Some ((i, b), m') \<and> hm_ok hash m' \<and> i < length (items m') \<and>
     first (items m' ! i) = key \<and> hm_map m' = (hm_map m)(key \<mapsto> case hm_map m key of Some old \<Rightarrow> old | None \<Rightarrow> val) \<and>
     b = (hm_map m key = None)"
proof (rule hm_search_cases [OF assms, of key])
  fix i
  assume a: "hm_search hash key m = Some (Some i)" "i < length (items m)"
    "hm_entries m ! i = (key, second (items m ! i))" "hm_map m key = Some (second (items m ! i))"
  then show ?thesis using assms by (auto simp: hm_insert_def hm_entries_def fun_eq_iff)
next
  assume a: "hm_search hash key m = Some None" "key \<notin> set (map fst (hm_entries m))" "hm_map m key = None"
  obtain m' where m': "hm_append hash key val m = Some (length (items m), m')" "hm_ok hash m'"
      "hm_entries m' = hm_entries m @ [(key, val)]"
    using hm_append_ok [OF assms a(2)] by blast
  have l: "length (items m') = Suc (length (items m))"
    using arg_cong [OF m'(3), of length] by (simp add: hm_entries_def)
  have "keys (items m') ! length (items m) = key"
    using m'(3) by (simp add: keys_entries nth_append) (simp add: hm_entries_def)
  moreover have "hm_map m' = (hm_map m)(key \<mapsto> val)"
    using m'(3) a(2,3) by (auto simp: hm_map_def map_add_def fun_eq_iff split: option.split)
  ultimately show ?thesis using a m' l by (auto simp: hm_insert_def)
qed

lemma hm_store_map:
  assumes "hm_ok hash m" and "i < length (items m)"
  shows "\<exists>m'. hm_store i val m = Some m' \<and> hm_ok hash m' \<and> hm_map m' = (hm_map m)(first (items m ! i) \<mapsto> val)"
proof -
  obtain m' where m': "hm_store i val m = Some m'" "hm_ok hash m'"
      "hm_entries m' = (hm_entries m)[i := (fst (hm_entries m ! i), val)]"
    using hm_store_ok [OF assms] by blast
  have "hm_map m' k = ((hm_map m)(first (items m ! i) \<mapsto> val)) k" for k
  proof -
    have d: "distinct (map fst (hm_entries m))" "distinct (map fst (hm_entries m'))"
      using assms(1) m'(2) by (simp_all add: hm_ok_def keys_entries)
    have i: "i < length (hm_entries m)" "fst (hm_entries m ! i) = first (items m ! i)"
      using assms(2) by (simp_all add: hm_entries_def)
    have "map_of (hm_entries m') k = Some v \<longleftrightarrow> (if k = first (items m ! i) then v = val else map_of (hm_entries m) k = Some v)" for v
      using d i unfolding map_of_eq_Some_iff [OF d(1)] map_of_eq_Some_iff [OF d(2)] unfolding m'(3)
      by (auto simp: in_set_conv_nth nth_list_update distinct_conv_nth split: if_splits; metis fst_conv)
    then have "map_of (hm_entries m') k = ((map_of (hm_entries m))(first (items m ! i) \<mapsto> val)) k"
      by (intro option.expand) (metis fun_upd_apply not_None_eq option.sel, metis fun_upd_apply not_None_eq option.sel)
    then show ?thesis by (simp add: hm_map_def)
  qed
  then show ?thesis using m' by blast
qed

lemma hm_index_map:
  assumes "hm_ok hash m" and "hm_map m key = Some v"
  shows "\<exists>i m'. hm_index hash dflt key m = Some (i, m') \<and> hm_ok hash m' \<and> hm_map m' = hm_map m \<and> hm_deref i m' = Some v"
proof -
  obtain i m' where m': "hm_index hash dflt key m = Some (i, m')" "hm_ok hash m'" "i < length (items m')"
      "first (items m' ! i) = key" "hm_entries m' = hm_entries m"
    using hm_index_ok [OF assms(1), of dflt key] assms(2) by (metis domI)
  then have "hm_map m' = hm_map m" by (simp add: hm_map_def)
  then show ?thesis using m' hm_map_at [OF m'(2,3)] assms(2) by (auto simp: hm_deref_def)
qed

lemma hm_put_ok:
  assumes "hm_ok hash m"
  shows "\<exists>m'. hm_put hash dflt key val m = Some m' \<and> hm_ok hash m' \<and>
              hm_entries m' = upsert key val (hm_entries m)"
proof -
  obtain i r where r: "hm_index hash dflt key m = Some (i, r)" "hm_ok hash r" "i < length (items r)"
      "first (items r ! i) = key"
      "hm_entries r = (if key \<in> dom (hm_map m) then hm_entries m else hm_entries m @ [(key, dflt)])"
    using hm_index_ok [OF assms] by blast
  obtain m' where m': "hm_store i val r = Some m'" "hm_ok hash m'"
      "hm_entries m' = (hm_entries r)[i := (fst (hm_entries r ! i), val)]"
    using hm_store_ok [OF r(2,3)] by blast
  have i: "i < length (hm_entries r)" "fst (hm_entries r ! i) = key"
    using r(3,4) by (simp_all add: hm_entries_def)
  have "distinct (map fst (hm_entries r))"
    using r(2) by (simp add: hm_ok_def keys_entries)
  then have "hm_entries m' = upsert key val (hm_entries r)"
    using m'(3) i by (simp add: upsert_nth)
  also have "\<dots> = upsert key val (hm_entries m)"
  proof (cases "key \<in> dom (hm_map m)")
    case False
    then have n: "key \<notin> fst ` set (hm_entries m)"
      by (simp add: hm_map_def dom_map_of_conv_image_fst)
    then have "upsert key val (hm_entries m @ [(key, dflt)]) = hm_entries m @ [(key, val)]"
      by (rule upsert_snoc)
    then show ?thesis using r(5) False by (simp add: upsert_new [OF n])
  qed (use r(5) in simp)
  finally show ?thesis using r(1) m'(1,2) by (simp add: hm_put_def)
qed

lemma hm_get_ok:
  assumes "hm_ok hash m"
  shows "hm_get hash key m = Some (hm_map m key)"
proof (rule hm_search_cases [OF assms, of key])
  fix i
  assume a: "hm_search hash key m = Some (Some i)" "i < length (items m)"
    "hm_entries m ! i = (key, second (items m ! i))" "hm_map m key = Some (second (items m ! i))"
  have "hend m = length (items m)" using assms unfolding hm_ok_def by blast
  then show ?thesis using a by (simp add: hm_get_def hm_find_def hm_deref_def)
qed (simp add: hm_get_def hm_find_def)

section \<open>The map interface\<close>

text \<open>
  What the clients of a table rely on.  A result is optional because the table's code is
  partial; the laws say that it is there on every table the operations can produce.
\<close>

locale map_contract =
  fixes ok :: "'t \<Rightarrow> bool"
    and abs :: "'t \<Rightarrow> 'k \<rightharpoonup> 'v"
    and new :: 't
    and put :: "'k \<Rightarrow> 'v \<Rightarrow> 't \<Rightarrow> 't option"
    and get :: "'k \<Rightarrow> 't \<Rightarrow> 'v option option"
  assumes new_ok: "ok new" "abs new = Map.empty"
    and put_ok: "ok t \<Longrightarrow> \<exists>t'. put k v t = Some t' \<and> ok t' \<and> abs t' = (abs t)(k \<mapsto> v)"
    and get_ok: "ok t \<Longrightarrow> get k t = Some (abs t k)"
begin

fun puts :: "('k \<times> 'v) list \<Rightarrow> 't \<Rightarrow> 't option" where
  "puts [] t = Some t"
| "puts ((k, v) # kvs) t = do { t \<leftarrow> put k v t; puts kvs t }"

lemma puts_ok:
  "ok t \<Longrightarrow> \<exists>t'. puts kvs t = Some t' \<and> ok t' \<and> abs t' = abs t ++ map_of (rev kvs)"
proof (induction kvs arbitrary: t)
  case (Cons kv kvs)
  obtain k v where kv: "kv = (k, v)" by (cases kv)
  obtain t1 where t1: "put k v t = Some t1" "ok t1" "abs t1 = (abs t)(k \<mapsto> v)"
    using put_ok [OF Cons.prems] by blast
  obtain t2 where t2: "puts kvs t1 = Some t2" "ok t2" "abs t2 = abs t1 ++ map_of (rev kvs)"
    using Cons.IH [OF t1(2)] by blast
  then show ?case by (simp add: kv t1)
qed simp

lemma puts_get:
  assumes "puts kvs new = Some t"
  shows "get k t = Some (map_of (rev kvs) k)"
  using puts_ok [OF new_ok(1), of kvs] assms by (auto simp: new_ok(2) get_ok)

end

interpretation hm: map_contract "hm_ok hash" hm_map hm_new "hm_put hash dflt" "hm_get hash"
  for hash :: "'k \<Rightarrow> u64" and dflt :: 'v
  by unfold_locales
     (use hm_put_ok in \<open>fastforce simp: hm_get_ok hm_map_def\<close>)+

section \<open>Claims\<close>

datatype ('k, 'v) hm_op = Put 'k 'v | Insert 'k 'v | Index 'k

fun hm_exec ::
  "('k \<Rightarrow> u64) \<Rightarrow> 'v \<Rightarrow> ('k, 'v) hm_op list \<Rightarrow> ('k, 'v) CompactHashMap \<Rightarrow> ('k, 'v) CompactHashMap option"
where
  "hm_exec hash dflt [] m = Some m"
| "hm_exec hash dflt (Put k v # ops) m = do { m \<leftarrow> hm_put hash dflt k v m; hm_exec hash dflt ops m }"
| "hm_exec hash dflt (Insert k v # ops) m =
     do { (_, m) \<leftarrow> hm_insert hash k v m; hm_exec hash dflt ops m }"
| "hm_exec hash dflt (Index k # ops) m =
     do { (_, m) \<leftarrow> hm_index hash dflt k m; hm_exec hash dflt ops m }"

text \<open>The same on a list of entries in the order of their first insertion.\<close>

fun spec_op :: "'v \<Rightarrow> ('k, 'v) hm_op \<Rightarrow> ('k \<times> 'v) list \<Rightarrow> ('k \<times> 'v) list" where
  "spec_op dflt (Put k v) es = upsert k v es"
| "spec_op dflt (Insert k v) es = (if k \<in> fst ` set es then es else es @ [(k, v)])"
| "spec_op dflt (Index k) es = (if k \<in> fst ` set es then es else es @ [(k, dflt)])"

lemma hm_exec_ok:
  "hm_ok hash m \<Longrightarrow> \<exists>m'. hm_exec hash dflt ops m = Some m' \<and> hm_ok hash m' \<and>
                      hm_entries m' = fold (spec_op dflt) ops (hm_entries m)"
proof (induction ops arbitrary: m)
  case (Cons op ops)
  have dom: "k \<in> fst ` set (hm_entries m) \<longleftrightarrow> hm_map m k \<noteq> None" for k
    by (simp add: hm_map_def map_of_eq_None_iff)
  have "\<exists>m1. hm_exec hash dflt (op # ops) m = hm_exec hash dflt ops m1 \<and> hm_ok hash m1 \<and>
             hm_entries m1 = spec_op dflt op (hm_entries m)"
  proof (cases op)
    case (Put k v)
    then show ?thesis using hm_put_ok [OF Cons.prems, of dflt k v] by auto
  next
    case (Insert k v)
    then show ?thesis
      using hm_insert_ok [OF Cons.prems, of k v] dom [of k] by (cases "hm_map m k") auto
  next
    case (Index k)
    then show ?thesis
      using hm_index_ok [OF Cons.prems, of dflt k] unfolding Index spec_op.simps dom hm_exec.simps domIff
      by fastforce
  qed
  then obtain m1 where m1: "hm_exec hash dflt (op # ops) m = hm_exec hash dflt ops m1" "hm_ok hash m1"
      "hm_entries m1 = spec_op dflt op (hm_entries m)" by blast
  show ?case using Cons.IH [OF m1(2)] by (simp add: m1(1,3))
qed simp

text \<open>
  C20: Any sequence of \<^verbatim>\<open>map[k] = v\<close>, \<^verbatim>\<open>insert\<close> and \<^verbatim>\<open>operator[]\<close> calls on a new table, through every
  growth and rehash and for every hash function, runs without an access outside the table
  and without an endless chain; iteration then yields the entries in the order of their
  first insertion, and a lookup finds exactly the last value assigned to the key.
\<close>

theorem hashmap_refines_map:
  "\<exists>m. hm_exec hash dflt ops hm_new = Some m \<and>
       hm_entries m = fold (spec_op dflt) ops [] \<and> hm_size m = length (fold (spec_op dflt) ops []) \<and>
       (\<forall>k. hm_get hash k m = Some (map_of (fold (spec_op dflt) ops []) k))"
proof -
  obtain m where m: "hm_exec hash dflt ops hm_new = Some m" "hm_ok hash m"
      "hm_entries m = fold (spec_op dflt) ops []"
    using hm_exec_ok [of hash hm_new dflt ops] by auto
  have "hm_size m = length (hm_entries m)"
    using m(2) by (simp add: hm_ok_def hm_size_def hm_entries_def)
  then show ?thesis using m hm_get_ok [OF m(2)] by (simp add: hm_map_def)
qed

text \<open>
  \<^verbatim>\<open>insert\<close> reports whether it stored anything: for a key that is there it returns the entry
  with its old value and changes nothing, for a new key it appends the pair and returns it.
\<close>

theorem hashmap_insert_reports:
  assumes "hm_ok hash m"
  shows "\<exists>i b m'. hm_insert hash key val m = Some ((i, b), m') \<and> hm_ok hash m' \<and>
     (case hm_map m key of
        Some old \<Rightarrow> \<not> b \<and> m' = m \<and> hm_entries m' ! i = (key, old)
      | None \<Rightarrow> b \<and> hm_entries m' = hm_entries m @ [(key, val)] \<and> i = length (hm_entries m))"
  by (rule hm_insert_ok [OF assms])

theorem hashmap_insert_reports_witness:
  "hm_ok Hash (hm_new :: (u64, nat) CompactHashMap) \<and>
   (\<exists>m'. hm_insert Hash 7 3 hm_new = Some ((0, True), m') \<and> hm_entries m' = [(7, 3::nat)])"
  using hashmap_insert_reports [of Hash hm_new 7 "3::nat"] by (auto simp: hm_map_def)

end
