(* ===== verification/Cpt_Text.thy ===== *)
theory Cpt_Text
  imports Cpt_Prelude
begin

text \<open>
  The parts of the C library's text conversion the tool uses: \<^verbatim>\<open>%d\<close>, \<^verbatim>\<open>%i\<close> and \<^verbatim>\<open>%llu\<close> output,
  \<^verbatim>\<open>snprintf\<close> truncation, \<^verbatim>\<open>strtoll\<close> in base 10 and the decimal forms of \<^verbatim>\<open>strtod\<close>.  A C string
  is a list of characters without its terminating zero; a conversion returns the value and
  the number of characters it consumed.
\<close>

section \<open>Printing decimal numbers\<close>

definition digit_char :: "nat \<Rightarrow> char" where
  "digit_char d = char_of (48 + d)"

fun dec_nat :: "nat \<Rightarrow> string" where
  "dec_nat n = (if n < 10 then [digit_char n] else dec_nat (n div 10) @ [digit_char (n mod 10)])"

declare dec_nat.simps [simp del]

definition dec_int :: "int \<Rightarrow> string" where
  "dec_int i = (if i < 0 then CHR ''-'' # dec_nat (nat (- i)) else dec_nat (nat i))"

text \<open>
  \<^verbatim>\<open>snprintf(buf, size, \<dots>)\<close>: at most \<^verbatim>\<open>size - 1\<close> characters are stored, the return value is
  the length of the whole text.
\<close>

definition snprintf :: "nat \<Rightarrow> string \<Rightarrow> string \<times> nat" where
  "snprintf n txt = (take (n - 1) txt, length txt)"

section \<open>Scanning decimal numbers\<close>

definition is_digit :: "char \<Rightarrow> bool" where
  "is_digit c \<longleftrightarrow> 48 \<le> (of_char c :: nat) \<and> (of_char c :: nat) \<le> 57"

definition digit_value :: "char \<Rightarrow> nat" where
  "digit_value c = of_char c - 48"

definition isspace :: "char \<Rightarrow> bool" where
  "isspace c \<longleftrightarrow> (of_char c :: nat) \<in> {32, 9, 10, 11, 12, 13}"

fun digits_value :: "nat \<Rightarrow> string \<Rightarrow> nat" where
  "digits_value acc [] = acc"
| "digits_value acc (c # cs) = digits_value (acc * 10 + digit_value c) cs"

fun scan_sign :: "string \<Rightarrow> bool \<times> string" where
  "scan_sign (c # cs) =
     (if c = CHR ''-'' then (True, cs) else if c = CHR ''+'' then (False, cs) else (False, c # cs))"
| "scan_sign [] = (False, [])"

definition LLONG_MAX :: int where "LLONG_MAX = 2 ^ 63 - 1"
definition LLONG_MIN :: int where "LLONG_MIN = - (2 ^ 63)"

definition strtoll :: "string \<Rightarrow> int \<times> string" where
  "strtoll s =
     (let (neg, body) = scan_sign (dropWhile isspace s);
          ds = takeWhile is_digit body;
          v = int (digits_value 0 ds);
          v = (if neg then - v else v)
      in if ds = [] then (0, s)
         else (max LLONG_MIN (min LLONG_MAX v), dropWhile is_digit body))"

fun scan_frac :: "string \<Rightarrow> string \<times> string" where
  "scan_frac (c # cs) =
     (if c = CHR ''.'' then (takeWhile is_digit cs, dropWhile is_digit cs) else ([], c # cs))"
| "scan_frac [] = ([], [])"

text \<open>An exponent counts only when a digit follows the letter and its sign.\<close>

fun scan_exp :: "string \<Rightarrow> int \<times> string" where
  "scan_exp (c # cs) =
     (if c = CHR ''e'' \<or> c = CHR ''E''
      then let (neg, body) = scan_sign cs; ds = takeWhile is_digit body
           in if ds = [] then (0, c # cs)
              else ((if neg then - int (digits_value 0 ds) else int (digits_value 0 ds)), dropWhile is_digit body)
      else (0, c # cs))"
| "scan_exp [] = (0, [])"

definition strtod :: "string \<Rightarrow> real \<times> string" where
  "strtod s =
     (let (neg, body) = scan_sign (dropWhile isspace s);
          ip = takeWhile is_digit body;
          (fp, rest) = scan_frac (dropWhile is_digit body)
      in if ip = [] \<and> fp = [] then (0, s)
         else let (e, rest) = scan_exp rest;
                  m = real (digits_value 0 (ip @ fp)) * 10 powi (e - int (length fp))
              in ((if neg then - m else m), rest))"

section \<open>Printed numbers are read back\<close>

lemma of_char_digit: "d < 10 \<Longrightarrow> (of_char (digit_char d) :: nat) = 48 + d"
  by (simp add: digit_char_def of_char_of take_bit_eq_mod)

lemma digit_char_simps [simp]:
  assumes "d < 10"
  shows "is_digit (digit_char d)" "digit_value (digit_char d) = d"
    "\<not> isspace (digit_char d)" "digit_char d \<noteq> CHR ''-''" "digit_char d \<noteq> CHR ''+''"
proof -
  note v = of_char_digit [OF assms]
  show "is_digit (digit_char d)" "digit_value (digit_char d) = d" "\<not> isspace (digit_char d)"
    using assms v by (simp_all add: is_digit_def digit_value_def isspace_def)
  have "(of_char CHR ''-'' :: nat) = 45" "(of_char CHR ''+'' :: nat) = 43" by simp_all
  then show "digit_char d \<noteq> CHR ''-''" "digit_char d \<noteq> CHR ''+''"
    using v by (cases "digit_char d = CHR ''-''"; cases "digit_char d = CHR ''+''"; simp)+
qed

lemma dec_nat_nonempty: "dec_nat n \<noteq> []"
  by (subst dec_nat.simps) simp

lemma dec_nat_digits: "c \<in> set (dec_nat n) \<Longrightarrow> \<exists>d < 10. c = digit_char d"
proof (induction n rule: dec_nat.induct)
  case (1 n)
  show ?case
  proof (cases "n < 10")
    case True
    then show ?thesis using "1.prems" by (subst (asm) dec_nat.simps) auto
  next
    case False
    then have "c \<in> set (dec_nat (n div 10)) \<or> c = digit_char (n mod 10)"
      using "1.prems" by (subst (asm) dec_nat.simps) auto
    moreover have "n mod 10 < 10" by simp
    ultimately show ?thesis using "1.IH" [OF False] by blast
  qed
qed

lemma digits_value_append: "digits_value acc (xs @ ys) = digits_value (digits_value acc xs) ys"
  by (induction acc xs rule: digits_value.induct) simp_all

lemma digits_value_dec_nat: "digits_value 0 (dec_nat n) = n"
proof (induction n rule: dec_nat.induct)
  case (1 n)
  then show ?case by (subst dec_nat.simps) (simp add: digits_value_append)
qed

lemma takeWhile_dec_nat: "takeWhile is_digit (dec_nat n @ r) = dec_nat n @ takeWhile is_digit r"
  and dropWhile_dec_nat: "dropWhile is_digit (dec_nat n @ r) = dropWhile is_digit r"
  by (auto simp: takeWhile_append dropWhile_append dest: dec_nat_digits)

lemmas whole_dec_nat = takeWhile_dec_nat [where r = "[]", simplified append_Nil2 takeWhile.simps(1)]
  dropWhile_dec_nat [where r = "[]", simplified append_Nil2 dropWhile.simps(1)]

lemma scan_sign_dec_nat: "scan_sign (dropWhile isspace (dec_nat n)) = (False, dec_nat n)"
proof -
  obtain c cs where c: "dec_nat n = c # cs" using dec_nat_nonempty by (metis list.exhaust)
  then obtain d where "d < 10" "c = digit_char d" using dec_nat_digits [of c n] by auto
  then show ?thesis by (simp add: c)
qed

lemma strtoll_dec_int:
  assumes "LLONG_MIN \<le> i" and "i \<le> LLONG_MAX"
  shows "strtoll (dec_int i) = (i, [])"
proof (cases "i < 0")
  case True
  have "\<not> isspace CHR ''-''" by (simp add: isspace_def)
  then show ?thesis
    using True assms
    by (simp add: strtoll_def dec_int_def dec_nat_nonempty digits_value_dec_nat whole_dec_nat)
next
  case False
  then show ?thesis
    using assms
    by (simp add: strtoll_def dec_int_def dec_nat_nonempty digits_value_dec_nat scan_sign_dec_nat whole_dec_nat)
qed

lemma length_dec_nat_bound: "length (dec_nat n) \<le> k \<longleftrightarrow> 0 < k \<and> n < 10 ^ k"
proof (induction n arbitrary: k rule: dec_nat.induct)
  case (1 n)
  show ?case
  proof (cases "n < 10")
    case True
    have "n < 10 ^ k" if "0 < k"
      using True that by (cases k) (auto intro: less_le_trans)
    then show ?thesis using True by (subst dec_nat.simps) auto
  next
    case False
    then have IH: "length (dec_nat (n div 10)) \<le> j \<longleftrightarrow> 0 < j \<and> n div 10 < 10 ^ j" for j using 1 by blast
    show ?thesis
    proof (cases k)
      case (Suc j)
      have "n div 10 < 10 ^ j \<longleftrightarrow> n < 10 ^ Suc j"
        by (simp add: less_mult_imp_div_less div_less_iff_less_mult mult.commute)
      moreover have "j = 0 \<Longrightarrow> \<not> n < 10 ^ Suc j" using False by simp
      ultimately show ?thesis
        using False IH [of j] Suc by (subst dec_nat.simps) auto
    qed (simp add: dec_nat_nonempty)
  qed
qed

end
