(* ===== verification/Cpt_Flags.thy ===== *)
theory Cpt_Flags
  imports Cpt_Text
begin

text \<open>
  \<^verbatim>\<open>include/parse_flags.h\<close>, \<^verbatim>\<open>include/parse_flags.inc\<close> and \<^verbatim>\<open>src/parse_flags.cpp\<close>: the options of the
  tool, their handlers, and the parser of \<^verbatim>\<open>CPT_OPTIONS\<close>.  A call that ends the process
  (\<^verbatim>\<open>Die\<close>) is a left value of the result type.  The buffer is the C string without its
  terminating zero; reading at its length gives that zero.
\<close>

section \<open>Options\<close>

datatype out_stream = Stdout | Stderr | File string

datatype HandleSignalMode = kHandleSignalNo | kHandleSignalYes | kHandleSignalExclusive

record CptFlags =
  print_max_rss :: bool
  verbose :: bool
  enabled :: bool
  report_data_leak :: bool
  stopped :: bool
  start_with_library_constructor :: bool
  dump_on_stop :: bool
  barrier :: bool
  colorize :: bool
  help_flag :: bool
  stacktrace :: bool
  abort_on_error :: bool
  continue_on_error :: bool
  metric_factor :: i32
  exitcode :: i32
  runtime :: time
  log_path :: "string option"
  data_path :: "string option"
  running :: bool
  log_output :: out_stream

definition SetDefaults :: CptFlags where
  "SetDefaults =
     \<lparr>print_max_rss = False, verbose = False, enabled = True, report_data_leak = False, stopped = False,
      start_with_library_constructor = False, dump_on_stop = False, barrier = False, colorize = True,
      help_flag = False, stacktrace = False, abort_on_error = False, continue_on_error = True,
      metric_factor = 1, exitcode = 23, runtime = -1,
      log_path = Some ''stdout'', data_path = Some ''stdout'', running = False, log_output = Stderr\<rparr>"

section \<open>Handlers\<close>

definition ParseBool :: "string \<Rightarrow> bool option" where
  "ParseBool val =
     (if val = ''0'' \<or> val = ''no'' \<or> val = ''false'' then Some False
      else if val = ''1'' \<or> val = ''yes'' \<or> val = ''true'' then Some True
      else None)"

text \<open>
  A handler returns whether the text was accepted and the new state; the number handlers
  store what they read even if they then reject the text.  \<open>put\<close> writes through \<^verbatim>\<open>t_\<close>.
\<close>

type_synonym 's handler = "string \<Rightarrow> 's \<Rightarrow> bool \<times> 's"

definition Parse_bool :: "(bool \<Rightarrow> 's \<Rightarrow> 's) \<Rightarrow> 's handler" where
  "Parse_bool put val f = (case ParseBool val of Some b \<Rightarrow> (True, put b f) | None \<Rightarrow> (False, f))"

definition Parse_signal :: "(HandleSignalMode \<Rightarrow> 's \<Rightarrow> 's) \<Rightarrow> 's handler" where
  "Parse_signal put val f =
     (case ParseBool val of
        Some b \<Rightarrow> (True, put (if b then kHandleSignalYes else kHandleSignalNo) f)
      | None \<Rightarrow> if val = ''2'' \<or> val = ''exclusive'' then (True, put kHandleSignalExclusive f) else (False, f))"

definition Parse_cstr :: "(string \<Rightarrow> 's \<Rightarrow> 's) \<Rightarrow> 's handler" where
  "Parse_cstr put val f = (True, put val f)"

definition Parse_int :: "(i32 \<Rightarrow> 's \<Rightarrow> 's) \<Rightarrow> 's handler" where
  "Parse_int put val f = (case strtoll val of (v, value_end) \<Rightarrow> (value_end = [], put (word_of_int v) f))"

definition Parse_double :: "(time \<Rightarrow> 's \<Rightarrow> 's) \<Rightarrow> 's handler" where
  "Parse_double put val f = (case strtod val of (v, value_end) \<Rightarrow> (value_end = [], put v f))"

definition Parse_uptr :: "(u64 \<Rightarrow> 's \<Rightarrow> 's) \<Rightarrow> 's handler" where
  "Parse_uptr put val f = (case strtoll val of (v, value_end) \<Rightarrow> (value_end = [], put (word_of_int v) f))"

text \<open>\<^verbatim>\<open>Format\<close>: the text stored in a buffer of the given size, and whether it fitted.\<close>

definition FormatString :: "nat \<Rightarrow> string \<Rightarrow> string \<times> bool" where
  "FormatString n str = (case snprintf n str of (b, num_symbols_should_write) \<Rightarrow> (b, num_symbols_should_write < n))"

definition Format_bool :: "nat \<Rightarrow> bool \<Rightarrow> string \<times> bool" where
  "Format_bool n b = FormatString n (if b then ''true'' else ''false'')"

definition Format_int :: "nat \<Rightarrow> i32 \<Rightarrow> string \<times> bool" where
  "Format_int n i = FormatString n (dec_int (sint i))"

definition Format_s64 :: "nat \<Rightarrow> u64 \<Rightarrow> string \<times> bool" where
  "Format_s64 n i = FormatString n (dec_int (sint i))"

definition Format_cstr :: "nat \<Rightarrow> string \<Rightarrow> string \<times> bool" where
  "Format_cstr n str = FormatString n str"

section \<open>The parser\<close>

datatype flag_error =
    Expected_equals
  | Unterminated_string
  | Expected_separator
  | Flag_parsing_failed
  | Check_failed            \<comment> \<open>a failed \<^verbatim>\<open>CHECK\<close> with \<^verbatim>\<open>continue_on_error\<close> off\<close>
  | Array_overrun           \<comment> \<open>a failed \<^verbatim>\<open>CHECK\<close> that continues with a write behind an array\<close>

definition char_at :: "string \<Rightarrow> nat \<Rightarrow> char" where
  "char_at buf pos = (if pos < length buf then buf ! pos else CHR 0x00)"

definition is_space :: "char \<Rightarrow> bool" where
  "is_space c \<longleftrightarrow> c = CHR '' '' \<or> c = CHR '','' \<or> c = CHR '':'' \<or> c = CHR 0x0A \<or> c = CHR 0x09 \<or> c = CHR 0x0D"

text \<open>The scanning loops \<^verbatim>\<open>while (P(buf_[pos_])) ++pos_\<close>; each \<open>P\<close> is false at the terminating zero.\<close>

function scan :: "(char \<Rightarrow> bool) \<Rightarrow> string \<Rightarrow> nat \<Rightarrow> nat" where
  "scan P buf pos = (if pos < length buf \<and> P (char_at buf pos) then scan P buf (pos + 1) else pos)"
  by auto
termination by (relation "measure (\<lambda>(P, buf, pos). length buf - pos)") auto

declare scan.simps [simp del]

definition skip_whitespace :: "string \<Rightarrow> nat \<Rightarrow> nat" where
  "skip_whitespace buf pos = scan is_space buf pos"

text \<open>\<^verbatim>\<open>ll_strndup(s, n)\<close> of the text at an offset.\<close>

definition ll_strndup :: "string \<Rightarrow> nat \<Rightarrow> string" where
  "ll_strndup s n = take n s"

text \<open>
  \<^verbatim>\<open>parse_flag\<close> up to the call of the handler: name, value and the position behind them.
\<close>

definition scan_value :: "string \<Rightarrow> nat \<Rightarrow> flag_error + (string \<times> nat)" where
  "scan_value buf pos =
     (let value_start = pos
      in if char_at buf pos = CHR 0x27 \<or> char_at buf pos = CHR 0x22
         then let quote = char_at buf pos;
                  pos = scan (\<lambda>c. c \<noteq> CHR 0x00 \<and> c \<noteq> quote) buf (pos + 1)
              in if char_at buf pos = CHR 0x00 then Inl Unterminated_string
                 else Inr (ll_strndup (drop (value_start + 1) buf) (pos - value_start - 1), pos + 1)
         else let pos = scan (\<lambda>c. c \<noteq> CHR 0x00 \<and> \<not> is_space c) buf pos
              in if char_at buf pos \<noteq> CHR 0x00 \<and> \<not> is_space (char_at buf pos)
                 then Inl Expected_separator
                 else Inr (ll_strndup (drop value_start buf) (pos - value_start), pos))"

definition scan_flag :: "string \<Rightarrow> nat \<Rightarrow> flag_error + (string \<times> string \<times> nat)" where
  "scan_flag buf pos =
     (let name_start = pos;
          pos = scan (\<lambda>c. c \<noteq> CHR 0x00 \<and> c \<noteq> CHR ''='' \<and> \<not> is_space c) buf pos
      in if char_at buf pos \<noteq> CHR ''='' then Inl Expected_equals
         else let name = ll_strndup (drop name_start buf) (pos - name_start)
              in case scan_value buf (pos + 1) of
                   Inl e \<Rightarrow> Inl e
                 | Inr (val, pos) \<Rightarrow> Inr (name, val, pos))"

text \<open>\<open>run\<close> is the method \<^verbatim>\<open>run_handler\<close>, applied to the parser's state.\<close>

definition parse_flag ::
  "(string \<Rightarrow> string \<Rightarrow> 's \<Rightarrow> flag_error + (bool \<times> 's)) \<Rightarrow> string \<Rightarrow> nat \<Rightarrow> 's \<Rightarrow> flag_error + (nat \<times> 's)"
where
  "parse_flag run buf pos st =
     (case scan_flag buf pos of
        Inl e \<Rightarrow> Inl e
      | Inr (name, val, pos) \<Rightarrow>
          (case run name val st of
             Inl e \<Rightarrow> Inl e
           | Inr (res, st) \<Rightarrow> if res then Inr (pos, st) else Inl Flag_parsing_failed))"

lemma scan_ge: "pos \<le> scan P buf pos"
proof (induction P buf pos rule: scan.induct)
  case (1 P buf pos)
  then show ?case by (subst scan.simps) (auto intro: Suc_leD)
qed

lemma scan_value_ge: "scan_value buf pos = Inr (val, pos') \<Longrightarrow> pos \<le> pos'"
  using scan_ge [of pos "\<lambda>c. c \<noteq> CHR 0x00 \<and> \<not> is_space c" buf]
    scan_ge [of "pos + 1" "\<lambda>c. c \<noteq> CHR 0x00 \<and> c \<noteq> char_at buf pos" buf]
  by (auto simp: scan_value_def Let_def split: if_splits)

lemma scan_flag_gt: "scan_flag buf pos = Inr (name, val, pos') \<Longrightarrow> pos < pos'"
  using scan_ge [of pos "\<lambda>c. c \<noteq> CHR 0x00 \<and> c \<noteq> CHR ''='' \<and> \<not> is_space c" buf]
  by (auto simp: scan_flag_def Let_def split: if_splits sum.splits dest!: scan_value_ge)

lemma parse_flag_gt: "parse_flag run buf pos st = Inr (pos', st') \<Longrightarrow> pos < pos'"
  by (clarsimp simp: parse_flag_def split: sum.splits if_splits) (rule scan_flag_gt)

function parse_flags ::
  "(string \<Rightarrow> string \<Rightarrow> 's \<Rightarrow> flag_error + (bool \<times> 's)) \<Rightarrow> string \<Rightarrow> nat \<Rightarrow> 's \<Rightarrow> flag_error + 's"
where
  "parse_flags run buf pos st =
     (let pos = skip_whitespace buf pos
      in if char_at buf pos = CHR 0x00 then Inr st
         else (case parse_flag run buf pos st of
                 Inl e \<Rightarrow> Inl e
               | Inr (pos, st) \<Rightarrow> parse_flags run buf pos st))"
  by auto
termination
proof (relation "measure (\<lambda>(run, buf, pos, st). length buf - pos)", simp)
  fix run :: "string \<Rightarrow> string \<Rightarrow> 's \<Rightarrow> flag_error + (bool \<times> 's)" and buf pos st x y pos' st'
  assume "x = skip_whitespace buf pos" and "char_at buf x \<noteq> CHR 0x00"
    and "parse_flag run buf x st = Inr y" and "(pos', st') = y"
  then have "pos \<le> x" "x < length buf" "x < pos'"
    using scan_ge [of pos is_space buf]
    by (auto simp: skip_whitespace_def char_at_def split: if_splits dest: parse_flag_gt)
  then show "((run, buf, pos', st'), run, buf, pos, st) \<in> measure (\<lambda>(run, buf, pos, st). length buf - pos)"
    by simp
qed

declare parse_flags.simps [simp del]

definition ParseString ::
  "(string \<Rightarrow> string \<Rightarrow> 's \<Rightarrow> flag_error + (bool \<times> 's)) \<Rightarrow> string option \<Rightarrow> 's \<Rightarrow> flag_error + 's"
where
  "ParseString run s st = (case s of None \<Rightarrow> Inr st | Some s \<Rightarrow> parse_flags run s 0 st)"

section \<open>Registered flags and unknown flags\<close>

record flag_state =
  cpt :: CptFlags
  unknown_flags :: "string list"

definition kMaxUnknownFlags :: nat where "kMaxUnknownFlags = 20"
definition kMaxFlags :: nat where "kMaxFlags = 200"

definition UnknownFlags_Add :: "string \<Rightarrow> flag_state \<Rightarrow> flag_error + flag_state" where
  "UnknownFlags_Add name st =
     (if length (unknown_flags st) < kMaxUnknownFlags
      then Inr (st\<lparr>unknown_flags := unknown_flags st @ [name]\<rparr>)
      else if continue_on_error (cpt st) then Inl Array_overrun else Inl Check_failed)"

text \<open>\<^verbatim>\<open>Report\<close> prints the names and forgets them.\<close>

definition UnknownFlags_Report :: "flag_state \<Rightarrow> string list \<times> flag_state" where
  "UnknownFlags_Report st = (unknown_flags st, st\<lparr>unknown_flags := []\<rparr>)"

text \<open>\<^verbatim>\<open>RegisterCptFlags\<close>: the handlers in the order of \<^verbatim>\<open>parse_flags.inc\<close>.\<close>

definition RegisterCptFlags :: "(string \<times> CptFlags handler) list" where
  "RegisterCptFlags =
     [(''print_max_rss'', Parse_bool (\<lambda>b f. f\<lparr>print_max_rss := b\<rparr>)),
      (''verbose'', Parse_bool (\<lambda>b f. f\<lparr>verbose := b\<rparr>)),
      (''enabled'', Parse_bool (\<lambda>b f. f\<lparr>enabled := b\<rparr>)),
      (''report_data_leak'', Parse_bool (\<lambda>b f. f\<lparr>report_data_leak := b\<rparr>)),
      (''stopped'', Parse_bool (\<lambda>b f. f\<lparr>stopped := b\<rparr>)),
      (''start_with_library_constructor'', Parse_bool (\<lambda>b f. f\<lparr>start_with_library_constructor := b\<rparr>)),
      (''dump_on_stop'', Parse_bool (\<lambda>b f. f\<lparr>dump_on_stop := b\<rparr>)),
      (''barrier'', Parse_bool (\<lambda>b f. f\<lparr>barrier := b\<rparr>)),
      (''colorize'', Parse_bool (\<lambda>b f. f\<lparr>colorize := b\<rparr>)),
      (''help'', Parse_bool (\<lambda>b f. f\<lparr>help_flag := b\<rparr>)),
      (''stacktrace'', Parse_bool (\<lambda>b f. f\<lparr>stacktrace := b\<rparr>)),
      (''abort_on_error'', Parse_bool (\<lambda>b f. f\<lparr>abort_on_error := b\<rparr>)),
      (''continue_on_error'', Parse_bool (\<lambda>b f. f\<lparr>continue_on_error := b\<rparr>)),
      (''metric_factor'', Parse_int (\<lambda>i f. f\<lparr>metric_factor := i\<rparr>)),
      (''exitcode'', Parse_int (\<lambda>i f. f\<lparr>exitcode := i\<rparr>)),
      (''runtime'', Parse_double (\<lambda>d f. f\<lparr>runtime := d\<rparr>)),
      (''log_path'', Parse_cstr (\<lambda>s f. f\<lparr>log_path := Some s\<rparr>)),
      (''data_path'', Parse_cstr (\<lambda>s f. f\<lparr>data_path := Some s\<rparr>))]"

fun run_handler_loop ::
  "(string \<times> CptFlags handler) list \<Rightarrow> string \<Rightarrow> string \<Rightarrow> flag_state \<Rightarrow> flag_error + (bool \<times> flag_state)"
where
  "run_handler_loop [] name val st =
     (case UnknownFlags_Add name st of Inl e \<Rightarrow> Inl e | Inr st \<Rightarrow> Inr (True, st))"
| "run_handler_loop ((n, handler) # flags) name val st =
     (if name = n then (case handler val (cpt st) of (res, f) \<Rightarrow> Inr (res, st\<lparr>cpt := f\<rparr>))
      else run_handler_loop flags name val st)"

definition run_handler ::
  "string \<Rightarrow> string \<Rightarrow> flag_state \<Rightarrow> flag_error + (bool \<times> flag_state)"
where
  "run_handler name val st = run_handler_loop RegisterCptFlags name val st"

text \<open>The stream the logs go to; \<open>pid\<close> is \<^verbatim>\<open>getpid()\<close>.\<close>

definition log_stream :: "int \<Rightarrow> CptFlags \<Rightarrow> CptFlags" where
  "log_stream pid f =
     (case log_path f of
        Some path \<Rightarrow>
          if verbose f
          then f\<lparr>log_output := (if path = ''stdout'' then Stdout else if path = ''stderr'' then Stderr
                            else File (path @ ''.'' @ dec_int pid))\<rparr>
          else f
      | None \<Rightarrow> f)"

text \<open>
  \<^verbatim>\<open>InitializeCptFlags\<close>: the weak function \<^verbatim>\<open>__cpt_default_options\<close> and the environment are
  arguments.  The first component is what \<^verbatim>\<open>ReportUnrecognizedFlags\<close> prints.
\<close>

definition InitializeCptFlags ::
  "string \<Rightarrow> (string \<Rightarrow> string option) \<Rightarrow> int \<Rightarrow> CptFlags option \<Rightarrow> flag_error + (string list \<times> CptFlags)"
where
  "InitializeCptFlags default_options getenv pid f =
     (case f of
        Some f \<Rightarrow> Inr ([], f)
      | None \<Rightarrow>
          (case ParseString run_handler (Some default_options) \<lparr>cpt = SetDefaults, unknown_flags = []\<rparr> of
             Inl e \<Rightarrow> Inl e
           | Inr st \<Rightarrow>
               (case ParseString run_handler
                       (if getenv ''CPT_OPTIONS'' \<noteq> None then getenv ''CPT_OPTIONS''
                        else getenv ''OTFCPT_OPTIONS'') st of
                  Inl e \<Rightarrow> Inl e
                | Inr st \<Rightarrow>
                    (case UnknownFlags_Report st of
                       (reported, st) \<Rightarrow> Inr (reported, log_stream pid (cpt st))))))"

section \<open>Texts the parser reads back\<close>

text \<open>An assignment as a user may write it: plain, or with the value in quotes.\<close>

record assignment =
  a_name :: string
  a_quote :: "char option"
  a_value :: string

definition plain_char :: "char \<Rightarrow> bool" where
  "plain_char c \<longleftrightarrow> c \<noteq> CHR 0x00 \<and> \<not> is_space c"

fun writable :: "assignment \<Rightarrow> bool" where
  "writable a \<longleftrightarrow>
     (\<forall>c \<in> set (a_name a). plain_char c \<and> c \<noteq> CHR ''='') \<and>
     (case a_quote a of
        None \<Rightarrow> (\<forall>c \<in> set (a_value a). plain_char c) \<and>
                (a_value a \<noteq> [] \<longrightarrow> hd (a_value a) \<noteq> CHR 0x27 \<and> hd (a_value a) \<noteq> CHR 0x22)
      | Some q \<Rightarrow> (q = CHR 0x27 \<or> q = CHR 0x22) \<and> (\<forall>c \<in> set (a_value a). c \<noteq> CHR 0x00 \<and> c \<noteq> q))"

definition value_text :: "assignment \<Rightarrow> string" where
  "value_text a = (case a_quote a of None \<Rightarrow> a_value a | Some q \<Rightarrow> q # a_value a @ [q])"

definition flag_text :: "assignment \<Rightarrow> string" where
  "flag_text a = a_name a @ CHR ''='' # value_text a"

definition options_text :: "assignment list \<Rightarrow> string" where
  "options_text as = concat (map (\<lambda>a. flag_text a @ '' '') as)"

text \<open>What the handlers do when they get the assignments one after the other.\<close>

fun apply_all ::
  "(string \<Rightarrow> string \<Rightarrow> 's \<Rightarrow> flag_error + (bool \<times> 's)) \<Rightarrow> assignment list \<Rightarrow> 's \<Rightarrow> flag_error + 's"
where
  "apply_all run [] st = Inr st"
| "apply_all run (a # as) st =
     (case run (a_name a) (a_value a) st of
        Inl e \<Rightarrow> Inl e
      | Inr (res, st) \<Rightarrow> if res then apply_all run as st else Inl Flag_parsing_failed)"

lemma char_at_append: "char_at (pre @ c # r) (length pre) = c"
  by (simp add: char_at_def)

lemma char_at_end: "char_at buf (length buf) = CHR 0x00"
  by (simp add: char_at_def)

lemma scan_append:
  assumes "\<forall>c \<in> set w. P c" and "r = [] \<or> \<not> P (hd r)"
  shows "scan P (pre @ w @ r) (length pre) = length pre + length w"
  using assms(1)
proof (induction w arbitrary: pre)
  case Nil
  then show ?case
    using assms(2) by (subst scan.simps) (cases r; auto simp: char_at_append)
next
  case (Cons c w)
  then show ?case
    using Cons.IH [of "pre @ [c]"] by (subst scan.simps) (simp add: char_at_append)
qed

lemma scan_value_text:
  assumes "writable a"
  shows "scan_value (pre @ value_text a @ CHR '' '' # r) (length pre)
         = Inr (a_value a, length pre + length (value_text a))"
proof (cases "a_quote a")
  case None
  let ?buf = "pre @ a_value a @ CHR '' '' # r"
  let ?P = "\<lambda>c. c \<noteq> CHR 0x00 \<and> \<not> is_space c"
  have "scan ?P ?buf (length pre) = length pre + length (a_value a)"
    using assms None by (intro scan_append) (auto simp: plain_char_def is_space_def)
  moreover have "char_at ?buf (length pre) \<noteq> CHR 0x27 \<and> char_at ?buf (length pre) \<noteq> CHR 0x22"
    using assms None by (cases "a_value a") (auto simp: char_at_append)
  moreover have "char_at ?buf (length pre + length (a_value a)) = CHR '' ''"
    using char_at_append [of "pre @ a_value a"] by simp
  ultimately show ?thesis
    using None by (simp add: scan_value_def value_text_def ll_strndup_def is_space_def Let_def)
next
  case (Some q)
  let ?buf = "pre @ q # a_value a @ q # CHR '' '' # r"
  let ?P = "\<lambda>c. c \<noteq> CHR 0x00 \<and> c \<noteq> q"
  have q: "q = CHR 0x27 \<or> q = CHR 0x22" and v: "\<forall>c \<in> set (a_value a). ?P c"
    using assms Some by auto
  have "scan ?P ((pre @ [q]) @ a_value a @ q # CHR '' '' # r) (length (pre @ [q])) = length (pre @ [q]) + length (a_value a)"
    by (rule scan_append [OF v]) simp
  then have s: "scan ?P ?buf (Suc (length pre)) = Suc (length pre + length (a_value a))" by simp
  have "char_at ?buf (length pre) = q" by (simp add: char_at_append)
  moreover have "char_at ?buf (Suc (length pre + length (a_value a))) = q"
    using char_at_append [of "pre @ q # a_value a" q] by simp
  ultimately show ?thesis
    using q s Some by (auto simp: scan_value_def value_text_def ll_strndup_def Let_def)
qed

lemma scan_flag_text:
  assumes "writable a"
  shows "scan_flag (pre @ flag_text a @ CHR '' '' # r) (length pre)
         = Inr (a_name a, a_value a, length pre + length (flag_text a))"
proof -
  let ?tail = "CHR ''='' # value_text a @ CHR '' '' # r"
  let ?P = "\<lambda>c. c \<noteq> CHR 0x00 \<and> c \<noteq> CHR ''='' \<and> \<not> is_space c"
  have s: "scan ?P (pre @ a_name a @ ?tail) (length pre) = length pre + length (a_name a)"
    using assms by (intro scan_append) (auto simp: plain_char_def)
  have e: "char_at (pre @ a_name a @ ?tail) (length pre + length (a_name a)) = CHR ''=''"
    using char_at_append [of "pre @ a_name a"] by simp
  have v: "scan_value (pre @ a_name a @ ?tail) (Suc (length pre + length (a_name a)))
           = Inr (a_value a, Suc (length pre + length (a_name a)) + length (value_text a))"
    using scan_value_text [OF assms, of "pre @ a_name a @ ''=''" r] by simp
  show ?thesis
    using s e v by (simp add: scan_flag_def flag_text_def ll_strndup_def Let_def)
qed

lemma parse_flags_text:
  assumes "\<forall>a \<in> set as. writable a" and "\<forall>c \<in> set ws. is_space c"
  shows "parse_flags run (pre @ ws @ options_text as) (length pre) st = apply_all run as st"
  using assms
proof (induction as arbitrary: pre ws st)
  case Nil
  have "skip_whitespace (pre @ ws) (length pre) = length (pre @ ws)"
    using scan_append [of ws is_space "[]" pre] Nil.prems(2) by (simp add: skip_whitespace_def)
  then show ?case
    by (subst parse_flags.simps) (simp add: options_text_def char_at_end [of "pre @ ws", simplified])
next
  case (Cons a as)
  let ?r = "CHR '' '' # options_text as"
  let ?buf = "pre @ ws @ flag_text a @ ?r"
  have hd: "\<exists>c cs. flag_text a = c # cs \<and> c \<noteq> CHR 0x00 \<and> \<not> is_space c"
    using Cons.prems(1) by (cases "a_name a") (auto simp: flag_text_def plain_char_def is_space_def)
  then obtain c cs where c: "flag_text a = c # cs" "c \<noteq> CHR 0x00" "\<not> is_space c" by blast
  have skip: "skip_whitespace ?buf (length pre) = length (pre @ ws)"
    using scan_append [of ws is_space "flag_text a @ ?r" pre] Cons.prems(2) c by (simp add: skip_whitespace_def)
  have "char_at ?buf (length (pre @ ws)) = c"
    using char_at_append [of "pre @ ws" c] c by simp
  moreover have "scan_flag ?buf (length (pre @ ws)) = Inr (a_name a, a_value a, length (pre @ ws @ flag_text a))"
    using scan_flag_text [of a "pre @ ws" "options_text as"] Cons.prems(1) by simp
  moreover have "parse_flags run ((pre @ ws @ flag_text a) @ '' '' @ options_text as) (length (pre @ ws @ flag_text a)) st'
                 = apply_all run as st'" for st'
    using Cons.prems by (intro Cons.IH) (auto simp: is_space_def)
  moreover have "pre @ ws @ options_text (a # as) = ?buf"
    by (simp add: options_text_def)
  ultimately show ?case
    using c(2) skip
    by (subst parse_flags.simps) (auto simp: parse_flag_def Let_def split: sum.splits)
qed

text \<open>
  C31: An option string made of assignments \<^verbatim>\<open>name=value\<close>, \<^verbatim>\<open>name='value'\<close> or \<^verbatim>\<open>name="value"\<close>, each followed
  by a space, is read back exactly: the parser terminates and hands every name and value, in
  their order, to the handlers, and fails only where a handler does.
\<close>

theorem options_read_back:
  assumes "\<forall>a \<in> set as. writable a"
  shows "ParseString run (Some (options_text as)) st = apply_all run as st"
  using parse_flags_text [OF assms, of "[]" run "[]" st] by (simp add: ParseString_def)

theorem options_read_back_witness:
  "let as = [\<lparr>a_name = ''verbose'', a_quote = None, a_value = ''yes''\<rparr>,
             \<lparr>a_name = ''data_path'', a_quote = Some (CHR 0x22), a_value = ''my data''\<rparr>]
   in (\<forall>a \<in> set as. writable a) \<and>
      ParseString run_handler (Some (options_text as)) \<lparr>cpt = SetDefaults, unknown_flags = []\<rparr>
        = Inr \<lparr>cpt = SetDefaults\<lparr>verbose := True, data_path := Some ''my data''\<rparr>, unknown_flags = []\<rparr>"
proof -
  let ?as = "[\<lparr>a_name = ''verbose'', a_quote = None, a_value = ''yes''\<rparr>,
              \<lparr>a_name = ''data_path'', a_quote = Some (CHR 0x22), a_value = ''my data''\<rparr>]"
  have w: "\<forall>a \<in> set ?as. writable a"
    by (simp add: plain_char_def is_space_def)
  have "apply_all run_handler ?as \<lparr>cpt = SetDefaults, unknown_flags = []\<rparr>
        = Inr \<lparr>cpt = SetDefaults\<lparr>verbose := True, data_path := Some ''my data''\<rparr>, unknown_flags = []\<rparr>"
    by (simp add: run_handler_def RegisterCptFlags_def Parse_bool_def ParseBool_def Parse_cstr_def SetDefaults_def)
  then show ?thesis
    using w options_read_back [OF w, of run_handler "\<lparr>cpt = SetDefaults, unknown_flags = []\<rparr>"]
    by (simp add: Let_def)
qed

section \<open>Errors and values\<close>

text \<open>
  An assignment without \<^verbatim>\<open>=\<close> ends the process with the error of the missing sign, and a quote that
  is never closed with the error of the unterminated string, whatever handlers are registered.
\<close>

theorem malformed_options_rejected:
  assumes "\<forall>c \<in> set w. plain_char c \<and> c \<noteq> CHR ''=''" and "w \<noteq> []"
    and "q = CHR 0x27 \<or> q = CHR 0x22" and "\<forall>c \<in> set v. c \<noteq> CHR 0x00 \<and> c \<noteq> q"
  shows "ParseString run (Some w) st = Inl Expected_equals \<and>
         ParseString run (Some (w @ CHR ''='' # q # v)) st = Inl Unterminated_string"
proof -
  let ?P = "\<lambda>c. c \<noteq> CHR 0x00 \<and> c \<noteq> CHR ''='' \<and> \<not> is_space c"
  obtain c cs where c: "w = c # cs" "c \<noteq> CHR 0x00" "\<not> is_space c"
    using assms(1,2) by (cases w) (auto simp: plain_char_def)
  have c0: "char_at (w @ r) 0 = c" for r
    using c by (simp add: char_at_def)
  then have "skip_whitespace (w @ r) 0 = 0" for r
    using c by (subst skip_whitespace_def, subst scan.simps) simp
  note start = this c0
  have P: "\<forall>c \<in> set w. ?P c" using assms(1) by (simp add: plain_char_def)
  have n: "scan ?P (w @ r) 0 = length w" if "r = [] \<or> \<not> ?P (hd r)" for r
    using scan_append [OF P that, of "[]"] by simp
  have "ParseString run (Some w) st = Inl Expected_equals"
    using start [of "[]"] c(2) n [of "[]"]
    by (simp add: ParseString_def parse_flags.simps [of run w] parse_flag_def scan_flag_def char_at_def Let_def)
  moreover have "scan (\<lambda>c. c \<noteq> CHR 0x00 \<and> c \<noteq> q) (w @ CHR ''='' # q # v) (Suc (Suc (length w))) = length w + 2 + length v"
    using scan_append [OF assms(4), of "[]" "w @ [CHR ''='', q]"] by simp
  moreover have "char_at (w @ CHR ''='' # q # v) (length w) = CHR ''=''"
      "char_at (w @ CHR ''='' # q # v) (Suc (length w)) = q"
      "char_at (w @ CHR ''='' # q # v) (length w + 2 + length v) = CHR 0x00"
    using char_at_append [of w] char_at_append [of "w @ ''=''" q v] by (simp_all add: char_at_def)
  moreover have "ParseString run (Some (w @ CHR ''='' # q # v)) st = Inl Unterminated_string"
    using start [of "CHR ''='' # q # v"] c(2) n [of "CHR ''='' # q # v"] assms(3) calculation(2-5)
    by (subst ParseString_def, subst option.case, subst parse_flags.simps)
       (auto simp: parse_flag_def scan_flag_def scan_value_def Let_def)
  ultimately show ?thesis by blast
qed

theorem malformed_options_rejected_witness:
  "ParseString run_handler (Some ''verbose'') \<lparr>cpt = SetDefaults, unknown_flags = []\<rparr> = Inl Expected_equals \<and>
   ParseString run_handler (Some (''log_path'' @ CHR ''='' # CHR 0x27 # ''a b'')) \<lparr>cpt = SetDefaults, unknown_flags = []\<rparr>
     = Inl Unterminated_string"
  using malformed_options_rejected [of "''verbose''" "CHR 0x27" "[]" run_handler "\<lparr>cpt = SetDefaults, unknown_flags = []\<rparr>"]
    malformed_options_rejected [of "''log_path''" "CHR 0x27" "''a b''" run_handler "\<lparr>cpt = SetDefaults, unknown_flags = []\<rparr>"]
  by (simp add: plain_char_def is_space_def)

text \<open>
  The text \<^verbatim>\<open>Format\<close> writes for a boolean, an \<^verbatim>\<open>int\<close> or a string option is accepted by its \<^verbatim>\<open>Parse\<close> and
  gives the same value back, when the buffer was large enough for it.
\<close>

theorem format_parse_roundtrip:
  assumes "snd (Format_bool n b)" and "snd (Format_int n i)" and "snd (Format_cstr n s)"
  shows "Parse_bool put_b (fst (Format_bool n b)) f = (True, put_b b f) \<and>
         Parse_int put_i (fst (Format_int n i)) f = (True, put_i i f) \<and>
         Parse_cstr put_s (fst (Format_cstr n s)) f = (True, put_s s f)"
proof -
  have whole: "fst (FormatString n str) = str" if "snd (FormatString n str)" for str
    using that by (simp add: FormatString_def snprintf_def)
  have i: "LLONG_MIN \<le> sint i" "sint i \<le> LLONG_MAX"
    using sint_ge [of i] sint_lt [of i] by (simp_all add: LLONG_MIN_def LLONG_MAX_def)
  show ?thesis
    using assms
    by (simp add: Format_bool_def Format_int_def Format_cstr_def whole Parse_bool_def ParseBool_def
        Parse_int_def strtoll_dec_int [OF i] Parse_cstr_def)
qed

theorem format_parse_roundtrip_witness:
  "snd (Format_bool 128 True) \<and>
   Parse_int (\<lambda>i f. f\<lparr>metric_factor := i\<rparr>) (fst (Format_int 128 1000)) SetDefaults
     = (True, SetDefaults\<lparr>metric_factor := 1000\<rparr>)"
proof -
  have l: "length (dec_int (sint (1000 :: i32))) < 128"
  proof -
    have "sint (1000 :: i32) = 1000" by simp
    moreover have "length (dec_nat 1000) \<le> 127" by (simp add: length_dec_nat_bound)
    ultimately show ?thesis by (simp add: dec_int_def)
  qed
  then have a: "snd (Format_bool 128 True)" "snd (Format_int 128 1000)" "snd (Format_cstr 128 [])"
    by (simp_all add: Format_bool_def Format_int_def Format_cstr_def FormatString_def snprintf_def)
  show ?thesis
    using a(1) format_parse_roundtrip [OF a, of "\<lambda>b f. f" SetDefaults "\<lambda>i f. f\<lparr>metric_factor := i\<rparr>" "\<lambda>s f. f"]
    by simp
qed

section \<open>Unknown flags and narrow integers\<close>

lemma run_handler_unknown:
  assumes "name \<notin> fst ` set RegisterCptFlags"
  shows "run_handler name val st =
    (case UnknownFlags_Add name st of Inl e \<Rightarrow> Inl e | Inr st \<Rightarrow> Inr (True, st))"
proof -
  have "name \<notin> fst ` set flags \<Longrightarrow> run_handler_loop flags name val st =
    (case UnknownFlags_Add name st of Inl e \<Rightarrow> Inl e | Inr st \<Rightarrow> Inr (True, st))" for flags
    by (induction flags) auto
  then show ?thesis using assms by (simp add: run_handler_def)
qed

lemma apply_all_unknown:
  assumes "\<forall>a \<in> set as. a_name a \<notin> fst ` set RegisterCptFlags" and "continue_on_error (cpt st)"
    and "length (unknown_flags st) \<le> kMaxUnknownFlags"
  shows "apply_all run_handler as st =
    (if length (unknown_flags st) + length as \<le> kMaxUnknownFlags
     then Inr (st\<lparr>unknown_flags := unknown_flags st @ map a_name as\<rparr>) else Inl Array_overrun)"
  using assms
proof (induction as arbitrary: st)
  case (Cons a as)
  then show ?case
    using Cons.IH [of "st\<lparr>unknown_flags := unknown_flags st @ [a_name a]\<rparr>"]
    by (auto simp: run_handler_unknown UnknownFlags_Add_def not_le split: if_splits)
qed simp

text \<open>
  C35: Unknown flags are collected for the report, but the table holds twenty of them: with the
  default \<^verbatim>\<open>continue_on_error\<close> the failed check does not stop the twenty-first from being written
  behind the array.
\<close>

theorem unknown_flags_bounded:
  assumes "\<forall>a \<in> set as. writable a \<and> a_name a \<notin> fst ` set RegisterCptFlags"
  shows "ParseString run_handler (Some (options_text as)) \<lparr>cpt = SetDefaults, unknown_flags = []\<rparr> =
    (if length as \<le> kMaxUnknownFlags then Inr \<lparr>cpt = SetDefaults, unknown_flags = map a_name as\<rparr>
     else Inl Array_overrun)"
proof -
  have "\<forall>a \<in> set as. writable a" "\<forall>a \<in> set as. a_name a \<notin> fst ` set RegisterCptFlags"
    using assms by blast+
  moreover have "continue_on_error SetDefaults" by (simp add: SetDefaults_def)
  ultimately show ?thesis
    using parse_flags_text [of as "[]" run_handler "[]" "\<lparr>cpt = SetDefaults, unknown_flags = []\<rparr>"]
      apply_all_unknown [of as "\<lparr>cpt = SetDefaults, unknown_flags = []\<rparr>"]
    by (simp add: ParseString_def)
qed

theorem unknown_flags_bounded_witness:
  "let a = \<lparr>a_name = ''enable'', a_quote = None, a_value = ''1''\<rparr>
   in ParseString run_handler (Some (options_text [a])) \<lparr>cpt = SetDefaults, unknown_flags = []\<rparr>
        = Inr \<lparr>cpt = SetDefaults, unknown_flags = [''enable'']\<rparr> \<and>
      ParseString run_handler (Some (options_text (replicate 21 a))) \<lparr>cpt = SetDefaults, unknown_flags = []\<rparr>
        = Inl Array_overrun"
proof -
  let ?a = "\<lparr>a_name = ''enable'', a_quote = None, a_value = ''1''\<rparr>"
  have a: "writable ?a \<and> a_name ?a \<notin> fst ` set RegisterCptFlags"
    by (simp add: RegisterCptFlags_def plain_char_def is_space_def)
  then have "\<forall>x \<in> set [?a]. writable x \<and> a_name x \<notin> fst ` set RegisterCptFlags"
      "\<forall>x \<in> set (replicate 21 ?a). writable x \<and> a_name x \<notin> fst ` set RegisterCptFlags"
    by (simp_all only: set_replicate_conv_if) auto
  from this [THEN unknown_flags_bounded] show ?thesis
    by (simp add: kMaxUnknownFlags_def Let_def)
qed

text \<open>
  An \<^verbatim>\<open>int\<close> option accepts every integer \<^verbatim>\<open>strtoll\<close> accepts and keeps its lowest 32 bits: the value
  survives exactly when it is in the range of \<^verbatim>\<open>int\<close>.
\<close>

theorem int_option_narrows:
  assumes "LLONG_MIN \<le> i" and "i \<le> LLONG_MAX"
  shows "Parse_int put (dec_int i) f = (True, put (word_of_int i) f) \<and>
         (sint (word_of_int i :: i32) = i \<longleftrightarrow> - (2 ^ 31) \<le> i \<and> i < 2 ^ 31)"
proof -
  have "(sint (word_of_int i :: i32) = i) = (- (2 ^ 31) \<le> i \<and> i < 2 ^ 31)"
    using sint_ge [of "word_of_int i :: i32"] sint_lt [of "word_of_int i :: i32"]
    by (auto simp: signed_of_int signed_take_bit_int_eq_self)
  then show ?thesis by (simp add: Parse_int_def strtoll_dec_int [OF assms])
qed

theorem int_option_narrows_witness:
  "Parse_int (\<lambda>i f. f\<lparr>metric_factor := i\<rparr>) (dec_int (2 ^ 32)) SetDefaults
     = (True, SetDefaults\<lparr>metric_factor := 0\<rparr>)"
  using int_option_narrows [of "2 ^ 32" "\<lambda>i f. f\<lparr>metric_factor := i\<rparr>" SetDefaults]
  by (simp add: LLONG_MIN_def LLONG_MAX_def)

end
