(* ===== verification/Cpt_Measure.thy ===== *)
theory Cpt_Measure
  imports Cpt_Flags Cpt_Stopwatch
begin

text \<open>
  \<^verbatim>\<open>src/critical-core.cpp\<close>: the life cycle of a measurement (library load, start, stop, finish),
  the aggregation over threads and processes, and the POP metrics it reports.

  Thread clocks live in a store; a \<^verbatim>\<open>THREAD_CLOCK *\<close> is an address.  \<open>self\<close> is the address
  \<^verbatim>\<open>thread_local_clock\<close> holds in the calling thread and \<open>now\<close> the value \<^verbatim>\<open>getTime()\<close> returns during
  the call.  \<^verbatim>\<open>PMPI_Reduce\<close> and \<^verbatim>\<open>PMPI_Comm_size\<close> belong to MPI and are a parameter.  Where C++
  divides by zero the result is infinite or not a number; the division of HOL gives 0 there,
  and the theorems exclude these inputs.
\<close>

section \<open>The state of the tool\<close>

record tool =
  flags :: CptFlags
  useMpi :: bool
  myProcId :: int
  localTimeOffset :: time
  startTimeOffset :: int
  startProgrammTime :: time
  endProgrammTime :: time
  finished :: bool
  ID :: u64
  store :: "nat \<Rightarrow> threadClock"
  next_clock :: nat
  thread_clocks :: "nat list option"
  thread_counts :: "omptCounts list option"

definition upd_clock :: "nat \<Rightarrow> (threadClock \<Rightarrow> threadClock) \<Rightarrow> tool \<Rightarrow> tool" where
  "upd_clock p f s = s\<lparr>store := (store s)(p := f (store s p))\<rparr>"

text \<open>\<^verbatim>\<open>getTime\<close>: seconds and nanoseconds of \<^verbatim>\<open>CLOCK_REALTIME\<close>, relative to the two offsets.\<close>

definition getTime :: "int \<Rightarrow> int \<Rightarrow> tool \<Rightarrow> time" where
  "getTime tv_sec tv_nsec s =
     of_int (tv_sec - startTimeOffset s) + of_int tv_nsec / 10 ^ 9 - localTimeOffset s"

definition my_next_id :: "tool \<Rightarrow> u64 \<times> tool" where
  "my_next_id s = (ID s, s\<lparr>ID := ID s + 1\<rparr>)"

definition resetMpiClock :: "threadClock \<Rightarrow> threadClock" where
  "resetMpiClock tc = tc\<lparr>clocks := (clocks tc)(CLOCK_OMPI := cp_Reset (clocks tc CLOCK_OMPI) 0)\<rparr>"

definition enterOpenMP :: "bool \<Rightarrow> time \<Rightarrow> threadClock \<Rightarrow> threadClock" where
  "enterOpenMP run now tc = enterState run now 0 STATE_OMP tc"

definition exitOpenMP :: "bool \<Rightarrow> time \<Rightarrow> threadClock \<Rightarrow> threadClock" where
  "exitOpenMP run now tc = exitState run now 0 True tc"

section \<open>Start and stop\<close>

definition startMeasurement :: "time \<Rightarrow> tool \<Rightarrow> tool" where
  "startMeasurement t s = s\<lparr>startProgrammTime := t\<rparr>"

definition stopMeasurement :: "time \<Rightarrow> tool \<Rightarrow> tool" where
  "stopMeasurement t s =
     (if running (flags s)
      then s\<lparr>endProgrammTime := t, flags := (flags s)\<lparr>running := False\<rparr>\<rparr> else s)"

definition startTool :: "time \<Rightarrow> bool \<Rightarrow> ClockState \<Rightarrow> nat \<Rightarrow> tool \<Rightarrow> tool" where
  "startTool now toolControl cs self s =
     (if stopped (flags s) \<and> \<not> toolControl then s
      else if \<not> running (flags s)
      then let s = s\<lparr>flags := (flags s)\<lparr>running := True\<rparr>\<rparr>;
               s = startMeasurement now s;
               s = (if cs = STATE_MPI \<and> GetState (store s self) = STATE_INIT
                    then upd_clock self (enterState (running (flags s)) now now STATE_USEFUL) s else s)
           in upd_clock self (enterState (running (flags s)) now now cs) s
      else s)"

section \<open>Aggregation within a process\<close>

text \<open>
  The accumulators of the loop over the threads: the indices 0 (useful computation) and 2
  (outside OpenMP) of \<^verbatim>\<open>uc_max\<close> and \<^verbatim>\<open>uc_avg\<close>, and \<^verbatim>\<open>proc_counts\<close>.
\<close>

record thread_acc =
  max0 :: time
  max2 :: time
  avg0 :: time
  avg2 :: time
  acc_counts :: MPI_COUNTS

definition acc_zero :: thread_acc where
  "acc_zero = \<lparr>max0 = 0, max2 = 0, avg0 = 0, avg2 = 0, acc_counts = MPI_COUNTS_zero\<rparr>"

definition thread_step :: "time \<Rightarrow> nat \<Rightarrow> tool \<times> thread_acc \<Rightarrow> tool \<times> thread_acc" where
  "thread_step now p sa = (case sa of (s, a) \<Rightarrow>
     (let s = (if GetState (store s p) \<noteq> STATE_INIT
               then upd_clock p (setState (running (flags s)) now (endProgrammTime s) STATE_INIT) s else s);
          tclock = store s p;
          curr_uc = cval thread tclock CLOCK_USEFUL;
          curr_oot = cval thread tclock CLOCK_OOMP
      in (s, \<lparr>max0 = (if curr_uc > max0 a then curr_uc else max0 a),
              max2 = (if curr_oot > max2 a then curr_oot else max2 a),
              avg0 = avg0 a + curr_uc, avg2 = avg2 a + curr_oot,
              acc_counts = mpi_counts_add (acc_counts a) (counts tclock)\<rparr>)))"

fun add_counts :: "omptCounts list \<Rightarrow> omptCounts list" where
  "add_counts (c # cs) = fold (\<lambda>o' c. ompt_counts_add c o') cs c # cs"
| "add_counts [] = []"

text \<open>What one process contributes: \<^verbatim>\<open>uc_max\<close>, \<^verbatim>\<open>uc_avg\<close>, \<^verbatim>\<open>num_threads\<close>, \<^verbatim>\<open>total_threads\<close>, \<^verbatim>\<open>proc_counts\<close>.\<close>

record contribution =
  uc_max :: "time list"
  uc_avg :: "time list"
  num_threads :: int
  total_threads :: int
  proc_counts :: MPI_COUNTS

definition threads_of :: "tool \<Rightarrow> nat list" where
  "threads_of s = (case thread_clocks s of None \<Rightarrow> [] | Some ps \<Rightarrow> ps)"

definition local_measure :: "time \<Rightarrow> nat \<Rightarrow> tool \<Rightarrow> contribution \<times> tool" where
  "local_measure now self s =
     (let ps = threads_of s;
          s = stopMeasurement now s;
          s = upd_clock self (setState (running (flags s)) now (endProgrammTime s) STATE_INIT) s;
          (s, a, n) =
            (if ps \<noteq> []
             then (case fold (thread_step now) ps (s, acc_zero) of
                     (s, a) \<Rightarrow> (s\<lparr>thread_counts := map_option add_counts (thread_counts s)\<rparr>, a, int (length ps)))
             else let uc = cval thread (store s self) CLOCK_USEFUL; oot = cval thread (store s self) CLOCK_OOMP
                  in (s, \<lparr>max0 = uc, max2 = oot, avg0 = uc, avg2 = oot,
                          acc_counts = mpi_counts_add MPI_COUNTS_zero (counts (store s self))\<rparr>, 1));
          self_clock = store s self;
          ompi = cval proc self_clock CLOCK_OMPI;
          ucp = cval proc self_clock CLOCK_USEFUL;
          oop = cval proc self_clock CLOCK_OOMP
      in (\<lparr>uc_max = [max0 a, ompi, max2 a, ucp, oop, ucp - oop, max0 a],
           uc_avg = [avg0 a, ompi, avg2 a, ucp, oop, (ucp - oop) * of_int n, max0 a * of_int n],
           num_threads = n, total_threads = int (length ps), proc_counts = acc_counts a\<rparr>, s))"

section \<open>Aggregation over the processes\<close>

record mpi_env =
  Reduce_max :: "time list \<Rightarrow> time list"
  Reduce_sum :: "time list \<Rightarrow> time list"
  Reduce_int_sum :: "int \<Rightarrow> int"
  Reduce_counts_sum :: "MPI_COUNTS \<Rightarrow> MPI_COUNTS"
  Reduce_time_max :: "time \<Rightarrow> time"
  Comm_size :: int

record aggregate =
  maxComputation :: "time list"
  avgComputation :: "time list"
  all_threads :: int
  number_of_procs :: int
  total_counts :: MPI_COUNTS
  totalRuntimeReal :: time

definition shared_measure :: "mpi_env \<Rightarrow> bool \<Rightarrow> time \<Rightarrow> contribution \<Rightarrow> aggregate" where
  "shared_measure mpi use_mpi runtime_real l =
     (if use_mpi
      then let m = Reduce_max mpi (uc_max l);
               a = Reduce_sum mpi (uc_avg l);
               threads = Reduce_int_sum mpi (num_threads l);
               procs = Comm_size mpi;
               a = a[1 := a ! 1 / of_int procs];
               a = a[3 := a ! 3 / of_int procs];
               a = a[4 := a ! 4 / of_int procs];
               a = a[0 := a ! 0 / of_int threads];
               a = a[2 := a ! 2 / of_int threads];
               a = a[5 := a ! 5 / of_int threads];
               a = a[6 := a ! 6 / of_int threads]
           in \<lparr>maxComputation = m, avgComputation = a, all_threads = threads, number_of_procs = procs,
               total_counts = Reduce_counts_sum mpi (proc_counts l),
               totalRuntimeReal = Reduce_time_max mpi runtime_real\<rparr>
      else let a = uc_avg l; n = of_int (num_threads l);
               a = a[0 := a ! 0 / n];
               a = a[2 := a ! 2 / n];
               a = a[5 := a ! 5 / n];
               a = a[6 := a ! 6 / n]
           in \<lparr>maxComputation = uc_max l, avgComputation = a, all_threads = total_threads l,
               number_of_procs = 1, total_counts = MPI_COUNTS_zero, totalRuntimeReal = runtime_real\<rparr>)"

section \<open>POP metrics\<close>

record pop =
  CommE :: real
  TE :: real
  SerE :: real
  LB :: real
  PE :: real
  mpiLB :: real
  ompLB :: real
  ompTE :: real
  mpiTE :: real
  mpiSerE :: real
  ompSerE :: real
  mpiCommE :: real
  ompCommE :: real
  ompPE :: real
  mpiPE :: real

text \<open>
  Where a denominator is 0 the code gets an infinite value or no number at all and HOL 0; the claims on the metrics
  are for denominators other than 0.
\<close>

definition pop_metrics :: "aggregate \<Rightarrow> time \<Rightarrow> time \<Rightarrow> pop" where
  "pop_metrics g totalRuntimeIdeal totalOutsideOMPIdeal =
     (let real_time = totalRuntimeReal g;
          max_c = maxComputation g;
          avg_c = avgComputation g;
          commE = max_c ! 0 / real_time;
          te = totalRuntimeIdeal / real_time;
          serE = max_c ! 0 / totalRuntimeIdeal;
          lb = avg_c ! 0 / max_c ! 0;
          pe = lb * commE;
          mlb = avg_c ! 6 / max_c ! 0;
          olb = lb / mlb;
          ote = totalOutsideOMPIdeal / real_time;
          mte = te / ote;
          mser = max_c ! 3 / totalRuntimeIdeal;
          oser = serE / mser;
          mcomm = mser * mte;
          ocomm = oser * ote
      in \<lparr>CommE = commE, TE = te, SerE = serE, LB = lb, PE = pe, mpiLB = mlb, ompLB = olb, ompTE = ote,
          mpiTE = mte, mpiSerE = mser, ompSerE = oser, mpiCommE = mcomm, ompCommE = ocomm,
          ompPE = olb * ocomm, mpiPE = mlb * mcomm\<rparr>)"

section \<open>The report\<close>

datatype print_arg = Int_arg int | U64_arg u64 | I32_arg i32 | Double_arg real

type_synonym line = "string \<times> print_arg list"

text \<open>A count is printed only when it is not zero.\<close>

definition count_line :: "string \<Rightarrow> u64 \<Rightarrow> line list" where
  "count_line fmt n = (if n \<noteq> 0 then [(fmt, [U64_arg n])] else [])"

definition ompt_line :: "string \<Rightarrow> i32 \<Rightarrow> line list" where
  "ompt_line fmt n = (if n \<noteq> 0 then [(fmt, [I32_arg n])] else [])"

definition mpi_stats :: "MPI_COUNTS \<Rightarrow> line list" where
  "mpi_stats c =
     [(''--------MPI stats:--------'', [])]
     @ count_line ''MPI_*send: %lu'' (send c)
     @ count_line ''MPI_I*send: %lu'' (isend c)
     @ count_line ''MPI_*mprobe: %lu'' (probe c)
     @ count_line ''MPI_Recv: %lu'' (recv c)
     @ count_line ''MPI_Irecv: %lu'' (irecv c)
     @ count_line ''MPI_*coll: %lu'' (coll c)
     @ count_line ''MPI_I*coll: %lu'' (coll c)
     @ count_line ''MPI_Test*: %lu'' (test c)
     @ count_line ''MPI_Wait*: %lu'' (wait c)"

definition ompt_stats :: "omptCounts \<Rightarrow> line list" where
  "ompt_stats c =
     [(''--------OMPT stats:--------'', [])]
     @ ompt_line ''taskCreate: %i'' (taskCreate c)
     @ ompt_line ''taskSchedule: %i'' (taskSchedule c)
     @ ompt_line ''implTaskBegin: %i'' (implTaskBegin c)
     @ ompt_line ''implTaskEnd: %i'' (implTaskEnd c)
     @ ompt_line ''syncRegionBegin: %i'' (syncRegionBegin c)
     @ ompt_line ''syncRegionEnd: %i'' (syncRegionEnd c)
     @ ompt_line ''mutexAcquire: %i'' (mutexAcquire c)"

definition verbose_head :: "aggregate \<Rightarrow> time \<Rightarrow> pop \<Rightarrow> omptCounts list option \<Rightarrow> line list" where
  "verbose_head g totalRuntimeIdeal p oc =
     [(''[pop] sere:%6.3lf:te:%6.3lf:comme:%6.3lf:lb:%6.3lf:pe:%6.3lf:crittime:%2.5lf:totaltime:%6.3lf:avgcomputation:%6.3lf:maxcomputation:%6.3lf'',
       map Double_arg [SerE p, TE p, CommE p, LB p, PE p, totalRuntimeIdeal, totalRuntimeReal g,
                       avgComputation g ! 0, maxComputation g ! 0])]
     @ mpi_stats (total_counts g)
     @ (case oc of Some (c # _) \<Rightarrow> ompt_stats c | _ \<Rightarrow> [])"

definition verbose_body :: "aggregate \<Rightarrow> time \<Rightarrow> time \<Rightarrow> line list" where
  "verbose_body g totalRuntimeIdeal totalOutsideOMPIdeal =
     (let avg_c = avgComputation g; max_c = maxComputation g
      in map (\<lambda>(fmt, d). (fmt, [Double_arg d]))
       [(''=> Maximum Computation (in s):   %6.3lf'', max_c ! 0),
        (''=> Max crit. computation (in s): %6.3lf'', totalRuntimeIdeal),
        (''=> Average crit. proc-local computation (in s):    %6.3lf'', avg_c ! 3),
        (''=> Maximum crit. proc-local computation (in s):    %6.3lf'', max_c ! 3),
        (''=> Average crit. proc-local Outside OpenMP (in s): %6.3lf'', avg_c ! 4),
        (''=> Maximum crit. proc-local Outside OpenMP (in s): %6.3lf'', max_c ! 4),
        (''=> Average proc-local rumtime (in s):   %6.3lf'', avg_c ! 5),
        (''=> Maximum proc-local runtime (in s):   %6.3lf'', max_c ! 5),
        (''=> Average PL-max Computation (in s):   %6.3lf'', avg_c ! 6),
        (''=> Maximum PL-max Computation (in s):   %6.3lf'', max_c ! 6),
        (''=> Average Outside OpenMP (in s):   %6.3lf'', avg_c ! 2),
        (''=> Maximum Outside OpenMP (in s):   %6.3lf'', max_c ! 2),
        (''=> Max crit. Outside OpenMP (in s): %6.3lf'', totalOutsideOMPIdeal),
        (''=> Total runtime (in s):         %6.3lf'', totalRuntimeReal g)])"

definition pop_lines :: "real \<Rightarrow> pop \<Rightarrow> line list" where
  "pop_lines factor p =
     (''----------------POP metrics----------------'', [])
     # map (\<lambda>(fmt, d). (fmt, [Double_arg (d * factor)]))
       [(''Parallel Efficiency:                %6.3lf'', PE p),
        (''  Load Balance:                     %6.3lf'', LB p),
        (''  Communication Efficiency:         %6.3lf'', CommE p),
        (''    Serialisation Efficiency:       %6.3lf'', SerE p),
        (''    Transfer Efficiency:            %6.3lf'', TE p),
        (''  MPI Parallel Efficiency:          %6.3lf'', mpiPE p),
        (''    MPI Load Balance:               %6.3lf'', mpiLB p),
        (''    MPI Communication Efficiency:   %6.3lf'', mpiCommE p),
        (''      MPI Serialisation Efficiency: %6.3lf'', mpiSerE p),
        (''      MPI Transfer Efficiency:      %6.3lf'', mpiTE p),
        (''  OMP Parallel Efficiency:          %6.3lf'', ompPE p),
        (''    OMP Load Balance:               %6.3lf'', ompLB p),
        (''    OMP Communication Efficiency:   %6.3lf'', ompCommE p),
        (''      OMP Serialisation Efficiency: %6.3lf'', ompSerE p),
        (''      OMP Transfer Efficiency:      %6.3lf'', ompTE p)]
     @ [(''-------------------------------------------'', [])]"

definition report_lines :: "CptFlags \<Rightarrow> aggregate \<Rightarrow> omptCounts list option \<Rightarrow> time \<Rightarrow> time \<Rightarrow> pop \<Rightarrow> line list" where
  "report_lines f g oc totalRuntimeIdeal totalOutsideOMPIdeal p =
     (if verbose f then verbose_head g totalRuntimeIdeal p oc else [])
     @ [(''--------CritPath Analysis Tool results:--------'', []),
        (''=> Number of processes:          %i'', [Int_arg (number_of_procs g)]),
        (''=> Number of threads:            %i'', [Int_arg (all_threads g)]),
        (''=> Average Computation (in s):   %6.3lf'', [Double_arg (avgComputation g ! 0)])]
     @ (if verbose f then verbose_body g totalRuntimeIdeal totalOutsideOMPIdeal else [])
     @ pop_lines (of_int (sint (metric_factor f))) p"

text \<open>The file the report goes to, the name \<^verbatim>\<open>sprintf\<close> writes and the size of its buffer.\<close>

definition data_file_name :: "string \<Rightarrow> int \<Rightarrow> int \<Rightarrow> string" where
  "data_file_name path procs threads = path @ ''-'' @ dec_int procs @ ''x'' @ dec_int threads @ ''.txt''"

definition tempath_size :: "string \<Rightarrow> nat" where
  "tempath_size path = length path + 15"

definition data_stream :: "CptFlags \<Rightarrow> int \<Rightarrow> int \<Rightarrow> out_stream" where
  "data_stream f procs threads =
     (case data_path f of
        None \<Rightarrow> Stdout
      | Some path \<Rightarrow>
          if path = ''stdout'' then Stdout else if path = ''stderr'' then Stderr
          else File (data_file_name path procs threads))"

section \<open>Finishing\<close>

definition finishMeasurement ::
  "mpi_env \<Rightarrow> time \<Rightarrow> nat \<Rightarrow> tool \<Rightarrow> (out_stream \<times> line list) option \<times> tool"
where
  "finishMeasurement mpi now self s =
     (if finished s then (None, s)
      else case local_measure now self (s\<lparr>finished := True\<rparr>) of
        (l, s) \<Rightarrow>
          (let real_time = endProgrammTime s - startProgrammTime s;
               real_time = (if runtime (flags s) > 0 then runtime (flags s) else real_time);
               g = shared_measure mpi (useMpi s) real_time l
           in if myProcId s = 0
              then let ideal = cval critical (store s self) CLOCK_USEFUL;
                       outside = cval critical (store s self) CLOCK_OOMP;
                       g = g\<lparr>avgComputation := (avgComputation g)[5 := avgComputation g ! 5 + totalRuntimeReal g],
                            maxComputation := (maxComputation g)[5 := maxComputation g ! 5 + totalRuntimeReal g]\<rparr>
                   in (Some (data_stream (flags s) (number_of_procs g) (num_threads l),
                             report_lines (flags s) g (thread_counts s) ideal outside (pop_metrics g ideal outside)), s)
              else (None, s)))"

definition stopTool ::
  "mpi_env \<Rightarrow> time \<Rightarrow> nat \<Rightarrow> tool \<Rightarrow> (out_stream \<times> line list) option \<times> tool"
where
  "stopTool mpi now self s =
     (let s = (if running (flags s)
               then let s = stopMeasurement now s
                    in upd_clock self (setState (running (flags s)) now (endProgrammTime s) STATE_INIT) s
               else s)
      in if dump_on_stop (flags s) then finishMeasurement mpi now self s else (None, s))"

definition exitHandler ::
  "mpi_env \<Rightarrow> time \<Rightarrow> nat \<Rightarrow> tool \<Rightarrow> (out_stream \<times> line list) option \<times> tool"
where
  "exitHandler mpi now self s =
     (if start_with_library_constructor (flags s) then finishMeasurement mpi now self s else (None, s))"

text \<open>
  \<^verbatim>\<open>onLibraryLoad\<close>: \<open>f\<close> are the flags \<^verbatim>\<open>InitializeCptFlags\<close> returned, \<open>self\<close> is null in a thread that has
  no clock yet.  The conversion to \<^verbatim>\<open>long long\<close> drops the fraction.
\<close>

definition to_long_long :: "time \<Rightarrow> int" where
  "to_long_long t = (if t < 0 then \<lceil>t\<rceil> else \<lfloor>t\<rfloor>)"

definition onLibraryLoad :: "CptFlags \<Rightarrow> int \<Rightarrow> int \<Rightarrow> nat option \<Rightarrow> tool \<Rightarrow> nat option \<times> tool" where
  "onLibraryLoad f tv_sec tv_nsec self s =
     (let s = s\<lparr>flags := f\<rparr>;
          s = s\<lparr>startTimeOffset := to_long_long (startProgrammTime s)\<rparr>;
          s = s\<lparr>startProgrammTime := startProgrammTime s - of_int (startTimeOffset s)\<rparr>
      in if start_with_library_constructor f
         then if \<not> enabled f then (self, s)
              else let ps = threads_of s;
                       (p, s) = (case self of
                                   Some p \<Rightarrow> (p, s)
                                 | None \<Rightarrow>
                                     (case my_next_id s of (i, s) \<Rightarrow>
                                        (next_clock s,
                                         s\<lparr>store := (store s)(next_clock s := threadClock_new (ucast i) 0 False),
                                           next_clock := Suc (next_clock s)\<rparr>)));
                       s = s\<lparr>thread_clocks := Some (ps @ [p])\<rparr>;
                       now = getTime tv_sec tv_nsec s;
                       s = startMeasurement now s;
                       s = upd_clock p (enterState (running (flags s)) now (startProgrammTime s) STATE_USEFUL) s
                   in (Some p, s)
         else (self, s))"

section \<open>Stopping clocks\<close>

definition stop_clock :: "bool \<Rightarrow> time \<Rightarrow> time \<Rightarrow> threadClock \<Rightarrow> threadClock" where
  "stop_clock run now e tc = (if GetState tc \<noteq> STATE_INIT then setState run now e STATE_INIT tc else tc)"

lemma GetState_setState_INIT [simp]: "GetState (setState run now e STATE_INIT tc) = STATE_INIT"
  by (simp add: GetState_def clock_simps)

lemma stop_clock_INIT [simp]:
  "GetState (stop_clock run now e tc) = STATE_INIT"
  "stop_clock run now e (stop_clock run now e tc) = stop_clock run now e tc"
  "stop_clock run now e (setState run now e STATE_INIT tc) = setState run now e STATE_INIT tc"
  by (simp_all add: stop_clock_def)

lemma cval_setState_INIT:
  assumes "is_sel sel" and "e \<noteq> 0"
  shows "cval sel (setState run now e STATE_INIT tc) i = shown sel tc i e"
  using assms by (simp add: setState_def Let_def clock_simps shown_def)

lemma cval_stop_clock:
  assumes "is_sel sel" and "e \<noteq> 0"
  shows "cval sel (stop_clock run now e tc) i = shown sel tc i e"
  using assms by (simp add: stop_clock_def cval_setState_INIT shown_def)

lemma thread_step_eq:
  "thread_step now p (s, a) =
     (let c = stop_clock (running (flags s)) now (endProgrammTime s) (store s p)
      in (upd_clock p (\<lambda>_. c) s,
          \<lparr>max0 = max (max0 a) (cval thread c CLOCK_USEFUL), max2 = max (max2 a) (cval thread c CLOCK_OOMP),
           avg0 = avg0 a + cval thread c CLOCK_USEFUL, avg2 = avg2 a + cval thread c CLOCK_OOMP,
           acc_counts = mpi_counts_add (acc_counts a) (counts c)\<rparr>))"
  by (simp add: thread_step_def stop_clock_def upd_clock_def Let_def max_if_less)

definition stop_in :: "time \<Rightarrow> tool \<Rightarrow> threadClock \<Rightarrow> threadClock" where
  "stop_in now s = stop_clock (running (flags s)) now (endProgrammTime s)"

lemma fold_thread_step:
  assumes "fold (thread_step now) ps (s, a) = (s', a')"
  shows "s' = s\<lparr>store := (\<lambda>p. if p \<in> set ps then stop_in now s (store s p) else store s p)\<rparr> \<and>
     avg0 a' = avg0 a + (\<Sum>p\<leftarrow>ps. cval thread (stop_in now s (store s p)) CLOCK_USEFUL) \<and>
     max0 a' = Max (insert (max0 a) ((\<lambda>p. cval thread (stop_in now s (store s p)) CLOCK_USEFUL) ` set ps))"
  using assms
proof (induction ps arbitrary: s a)
  case (Cons p ps)
  let ?c = "stop_in now s (store s p)"
  let ?s = "upd_clock p (\<lambda>_. ?c) s"
  obtain a1 where step: "thread_step now p (s, a) = (?s, a1)"
      and a1: "max0 a1 = max (max0 a) (cval thread ?c CLOCK_USEFUL)"
        "avg0 a1 = avg0 a + cval thread ?c CLOCK_USEFUL"
    by (simp add: thread_step_eq stop_in_def Let_def)
  have st: "stop_in now ?s = stop_in now s" by (simp add: stop_in_def upd_clock_def)
  have same: "stop_in now s (store ?s q) = stop_in now s (store s q)" for q
    by (simp add: upd_clock_def stop_in_def)
  note IH = Cons.IH [of ?s a1, unfolded st same]
  have f: "fold (thread_step now) ps (?s, a1) = (s', a')"
    using Cons.prems by (simp add: step)
  have "s' = s\<lparr>store := (\<lambda>q. if q \<in> set (p # ps) then stop_in now s (store s q) else store s q)\<rparr>"
    using IH [OF f] by (auto simp: upd_clock_def fun_eq_iff)
  moreover have "max0 a' = Max (insert (max0 a) ((\<lambda>p. cval thread (stop_in now s (store s p)) CLOCK_USEFUL) ` set (p # ps)))"
    using IH [OF f] by (cases "ps = []") (simp_all add: a1 insert_commute max.assoc max.commute max.left_commute)
  ultimately show ?case using IH [OF f] by (simp add: a1)
qed simp

text \<open>The state in which \<^verbatim>\<open>finishMeasurement\<close> collects the clocks.\<close>

definition stopped_state :: "time \<Rightarrow> nat \<Rightarrow> tool \<Rightarrow> tool" where
  "stopped_state now self s =
     (let s = stopMeasurement now s
      in s\<lparr>store := (\<lambda>p. if p = self then setState (running (flags s)) now (endProgrammTime s) STATE_INIT (store s p)
                        else if p \<in> set (threads_of s) then stop_in now s (store s p) else store s p)\<rparr>)"

lemma threads_of_frame [simp]:
  "threads_of (s\<lparr>store := st\<rparr>) = threads_of s"
  "threads_of (s\<lparr>thread_counts := tc\<rparr>) = threads_of s"
  "threads_of (s\<lparr>finished := b\<rparr>) = threads_of s"
  "threads_of (stopMeasurement now s) = threads_of s"
  by (simp_all add: threads_of_def stopMeasurement_def)

lemma local_measure_eq:
  assumes "local_measure now self s = (l, s')"
  defines "vals \<equiv> map (\<lambda>p. cval thread (store s' p) CLOCK_USEFUL)
                    (if threads_of s = [] then [self] else threads_of s)"
  shows "s'\<lparr>thread_counts := None\<rparr> = (stopped_state now self s)\<lparr>thread_counts := None\<rparr> \<and>
     uc_avg l ! 0 = sum_list vals \<and>
     uc_max l ! 0 = (if threads_of s = [] then hd vals else Max (insert 0 (set vals))) \<and>
     num_threads l = int (length vals) \<and>
     uc_avg l ! 6 = uc_max l ! 0 * of_int (num_threads l)"
proof -
  define s1 where "s1 = stopMeasurement now s"
  define c where "c = setState (running (flags s1)) now (endProgrammTime s1) STATE_INIT (store s1 self)"
  define s2 where "s2 = upd_clock self (\<lambda>_. c) s1"
  have s2: "upd_clock self (setState (running (flags s1)) now (endProgrammTime s1) STATE_INIT) s1 = s2"
    by (simp add: s2_def c_def upd_clock_def)
  have stop2: "stop_in now s2 = stop_in now s1" by (simp add: stop_in_def s2_def upd_clock_def)
  have stop_c: "stop_in now s1 c = c" by (simp add: stop_in_def c_def)
  have "(\<lambda>p. if p = self then setState (running (flags s1)) now (endProgrammTime s1) STATE_INIT (store s1 p)
             else if p \<in> set (threads_of s1) then stop_in now s1 (store s1 p) else store s1 p)
        = (\<lambda>p. if p = self then c else if p \<in> set (threads_of s) then stop_in now s1 (store s1 p) else store s1 p)"
    by (auto simp: c_def fun_eq_iff s1_def)
  then have SS: "stopped_state now self s =
      s1\<lparr>store := (\<lambda>p. if p = self then c else if p \<in> set (threads_of s) then stop_in now s1 (store s1 p) else store s1 p)\<rparr>"
    unfolding stopped_state_def Let_def s1_def [symmetric] by simp
  show ?thesis
  proof (cases "threads_of s = []")
    case True
    then have "s' = s2"
      using assms(1) unfolding local_measure_def s1_def [symmetric] s2 Let_def by auto
    moreover have "s2 = stopped_state now self s"
      using True by (simp add: SS s2_def upd_clock_def fun_upd_def cong: if_cong)
    ultimately show ?thesis
      using assms(1) True unfolding local_measure_def s1_def [symmetric] s2 Let_def
      by (auto simp: vals_def)
  next
    case False
    obtain s3 a where f: "fold (thread_step now) (threads_of s) (s2, acc_zero) = (s3, a)" by (metis surj_pair)
    note F = fold_thread_step [OF f, unfolded stop2]
    have s': "s' = s3\<lparr>thread_counts := map_option add_counts (thread_counts s3)\<rparr>"
      using assms(1) False unfolding local_measure_def s1_def [symmetric] s2 Let_def by (auto simp: f)
    have st: "store s' p = stop_in now s1 (store s2 p)" if "p \<in> set (threads_of s)" for p
      using that F by (simp add: s')
    have vals: "vals = map (\<lambda>p. cval thread (stop_in now s1 (store s2 p)) CLOCK_USEFUL) (threads_of s)"
      using False st by (simp add: vals_def)
    have "(\<lambda>p. if p \<in> set (threads_of s) then stop_in now s1 (store s2 p) else store s2 p)
          = (\<lambda>p. if p = self then c else if p \<in> set (threads_of s) then stop_in now s1 (store s1 p) else store s1 p)"
      using stop_c by (auto simp: fun_eq_iff s2_def upd_clock_def)
    then have "s3\<lparr>thread_counts := None\<rparr> = (stopped_state now self s)\<lparr>thread_counts := None\<rparr>"
      using F by (simp add: SS s2_def upd_clock_def)
    moreover have "uc_avg l ! 0 = avg0 a" "uc_max l ! 0 = max0 a" "num_threads l = int (length (threads_of s))"
        "uc_avg l ! 6 = max0 a * of_int (int (length (threads_of s)))"
      using assms(1) False unfolding local_measure_def s1_def [symmetric] s2 Let_def by (auto simp: f)
    moreover have "avg0 a = sum_list vals" "max0 a = Max (insert 0 (set vals))"
      using F by (simp_all add: acc_zero_def vals)
    ultimately show ?thesis
      using False by (simp add: s' vals)
  qed
qed

section \<open>Claims\<close>

text \<open>
  C5: The reported metrics factor as the POP model says: with \<open>p\<close> the metrics computed from an
  aggregate whose totals are not zero, parallel efficiency is average computation over runtime
  and the product of its MPI and OpenMP parts; load balance, communication, serialisation and
  transfer efficiency are each the product of their parts, and communication efficiency is
  serialisation times transfer efficiency.
\<close>

theorem pop_metrics_factor:
  assumes "totalRuntimeReal g \<noteq> 0" and "ideal \<noteq> 0" and "outside \<noteq> 0"
    and "maxComputation g ! 0 \<noteq> 0" and "maxComputation g ! 3 \<noteq> 0" and "avgComputation g ! 6 \<noteq> 0"
    and "p = pop_metrics g ideal outside"
  shows "PE p = avgComputation g ! 0 / totalRuntimeReal g \<and> PE p = LB p * CommE p \<and>
         CommE p = SerE p * TE p \<and> PE p = mpiPE p * ompPE p \<and> LB p = mpiLB p * ompLB p \<and>
         CommE p = mpiCommE p * ompCommE p \<and> SerE p = mpiSerE p * ompSerE p \<and> TE p = mpiTE p * ompTE p \<and>
         mpiCommE p = mpiSerE p * mpiTE p \<and> ompCommE p = ompSerE p * ompTE p"
  using assms(1-6) by (simp add: assms(7) pop_metrics_def Let_def field_simps)

theorem pop_metrics_factor_witness:
  "let g = \<lparr>maxComputation = [4, 5, 4, 4, 6, 0, 4], avgComputation = [3, 5, 3, 4, 6, 0, 4], all_threads = 2,
            number_of_procs = 1, total_counts = MPI_COUNTS_zero, totalRuntimeReal = 8\<rparr>;
       p = pop_metrics g 5 6
   in PE p = 3 / 8 \<and> PE p = mpiPE p * ompPE p"
proof -
  let ?g = "\<lparr>maxComputation = [4, 5, 4, 4, 6, 0, 4], avgComputation = [3, 5, 3, 4, 6, 0, 4], all_threads = 2,
             number_of_procs = 1, total_counts = MPI_COUNTS_zero, totalRuntimeReal = 8\<rparr>"
  have h: "totalRuntimeReal ?g \<noteq> 0" "(5::real) \<noteq> 0" "(6::real) \<noteq> 0" "maxComputation ?g ! 0 \<noteq> 0"
      "maxComputation ?g ! 3 \<noteq> 0" "avgComputation ?g ! 6 \<noteq> 0"
    by simp_all
  have "avgComputation ?g ! 0 / totalRuntimeReal ?g = 3 / 8" by simp
  with pop_metrics_factor [OF h refl] show ?thesis unfolding Let_def by metis
qed

text \<open>
  The documented result of the reductions on the root: elementwise maxima and sums over the
  contributions \<open>ls\<close> of all processes, of which \<open>l\<close> is the caller's.
\<close>

definition reduce_ok :: "mpi_env \<Rightarrow> contribution list \<Rightarrow> contribution \<Rightarrow> bool" where
  "reduce_ok mpi ls l \<longleftrightarrow>
     l \<in> set ls \<and> Comm_size mpi = int (length ls) \<and>
     Reduce_int_sum mpi (num_threads l) = (\<Sum>l\<leftarrow>ls. num_threads l) \<and>
     length (Reduce_max mpi (uc_max l)) = 7 \<and> length (Reduce_sum mpi (uc_avg l)) = 7 \<and>
     (\<forall>k < 7. Reduce_max mpi (uc_max l) ! k = Max ((\<lambda>l. uc_max l ! k) ` set ls) \<and>
              Reduce_sum mpi (uc_avg l) ! k = (\<Sum>l\<leftarrow>ls. uc_avg l ! k))"

text \<open>A contribution as \<^verbatim>\<open>finishMeasurement\<close> computes it, from threads that computed no negative time.\<close>

definition measured :: "contribution \<Rightarrow> bool" where
  "measured l \<longleftrightarrow> (\<exists>now self s s'. local_measure now self s = (l, s') \<and>
     (\<forall>p \<in> set (if threads_of s = [] then [self] else threads_of s). 0 \<le> cval thread (store s' p) CLOCK_USEFUL))"

lemma sum_list_le_Max: "(\<Sum>x\<leftarrow>xs. x) \<le> Max (insert 0 (set xs)) * real (length xs)"
proof (induction xs)
  case (Cons x xs)
  let ?M = "Max (insert 0 (set (x # xs)))"
  have "x \<le> ?M" by (rule Max_ge) simp_all
  moreover have "Max (insert 0 (set xs)) \<le> ?M" by (rule Max_mono) auto
  ultimately have "Max (insert 0 (set xs)) * real (length xs) \<le> ?M * real (length xs)"
    by (simp add: mult_right_mono)
  with Cons \<open>x \<le> ?M\<close> show ?case by (simp add: algebra_simps)
qed simp

lemma measured_bounds:
  assumes "measured l"
  shows "1 \<le> num_threads l" and "0 \<le> uc_avg l ! 0" and "0 \<le> uc_max l ! 0"
    and "uc_avg l ! 6 = uc_max l ! 0 * of_int (num_threads l)"
    and "uc_avg l ! 0 \<le> uc_max l ! 0 * of_int (num_threads l)"
proof -
  obtain now self s s' where lm: "local_measure now self s = (l, s')"
      and pos: "\<forall>p \<in> set (if threads_of s = [] then [self] else threads_of s). 0 \<le> cval thread (store s' p) CLOCK_USEFUL"
    using assms by (auto simp: measured_def)
  define vals where "vals = map (\<lambda>p. cval thread (store s' p) CLOCK_USEFUL)
                              (if threads_of s = [] then [self] else threads_of s)"
  note E = local_measure_eq [OF lm, folded vals_def]
  have v: "\<forall>x \<in> set vals. 0 \<le> x" "vals \<noteq> []"
    using pos by (auto simp: vals_def split: if_splits)
  then show "0 \<le> uc_avg l ! 0" using E by (simp add: sum_list_nonneg)
  show "1 \<le> num_threads l" using E v(2) by (cases vals) simp_all
  show "uc_avg l ! 6 = uc_max l ! 0 * of_int (num_threads l)" using E by blast
  show "0 \<le> uc_max l ! 0" using E v by (auto split: if_splits)
  show "uc_avg l ! 0 \<le> uc_max l ! 0 * of_int (num_threads l)"
    using E sum_list_le_Max [of vals] by (auto simp: vals_def split: if_splits)
qed

lemma weighted_bounds:
  assumes "\<forall>l \<in> set ls. measured l" and "ls \<noteq> []"
  defines "A0 \<equiv> (\<Sum>l\<leftarrow>ls. uc_avg l ! 0)" and "A6 \<equiv> (\<Sum>l\<leftarrow>ls. uc_avg l ! 6)"
    and "N \<equiv> (\<Sum>l\<leftarrow>ls. num_threads l)" and "M \<equiv> Max ((\<lambda>l. uc_max l ! 0) ` set ls)"
  shows "0 \<le> A0 \<and> A0 \<le> A6 \<and> A6 \<le> M * of_int N \<and> 1 \<le> N \<and> (0 < M \<longrightarrow> 0 < A6)"
proof -
  have le: "uc_max l ! 0 \<le> M" if "l \<in> set ls" for l
    using that by (simp add: M_def)
  have "(\<Sum>l\<leftarrow>ls. uc_avg l ! 6) \<le> (\<Sum>l\<leftarrow>ls. M * of_int (num_threads l))"
    using assms(1) measured_bounds(1,4) le
    by (intro sum_list_mono) (simp add: mult_right_mono order_trans [OF _ measured_bounds(1)])
  also have "\<dots> = M * of_int N"
    unfolding N_def by (induction ls) (simp_all add: algebra_simps)
  finally have "A6 \<le> M * of_int N" by (simp add: A6_def)
  moreover have "0 \<le> A0" "A0 \<le> A6"
    unfolding A0_def A6_def using assms(1) measured_bounds(2,4,5)
    by (auto intro!: sum_list_nonneg sum_list_mono)
  moreover have "1 \<le> N"
  proof -
    obtain l ls' where ls: "ls = l # ls'" using assms(2) by (cases ls) simp_all
    have "0 \<le> (\<Sum>l\<leftarrow>ls'. num_threads l)"
      using assms(1) ls measured_bounds(1) by (intro sum_list_nonneg) fastforce
    then show ?thesis using assms(1) ls measured_bounds(1) [of l] by (simp add: N_def)
  qed
  moreover have "0 < A6" if "0 < M"
  proof -
    have "M \<in> (\<lambda>l. uc_max l ! 0) ` set ls" unfolding M_def by (rule Max_in) (use assms(2) in auto)
    then obtain l where l: "l \<in> set ls" "uc_max l ! 0 = M" by auto
    then have "0 < uc_avg l ! 6"
      using that assms(1) measured_bounds(1,4) [of l] by simp
    moreover have "uc_avg l ! 6 \<le> A6"
      unfolding A6_def using l(1) assms(1) measured_bounds(1,3,4)
      by (intro member_le_sum_list) (auto intro!: mult_nonneg_nonneg order_trans [OF _ measured_bounds(1)])
    ultimately show ?thesis by simp
  qed
  ultimately show ?thesis by blast
qed

text \<open>
  C6: For every number of MPI processes and of threads in them, when some thread did useful work
  and MPI reduces as documented, the load balance and its MPI and OpenMP parts lie between 0
  and 1, and load balance is the product of the two parts.
\<close>

theorem load_balance_bounds:
  assumes "reduce_ok mpi ls l" and "\<forall>l \<in> set ls. measured l"
    and "g = shared_measure mpi True rt l" and "0 < maxComputation g ! 0"
    and "p = pop_metrics g ideal outside"
  shows "0 \<le> LB p \<and> LB p \<le> 1 \<and> 0 < mpiLB p \<and> mpiLB p \<le> 1 \<and> 0 \<le> ompLB p \<and> ompLB p \<le> 1 \<and>
         LB p = mpiLB p * ompLB p"
proof -
  define A0 where "A0 = (\<Sum>l\<leftarrow>ls. uc_avg l ! 0)"
  define A6 where "A6 = (\<Sum>l\<leftarrow>ls. uc_avg l ! 6)"
  define N where "N = (\<Sum>l\<leftarrow>ls. num_threads l)"
  define M where "M = Max ((\<lambda>l. uc_max l ! 0) ` set ls)"
  have "ls \<noteq> []" using assms(1) by (auto simp: reduce_ok_def)
  note B = weighted_bounds [OF assms(2) this, folded A0_def A6_def N_def M_def]
  have g: "maxComputation g ! 0 = M" "avgComputation g ! 0 = A0 / of_int N" "avgComputation g ! 6 = A6 / of_int N"
    using assms(1) by (simp_all add: assms(3) shared_measure_def Let_def reduce_ok_def A0_def A6_def N_def M_def)
  have M: "0 < M" using assms(4) g(1) by simp
  then have B': "0 \<le> A0" "A0 \<le> A6" "A6 \<le> M * of_int N" "0 < real_of_int N" "0 < A6" using B by auto
  have p: "LB p = A0 / of_int N / M" "mpiLB p = A6 / of_int N / M" "ompLB p = LB p / mpiLB p"
    by (simp_all add: assms(5) pop_metrics_def Let_def g)
  have "ompLB p = A0 / A6" using B' M by (simp add: p)
  then show ?thesis
    using B' M by (simp add: p field_simps)
qed

text \<open>A process with one thread that is computing since time 2, in a world of one process.\<close>

definition example_tool :: tool where
  "example_tool =
     \<lparr>flags = SetDefaults\<lparr>running := True\<rparr>, useMpi = True, myProcId = 0, localTimeOffset = 0, startTimeOffset = 0,
      startProgrammTime = 2, endProgrammTime = 0, finished = False, ID = 1,
      store = (\<lambda>_. enterState True 2 0 STATE_USEFUL (threadClock_new 0 0 False)), next_clock = 1,
      thread_clocks = Some [0], thread_counts = None\<rparr>"

definition example_mpi :: mpi_env where
  "example_mpi = \<lparr>Reduce_max = (\<lambda>x. x), Reduce_sum = (\<lambda>x. x), Reduce_int_sum = (\<lambda>x. x),
     Reduce_counts_sum = (\<lambda>x. x), Reduce_time_max = (\<lambda>x. x), Comm_size = 1\<rparr>"

lemma example_contribution:
  "uc_max (fst (local_measure 10 0 example_tool)) = [8, 8, 8, 8, 8, 0, 8] \<and>
   uc_avg (fst (local_measure 10 0 example_tool)) = [8, 8, 8, 8, 8, 0, 8] \<and>
   num_threads (fst (local_measure 10 0 example_tool)) = 1 \<and>
   cval thread (store (snd (local_measure 10 0 example_tool)) 0) CLOCK_USEFUL = 8"
proof -
  let ?c = "enterState True 2 0 STATE_USEFUL (threadClock_new 0 0 False)"
  have "GetState ?c = STATE_USEFUL" by (simp add: GetState_def clock_simps)
  moreover have "is_sel sel \<Longrightarrow> cval sel ?c i = - 2" for sel i
    by (simp add: enterState_def Let_def clock_simps)
  ultimately have "is_sel sel \<Longrightarrow> cval sel (setState False 10 10 STATE_INIT ?c) i = 8" for sel i
    by (simp add: cval_setState_INIT shown_def)
  then show ?thesis
    by (simp add: local_measure_def example_tool_def threads_of_def stopMeasurement_def upd_clock_def
        thread_step_def acc_zero_def Let_def)
qed

theorem load_balance_bounds_witness:
  "let l = fst (local_measure 10 0 example_tool);
       g = shared_measure example_mpi True 8 l
   in reduce_ok example_mpi [l] l \<and> (\<forall>l \<in> set [l]. measured l) \<and> 0 < maxComputation g ! 0 \<and>
      LB (pop_metrics g 8 8) \<le> 1"
proof -
  let ?l = "fst (local_measure 10 0 example_tool)"
  let ?g = "shared_measure example_mpi True 8 ?l"
  note E = example_contribution
  have r: "reduce_ok example_mpi [?l] ?l"
    using E by (simp add: reduce_ok_def example_mpi_def)
  have "measured ?l"
    unfolding measured_def
    by (intro exI [of _ 10] exI [of _ 0] exI [of _ example_tool] exI [of _ "snd (local_measure 10 0 example_tool)"])
       (use E in \<open>simp add: threads_of_def example_tool_def\<close>)
  then have m: "\<forall>l \<in> set [?l]. measured l" by simp
  have g: "0 < maxComputation ?g ! 0"
    using E by (simp add: shared_measure_def example_mpi_def Let_def)
  show ?thesis
    using load_balance_bounds [OF r m refl g refl, of 8 8] r m g by (simp add: Let_def)
qed

text \<open>
  \<^verbatim>\<open>finishMeasurement\<close> reports at most once: a second call, at any later time and from any thread,
  prints nothing and changes nothing.
\<close>

theorem finish_reports_once:
  "finishMeasurement mpi' now' self' (snd (finishMeasurement mpi now self s))
     = (None, snd (finishMeasurement mpi now self s))"
proof (cases "finished s")
  case False
  obtain l s' where l: "local_measure now self (s\<lparr>finished := True\<rparr>) = (l, s')" by (metis surj_pair)
  have "finished (s'\<lparr>thread_counts := None\<rparr>)"
    using local_measure_eq [OF l]
    by (auto simp: stopped_state_def stopMeasurement_def Let_def)
  moreover have "snd (finishMeasurement mpi now self s) = s'"
    using False l by (simp add: finishMeasurement_def Let_def)
  ultimately show ?thesis by (simp add: finishMeasurement_def)
qed (simp add: finishMeasurement_def)

text \<open>
  C7: Finishing a running measurement stops the clocks of all registered threads at the end of the
  program: the tool is not running any more, every thread is in \<^const>\<open>STATE_INIT\<close>, and each clock
  holds the time it would have shown at that moment.
\<close>

theorem finish_stops_all_clocks:
  assumes "\<not> finished s" and "running (flags s)" and "now \<noteq> 0"
    and "s' = snd (finishMeasurement mpi now self s)" and "p \<in> set (self # threads_of s)"
    and "sel = thread \<or> sel = proc \<or> sel = critical"
  shows "\<not> running (flags s') \<and> endProgrammTime s' = now \<and> GetState (store s' p) = STATE_INIT \<and>
         cval sel (store s' p) i = shown sel (store s p) i now"
proof -
  obtain l t where l: "local_measure now self (s\<lparr>finished := True\<rparr>) = (l, t)" by (metis surj_pair)
  have "s' = t" using assms(1,4) l by (simp add: finishMeasurement_def Let_def)
  moreover have "t\<lparr>thread_counts := None\<rparr> = (stopped_state now self (s\<lparr>finished := True\<rparr>))\<lparr>thread_counts := None\<rparr>"
    using local_measure_eq [OF l] by blast
  then have "flags t = flags (stopped_state now self (s\<lparr>finished := True\<rparr>))"
      "endProgrammTime t = endProgrammTime (stopped_state now self (s\<lparr>finished := True\<rparr>))"
      "store t = store (stopped_state now self (s\<lparr>finished := True\<rparr>))"
    by (metis tool.ext_inject tool.surjective tool.update_convs(13))+
  moreover have "is_sel sel" using assms(6) by (auto simp: is_sel_def)
  ultimately show ?thesis
    using assms(2,3,5)
    by (auto simp: stopped_state_def stopMeasurement_def Let_def stop_in_def cval_setState_INIT cval_stop_clock threads_of_def)
qed

theorem finish_stops_all_clocks_witness:
  "\<not> finished example_tool \<and> running (flags example_tool) \<and>
   cval thread (store (snd (finishMeasurement example_mpi 10 0 example_tool)) 0) CLOCK_USEFUL = 8"
proof -
  have h: "\<not> finished example_tool" "running (flags example_tool)"
    by (simp_all add: example_tool_def)
  have "shown thread (store example_tool 0) CLOCK_USEFUL 10 = 8"
    by (simp add: shown_def example_tool_def GetState_def clock_simps) (simp add: enterState_def Let_def clock_simps)
  then show ?thesis
    using finish_stops_all_clocks [OF h, of 10 _ example_mpi 0 0 thread CLOCK_USEFUL] h by simp
qed

section \<open>A process with a single thread\<close>

lemma startTool_fresh:
  assumes "\<not> running (flags s)" and "cs \<noteq> STATE_MPI"
  shows "startTool t0 True cs self s =
    upd_clock self (clock_step (t0, Enter cs))
      (s\<lparr>flags := (flags s)\<lparr>running := True\<rparr>, startProgrammTime := t0\<rparr>)"
  using assms
  by (simp add: startTool_def startMeasurement_def Let_def upd_clock_def enterState_def SwitchState_def)

lemma single_thread_contribution:
  assumes "\<not> running (flags s)" and "threads_of s = [self]" and "store s self = threadClock_new n 0 omp"
    and "sorted (t0 # map fst evs @ [t1])" and "t1 \<noteq> 0"
    and "local_measure t1 self (upd_clock self (clock_run evs) (startTool t0 True STATE_USEFUL self s)) = (l, s')"
  defines "useful \<equiv> on_time CLOCK_USEFUL ((t0, STATE_INIT) # history [STATE_INIT]
                      ((t0, Enter STATE_USEFUL) # evs @ [(t1, Set STATE_INIT)]))"
  shows "uc_max l ! 0 = useful \<and> uc_avg l ! 0 = useful \<and> num_threads l = 1 \<and> 0 \<le> useful \<and> useful \<le> t1 - t0 \<and>
         startProgrammTime s' = t0 \<and> endProgrammTime s' = t1 \<and>
         flags s' = (flags s)\<lparr>running := False\<rparr> \<and> useMpi s' = useMpi s \<and> myProcId s' = myProcId s"
proof -
  let ?evs = "(t0, Enter STATE_USEFUL) # evs"
  let ?s = "upd_clock self (clock_run evs) (startTool t0 True STATE_USEFUL self s)"
  have s: "?s = s\<lparr>flags := (flags s)\<lparr>running := True\<rparr>, startProgrammTime := t0,
                 store := (store s)(self := clock_run ?evs (threadClock_new n 0 omp))\<rparr>"
    using startTool_fresh [OF assms(1), of STATE_USEFUL t0 self] assms(3)
    by (simp add: upd_clock_def clock_run_Cons)
  have thr: "threads_of ?s = [self]" using assms(2) by (simp add: s threads_of_def)
  note E = local_measure_eq [OF assms(6), unfolded thr]
  have st: "store s' = store (stopped_state t1 self ?s)" "startProgrammTime s' = startProgrammTime (stopped_state t1 self ?s)"
      "endProgrammTime s' = endProgrammTime (stopped_state t1 self ?s)" "flags s' = flags (stopped_state t1 self ?s)"
      "useMpi s' = useMpi (stopped_state t1 self ?s)" "myProcId s' = myProcId (stopped_state t1 self ?s)"
    using E by (metis tool.ext_inject tool.surjective tool.update_convs(13))+
  have "store s' self = setState False t1 t1 STATE_INIT (clock_run ?evs (threadClock_new n 0 omp))"
    unfolding st by (simp add: stopped_state_def stopMeasurement_def s Let_def)
  then have u: "cval thread (store s' self) CLOCK_USEFUL = useful"
    using clock_total [of thread t1 False t1 ?evs n omp CLOCK_USEFUL t0] assms(5)
    by (simp add: useful_def)
  have "sorted (map fst ((t0, STATE_INIT) # history [STATE_INIT] (?evs @ [(t1, Set STATE_INIT)])))"
    using assms(4) by (simp add: map_fst_history)
  from on_time_bounds [OF this] have b: "0 \<le> useful" "useful \<le> t1 - t0"
    by (simp_all add: useful_def) (simp_all add: history_append)
  show ?thesis
    using E u b unfolding st by (simp add: stopped_state_def stopMeasurement_def s Let_def)
qed

text \<open>
  C8: A process with one thread and no MPI that starts the tool at \<open>t0\<close>, goes through any sequence of state
  changes with ascending times, of which some time is useful, and finishes at \<open>t1\<close>.  The time spent in
  useful states is at most \<open>t1 - t0\<close>, and the report of \<^verbatim>\<open>finishMeasurement\<close> shows a load balance of 1 and a
  parallel and communication efficiency of that time over the runtime, which is \<open>t1 - t0\<close> unless the option
  \<^verbatim>\<open>runtime\<close> sets it, all times the option \<^verbatim>\<open>metric_factor\<close>.  Without useful time the code divides 0 by 0.
\<close>

theorem single_thread_efficiency:
  assumes "\<not> running (flags s)" and "\<not> finished s" and "\<not> useMpi s" and "myProcId s = 0"
    and "threads_of s = [self]" and "store s self = threadClock_new n 0 omp"
    and "sorted (t0 # map fst evs @ [t1])" and "t0 < t1" and "t1 \<noteq> 0"
    and "useful = on_time CLOCK_USEFUL ((t0, STATE_INIT) # history [STATE_INIT]
                    ((t0, Enter STATE_USEFUL) # evs @ [(t1, Set STATE_INIT)]))" and "0 < useful"
    and "real_time = (if runtime (flags s) > 0 then runtime (flags s) else t1 - t0)"
    and "factor = of_int (sint (metric_factor (flags s)))"
  shows "useful \<le> t1 - t0 \<and>
         (\<exists>out lines s'. finishMeasurement mpi t1 self (upd_clock self (clock_run evs) (startTool t0 True STATE_USEFUL self s))
              = (Some (out, lines), s') \<and>
            (''Parallel Efficiency:                %6.3lf'', [Double_arg (useful / real_time * factor)]) \<in> set lines \<and>
            (''  Load Balance:                     %6.3lf'', [Double_arg (1 * factor)]) \<in> set lines \<and>
            (''  Communication Efficiency:         %6.3lf'', [Double_arg (useful / real_time * factor)]) \<in> set lines)"
proof -
  let ?s = "s\<lparr>finished := True\<rparr>"
  let ?x = "upd_clock self (clock_run evs) (startTool t0 True STATE_USEFUL self s)"
  let ?y = "upd_clock self (clock_run evs) (startTool t0 True STATE_USEFUL self ?s)"
  have x: "?x\<lparr>finished := True\<rparr> = ?y" "\<not> finished ?x"
    using assms(1,2) by (simp_all add: startTool_fresh) (simp_all add: upd_clock_def)
  obtain l s' where l: "local_measure t1 self ?y = (l, s')" by fastforce
  have "\<not> running (flags ?s)" "threads_of ?s = [self]" "store ?s self = threadClock_new n 0 omp" using assms(1,5,6) by simp_all
  note C = single_thread_contribution [OF this assms(7,9) l, folded assms(10)]
  have len: "length (uc_avg l) = 7" "length (uc_max l) = 7"
    using arg_cong [OF l, of fst] by (auto simp: local_measure_def Let_def split: prod.splits if_splits)
  define g where "g = shared_measure mpi False real_time l"
  define h where "h = g\<lparr>avgComputation := (avgComputation g)[5 := avgComputation g ! 5 + totalRuntimeReal g],
                        maxComputation := (maxComputation g)[5 := maxComputation g ! 5 + totalRuntimeReal g]\<rparr>"
  define ideal where "ideal = cval critical (store s' self) CLOCK_USEFUL"
  define outside where "outside = cval critical (store s' self) CLOCK_OOMP"
  define p where "p = pop_metrics h ideal outside"
  have pe: "CommE p = useful / real_time" "LB p = 1" "PE p = useful / real_time"
    using C assms(11) len by (simp_all add: p_def h_def g_def pop_metrics_def shared_measure_def Let_def)
  have f: "flags s' = (flags s)\<lparr>running := False\<rparr>" "endProgrammTime s' - startProgrammTime s' = t1 - t0" "useMpi s' = False" "myProcId s' = 0"
    using C assms(3,4) by simp_all
  have "finishMeasurement mpi t1 self ?x =
      (Some (data_stream (flags s') (number_of_procs h) (num_threads l), report_lines (flags s') h (thread_counts s') ideal outside p), s')"
    using x f assms(12) unfolding finishMeasurement_def x(1) l
    by (simp add: Let_def g_def h_def ideal_def outside_def p_def)
  moreover have "set (pop_lines factor p) \<subseteq> set (report_lines (flags s') h (thread_counts s') ideal outside p)"
    using f(1) by (simp add: report_lines_def assms(13)) blast
  moreover have "(''Parallel Efficiency:                %6.3lf'', [Double_arg (PE p * factor)]) \<in> set (pop_lines factor p)"
    "(''  Load Balance:                     %6.3lf'', [Double_arg (LB p * factor)]) \<in> set (pop_lines factor p)"
    "(''  Communication Efficiency:         %6.3lf'', [Double_arg (CommE p * factor)]) \<in> set (pop_lines factor p)"
    by (simp_all add: pop_lines_def)
  ultimately show ?thesis using C unfolding pe by blast
qed

theorem single_thread_efficiency_witness:
  "let s = example_tool\<lparr>flags := SetDefaults, useMpi := False, store := (\<lambda>_. threadClock_new 0 0 False)\<rparr>
   in \<exists>out lines s'.
        finishMeasurement example_mpi 10 0 (upd_clock 0 (clock_run [(3, Enter STATE_MPI), (5, Exit)]) (startTool 2 True STATE_USEFUL 0 s))
          = (Some (out, lines), s') \<and>
        (''Parallel Efficiency:                %6.3lf'', [Double_arg (6 / 8 * of_int (sint (metric_factor SetDefaults)))]) \<in> set lines"
proof -
  let ?s = "example_tool\<lparr>flags := SetDefaults, useMpi := False, store := (\<lambda>_. threadClock_new 0 0 False)\<rparr>"
  let ?evs = "[(3, Enter STATE_MPI), (5, Exit)]"
  have "\<not> running (flags ?s)" "\<not> finished ?s" "\<not> useMpi ?s" "myProcId ?s = 0" "threads_of ?s = [0]"
    "store ?s 0 = threadClock_new 0 0 False" "\<not> runtime (flags ?s) > 0" "flags ?s = SetDefaults"
    by (simp_all add: SetDefaults_def threads_of_def example_tool_def)
  then show ?thesis
    using single_thread_efficiency [of ?s 0 0 False 2 ?evs 10 6 8 _ example_mpi, OF _ _ _ _ _ _ _ _ _ _ _ _ refl]
    by (simp add: Let_def) blast
qed

section \<open>Boundary cases\<close>

text \<open>
  With \<^verbatim>\<open>start_with_library_constructor\<close> set, loading the library registers a clock but does not
  start it: nothing sets \<^verbatim>\<open>running\<close> before \<^verbatim>\<open>enterState\<close>, so the new clock stays in \<^const>\<open>STATE_INIT\<close>.
\<close>

theorem library_load_does_not_start_clock:
  assumes "start_with_library_constructor f" and "enabled f" and "\<not> running f"
    and "onLibraryLoad f tv_sec tv_nsec None s = (p, s')"
  shows "\<exists>q. p = Some q \<and> q \<in> set (threads_of s') \<and> GetState (store s' q) = STATE_INIT"
  using assms
  by (auto simp: onLibraryLoad_def Let_def my_next_id_def upd_clock_def enterState_def startMeasurement_def threads_of_def)

theorem library_load_does_not_start_clock_witness:
  "let f = SetDefaults\<lparr>start_with_library_constructor := True\<rparr>
   in start_with_library_constructor f \<and> enabled f \<and> \<not> running f \<and>
      (\<exists>q. fst (onLibraryLoad f 7 0 None example_tool) = Some q \<and>
           GetState (store (snd (onLibraryLoad f 7 0 None example_tool)) q) = STATE_INIT)"
  using library_load_does_not_start_clock [of "SetDefaults\<lparr>start_with_library_constructor := True\<rparr>" 7 0 example_tool,
      OF _ _ _ prod.collapse [symmetric]]
  by (auto simp: SetDefaults_def)

text \<open>
  The name of the data file, with its terminating zero, fits into the buffer allocated for it
  exactly when the decimal numbers of processes and threads have at most eight digits together.
\<close>

theorem data_file_name_fits_iff:
  assumes "0 \<le> procs" and "0 \<le> threads"
  shows "length (data_file_name path procs threads) + 1 \<le> tempath_size path \<longleftrightarrow>
         length (dec_nat (nat procs)) + length (dec_nat (nat threads)) \<le> 8"
  using assms by (auto simp: data_file_name_def tempath_size_def dec_int_def)

theorem data_file_name_fits_iff_witness:
  "length (data_file_name ''data'' 100000 1000) + 1 > tempath_size ''data''"
proof -
  have "length (dec_nat 100000) + length (dec_nat 1000) > 8"
    by (simp add: dec_nat.simps)
  then show ?thesis using data_file_name_fits_iff [of 100000 1000 "''data''"] by simp
qed

text \<open>
  The line labelled with the non-blocking collectives repeats the count of the blocking ones: the
  statistics of a run do not depend on \<^const>\<open>icoll\<close>.
\<close>

lemma icoll_not_reported: "mpi_stats (c\<lparr>icoll := n\<rparr>) = mpi_stats c"
  by (simp add: mpi_stats_def)

end
