(* ===== verification/Cpt_Pool.thy ===== *)
theory Cpt_Pool
  imports Cpt_Prelude
begin

text \<open>
  The two object pools: \<^verbatim>\<open>DataPool\<close> of \<^verbatim>\<open>src/ompt-critical.cpp\<close> (one per thread, with a second list
  for objects other threads give back) and \<^verbatim>\<open>DataPool\<close> of \<^verbatim>\<open>include/tracking.h\<close> (one, under a
  lock).  An object is an address; 0 is the null pointer.  What is proved is the contract of
  an allocator: an object is never handed out twice, and an object given back is free again.
\<close>

section \<open>The per-thread pools\<close>

record pool =
  DataPointer :: "nat list"         \<comment> \<open>used as a stack that grows at the end\<close>
  RemoteDataPointer :: "nat list"
  remote :: nat
  total_datas :: nat

text \<open>The pools of all threads, the owner every object was constructed with, and the next address.\<close>

record pools =
  pool_of :: "nat \<Rightarrow> pool"
  owner :: "nat \<Rightarrow> nat"
  next_obj :: nat

definition pool_new :: pool where
  "pool_new = \<lparr>DataPointer = [], RemoteDataPointer = [], remote = 0, total_datas = 0\<rparr>"

definition pools_new :: pools where
  "pools_new = \<lparr>pool_of = (\<lambda>_. pool_new), owner = (\<lambda>_. 0), next_obj = 1\<rparr>"

definition upd_pool :: "nat \<Rightarrow> (pool \<Rightarrow> pool) \<Rightarrow> pools \<Rightarrow> pools" where
  "upd_pool th f ps = ps\<lparr>pool_of := (pool_of ps)(th := f (pool_of ps th))\<rparr>"

text \<open>The number of objects one allocation yields: padded to cache lines, at least four.\<close>

definition ndatas :: "nat \<Rightarrow> nat \<Rightarrow> nat" where
  "ndatas pagesize elemSize =
     (let paddedSize = ((elemSize - 1) div 64 + 1) * 64; n = pagesize div paddedSize
      in if n < 4 then 4 else n)"

text \<open>\<^verbatim>\<open>newDatas\<close>; \<open>n\<close> is the number of objects of a new block.\<close>

definition newDatas :: "nat \<Rightarrow> nat \<Rightarrow> pools \<Rightarrow> pools" where
  "newDatas n th ps =
     (if remote (pool_of ps th) > 0
      then upd_pool th (\<lambda>p. p\<lparr>DataPointer := RemoteDataPointer p, RemoteDataPointer := DataPointer p,
                             remote := 0\<rparr>) ps
      else let objs = [next_obj ps..<next_obj ps + n]
           in (upd_pool th (\<lambda>p. p\<lparr>DataPointer := DataPointer p @ objs, total_datas := total_datas p + n\<rparr>) ps)
              \<lparr>owner := (\<lambda>o'. if o' \<in> set objs then th else owner ps o'), next_obj := next_obj ps + n\<rparr>)"

definition getData :: "nat \<Rightarrow> nat \<Rightarrow> pools \<Rightarrow> nat \<times> pools" where
  "getData n th ps =
     (let ps = (if DataPointer (pool_of ps th) = [] then newDatas n th ps else ps)
      in (last (DataPointer (pool_of ps th)),
          upd_pool th (\<lambda>p. p\<lparr>DataPointer := butlast (DataPointer p)\<rparr>) ps))"

definition returnOwnData :: "nat \<Rightarrow> nat \<Rightarrow> pools \<Rightarrow> pools" where
  "returnOwnData th d = upd_pool th (\<lambda>p. p\<lparr>DataPointer := DataPointer p @ [d]\<rparr>)"

definition returnData :: "nat \<Rightarrow> nat \<Rightarrow> pools \<Rightarrow> pools" where
  "returnData th d =
     upd_pool th (\<lambda>p. p\<lparr>RemoteDataPointer := RemoteDataPointer p @ [d], remote := remote p + 1\<rparr>)"

definition getMissing :: "pool \<Rightarrow> int" where
  "getMissing p = int (total_datas p) - int (length (DataPointer p)) - int (length (RemoteDataPointer p))"

text \<open>
  \<^verbatim>\<open>~DataPool\<close>: on a leak that is to be reported the process ends, with the exit code and the number of
  objects of the message; otherwise the objects in the lists are destroyed in this order, and all memory of
  the pool is freed.
\<close>

definition DataPool_destroy :: "bool \<Rightarrow> pool \<Rightarrow> (int \<times> int) + nat list" where
  "DataPool_destroy report p =
     (if report \<and> getMissing p \<noteq> 0 then Inl (- 3, getMissing p)
      else Inr (filter (\<lambda>i. i \<noteq> 0) (DataPointer p) @ filter (\<lambda>i. i \<noteq> 0) (RemoteDataPointer p)))"

text \<open>\<^verbatim>\<open>DataPoolEntry::Delete\<close> by thread \<open>th\<close>, after the \<^verbatim>\<open>Reset\<close> of the object.\<close>

definition entry_Delete :: "nat \<Rightarrow> nat \<Rightarrow> pools \<Rightarrow> pools" where
  "entry_Delete th d ps = (if owner ps d = th then returnOwnData (owner ps d) d ps else returnData (owner ps d) d ps)"

section \<open>The shared pool\<close>

record shared_pool =
  dataPointer :: "nat list"
  next_data :: nat

definition shared_pool_new :: shared_pool where
  "shared_pool_new = \<lparr>dataPointer = [], next_data = 1\<rparr>"

definition sp_newDatas :: "nat \<Rightarrow> shared_pool \<Rightarrow> shared_pool" where
  "sp_newDatas n p =
     \<lparr>dataPointer = dataPointer p @ [next_data p..<next_data p + n], next_data = next_data p + n\<rparr>"

definition sp_getData :: "nat \<Rightarrow> shared_pool \<Rightarrow> nat \<times> shared_pool" where
  "sp_getData n p =
     (let p = (if dataPointer p = [] then sp_newDatas n p else p)
      in (last (dataPointer p), p\<lparr>dataPointer := butlast (dataPointer p)\<rparr>))"

definition sp_returnData :: "nat \<Rightarrow> shared_pool \<Rightarrow> shared_pool" where
  "sp_returnData d p = p\<lparr>dataPointer := dataPointer p @ [d]\<rparr>"

section \<open>The allocator contract\<close>

text \<open>
  \<open>ok U p\<close>: the pool is consistent with the set \<open>U\<close> of objects in use.  The laws are all a
  client may rely on; \<open>th\<close> is the calling thread.
\<close>

locale allocator =
  fixes ok :: "nat set \<Rightarrow> 'p \<Rightarrow> bool"
    and init :: 'p
    and alloc :: "nat \<Rightarrow> 'p \<Rightarrow> nat \<times> 'p"
    and release :: "nat \<Rightarrow> nat \<Rightarrow> 'p \<Rightarrow> 'p"
  assumes init_ok: "ok {} init"
    and alloc_ok: "ok U p \<Longrightarrow> alloc th p = (d, p') \<Longrightarrow> d \<noteq> 0 \<and> d \<notin> U \<and> ok (insert d U) p'"
    and release_ok: "ok U p \<Longrightarrow> d \<in> U \<Longrightarrow> ok (U - {d}) (release th d p)"
begin

fun run :: "(nat \<times> nat option) list \<Rightarrow> nat list \<times> 'p \<Rightarrow> nat list \<times> 'p" where
  "run [] s = s"
| "run ((th, None) # ops) (held, p) = (case alloc th p of (d, p) \<Rightarrow> run ops (d # held, p))"
| "run ((th, Some i) # ops) (held, p) =
     (if i < length held then run ops (take i held @ drop (Suc i) held, release th (held ! i) p)
      else run ops (held, p))"

lemma take_drop_remove:
  "distinct xs \<Longrightarrow> i < length xs \<Longrightarrow>
     distinct (take i xs @ drop (Suc i) xs) \<and> set (take i xs @ drop (Suc i) xs) = set xs - {xs ! i}"
proof -
  assume d: "distinct xs" and i: "i < length xs"
  have "xs = take i xs @ xs ! i # drop (Suc i) xs" using i by (simp add: id_take_nth_drop [symmetric])
  with d show ?thesis by (metis Diff_insert_absorb UnE Un_insert_right distinct.simps(2) distinct_append
        disjoint_insert(1) list.simps(15) set_append)
qed

lemma run_ok:
  "ok (set held) p \<Longrightarrow> distinct held \<Longrightarrow> 0 \<notin> set held \<Longrightarrow>
     (case run ops (held, p) of (held', p') \<Rightarrow> ok (set held') p' \<and> distinct held' \<and> 0 \<notin> set held')"
proof (induction ops "(held, p)" arbitrary: held p rule: run.induct)
  case (2 th ops held p)
  obtain d p' where a: "alloc th p = (d, p')" by fastforce
  then have "d \<noteq> 0" "d \<notin> set held" "ok (insert d (set held)) p'"
    using alloc_ok [OF "2.prems"(1) a] by blast+
  then show ?case using "2.hyps" [OF a [symmetric]] "2.prems" a by simp
next
  case (3 th i ops held p)
  show ?case
  proof (cases "i < length held")
    case True
    note r = take_drop_remove [OF "3.prems"(2) True]
    have "0 \<notin> set (take i held @ drop (Suc i) held)"
      using r "3.prems"(3) by (metis DiffD1)
    then show ?thesis
      using "3.hyps"(1) [OF True] r release_ok [OF "3.prems"(1), of "held ! i" th] True by simp
  qed (use 3 in simp)
qed simp

end

section \<open>The pools are allocators\<close>

abbreviation free_of :: "pools \<Rightarrow> nat \<Rightarrow> nat list" where
  "free_of ps th \<equiv> DataPointer (pool_of ps th) @ RemoteDataPointer (pool_of ps th)"

definition pools_ok :: "nat set \<Rightarrow> pools \<Rightarrow> bool" where
  "pools_ok U ps \<longleftrightarrow>
     0 < next_obj ps \<and> (\<forall>d \<in> U. 0 < d \<and> d < next_obj ps) \<and>
     (\<forall>th. distinct (free_of ps th) \<and> remote (pool_of ps th) = length (RemoteDataPointer (pool_of ps th)) \<and>
           total_datas (pool_of ps th) = card {d. 0 < d \<and> d < next_obj ps \<and> owner ps d = th} \<and>
           (\<forall>d. d \<in> set (free_of ps th) \<longleftrightarrow> owner ps d = th \<and> 0 < d \<and> d < next_obj ps \<and> d \<notin> U))"

lemma pools_okI:
  assumes "0 < next_obj ps" and "\<And>d. d \<in> U \<Longrightarrow> 0 < d \<and> d < next_obj ps"
    and "\<And>th. distinct (free_of ps th)"
    and "\<And>th. remote (pool_of ps th) = length (RemoteDataPointer (pool_of ps th))"
    and "\<And>th. total_datas (pool_of ps th) = card {d. 0 < d \<and> d < next_obj ps \<and> owner ps d = th}"
    and "\<And>th d. d \<in> set (free_of ps th) \<longleftrightarrow> owner ps d = th \<and> 0 < d \<and> d < next_obj ps \<and> d \<notin> U"
  shows "pools_ok U ps"
  using assms unfolding pools_ok_def by blast

lemma pools_okD:
  assumes "pools_ok U ps"
  shows "0 < next_obj ps" and "d \<in> U \<Longrightarrow> 0 < d \<and> d < next_obj ps"
    and "distinct (free_of ps th)"
    and "remote (pool_of ps th) = length (RemoteDataPointer (pool_of ps th))"
    and "total_datas (pool_of ps th) = card {d. 0 < d \<and> d < next_obj ps \<and> owner ps d = th}"
    and "d \<in> set (free_of ps th) \<longleftrightarrow> owner ps d = th \<and> 0 < d \<and> d < next_obj ps \<and> d \<notin> U"
  using assms unfolding pools_ok_def by blast+

lemma pools_ok_new: "pools_ok {} pools_new"
  by (rule pools_okI) (auto simp: pools_new_def pool_new_def)

lemma pools_ok_swap:
  assumes ok: "pools_ok U ps" and r: "remote (pool_of ps th) > 0" and e: "DataPointer (pool_of ps th) = []"
  shows "pools_ok U (newDatas n th ps) \<and> DataPointer (pool_of (newDatas n th ps) th) \<noteq> []"
proof -
  let ?ps = "newDatas n th ps"
  have fields: "next_obj ?ps = next_obj ps" "owner ?ps = owner ps"
      "pool_of ?ps t = (if t = th then (pool_of ps th)\<lparr>DataPointer := RemoteDataPointer (pool_of ps th),
         RemoteDataPointer := [], remote := 0\<rparr> else pool_of ps t)" for t
    using r e by (simp_all add: newDatas_def upd_pool_def)
  have free: "set (free_of ?ps t) = set (free_of ps t)" "distinct (free_of ?ps t) = distinct (free_of ps t)" for t
    using e by (auto simp: fields)
  have "pools_ok U ?ps"
  proof (rule pools_okI)
    show "d \<in> set (free_of ?ps t) \<longleftrightarrow> owner ?ps d = t \<and> 0 < d \<and> d < next_obj ?ps \<and> d \<notin> U" for d t
      unfolding free unfolding fields by (rule pools_okD(6) [OF ok])
    show "distinct (free_of ?ps t)" for t unfolding free by (rule pools_okD(3) [OF ok])
  qed (use pools_okD(1,2,4,5) [OF ok] in \<open>auto simp: fields\<close>)
  then show ?thesis using pools_okD(4) [OF ok, of th] r by (auto simp: fields)
qed

lemma pools_ok_block:
  assumes ok: "pools_ok U ps" and r: "remote (pool_of ps th) = 0" and n: "0 < n"
  shows "pools_ok U (newDatas n th ps) \<and> DataPointer (pool_of (newDatas n th ps) th) \<noteq> []"
proof -
  let ?ps = "newDatas n th ps" and ?k = "next_obj ps"
  have fields: "next_obj ?ps = ?k + n" "owner ?ps d = (if ?k \<le> d \<and> d < ?k + n then th else owner ps d)"
      "pool_of ?ps t = (if t = th then (pool_of ps th)\<lparr>DataPointer := DataPointer (pool_of ps th) @ [?k..<?k + n],
         total_datas := total_datas (pool_of ps th) + n\<rparr> else pool_of ps t)" for t d
    using r by (simp_all add: newDatas_def upd_pool_def)
  have k: "0 < ?k" by (rule pools_okD(1) [OF ok])
  have old: "d \<in> set (free_of ps t) \<Longrightarrow> d < ?k" for d t using pools_okD(6) [OF ok] by blast
  have card: "card {d. 0 < d \<and> d < ?k + n \<and> (if ?k \<le> d \<and> d < ?k + n then th else owner ps d) = t}
      = card {d. 0 < d \<and> d < ?k \<and> owner ps d = t} + (if t = th then n else 0)" for t
  proof -
    have "{d. 0 < d \<and> d < ?k + n \<and> (if ?k \<le> d \<and> d < ?k + n then th else owner ps d) = t}
        = {d. 0 < d \<and> d < ?k \<and> owner ps d = t} \<union> (if t = th then {?k..<?k + n} else {})"
      using k by auto
    moreover have "finite {d. 0 < d \<and> d < ?k \<and> owner ps d = t}"
      by (rule finite_subset [of _ "{..<?k}"]) auto
    moreover have "{d. 0 < d \<and> d < ?k \<and> owner ps d = t} \<inter> {?k..<?k + n} = {}" by auto
    ultimately show ?thesis
      using card_Un_disjoint [of "{d. 0 < d \<and> d < ?k \<and> owner ps d = t}" "{?k..<?k + n}"] by (cases "t = th") simp_all
  qed
  have "pools_ok U ?ps"
  proof (rule pools_okI)
    show "distinct (free_of ?ps t)" for t
      using pools_okD(3) [OF ok, of t] old [of _ t] by (fastforce simp: fields)
    show "d \<in> set (free_of ?ps t) \<longleftrightarrow> owner ?ps d = t \<and> 0 < d \<and> d < next_obj ?ps \<and> d \<notin> U" for d t
      using pools_okD(6) [OF ok, of d t] pools_okD(2) [OF ok, of d] old [of d t] k by (auto simp: fields)
  qed (use pools_okD [OF ok] k in \<open>auto simp: fields card trans_less_add1\<close>)
  then show ?thesis using n by (simp add: fields)
qed

lemma getData_ok:
  assumes ok: "pools_ok U ps" and n: "0 < n" and g: "getData n th ps = (d, ps')"
  shows "d \<noteq> 0 \<and> d \<notin> U \<and> pools_ok (insert d U) ps' \<and> owner ps' d = th"
proof -
  define q where "q = (if DataPointer (pool_of ps th) = [] then newDatas n th ps else ps)"
  have q: "pools_ok U q" "DataPointer (pool_of q th) \<noteq> []"
    using ok pools_ok_swap [OF ok] pools_ok_block [OF ok _ n] by (auto simp: q_def)
  then obtain xs where xs: "DataPointer (pool_of q th) = xs @ [d]"
    using g by (cases "DataPointer (pool_of q th)" rule: rev_cases) (auto simp: getData_def q_def [symmetric] Let_def)
  have ps': "ps' = upd_pool th (\<lambda>p. p\<lparr>DataPointer := xs\<rparr>) q"
    using g xs by (auto simp: getData_def q_def [symmetric] Let_def upd_pool_def)
  have fields: "next_obj ps' = next_obj q" "owner ps' = owner q"
      "pool_of ps' t = (if t = th then (pool_of q th)\<lparr>DataPointer := xs\<rparr> else pool_of q t)" for t
    by (simp_all add: ps' upd_pool_def)
  have d: "owner q d = th" "0 < d" "d < next_obj q" "d \<notin> U"
    using pools_okD(6) [OF q(1), of d th] xs by auto
  have "pools_ok (insert d U) ps'"
  proof (rule pools_okI)
    show "e \<in> set (free_of ps' t) \<longleftrightarrow> owner ps' e = t \<and> 0 < e \<and> e < next_obj ps' \<and> e \<notin> insert d U" for e t
      using pools_okD(6) [OF q(1), of e t] pools_okD(3) [OF q(1), of th] xs d by (auto simp: fields)
    show "distinct (free_of ps' t)" for t
      using pools_okD(3) [OF q(1), of t] xs by (auto simp: fields)
  qed (use pools_okD [OF q(1)] d in \<open>auto simp: fields\<close>)
  then show ?thesis using d by (simp add: fields)
qed

lemma entry_Delete_ok:
  assumes ok: "pools_ok U ps" and d: "d \<in> U"
  shows "pools_ok (U - {d}) (entry_Delete th d ps)"
proof -
  let ?o = "owner ps d" and ?ps = "entry_Delete th d ps"
  have free: "set (free_of ?ps t) = (if t = ?o then insert d (set (free_of ps t)) else set (free_of ps t))"
      "distinct (free_of ?ps t) \<longleftrightarrow> distinct (free_of ps t)" for t
    using pools_okD(6) [OF ok, of d t] d
    by (auto simp: entry_Delete_def returnOwnData_def returnData_def upd_pool_def)
  have fields: "next_obj ?ps = next_obj ps" "owner ?ps = owner ps"
      "total_datas (pool_of ?ps t) = total_datas (pool_of ps t)"
      "remote (pool_of ?ps t) - length (RemoteDataPointer (pool_of ?ps t))
         = remote (pool_of ps t) - length (RemoteDataPointer (pool_of ps t))" for t
    by (simp_all add: entry_Delete_def returnOwnData_def returnData_def upd_pool_def)
  show ?thesis
  proof (rule pools_okI)
    show "remote (pool_of ?ps t) = length (RemoteDataPointer (pool_of ?ps t))" for t
      using pools_okD(4) [OF ok, of t]
      by (auto simp: entry_Delete_def returnOwnData_def returnData_def upd_pool_def)
    show "e \<in> set (free_of ?ps t) \<longleftrightarrow> owner ?ps e = t \<and> 0 < e \<and> e < next_obj ?ps \<and> e \<notin> U - {d}" for e t
      using pools_okD(6) [OF ok, of e t] pools_okD(2) [OF ok d] unfolding free fields by auto
    show "distinct (free_of ?ps t)" for t unfolding free by (rule pools_okD(3) [OF ok])
  qed (use pools_okD(1,2,5) [OF ok] in \<open>auto simp: fields\<close>)
qed

lemma getMissing_ok:
  assumes ok: "pools_ok U ps"
  shows "getMissing (pool_of ps th) = int (card {d \<in> U. owner ps d = th})"
proof -
  let ?F = "set (free_of ps th)" and ?all = "{d. 0 < d \<and> d < next_obj ps \<and> owner ps d = th}"
  have fin: "finite ?all" by (rule finite_subset [of _ "{..<next_obj ps}"]) auto
  have "?all = ?F \<union> {d \<in> U. owner ps d = th}" "?F \<inter> {d \<in> U. owner ps d = th} = {}"
    using pools_okD(2) [OF ok] by (auto simp only: pools_okD(6) [OF ok] Un_iff mem_Collect_eq set_eq_iff Int_iff empty_iff)
  then have "card ?all = card ?F + card {d \<in> U. owner ps d = th}"
    using fin card_Un_disjoint [of ?F "{d \<in> U. owner ps d = th}"] by simp
  moreover have "card ?F = length (free_of ps th)"
    by (rule distinct_card) (rule pools_okD(3) [OF ok])
  ultimately show ?thesis using pools_okD(5) [OF ok, of th] by (simp add: getMissing_def)
qed

text \<open>
  A destructor reports exactly the objects in use.  A pool that is destroyed without leaks has called the
  destructor of each of its objects once; with one, the objects in use are freed without it.
\<close>

lemma DataPool_destroy_leak:
  assumes ok: "pools_ok U ps" and fin: "finite U"
  shows "DataPool_destroy report (pool_of ps th) = Inl e \<longleftrightarrow>
     report \<and> (\<exists>d \<in> U. owner ps d = th) \<and> e = (- 3, int (card {d \<in> U. owner ps d = th}))"
proof -
  have "getMissing (pool_of ps th) = 0 \<longleftrightarrow> \<not> (\<exists>d \<in> U. owner ps d = th)"
    using fin by (auto simp: getMissing_ok [OF ok])
  then show ?thesis using getMissing_ok [OF ok, of th] by (auto simp: DataPool_destroy_def)
qed

lemma DataPool_destroy_objects:
  assumes ok: "pools_ok U ps" and d: "DataPool_destroy report (pool_of ps th) = Inr ds"
  shows "distinct ds" and "set ds = {d. 0 < d \<and> d < next_obj ps \<and> owner ps d = th} - U"
proof -
  have ds: "ds = filter (\<lambda>i. i \<noteq> 0) (free_of ps th)" using d by (auto simp: DataPool_destroy_def split: if_splits)
  show "distinct ds" unfolding ds by (rule distinct_filter) (rule pools_okD(3) [OF ok])
  show "set ds = {d. 0 < d \<and> d < next_obj ps \<and> owner ps d = th} - U"
    unfolding ds set_filter using pools_okD(6) [OF ok, of _ th] by blast
qed

lemma ndatas_pos: "0 < ndatas pagesize elemSize"
  by (auto simp: ndatas_def Let_def)

interpretation tp: allocator pools_ok pools_new "getData (ndatas pagesize elemSize)" entry_Delete
  for pagesize elemSize
  by unfold_locales
     (use pools_ok_new getData_ok [OF _ ndatas_pos] entry_Delete_ok in blast)+

definition sp_ok :: "nat set \<Rightarrow> shared_pool \<Rightarrow> bool" where
  "sp_ok U p \<longleftrightarrow>
     0 < next_data p \<and> (\<forall>d \<in> U. 0 < d \<and> d < next_data p) \<and> distinct (dataPointer p) \<and>
     (\<forall>d \<in> set (dataPointer p). 0 < d \<and> d < next_data p \<and> d \<notin> U)"

lemma sp_getData_ok:
  assumes ok: "sp_ok U p" and n: "0 < n" and g: "sp_getData n p = (d, p')"
  shows "d \<noteq> 0 \<and> d \<notin> U \<and> sp_ok (insert d U) p'"
proof -
  define q where "q = (if dataPointer p = [] then sp_newDatas n p else p)"
  have "\<forall>d \<in> {next_data p..<next_data p + n}. d \<notin> U" using ok by (auto simp: sp_ok_def)
  then have q: "sp_ok U q" "dataPointer q \<noteq> []"
    using ok n by (auto simp: q_def sp_ok_def sp_newDatas_def)
  then obtain xs where xs: "dataPointer q = xs @ [d]"
    using g by (cases "dataPointer q" rule: rev_cases) (auto simp: sp_getData_def q_def [symmetric] Let_def)
  have "p' = q\<lparr>dataPointer := xs\<rparr>"
    using g xs by (auto simp: sp_getData_def q_def [symmetric] Let_def)
  then show ?thesis using q(1) xs by (auto simp: sp_ok_def)
qed

lemma sp_returnData_ok: "sp_ok U p \<Longrightarrow> d \<in> U \<Longrightarrow> sp_ok (U - {d}) (sp_returnData d p)"
  by (auto simp: sp_ok_def sp_returnData_def)

interpretation sp: allocator sp_ok shared_pool_new "\<lambda>th. sp_getData (Suc n)" "\<lambda>th. sp_returnData"
  for n
proof unfold_locales
  show "sp_ok {} shared_pool_new" by (simp add: sp_ok_def shared_pool_new_def)
qed (use sp_getData_ok [OF _ zero_less_Suc] sp_returnData_ok in blast)+

section \<open>Claims\<close>

text \<open>A step of a history: thread \<open>th\<close> takes an object, or gives back the \<open>i\<close>-th of the objects in use.\<close>

datatype pool_event = New nat | Give_back nat nat

fun pool_run :: "nat \<Rightarrow> pool_event list \<Rightarrow> nat list \<times> pools \<Rightarrow> nat list \<times> pools" where
  "pool_run n [] s = s"
| "pool_run n (New th # es) (held, ps) = (case getData n th ps of (d, ps) \<Rightarrow> pool_run n es (d # held, ps))"
| "pool_run n (Give_back th i # es) (held, ps) =
     (if i < length held
      then pool_run n es (take i held @ drop (Suc i) held, entry_Delete th (held ! i) ps)
      else pool_run n es (held, ps))"

fun to_op :: "pool_event \<Rightarrow> nat \<times> nat option" where
  "to_op (New th) = (th, None)"
| "to_op (Give_back th i) = (th, Some i)"

lemma pool_run_eq:
  "pool_run (ndatas pagesize elemSize) es s = tp.run pagesize elemSize (map to_op es) s"
  by (induction "ndatas pagesize elemSize" es s rule: pool_run.induct) (auto split: prod.splits)

text \<open>
  C30: However threads take objects from their pools and give them back, to their own pool or, from
  another thread, to the owner's: the objects in use at any time are different from each other
  and from null.  The leak check of a pool counts exactly its objects still in use: its destructor ends the
  process when there are any and leaks are reported; otherwise it destroys each other object of the pool once.
\<close>

theorem pools_never_share:
  assumes "pool_run (ndatas pagesize elemSize) es ([], pools_new) = (held, ps)"
  shows "distinct held \<and> 0 \<notin> set held \<and>
         (\<forall>th. getMissing (pool_of ps th) = int (card {d \<in> set held. owner ps d = th})) \<and>
         (\<forall>th report e. DataPool_destroy report (pool_of ps th) = Inl e \<longleftrightarrow>
            report \<and> (\<exists>d \<in> set held. owner ps d = th) \<and> e = (- 3, int (card {d \<in> set held. owner ps d = th}))) \<and>
         (\<forall>th report ds. DataPool_destroy report (pool_of ps th) = Inr ds \<longrightarrow>
            distinct ds \<and> set ds = {d. 0 < d \<and> d < next_obj ps \<and> owner ps d = th} - set held)"
proof -
  have run: "pools_ok (set held) ps \<and> distinct held \<and> 0 \<notin> set held"
    using tp.run_ok [of "[]" pools_new pagesize elemSize "map to_op es"] assms pools_ok_new
    by (simp add: pool_run_eq)
  then have ok: "pools_ok (set held) ps" by blast
  show ?thesis
    using run getMissing_ok [OF ok] DataPool_destroy_leak [OF ok] DataPool_destroy_objects [OF ok] by simp
qed

theorem pools_never_share_witness:
  "let r = pool_run (ndatas 4096 2000) [New 1, New 1, Give_back 2 1, New 1] ([], pools_new)
   in fst r = [2, 3] \<and> distinct (fst r)"
proof -
  have n: "ndatas 4096 2000 = 4" by (simp add: ndatas_def)
  have "fst (pool_run 4 [New 1, New 1, Give_back 2 1, New 1] ([], pools_new)) = [2, 3]"
    by (simp add: getData_def newDatas_def upd_pool_def pools_new_def pool_new_def entry_Delete_def
        returnData_def returnOwnData_def upt_rec)
  then show ?thesis
    using pools_never_share [of 4096 2000 "[New 1, New 1, Give_back 2 1, New 1]", OF prod.collapse [symmetric]]
    by (simp add: n Let_def)
qed

end
