(* ===== verification/Cpt_Ompt.thy ===== *)
theory Cpt_Ompt
  imports Cpt_Measure Cpt_HashMap Cpt_Pool
begin

text \<open>
  \<^verbatim>\<open>src/ompt-critical.cpp\<close>: the data the tool keeps for threads, parallel regions, task groups,
  tasks, dependences and locks, and its OMPT callbacks.

  Objects are addresses, 0 is the null pointer, and \<open>th\<close> is the calling thread.  The
  synchronisation clocks embedded in the objects form one map from locations to clocks.  The
  bit mask of a task's flags is the set of its flags.  \<open>now\<close> is what \<^verbatim>\<open>getTime()\<close> returns during a
  callback; a callback with an \<^verbatim>\<open>ompTimer\<close> gets the times of its construction and destruction.
  The values the OpenMP runtime passes to a callback are its arguments.
\<close>

section \<open>Data\<close>

datatype task_flag =
    ompt_task_initial | ompt_task_implicit | ompt_task_explicit | ompt_task_target | ompt_task_taskwait
  | ompt_task_undeferred | ompt_task_untied | ompt_task_final | ompt_task_mergeable | ompt_task_merged
  | CptTaskFulfilled

datatype dependence_type =
    ompt_dependence_type_in | ompt_dependence_type_out | ompt_dependence_type_inout
  | ompt_dependence_type_mutexinoutset | ompt_dependence_type_source | ompt_dependence_type_sink
  | ompt_dependence_type_inoutset

text \<open>Where a synchronisation clock lives.\<close>

datatype sync_loc =
    Task_clock nat | Taskwait_clock nat | Barrier_clock nat nat | Taskgroup_clock nat
  | In_clock nat | Out_clock nat | Inoutset_clock nat | Lock_clock nat

record TaskDependency =
  depData :: nat
  dep_type :: dependence_type

record TaskData =
  isRunning :: bool
  InBarrier :: bool
  TaskType :: "task_flag set"
  ThreadNum :: int
  execution :: int
  BarrierIndex :: nat
  RefCount :: int
  Parent :: nat
  ImplicitTask :: nat
  Team :: nat
  TaskGroup :: nat
  Dependencies :: "TaskDependency list"
  DependencyMap :: "(u64, nat) CompactHashMap option"

definition TaskData_new :: TaskData where
  "TaskData_new = \<lparr>isRunning = False, InBarrier = False, TaskType = {}, ThreadNum = - 1, execution = 0,
     BarrierIndex = 0, RefCount = 1, Parent = 0, ImplicitTask = 0, Team = 0, TaskGroup = 0,
     Dependencies = [], DependencyMap = None\<rparr>"

definition isIncluded :: "TaskData \<Rightarrow> bool" where
  "isIncluded t \<longleftrightarrow> ompt_task_undeferred \<in> TaskType t"

definition isUntied :: "TaskData \<Rightarrow> bool" where
  "isUntied t \<longleftrightarrow> ompt_task_untied \<in> TaskType t"

definition isFulfilled :: "TaskData \<Rightarrow> bool" where
  "isFulfilled t \<longleftrightarrow> CptTaskFulfilled \<in> TaskType t"

definition setFulfilled :: "TaskData \<Rightarrow> TaskData" where
  "setFulfilled t = t\<lparr>TaskType := insert CptTaskFulfilled (TaskType t)\<rparr>"

text \<open>
  The state: the core of the tool, the thread-local variables by thread, the synchronisation
  clocks, the objects with their pools, and the lock table.  \<open>omptThreadCount\<close> is the position of
  the thread's counters in \<^verbatim>\<open>thread_counts\<close>, if it has any.
\<close>

record ompt =
  core :: tool
  thread_local_clock :: "nat \<Rightarrow> nat"
  omptThreadCount :: "nat \<Rightarrow> nat option"
  sync :: "sync_loc \<Rightarrow> syncClock"
  tasks :: "nat \<Rightarrow> TaskData"
  group_parent :: "nat \<Rightarrow> nat"
  team_code :: "nat \<Rightarrow> nat"
  task_pools :: pools
  team_pools :: pools
  group_pools :: pools
  dep_pools :: pools
  task_block :: nat
  team_block :: nat
  group_block :: nat
  dep_block :: nat
  Locks :: "(u64, nat) CompactHashMap"
  lock_held :: "nat \<Rightarrow> bool"
  next_lock :: nat

definition is_running :: "ompt \<Rightarrow> bool" where
  "is_running s = running (flags (core s))"

definition cur_clock :: "nat \<Rightarrow> ompt \<Rightarrow> threadClock" where
  "cur_clock th s = store (core s) (thread_local_clock s th)"

definition upd_cur :: "nat \<Rightarrow> (threadClock \<Rightarrow> threadClock) \<Rightarrow> ompt \<Rightarrow> ompt" where
  "upd_cur th f s = s\<lparr>core := upd_clock (thread_local_clock s th) f (core s)\<rparr>"

definition enter :: "nat \<Rightarrow> time \<Rightarrow> ClockState \<Rightarrow> ompt \<Rightarrow> ompt" where
  "enter th now cs s = upd_cur th (enterState (is_running s) now 0 cs) s"

definition leave :: "nat \<Rightarrow> time \<Rightarrow> bool \<Rightarrow> ompt \<Rightarrow> ompt" where
  "leave th now isRun s = upd_cur th (exitState (is_running s) now 0 isRun) s"

definition OmpHappensBefore :: "nat \<Rightarrow> sync_loc \<Rightarrow> ompt \<Rightarrow> ompt" where
  "OmpHappensBefore th l s = s\<lparr>sync := (sync s)(l := OmpHBefore (is_running s) (sync s l) (cur_clock th s))\<rparr>"

definition OmpHappensAfter :: "nat \<Rightarrow> sync_loc \<Rightarrow> ompt \<Rightarrow> ompt" where
  "OmpHappensAfter th l s =
     (case OmpHAfter (is_running s) (sync s l) (cur_clock th s) of
        (sc, tc) \<Rightarrow> upd_cur th (\<lambda>_. tc) (s\<lparr>sync := (sync s)(l := sc)\<rparr>))"

definition OmpClockReset :: "sync_loc \<Rightarrow> ompt \<Rightarrow> ompt" where
  "OmpClockReset l s = s\<lparr>sync := (sync s)(l := OmpCReset (is_running s) (sync s l))\<rparr>"

definition upd_task :: "nat \<Rightarrow> (TaskData \<Rightarrow> TaskData) \<Rightarrow> ompt \<Rightarrow> ompt" where
  "upd_task t f s = s\<lparr>tasks := (tasks s)(t := f (tasks s t))\<rparr>"

text \<open>\<^verbatim>\<open>if (analysis_flags->running) omptThreadCount->\<dots>++\<close>\<close>

definition count :: "nat \<Rightarrow> (omptCounts \<Rightarrow> omptCounts) \<Rightarrow> ompt \<Rightarrow> ompt" where
  "count th f s =
     (if is_running s
      then case omptThreadCount s th of
             None \<Rightarrow> s
           | Some i \<Rightarrow> s\<lparr>core := (core s)\<lparr>thread_counts :=
               map_option (\<lambda>cs. cs[i := f (cs ! i)]) (thread_counts (core s))\<rparr>\<rparr>
      else s)"

definition new_clock :: "nat \<Rightarrow> bool \<Rightarrow> ompt \<Rightarrow> ompt" where
  "new_clock th openmp s =
     (if thread_local_clock s th = 0
      then case my_next_id (core s) of (i, c) \<Rightarrow>
             s\<lparr>core := c\<lparr>store := (store c)(next_clock c := threadClock_new (ucast i) 0 openmp),
                        next_clock := Suc (next_clock c)\<rparr>,
               thread_local_clock := (thread_local_clock s)(th := next_clock c)\<rparr>
      else s)"

text \<open>The constructor and the destructor of \<^verbatim>\<open>ompTimer\<close>.\<close>

definition ompTimer_begin :: "nat \<Rightarrow> time \<Rightarrow> ompt \<Rightarrow> ompt" where
  "ompTimer_begin th now s = enter th now STATE_OMP (new_clock th False s)"

definition ompTimer_end :: "nat \<Rightarrow> time \<Rightarrow> ompt \<Rightarrow> ompt" where
  "ompTimer_end th now s = leave th now True s"

section \<open>Objects from the pools\<close>

text \<open>
  \<^verbatim>\<open>New\<close> takes an object from the calling thread's pool; an object of a new block has the fields
  and clocks its constructor gives it.
\<close>

definition fresh_objs :: "pools \<Rightarrow> pools \<Rightarrow> nat set" where
  "fresh_objs ps ps' = {d. next_obj ps \<le> d \<and> d < next_obj ps'}"

definition ParallelData_New :: "nat \<Rightarrow> nat \<Rightarrow> ompt \<Rightarrow> nat \<times> ompt" where
  "ParallelData_New th codeptr s =
     (case getData (team_block s) th (team_pools s) of (d, ps) \<Rightarrow>
        (d, s\<lparr>team_pools := ps,
              sync := (\<lambda>l. case l of
                 Barrier_clock t i \<Rightarrow> if t \<in> fresh_objs (team_pools s) ps then syncClock_init else sync s l
               | _ \<Rightarrow> sync s l),
              team_code := (team_code s)(d := codeptr)\<rparr>))"

definition ParallelData_Delete :: "nat \<Rightarrow> nat \<Rightarrow> ompt \<Rightarrow> ompt" where
  "ParallelData_Delete th d s = s\<lparr>team_pools := entry_Delete th d (team_pools s)\<rparr>"

definition GetParallelPtr :: "nat \<Rightarrow> sync_loc" where
  "GetParallelPtr team = Barrier_clock team 1"

definition GetBarrierPtr :: "nat \<Rightarrow> nat \<Rightarrow> sync_loc" where
  "GetBarrierPtr team i = Barrier_clock team i"

definition Taskgroup_New :: "nat \<Rightarrow> nat \<Rightarrow> ompt \<Rightarrow> nat \<times> ompt" where
  "Taskgroup_New th par s =
     (case getData (group_block s) th (group_pools s) of (d, ps) \<Rightarrow>
        (d, s\<lparr>group_pools := ps,
              sync := (\<lambda>l. case l of
                 Taskgroup_clock g \<Rightarrow> if g \<in> fresh_objs (group_pools s) ps then syncClock_init else sync s l
               | _ \<Rightarrow> sync s l),
              group_parent := (group_parent s)(d := par)\<rparr>))"

definition Taskgroup_Delete :: "nat \<Rightarrow> nat \<Rightarrow> ompt \<Rightarrow> ompt" where
  "Taskgroup_Delete th d s = s\<lparr>group_pools := entry_Delete th d (group_pools s)\<rparr>"

definition DependencyData_New :: "nat \<Rightarrow> ompt \<Rightarrow> nat \<times> ompt" where
  "DependencyData_New th s =
     (case getData (dep_block s) th (dep_pools s) of (d, ps) \<Rightarrow>
        (d, s\<lparr>dep_pools := ps,
              sync := (\<lambda>l. case l of
                 In_clock x \<Rightarrow> if x \<in> fresh_objs (dep_pools s) ps then syncClock_init else sync s l
               | Out_clock x \<Rightarrow> if x \<in> fresh_objs (dep_pools s) ps then syncClock_init else sync s l
               | Inoutset_clock x \<Rightarrow> if x \<in> fresh_objs (dep_pools s) ps then syncClock_init else sync s l
               | _ \<Rightarrow> sync s l)\<rparr>))"

definition DependencyData_Delete :: "nat \<Rightarrow> nat \<Rightarrow> ompt \<Rightarrow> ompt" where
  "DependencyData_Delete th d s = s\<lparr>dep_pools := entry_Delete th d (dep_pools s)\<rparr>"

text \<open>\<^verbatim>\<open>DataPoolEntry<TaskData>::New\<close>, before the \<^verbatim>\<open>Init\<close>.\<close>

definition TaskData_alloc :: "nat \<Rightarrow> ompt \<Rightarrow> nat \<times> ompt" where
  "TaskData_alloc th s =
     (case getData (task_block s) th (task_pools s) of (d, ps) \<Rightarrow>
        (d, s\<lparr>task_pools := ps,
              tasks := (\<lambda>t. if t \<in> fresh_objs (task_pools s) ps then TaskData_new else tasks s t),
              sync := (\<lambda>l. case l of
                 Task_clock t \<Rightarrow> if t \<in> fresh_objs (task_pools s) ps then syncClock_init else sync s l
               | Taskwait_clock t \<Rightarrow> if t \<in> fresh_objs (task_pools s) ps then syncClock_init else sync s l
               | _ \<Rightarrow> sync s l)\<rparr>))"

text \<open>The three \<^verbatim>\<open>Init\<close> methods: a child task, an initial task, an implicit task.\<close>

definition Init_child :: "nat \<Rightarrow> nat \<Rightarrow> task_flag set \<Rightarrow> ompt \<Rightarrow> ompt" where
  "Init_child t par taskType s =
     (let s = upd_task t (\<lambda>d. d\<lparr>isRunning := is_running s, TaskType := taskType, Parent := par,
                               Team := Team (tasks s par)\<rparr>) s
      in if par \<noteq> 0
         then let s = upd_task par (\<lambda>d. d\<lparr>RefCount := RefCount d + 1\<rparr>) s
              in upd_task t (\<lambda>d. d\<lparr>TaskGroup := TaskGroup (tasks s par)\<rparr>) s
         else s)"

definition Init_initial :: "nat \<Rightarrow> nat \<Rightarrow> task_flag set \<Rightarrow> ompt \<Rightarrow> ompt" where
  "Init_initial t team taskType s =
     upd_task t (\<lambda>d. d\<lparr>isRunning := is_running s, TaskType := taskType, execution := 1, ImplicitTask := t,
                      Team := team\<rparr>) s"

definition Init_implicit :: "nat \<Rightarrow> nat \<Rightarrow> int \<Rightarrow> task_flag set \<Rightarrow> ompt \<Rightarrow> ompt" where
  "Init_implicit t team threadNum taskType s =
     upd_task t (\<lambda>d. d\<lparr>isRunning := is_running s, TaskType := taskType, execution := 1, ImplicitTask := t,
                      Team := team, ThreadNum := threadNum\<rparr>) s"

definition TaskData_New_child :: "nat \<Rightarrow> nat \<Rightarrow> task_flag set \<Rightarrow> ompt \<Rightarrow> nat \<times> ompt" where
  "TaskData_New_child th par taskType s =
     (case TaskData_alloc th s of (t, s) \<Rightarrow> (t, Init_child t par taskType s))"

definition TaskData_New_initial :: "nat \<Rightarrow> nat \<Rightarrow> task_flag set \<Rightarrow> ompt \<Rightarrow> nat \<times> ompt" where
  "TaskData_New_initial th team taskType s =
     (case TaskData_alloc th s of (t, s) \<Rightarrow> (t, Init_initial t team taskType s))"

definition TaskData_New_implicit :: "nat \<Rightarrow> nat \<Rightarrow> int \<Rightarrow> task_flag set \<Rightarrow> ompt \<Rightarrow> nat \<times> ompt" where
  "TaskData_New_implicit th team threadNum taskType s =
     (case TaskData_alloc th s of (t, s) \<Rightarrow> (t, Init_implicit t team threadNum taskType s))"

text \<open>\<^verbatim>\<open>TaskData::Reset\<close> gives the dependency data of the map back and clears the fields; the two clocks stay.\<close>

definition TaskData_Reset :: "nat \<Rightarrow> nat \<Rightarrow> ompt \<Rightarrow> ompt" where
  "TaskData_Reset th t s =
     (let s = (case DependencyMap (tasks s t) of
                 None \<Rightarrow> s
               | Some m \<Rightarrow> fold (\<lambda>(k, d). DependencyData_Delete th d) (hm_entries m) s)
      in upd_task t (\<lambda>d. d\<lparr>isRunning := False, InBarrier := False, TaskType := {}, execution := 0,
                          BarrierIndex := 0, RefCount := 1, Parent := 0, ImplicitTask := 0, Team := 0,
                          ThreadNum := - 1, TaskGroup := 0, DependencyMap := None, Dependencies := []\<rparr>) s)"

definition TaskData_Delete :: "nat \<Rightarrow> nat \<Rightarrow> ompt \<Rightarrow> ompt" where
  "TaskData_Delete th t s =
     (let s = TaskData_Reset th t s in s\<lparr>task_pools := entry_Delete th t (task_pools s)\<rparr>)"

section \<open>Dependences\<close>

definition AnnotateBegin :: "nat \<Rightarrow> TaskDependency \<Rightarrow> ompt \<Rightarrow> ompt" where
  "AnnotateBegin th d s =
     (if dep_type d = ompt_dependence_type_out \<or> dep_type d = ompt_dependence_type_inout \<or>
         dep_type d = ompt_dependence_type_mutexinoutset
      then OmpHappensAfter th (Inoutset_clock (depData d))
            (OmpHappensAfter th (Out_clock (depData d)) (OmpHappensAfter th (In_clock (depData d)) s))
      else if dep_type d = ompt_dependence_type_in
      then OmpHappensAfter th (Inoutset_clock (depData d)) (OmpHappensAfter th (Out_clock (depData d)) s)
      else if dep_type d = ompt_dependence_type_inoutset
      then OmpHappensAfter th (Out_clock (depData d)) (OmpHappensAfter th (In_clock (depData d)) s)
      else s)"

definition AnnotateEnd :: "nat \<Rightarrow> TaskDependency \<Rightarrow> ompt \<Rightarrow> ompt" where
  "AnnotateEnd th d s =
     (if dep_type d = ompt_dependence_type_out \<or> dep_type d = ompt_dependence_type_inout \<or>
         dep_type d = ompt_dependence_type_mutexinoutset
      then OmpHappensBefore th (Out_clock (depData d)) s
      else if dep_type d = ompt_dependence_type_in
      then OmpHappensBefore th (In_clock (depData d)) s
      else if dep_type d = ompt_dependence_type_inoutset
      then OmpHappensBefore th (Inoutset_clock (depData d)) s
      else s)"

definition releaseDependencies :: "nat \<Rightarrow> nat \<Rightarrow> ompt \<Rightarrow> ompt" where
  "releaseDependencies th t s = fold (AnnotateEnd th) (Dependencies (tasks s t)) s"

definition acquireDependencies :: "nat \<Rightarrow> nat \<Rightarrow> ompt \<Rightarrow> ompt" where
  "acquireDependencies th t s = fold (AnnotateBegin th) (Dependencies (tasks s t)) s"

section \<open>Threads and parallel regions\<close>

definition new_pools :: "nat \<Rightarrow> ompt \<Rightarrow> ompt" where
  "new_pools th s =
     s\<lparr>team_pools := upd_pool th (\<lambda>_. pool_new) (team_pools s),
       group_pools := upd_pool th (\<lambda>_. pool_new) (group_pools s),
       task_pools := upd_pool th (\<lambda>_. pool_new) (task_pools s),
       dep_pools := upd_pool th (\<lambda>_. pool_new) (dep_pools s)\<rparr>"

text \<open>\<^verbatim>\<open>ompt_start_tool\<close> has allocated the two vectors before a thread begins.\<close>

definition ompt_tsan_thread_begin :: "nat \<Rightarrow> bool \<Rightarrow> time \<Rightarrow> ompt \<Rightarrow> ompt" where
  "ompt_tsan_thread_begin th initial now s =
     (let s = new_pools th s;
          s = new_clock th True s;
          i = (case thread_counts (core s) of None \<Rightarrow> 0 | Some cs \<Rightarrow> length cs);
          s = s\<lparr>core := (core s)\<lparr>
                 thread_clocks := map_option (\<lambda>ps. ps @ [thread_local_clock s th]) (thread_clocks (core s)),
                 thread_counts := map_option (\<lambda>cs. cs @ [omptCounts_zero]) (thread_counts (core s))\<rparr>,
               omptThreadCount := (omptThreadCount s)(th := Some i)\<rparr>
      in if initial then enter th now STATE_OMP s
         else upd_cur th (enterState (is_running s) now (startProgrammTime (core s)) STATE_OMP) s)"

text \<open>The four pools are destroyed in this order; a destructor may end the process.  A pool that is gone is empty.\<close>

definition ompt_tsan_thread_end :: "nat \<Rightarrow> ompt \<Rightarrow> (int \<times> int) + ompt" where
  "ompt_tsan_thread_end th s =
     (let destroy = (\<lambda>ps. DataPool_destroy (report_data_leak (flags (core s))) (pool_of ps th)) in
      case destroy (team_pools s) of Inl e \<Rightarrow> Inl e | Inr _ \<Rightarrow>
     (case destroy (group_pools s) of Inl e \<Rightarrow> Inl e | Inr _ \<Rightarrow>
     (case destroy (task_pools s) of Inl e \<Rightarrow> Inl e | Inr _ \<Rightarrow>
     (case destroy (dep_pools s) of Inl e \<Rightarrow> Inl e | Inr _ \<Rightarrow> Inr (new_pools th s)))))"

lemma thread_end_Inr: "ompt_tsan_thread_end th s = Inr s' \<Longrightarrow> s' = new_pools th s"
  by (auto simp: ompt_tsan_thread_end_def Let_def split: sum.splits)

definition ompt_tsan_parallel_begin :: "nat \<Rightarrow> nat \<Rightarrow> time \<Rightarrow> ompt \<Rightarrow> nat \<times> ompt" where
  "ompt_tsan_parallel_begin th codeptr_ra now s =
     (case ParallelData_New th codeptr_ra s of (d, s) \<Rightarrow>
        (d, OmpHappensBefore th (GetParallelPtr d) (enter th now STATE_OMP s)))"

definition ompt_tsan_parallel_end :: "nat \<Rightarrow> nat \<Rightarrow> time \<Rightarrow> ompt \<Rightarrow> ompt" where
  "ompt_tsan_parallel_end th team now s = ParallelData_Delete th team (leave th now True s)"

text \<open>\<^verbatim>\<open>implicit_task\<close> at its begin (returning the team and the task) and at its end.\<close>

definition implicit_task_begin ::
  "nat \<Rightarrow> nat \<Rightarrow> int \<Rightarrow> task_flag set \<Rightarrow> time \<Rightarrow> ompt \<Rightarrow> nat \<times> nat \<times> ompt"
where
  "implicit_task_begin th team thread_num type now s =
     (let s = count th (\<lambda>c. c\<lparr>implTaskBegin := implTaskBegin c + 1\<rparr>) s;
          (team, s) =
            (if ompt_task_initial \<in> type then ParallelData_New th 0 s
             else let s = (if GetState (cur_clock th s) = STATE_INIT then enter th now STATE_OMP s else s)
                  in (team, OmpHappensAfter th (GetParallelPtr team) s));
          (t, s) = TaskData_New_implicit th team thread_num type s
      in (team, t, enter th now STATE_USEFUL s))"

definition implicit_task_end :: "nat \<Rightarrow> nat \<Rightarrow> nat \<Rightarrow> task_flag set \<Rightarrow> time \<Rightarrow> ompt \<Rightarrow> ompt" where
  "implicit_task_end th team t type now s =
     (let s = count th (\<lambda>c. c\<lparr>implTaskEnd := implTaskEnd c + 1\<rparr>) s;
          s = leave th now (isRunning (tasks s t)) s;
          s = TaskData_Delete th t s
      in if ompt_task_initial \<in> type then ParallelData_Delete th team s else s)"

section \<open>Synchronisation regions\<close>

datatype sync_region_kind =
    region_barrier      \<comment> \<open>the seven kinds of barrier\<close>
  | region_taskwait
  | region_taskgroup
  | region_reduction

definition barrier_begin :: "nat \<Rightarrow> nat \<Rightarrow> time \<Rightarrow> ompt \<Rightarrow> ompt" where
  "barrier_begin th t now s =
     (let s = upd_task t (\<lambda>d. d\<lparr>InBarrier := True\<rparr>) s;
          s = enter th now STATE_OMP s;
          d = tasks s t;
          s = OmpHappensBefore th (GetBarrierPtr (Team d) (BarrierIndex d)) s
      in if ThreadNum d = 0 then OmpClockReset (GetBarrierPtr (Team d) ((BarrierIndex d + 1) mod 3)) s else s)"

definition barrier_end :: "nat \<Rightarrow> nat \<Rightarrow> bool \<Rightarrow> time \<Rightarrow> ompt \<Rightarrow> ompt" where
  "barrier_end th t has_parallel now s =
     (let d = tasks s t;
          s = (if has_parallel \<or> ThreadNum d = 0
               then OmpHappensAfter th (GetBarrierPtr (Team d) (BarrierIndex d)) s else s);
          s = upd_task t (\<lambda>d'. d'\<lparr>BarrierIndex := (BarrierIndex d + 1) mod 3, InBarrier := False\<rparr>) s
      in leave th now (isRunning (tasks s t)) s)"

definition sync_region_begin :: "nat \<Rightarrow> sync_region_kind \<Rightarrow> nat \<Rightarrow> time \<Rightarrow> ompt \<Rightarrow> ompt" where
  "sync_region_begin th kind t now s =
     (let s = count th (\<lambda>c. c\<lparr>syncRegionBegin := syncRegionBegin c + 1\<rparr>) s
      in case kind of
           region_barrier \<Rightarrow> barrier_begin th t now s
         | region_taskwait \<Rightarrow> enter th now STATE_OMP (upd_task t (\<lambda>d. d\<lparr>InBarrier := True\<rparr>) s)
         | region_taskgroup \<Rightarrow>
             (case Taskgroup_New th (TaskGroup (tasks s t)) s of
                (g, s) \<Rightarrow> upd_task t (\<lambda>d. d\<lparr>TaskGroup := g\<rparr>) s)
         | region_reduction \<Rightarrow> s)"

definition sync_region_end :: "nat \<Rightarrow> sync_region_kind \<Rightarrow> nat \<Rightarrow> bool \<Rightarrow> time \<Rightarrow> time \<Rightarrow> ompt \<Rightarrow> ompt" where
  "sync_region_end th kind t has_parallel now now' s =
     (let s = count th (\<lambda>c. c\<lparr>syncRegionEnd := syncRegionEnd c + 1\<rparr>) s
      in case kind of
           region_barrier \<Rightarrow> barrier_end th t has_parallel now s
         | region_taskwait \<Rightarrow>
             (let s = (if execution (tasks s t) > 1 then OmpHappensAfter th (Taskwait_clock t) s else s);
                  s = upd_task t (\<lambda>d. d\<lparr>InBarrier := False\<rparr>) s
              in leave th now (isRunning (tasks s t)) s)
         | region_taskgroup \<Rightarrow>
             (let s = ompTimer_begin th now s;
                  g = TaskGroup (tasks s t);
                  s = OmpHappensAfter th (Taskgroup_clock g) s;
                  par = group_parent s g;
                  s = Taskgroup_Delete th g s;
                  s = upd_task t (\<lambda>d. d\<lparr>TaskGroup := par\<rparr>) s
              in ompTimer_end th now' s)
         | region_reduction \<Rightarrow> s)"

text \<open>\<^verbatim>\<open>sync_region\<close> with its endpoint; \<^verbatim>\<open>ompt_scope_beginend\<close> falls through from the begin to the end.\<close>

datatype scope_endpoint = ompt_scope_begin | ompt_scope_end | ompt_scope_beginend

definition ompt_tsan_sync_region ::
  "nat \<Rightarrow> sync_region_kind \<Rightarrow> scope_endpoint \<Rightarrow> bool \<Rightarrow> nat \<Rightarrow> time \<Rightarrow> time \<Rightarrow> ompt \<Rightarrow> ompt"
where
  "ompt_tsan_sync_region th kind endpoint has_parallel t now now' s =
     (case endpoint of
        ompt_scope_begin \<Rightarrow> sync_region_begin th kind t now s
      | ompt_scope_end \<Rightarrow> sync_region_end th kind t has_parallel now now' s
      | ompt_scope_beginend \<Rightarrow> sync_region_end th kind t has_parallel now now' (sync_region_begin th kind t now s))"

definition sync_region_wait_begin :: "nat \<Rightarrow> nat \<Rightarrow> time \<Rightarrow> ompt \<Rightarrow> ompt" where
  "sync_region_wait_begin th t now s =
     enter th now STATE_OMP (upd_task t (\<lambda>d. d\<lparr>InBarrier := True\<rparr>)
       (count th (\<lambda>c. c\<lparr>syncRegionBegin := syncRegionBegin c + 1\<rparr>) s))"

definition sync_region_wait_end :: "nat \<Rightarrow> nat \<Rightarrow> time \<Rightarrow> ompt \<Rightarrow> ompt" where
  "sync_region_wait_end th t now s =
     (let s = upd_task t (\<lambda>d. d\<lparr>InBarrier := False\<rparr>)
                (count th (\<lambda>c. c\<lparr>syncRegionEnd := syncRegionEnd c + 1\<rparr>) s)
      in leave th now (isRunning (tasks s t)) s)"

definition ompt_tsan_sync_region_wait ::
  "nat \<Rightarrow> sync_region_kind \<Rightarrow> scope_endpoint \<Rightarrow> nat \<Rightarrow> time \<Rightarrow> ompt \<Rightarrow> ompt"
where
  "ompt_tsan_sync_region_wait th kind endpoint t now s =
     (if kind = region_taskgroup
      then case endpoint of
             ompt_scope_begin \<Rightarrow> sync_region_wait_begin th t now s
           | ompt_scope_end \<Rightarrow> sync_region_wait_end th t now s
           | ompt_scope_beginend \<Rightarrow> sync_region_wait_end th t now (sync_region_wait_begin th t now s)
      else s)"

datatype control_command = tool_start | tool_pause | tool_flush | tool_end | tool_other

definition ompt_tsan_control_tool ::
  "mpi_env \<Rightarrow> nat \<Rightarrow> control_command \<Rightarrow> time \<Rightarrow> ompt \<Rightarrow> int \<times> ompt"
where
  "ompt_tsan_control_tool mpi th command now s =
     (case command of
        tool_start \<Rightarrow> (0, s\<lparr>core := startTool now True STATE_USEFUL (thread_local_clock s th) (core s)\<rparr>)
      | tool_pause \<Rightarrow> (1, s)
      | tool_flush \<Rightarrow> (1, s)
      | tool_end \<Rightarrow> (0, s\<lparr>core := snd (stopTool mpi now (thread_local_clock s th) (core s))\<rparr>)
      | tool_other \<Rightarrow> (0, s))"

section \<open>Tasks\<close>

text \<open>
  \<^verbatim>\<open>task_create\<close>: for an initial task the first component is the new team, stored where
  \<^verbatim>\<open>ompt_get_parallel_info\<close> points; the second is the new task, 0 when none is made.
\<close>

definition ompt_tsan_task_create ::
  "nat \<Rightarrow> nat \<Rightarrow> task_flag set \<Rightarrow> time \<Rightarrow> time \<Rightarrow> ompt \<Rightarrow> nat \<times> nat \<times> ompt"
where
  "ompt_tsan_task_create th par type now now' s =
     (let s = count th (\<lambda>c. c\<lparr>taskCreate := taskCreate c + 1\<rparr>) s
      in if ompt_task_initial \<in> type
         then case ParallelData_New th 0 s of (team, s) \<Rightarrow>
                (case TaskData_New_initial th team type s of (t, s) \<Rightarrow> (team, t, s))
         else if ompt_task_undeferred \<in> type
         then case TaskData_New_child th par type s of (t, s) \<Rightarrow> (0, t, s)
         else if ompt_task_explicit \<in> type \<or> ompt_task_target \<in> type
         then case TaskData_New_child th par type s of (t, s) \<Rightarrow>
                (let s = ompTimer_begin th now s;
                     s = OmpHappensBefore th (Task_clock t) s;
                     s = upd_task par (\<lambda>d. d\<lparr>execution := execution d + 1\<rparr>) s
                 in (0, t, ompTimer_end th now' s))
         else (0, 0, s))"

text \<open>\<^verbatim>\<open>task_creation\<close>, which \<^verbatim>\<open>ompt_tsan_initialize\<close> does not register.\<close>

definition ompt_tsan_task_creation :: "nat \<Rightarrow> scope_endpoint \<Rightarrow> time \<Rightarrow> ompt \<Rightarrow> ompt" where
  "ompt_tsan_task_creation th endpoint now s =
     (case endpoint of
        ompt_scope_begin \<Rightarrow> enter th now STATE_OMP s
      | ompt_scope_end \<Rightarrow> leave th now True s
      | ompt_scope_beginend \<Rightarrow> s)"

text \<open>
  \<^verbatim>\<open>freeTask\<close>: the loop goes up the parents as long as the reference count drops to zero.  The
  first argument bounds its iterations; \<^const>\<open>None\<close> means that the bound was too small.
\<close>

fun freeTask :: "nat \<Rightarrow> nat \<Rightarrow> nat \<Rightarrow> ompt \<Rightarrow> ompt option" where
  "freeTask fuel th t s =
     (if t = 0 then Some s
      else let s = upd_task t (\<lambda>d. d\<lparr>RefCount := RefCount d - 1\<rparr>) s
           in if RefCount (tasks s t) = 0
              then (case fuel of
                      0 \<Rightarrow> None
                    | Suc fuel' \<Rightarrow>
                        (let par = Parent (tasks s t)
                         in freeTask fuel' th par (TaskData_Delete th t s)))
              else Some s)"

declare freeTask.simps [simp del]

text \<open>
  \<^verbatim>\<open>completeTask\<close>: the arcs it draws, and the pointers it dereferences for them.  The initial and the implicit tasks
  have no parent; completing one of them uses the null pointer.
\<close>

definition completeTask_arcs :: "nat \<Rightarrow> nat \<Rightarrow> ompt \<Rightarrow> ompt" where
  "completeTask_arcs th t s =
     (if t = 0 then s
      else let d = tasks s t;
               s = (if isFulfilled d then OmpHappensAfter th (Task_clock t) s else s);
               s = (if \<not> isIncluded d
                    then let s = OmpHappensBefore th (GetBarrierPtr (Team d) (BarrierIndex d)) s;
                             s = OmpHappensBefore th (Taskwait_clock (Parent d)) s
                         in if TaskGroup d \<noteq> 0 then OmpHappensBefore th (Taskgroup_clock (TaskGroup d)) s else s
                    else OmpHappensBefore th (Task_clock (Parent d)) s)
           in releaseDependencies th t s)"

definition can_complete :: "nat \<Rightarrow> TaskData \<Rightarrow> bool" where
  "can_complete t d \<longleftrightarrow> t = 0 \<or> Parent d \<noteq> 0 \<and> (isIncluded d \<or> Team d \<noteq> 0)"

definition completeTask :: "nat \<Rightarrow> nat \<Rightarrow> ompt \<Rightarrow> ompt option" where
  "completeTask th t s = (if can_complete t (tasks s t) then Some (completeTask_arcs th t s) else None)"

text \<open>\<^verbatim>\<open>suspendTask\<close> writes to the task that runs next, which must exist when there is one to suspend.\<close>

definition suspendTask_to :: "nat \<Rightarrow> nat \<Rightarrow> nat \<Rightarrow> time \<Rightarrow> ompt \<Rightarrow> ompt" where
  "suspendTask_to th from to now s =
     (if from = 0 then s
      else let d = tasks s from;
               s = (if isUntied d
                    then if InBarrier d then enter th now STATE_OMP s
                         else OmpHappensBefore th (Task_clock from) (leave th now (isRunning d) s)
                    else enter th now STATE_OMP s)
           in upd_task to (\<lambda>e. e\<lparr>ImplicitTask := ImplicitTask (tasks s from)\<rparr>) s)"

definition suspendTask :: "nat \<Rightarrow> nat \<Rightarrow> nat \<Rightarrow> time \<Rightarrow> ompt \<Rightarrow> ompt option" where
  "suspendTask th from to now s = (if from \<noteq> 0 \<and> to = 0 then None else Some (suspendTask_to th from to now s))"

definition suspendTaskEnd :: "nat \<Rightarrow> nat \<Rightarrow> time \<Rightarrow> ompt \<Rightarrow> ompt" where
  "suspendTaskEnd th from now s = (if from = 0 then s else leave th now (isRunning (tasks s from)) s)"

definition startTask :: "nat \<Rightarrow> nat \<Rightarrow> time \<Rightarrow> ompt \<Rightarrow> ompt" where
  "startTask th to now s =
     (if to = 0 then s
      else if execution (tasks s to) = 0
      then let s = upd_task to (\<lambda>d. d\<lparr>execution := execution d + 1\<rparr>) s;
               s = acquireDependencies th to s;
               s = OmpHappensAfter th (Task_clock to) s
           in enter th now STATE_USEFUL s
      else if isUntied (tasks s to)
      then if InBarrier (tasks s to) then leave th now (isRunning (tasks s to)) s
           else enter th now STATE_USEFUL (OmpHappensAfter th (Task_clock to) s)
      else leave th now (isRunning (tasks s to)) s)"

datatype task_status =
    ompt_task_complete | ompt_task_yield | ompt_task_cancel | ompt_task_detach
  | ompt_task_early_fulfill | ompt_task_late_fulfill | ompt_task_switch | ompt_taskwait_complete

definition ompt_tsan_task_schedule ::
  "nat \<Rightarrow> nat \<Rightarrow> task_status \<Rightarrow> nat \<Rightarrow> time \<Rightarrow> time \<Rightarrow> ompt \<Rightarrow> ompt option"
where
  "ompt_tsan_task_schedule th from status to now now' s =
     (let s = count th (\<lambda>c. c\<lparr>taskSchedule := taskSchedule c + 1\<rparr>) s;
          fuel = next_obj (task_pools s)
      in case status of
           ompt_task_early_fulfill \<Rightarrow>
             (if from = 0 then None
              else let s = OmpHappensBefore th (Task_clock from) (ompTimer_begin th now s)
                   in Some (ompTimer_end th now' (upd_task from setFulfilled s)))
         | ompt_task_late_fulfill \<Rightarrow>
             (if from = 0 then None
              else do {
                let s = OmpHappensAfter th (Task_clock from) (ompTimer_begin th now s);
                s \<leftarrow> completeTask th from s;
                s \<leftarrow> freeTask fuel th from s;
                Some (ompTimer_end th now' s) })
         | ompt_taskwait_complete \<Rightarrow>
             (if from = 0 then None
              else do {
                s \<leftarrow> freeTask fuel th from (acquireDependencies th from (ompTimer_begin th now s));
                Some (ompTimer_end th now' s) })
         | ompt_task_detach \<Rightarrow> Some (startTask th to now (suspendTaskEnd th from now s))
         | ompt_task_yield \<Rightarrow> do { s \<leftarrow> suspendTask th from to now s; Some (startTask th to now s) }
         | ompt_task_switch \<Rightarrow> do { s \<leftarrow> suspendTask th from to now s; Some (startTask th to now s) }
         | _ \<Rightarrow>
             do {
               s \<leftarrow> completeTask th from (suspendTaskEnd th from now s);
               s \<leftarrow> freeTask fuel th from s;
               Some (startTask th to now s) })"

text \<open>
  \<^verbatim>\<open>dependences\<close>: one iteration looks the variable up in the parent's map and makes its data on
  the first use.  The variables of a task without a parent have no map; its null pointer is dereferenced.
\<close>

definition add_dependence ::
  "nat \<Rightarrow> nat \<Rightarrow> u64 \<times> dependence_type \<Rightarrow> ompt \<Rightarrow> ompt option"
where
  "add_dependence th t dep s =
     (let par = Parent (tasks s t)
      in case DependencyMap (tasks s par) of
           None \<Rightarrow> None
         | Some m \<Rightarrow>
             do {
               ((i, inserted), m) \<leftarrow> hm_insert Hash (fst dep) 0 m;
               let (m, s) = (if inserted
                             then (case DependencyData_New th s of (d, s) \<Rightarrow> (hm_store i d m, s))
                             else (Some m, s));
               m \<leftarrow> m;
               d \<leftarrow> hm_deref i m;
               let s = upd_task par (\<lambda>p. p\<lparr>DependencyMap := Some m\<rparr>) s;
               Some (upd_task t (\<lambda>x. x\<lparr>Dependencies := Dependencies x @ [\<lparr>depData = d, dep_type = snd dep\<rparr>]\<rparr>) s) })"

fun add_dependences :: "nat \<Rightarrow> nat \<Rightarrow> (u64 \<times> dependence_type) list \<Rightarrow> ompt \<Rightarrow> ompt option" where
  "add_dependences th t [] s = Some s"
| "add_dependences th t (d # ds) s = do { s \<leftarrow> add_dependence th t d s; add_dependences th t ds s }"

definition ompt_tsan_dependences ::
  "nat \<Rightarrow> nat \<Rightarrow> (u64 \<times> dependence_type) list \<Rightarrow> time \<Rightarrow> time \<Rightarrow> ompt \<Rightarrow> ompt option"
where
  "ompt_tsan_dependences th t deps now now' s =
     (if deps = [] then Some s
      else if Parent (tasks s t) = 0 then None
      else do {
        let s = ompTimer_begin th now s;
        let par = Parent (tasks s t);
        let s = (if DependencyMap (tasks s par) = None then upd_task par (\<lambda>p. p\<lparr>DependencyMap := Some hm_new\<rparr>) s else s);
        let s = upd_task t (\<lambda>d. d\<lparr>Dependencies := []\<rparr>) s;
        s \<leftarrow> add_dependences th t deps s;
        Some (ompTimer_end th now' (OmpHappensBefore th (Task_clock t) s)) })"

section \<open>Locks\<close>

definition ompt_tsan_mutex_acquire :: "nat \<Rightarrow> time \<Rightarrow> ompt \<Rightarrow> ompt" where
  "ompt_tsan_mutex_acquire th now s =
     enter th now STATE_OMP (count th (\<lambda>c. c\<lparr>mutexAcquire := mutexAcquire c + 1\<rparr>) s)"

text \<open>
  \<^verbatim>\<open>mutex_acquired\<close> up to the lock of the pair: the address of the pair for the wait id, made on
  first use.
\<close>

definition lock_pair :: "u64 \<Rightarrow> ompt \<Rightarrow> (nat \<times> ompt) option" where
  "lock_pair wait_id s = do {
     ((i, inserted), m) \<leftarrow> hm_insert Hash wait_id 0 (Locks s);
     if inserted
     then do {
       m \<leftarrow> hm_store i (next_lock s) m;
       Some (next_lock s, s\<lparr>Locks := m, next_lock := Suc (next_lock s),
              lock_held := (lock_held s)(next_lock s := False),
              sync := (sync s)(Lock_clock (next_lock s) := syncClock_init)\<rparr>) }
     else do { p \<leftarrow> hm_deref i m; Some (p, s\<lparr>Locks := m\<rparr>) } }"

definition ompt_tsan_mutex_acquired :: "nat \<Rightarrow> u64 \<Rightarrow> time \<Rightarrow> ompt \<Rightarrow> ompt option" where
  "ompt_tsan_mutex_acquired th wait_id now s = do {
     (p, s) \<leftarrow> lock_pair wait_id s;
     if lock_held s p then None
     else let s = s\<lparr>lock_held := (lock_held s)(p := True)\<rparr>
          in Some (leave th now True (OmpHappensAfter th (Lock_clock p) s)) }"

text \<open>
  \<^verbatim>\<open>mutex_released\<close>: \<^verbatim>\<open>operator[]\<close> makes a null entry for a wait id that has never been acquired, and
  the pair behind it is dereferenced; the result is \<^const>\<open>None\<close> then.
\<close>

definition ompt_tsan_mutex_released :: "nat \<Rightarrow> u64 \<Rightarrow> time \<Rightarrow> time \<Rightarrow> ompt \<Rightarrow> ompt option" where
  "ompt_tsan_mutex_released th wait_id now now' s = do {
     let s = ompTimer_begin th now s;
     (i, m) \<leftarrow> hm_index Hash 0 wait_id (Locks s);
     p \<leftarrow> hm_deref i m;
     if p = 0 then None
     else let s = OmpHappensBefore th (Lock_clock p) (s\<lparr>Locks := m\<rparr>)
          in Some (ompTimer_end th now' (s\<lparr>lock_held := (lock_held s)(p := False)\<rparr>)) }"

section \<open>Start and end of the tool\<close>

text \<open>
  \<^verbatim>\<open>ompt_start_tool\<close>, with the options that \<^verbatim>\<open>InitializeCptFlags\<close> has read in the state; the sizes of the four
  classes give the sizes of the blocks.  Messages of verbose runs are left out, and the signal handlers, which do not
  touch this state.
\<close>

definition ompt_start_tool :: "nat \<Rightarrow> (nat \<times> nat \<times> nat \<times> nat) \<Rightarrow> ompt \<Rightarrow> bool \<times> ompt" where
  "ompt_start_tool pagesize sizes s =
     (if \<not> enabled (flags (core s)) then (False, s)
      else case sizes of (task_sz, team_sz, group_sz, dep_sz) \<Rightarrow>
        (True, s\<lparr>task_block := ndatas pagesize task_sz, team_block := ndatas pagesize team_sz,
                 group_block := ndatas pagesize group_sz, dep_block := ndatas pagesize dep_sz,
                 core := (core s)\<lparr>
                   thread_clocks := (if thread_clocks (core s) = None then Some [] else thread_clocks (core s)),
                   thread_counts := (if thread_counts (core s) = None then Some [] else thread_counts (core s))\<rparr>\<rparr>))"

text \<open>
  \<^verbatim>\<open>ompt_tsan_initialize\<close>.  The runtime is two parameters: \<open>lookup name\<close> says whether it has an entry point,
  \<open>set_callback event\<close> is the level at which it will call back.  Without one of the two entry points the tool
  needs, the process ends, with its exit code and message; otherwise the events that have been registered and
  the messages about those that are not always supported come with the new state.
\<close>

definition ompt_set_always :: int where "ompt_set_always = 5"

definition tsan_events :: "string list" where
  "tsan_events =
     [''thread_begin'', ''thread_end'', ''parallel_begin'', ''implicit_task'', ''sync_region'', ''sync_region_wait'',
      ''parallel_end'', ''control_tool'', ''task_create'', ''task_schedule'', ''dependences'', ''mutex_acquire'',
      ''mutex_acquired'', ''mutex_released'']"

definition SET_CALLBACK_T :: "(string \<Rightarrow> int) \<Rightarrow> string \<Rightarrow> string list" where
  "SET_CALLBACK_T set_callback event =
     (let res = set_callback event
      in if res < ompt_set_always
         then [''Registered callback '' @ [CHR 0x27] @ event @ [CHR 0x27] @ '' is not supported at ompt_set_always ('' @
                 dec_int res @ '')'' @ [CHR 0x0A]]
         else [])"

definition first_clock :: "nat \<Rightarrow> time \<Rightarrow> ompt \<Rightarrow> ompt" where
  "first_clock th now s =
     (let s = new_clock th False s
      in s\<lparr>core := startTool now False STATE_USEFUL (thread_local_clock s th) (core s)\<rparr>)"

definition ompt_tsan_initialize ::
  "(string \<Rightarrow> bool) \<Rightarrow> (string \<Rightarrow> int) \<Rightarrow> nat \<Rightarrow> time \<Rightarrow> ompt \<Rightarrow> (int \<times> string) + string list \<times> string list \<times> ompt"
where
  "ompt_tsan_initialize lookup set_callback th now s =
     (if \<not> lookup ''ompt_set_callback'' then Inl (1, ''Could not set callback, exiting...'' @ [CHR 0x0A])
      else if \<not> lookup ''ompt_get_parallel_info''
      then Inl (1, ''Could not get inquiry function '' @ [CHR 0x27] @ ''ompt_get_parallel_info'' @ [CHR 0x27] @
                   '', exiting...'' @ [CHR 0x0A])
      else Inr (tsan_events, concat (map (SET_CALLBACK_T set_callback) tsan_events), first_clock th now s))"

definition ompt_tsan_finalize ::
  "mpi_env \<Rightarrow> nat \<Rightarrow> time \<Rightarrow> ompt \<Rightarrow> (out_stream \<times> line list) option \<times> ompt"
where
  "ompt_tsan_finalize mpi th now s =
     (if \<not> useMpi (core s)
      then case finishMeasurement mpi now (thread_local_clock s th) (core s) of (r, c) \<Rightarrow> (r, s\<lparr>core := c\<rparr>)
      else (None, s))"

end
