(* ===== verification/Cpt_Task.thy ===== *)
theory Cpt_Task
  imports Cpt_Ompt
begin

text \<open>
  The lifetime of task data.  A task object stays in use until its task has completed and all
  its children have been given back; \<^verbatim>\<open>freeTask\<close> walks up the parents and gives back what is no
  longer needed.  The invariant ties the reference counts to the tree of tasks: \<open>U\<close> is the set of
  task objects in use and \<open>A\<close> the set of tasks that have not completed.
\<close>

section \<open>What an operation may leave alone\<close>

text \<open>The part of the state the invariant is about.\<close>

definition task_view :: "ompt \<Rightarrow> pools \<times> nat \<times> (nat \<Rightarrow> int) \<times> (nat \<Rightarrow> nat)" where
  "task_view s = (task_pools s, task_block s, \<lambda>t. RefCount (tasks s t), \<lambda>t. Parent (tasks s t))"

lemma task_view_upd_task:
  "(\<And>d. RefCount (f d) = RefCount d) \<Longrightarrow> (\<And>d. Parent (f d) = Parent d) \<Longrightarrow> task_view (upd_task t f s) = task_view s"
  by (auto simp: task_view_def upd_task_def)

lemma task_view_upd_cur [simp]: "task_view (upd_cur th f s) = task_view s"
  by (simp add: task_view_def upd_cur_def)

lemma task_view_enter [simp]: "task_view (enter th now cs s) = task_view s"
  by (simp add: enter_def)

lemma task_view_leave [simp]: "task_view (leave th now r s) = task_view s"
  by (simp add: leave_def)

lemma task_view_before [simp]: "task_view (OmpHappensBefore th l s) = task_view s"
  by (simp add: task_view_def OmpHappensBefore_def)

lemma task_view_after [simp]: "task_view (OmpHappensAfter th l s) = task_view s"
  by (simp add: task_view_def OmpHappensAfter_def upd_cur_def split: prod.split)

lemma task_view_reset [simp]: "task_view (OmpClockReset l s) = task_view s"
  by (simp add: task_view_def OmpClockReset_def)

lemma task_view_count [simp]: "task_view (count th f s) = task_view s"
  by (simp add: task_view_def count_def split: option.split)

lemma task_view_new_clock [simp]: "task_view (new_clock th b s) = task_view s"
  by (simp add: task_view_def new_clock_def split: prod.split)

lemma task_view_timer [simp]:
  "task_view (ompTimer_begin th now s) = task_view s" "task_view (ompTimer_end th now s) = task_view s"
  by (simp_all add: ompTimer_begin_def ompTimer_end_def)

lemma task_view_fold:
  "(\<And>x s. task_view (f x s) = task_view s) \<Longrightarrow> task_view (fold f xs s) = task_view s"
  by (induction xs arbitrary: s) simp_all

lemma task_view_dependencies [simp]:
  "task_view (acquireDependencies th t s) = task_view s" "task_view (releaseDependencies th t s) = task_view s"
  unfolding acquireDependencies_def releaseDependencies_def
  by (intro task_view_fold, simp add: AnnotateBegin_def AnnotateEnd_def)+

lemma task_view_dep_delete [simp]: "task_view (DependencyData_Delete th d s) = task_view s"
  by (simp add: task_view_def DependencyData_Delete_def)

lemma task_view_team [simp]:
  "ParallelData_New th c s = (d, s') \<Longrightarrow> task_view s' = task_view s" "task_view (ParallelData_Delete th d s) = task_view s"
  by (auto simp: task_view_def ParallelData_New_def ParallelData_Delete_def split: prod.splits)

lemma task_view_complete [simp]: "task_view (completeTask_arcs th t s) = task_view s"
  by (simp add: completeTask_arcs_def Let_def)

lemma task_view_suspend [simp]:
  "task_view (suspendTask_to th from to now s) = task_view s" "task_view (suspendTaskEnd th from now s) = task_view s"
  by (simp_all add: suspendTask_to_def suspendTaskEnd_def Let_def task_view_upd_task)

lemma task_view_start [simp]: "task_view (startTask th to now s) = task_view s"
  by (simp add: startTask_def Let_def task_view_upd_task)

section \<open>The invariant\<close>

text \<open>
  \<open>t\<close> is a task whose count still holds a reference that is about to be dropped, 0 when there is
  none.  Every other count is one for a task that has not completed plus one for every child in
  use; counts in use are positive, parents of tasks in use are in use, and a free object is
  ready for its next use.
\<close>

definition children :: "nat set \<Rightarrow> (nat \<Rightarrow> nat) \<Rightarrow> nat \<Rightarrow> nat set" where
  "children U par p = {c \<in> U. par c = p}"

definition parent_rel :: "nat set \<Rightarrow> (nat \<Rightarrow> nat) \<Rightarrow> (nat \<times> nat) set" where
  "parent_rel U par = {(c, p). c \<in> U \<and> par c = p \<and> p \<noteq> 0}"

definition refs_debt :: "nat \<Rightarrow> nat set \<Rightarrow> nat set \<Rightarrow> ompt \<Rightarrow> bool" where
  "refs_debt t U A s \<longleftrightarrow>
     (case task_view s of (ps, n, rc, par) \<Rightarrow>
        pools_ok U ps \<and> 0 < n \<and> A \<subseteq> U \<and> (\<forall>c \<in> U. par c = 0 \<or> par c \<in> U) \<and> acyclic (parent_rel U par) \<and>
        (\<forall>p \<in> U. rc p = of_bool (p \<in> A) + int (card (children U par p)) + of_bool (p = t) \<and> 0 < rc p) \<and>
        (\<forall>d. d \<notin> U \<and> 0 < d \<and> d < next_obj ps \<longrightarrow> rc d = 1 \<and> par d = 0))"

abbreviation refs_ok :: "nat set \<Rightarrow> nat set \<Rightarrow> ompt \<Rightarrow> bool" where
  "refs_ok \<equiv> refs_debt 0"

lemma refs_view: "task_view s' = task_view s \<Longrightarrow> refs_debt t U A s \<Longrightarrow> refs_debt t U A s'"
  by (simp add: refs_debt_def)

lemma refs_debtD:
  assumes "refs_debt t U A s"
  shows "pools_ok U (task_pools s)" "0 < task_block s" "A \<subseteq> U"
    and "c \<in> U \<Longrightarrow> Parent (tasks s c) \<noteq> 0 \<Longrightarrow> Parent (tasks s c) \<in> U"
    and "acyclic (parent_rel U (\<lambda>t. Parent (tasks s t)))"
    and "p \<in> U \<Longrightarrow> RefCount (tasks s p) =
           of_bool (p \<in> A) + int (card (children U (\<lambda>t. Parent (tasks s t)) p)) + of_bool (p = t)"
    and "p \<in> U \<Longrightarrow> 0 < RefCount (tasks s p)"
    and "d \<notin> U \<Longrightarrow> 0 < d \<Longrightarrow> d < next_obj (task_pools s) \<Longrightarrow> RefCount (tasks s d) = 1 \<and> Parent (tasks s d) = 0"
  using assms by (auto simp: refs_debt_def task_view_def)

lemma refs_debtI:
  assumes "pools_ok U (task_pools s)" "0 < task_block s" "A \<subseteq> U"
    and "\<And>c. c \<in> U \<Longrightarrow> Parent (tasks s c) = 0 \<or> Parent (tasks s c) \<in> U"
    and "acyclic (parent_rel U (\<lambda>t. Parent (tasks s t)))"
    and "\<And>p. p \<in> U \<Longrightarrow> RefCount (tasks s p) =
           of_bool (p \<in> A) + int (card (children U (\<lambda>t. Parent (tasks s t)) p)) + of_bool (p = t)"
    and "\<And>p. p \<in> U \<Longrightarrow> 0 < RefCount (tasks s p)"
    and "\<And>d. d \<notin> U \<Longrightarrow> 0 < d \<Longrightarrow> d < next_obj (task_pools s) \<Longrightarrow> RefCount (tasks s d) = 1 \<and> Parent (tasks s d) = 0"
  shows "refs_debt t U A s"
  using assms by (auto simp: refs_debt_def task_view_def)

lemma refs_finite: "refs_debt t U A s \<Longrightarrow> finite U \<and> card U < next_obj (task_pools s) \<and> 0 \<notin> U"
proof -
  assume r: "refs_debt t U A s"
  have sub: "U \<subseteq> {1..<next_obj (task_pools s)}"
    using pools_okD(2) [OF refs_debtD(1) [OF r]] by fastforce
  then have "card U \<le> next_obj (task_pools s) - 1" using card_mono [OF _ sub] by simp
  moreover have "0 < next_obj (task_pools s)" by (rule pools_okD(1) [OF refs_debtD(1) [OF r]])
  ultimately show ?thesis using sub finite_subset by fastforce
qed

lemma refs_pos: "refs_debt t U A s \<Longrightarrow> p \<in> U \<Longrightarrow> 0 < p"
  using pools_okD(2) [OF refs_debtD(1)] by blast

lemma children_remove: "children (U - {t}) par p = children U par p - {t}"
  by (auto simp: children_def)

lemma parent_rel_mono: "U \<subseteq> V \<Longrightarrow> parent_rel U par \<subseteq> parent_rel V par"
  by (auto simp: parent_rel_def)

text \<open>A task that has not completed and is not referenced by a child: its count is one.\<close>

lemma finite_children: "refs_debt t U A s \<Longrightarrow> finite (children U par p)"
  using refs_finite by (auto simp: children_def)

lemma refs_no_child:
  assumes r: "refs_ok U A s" and t: "t \<in> A" and rc: "RefCount (tasks s t) = 1"
  shows "children U (\<lambda>t. Parent (tasks s t)) t = {}"
proof -
  have "t \<in> U" using refs_debtD(3) [OF r] t by blast
  moreover have "0 < t" by (rule refs_pos [OF r \<open>t \<in> U\<close>])
  ultimately have "card (children U (\<lambda>t. Parent (tasks s t)) t) = 0" using refs_debtD(6) [OF r, of t] t rc by simp
  then show ?thesis using finite_children [OF r] by simp
qed

section \<open>Giving a task back\<close>

text \<open>What \<^verbatim>\<open>Delete\<close> does to the view.\<close>

lemma view_Delete:
  "task_view (TaskData_Delete th t s) =
     (entry_Delete th t (task_pools s), task_block s,
      (\<lambda>d. RefCount (tasks s d))(t := 1), (\<lambda>d. Parent (tasks s d))(t := 0))"
proof -
  define s1 where "s1 = (case DependencyMap (tasks s t) of None \<Rightarrow> s
      | Some m \<Rightarrow> fold (\<lambda>(k, d). DependencyData_Delete th d) (hm_entries m) s)"
  have "task_view s1 = task_view s"
    unfolding s1_def by (auto split: option.split intro!: task_view_fold)
  then show ?thesis
    by (auto simp: TaskData_Delete_def TaskData_Reset_def s1_def [symmetric] task_view_def upd_task_def Let_def fun_eq_iff)
qed

lemma entry_Delete_next [simp]: "next_obj (entry_Delete th d ps) = next_obj ps"
  by (simp add: entry_Delete_def returnOwnData_def returnData_def upd_pool_def)

text \<open>
  Deleting a task without children that has completed, after its own count has dropped: its
  parent is the next task with a reference to drop.
\<close>

lemma Delete_debt:
  assumes r: "refs_debt t U A s" and t: "t \<in> U" "t \<notin> A" and nc: "children U (\<lambda>t. Parent (tasks s t)) t = {}"
    and v: "task_view s' = (task_pools s, task_block s, rc, \<lambda>d. Parent (tasks s d))"
    and rc: "\<And>d. d \<noteq> t \<Longrightarrow> rc d = RefCount (tasks s d)"
  shows "refs_debt (Parent (tasks s t)) (U - {t}) A (TaskData_Delete th t s')"
proof -
  let ?par = "\<lambda>d. Parent (tasks s d)" and ?U = "U - {t}"
  have s': "task_pools s' = task_pools s" "task_block s' = task_block s" "RefCount (tasks s' d) = rc d"
      "Parent (tasks s' d) = ?par d" for d
    using v by (auto simp: task_view_def fun_eq_iff)
  have par: "c \<in> ?U \<Longrightarrow> ?par c = 0 \<or> ?par c \<in> ?U" for c
    using refs_debtD(4) [OF r, of c] nc by (auto simp: children_def)
  have kids: "int (card (children U ?par p)) = int (card (children ?U ?par p)) + of_bool (p = ?par t)" for p
  proof (cases "p = ?par t")
    case True
    then have "t \<in> children U ?par p" using t(1) by (simp add: children_def)
    then have "card (children U ?par p) = Suc (card (children U ?par p - {t}))"
      by (rule card.remove [OF finite_children [OF r]])
    then show ?thesis using True by (simp add: children_remove)
  next
    case False
    then have "children U ?par p - {t} = children U ?par p" by (auto simp: children_def)
    then show ?thesis using False by (simp add: children_remove)
  qed
  have eq: "children ?U (?par(t := 0)) p = children ?U ?par p" "parent_rel ?U (?par(t := 0)) = parent_rel ?U ?par" for p
    by (auto simp: children_def parent_rel_def)
  have view: "task_pools (TaskData_Delete th t s') = entry_Delete th t (task_pools s)"
      "task_block (TaskData_Delete th t s') = task_block s"
      "RefCount (tasks (TaskData_Delete th t s') d) = (if d = t then 1 else rc d)"
      "Parent (tasks (TaskData_Delete th t s') d) = (?par(t := 0)) d" for d
    using view_Delete [of th t s'] unfolding s' by (auto simp: task_view_def fun_eq_iff)
  have eq': "(\<lambda>d. Parent (tasks (TaskData_Delete th t s') d)) = ?par(t := 0)" by (rule ext) (rule view)
  show ?thesis
  proof (rule refs_debtI)
    show "pools_ok ?U (task_pools (TaskData_Delete th t s'))"
      unfolding view by (rule entry_Delete_ok [OF refs_debtD(1) [OF r] t(1)])
    show "acyclic (parent_rel ?U (\<lambda>d. Parent (tasks (TaskData_Delete th t s') d)))"
      unfolding eq' eq by (rule acyclic_subset [OF refs_debtD(5) [OF r] parent_rel_mono]) auto
    show "RefCount (tasks (TaskData_Delete th t s') p) = of_bool (p \<in> A)
        + int (card (children ?U (\<lambda>d. Parent (tasks (TaskData_Delete th t s') d)) p)) + of_bool (p = ?par t)"
      and "0 < RefCount (tasks (TaskData_Delete th t s') p)"
      and "Parent (tasks (TaskData_Delete th t s') p) = 0 \<or> Parent (tasks (TaskData_Delete th t s') p) \<in> ?U"
      if "p \<in> ?U" for p
      unfolding eq' eq view using refs_debtD(6,7) [OF r, of p] kids [of p] rc [of p] par [of p] that by auto
    show "RefCount (tasks (TaskData_Delete th t s') d) = 1 \<and> Parent (tasks (TaskData_Delete th t s') d) = 0"
      if "d \<notin> ?U" "0 < d" "d < next_obj (task_pools (TaskData_Delete th t s'))" for d
      using refs_debtD(8) [OF r, of d] rc [of d] that unfolding view by (cases "d = t") auto
  qed (use refs_debtD(2,3) [OF r] t(2) in \<open>auto simp: view\<close>)
qed

text \<open>
  \<^verbatim>\<open>freeTask\<close> returns, with any fuel that is at least the number of tasks in use, and keeps the
  invariant; no task that has not completed is given back.
\<close>

lemma freeTask_debt:
  "refs_debt t U A s \<Longrightarrow> t = 0 \<or> t \<in> U \<Longrightarrow> card U \<le> fuel \<Longrightarrow>
     \<exists>s' U'. freeTask fuel th t s = Some s' \<and> U' \<subseteq> U \<and> refs_ok U' A s'"
proof (induction fuel arbitrary: t U s)
  case 0
  then have "U = {}" using refs_finite by fastforce
  then show ?case using 0 by (auto simp: freeTask.simps)
next
  case (Suc fuel)
  show ?case
  proof (cases "t = 0")
    case True
    then show ?thesis using Suc.prems(1) by (auto simp: freeTask.simps)
  next
    case False
    then have t: "t \<in> U" using Suc.prems(2) by blast
    let ?par = "\<lambda>d. Parent (tasks s d)"
    define s1 where "s1 = upd_task t (\<lambda>d. d\<lparr>RefCount := RefCount d - 1\<rparr>) s"
    have s1: "task_view s1 = (task_pools s, task_block s,
        (\<lambda>d. RefCount (tasks s d))(t := RefCount (tasks s t) - 1), ?par)"
      by (auto simp: s1_def task_view_def upd_task_def)
    have rc: "RefCount (tasks s1 t) = of_bool (t \<in> A) + int (card (children U ?par t))"
      and par: "Parent (tasks s1 t) = ?par t"
      using refs_debtD(6) [OF Suc.prems(1) t] by (simp_all add: s1_def upd_task_def)
    show ?thesis
    proof (cases "RefCount (tasks s1 t) = 0")
      case True
      then have "t \<notin> A \<and> card (children U ?par t) = 0" using rc by (cases "t \<in> A") auto
      then have nA: "t \<notin> A" and nc: "children U ?par t = {}"
        using finite_children [OF Suc.prems(1)] by auto
      have d: "refs_debt (?par t) (U - {t}) A (TaskData_Delete th t s1)"
        by (rule Delete_debt [OF Suc.prems(1) t nA nc s1]) simp
      have "card (U - {t}) \<le> fuel" using Suc.prems(3) t refs_finite [OF Suc.prems(1)] by simp
      moreover have "?par t = 0 \<or> ?par t \<in> U - {t}"
        using refs_debtD(4) [OF Suc.prems(1) t] nc t by (auto simp: children_def)
      ultimately obtain s' U' where "freeTask fuel th (?par t) (TaskData_Delete th t s1) = Some s'"
          "U' \<subseteq> U - {t}" "refs_ok U' A s'"
        using Suc.IH [OF d] by blast
      then show ?thesis
        using True \<open>t \<noteq> 0\<close> par by (subst freeTask.simps) (auto simp: s1_def [symmetric] Let_def)
    next
      case False
      have "refs_ok U A s1"
      proof (rule refs_debtI)
        have other: "tasks s1 p = tasks s p" if "p \<noteq> t" for p using that by (simp add: s1_def upd_task_def)
        have eq: "Parent (tasks s1 d) = ?par d" "task_pools s1 = task_pools s" "task_block s1 = task_block s" for d
          by (simp_all add: s1_def upd_task_def)
        show "RefCount (tasks s1 p) = of_bool (p \<in> A) + int (card (children U (\<lambda>t. Parent (tasks s1 t)) p)) + of_bool (p = 0)"
          and "0 < RefCount (tasks s1 p)" if "p \<in> U" for p
          unfolding eq using refs_debtD(6,7) [OF Suc.prems(1) that] refs_pos [OF Suc.prems(1) that] rc False other [of p]
          by (cases "p = t"; auto)+
        show "RefCount (tasks s1 d) = 1 \<and> Parent (tasks s1 d) = 0"
          if "d \<notin> U" "0 < d" "d < next_obj (task_pools s1)" for d
          using refs_debtD(8) [OF Suc.prems(1)] that t other [of d] eq by metis
        show "Parent (tasks s1 c) = 0 \<or> Parent (tasks s1 c) \<in> U" if "c \<in> U" for c
          unfolding eq using refs_debtD(4) [OF Suc.prems(1) that] by blast
        show "acyclic (parent_rel U (\<lambda>t. Parent (tasks s1 t)))"
          unfolding eq by (rule refs_debtD(5) [OF Suc.prems(1)])
      qed (use refs_debtD(1,2,3) [OF Suc.prems(1)] in \<open>simp_all add: s1_def upd_task_def\<close>)
      then show ?thesis
        using False \<open>t \<noteq> 0\<close> by (subst freeTask.simps) (auto simp: s1_def [symmetric] Let_def)
    qed
  qed
qed

lemma freeTask_ok:
  assumes r: "refs_ok U A s" and t: "t \<in> A" and fuel: "next_obj (task_pools s) \<le> fuel"
  shows "\<exists>s' U'. freeTask fuel th t s = Some s' \<and> U' \<subseteq> U \<and> refs_ok U' (A - {t}) s'"
proof (rule freeTask_debt)
  have "t \<in> U" using refs_debtD(3) [OF r] t by blast
  show "t = 0 \<or> t \<in> U" using \<open>t \<in> U\<close> by blast
  show "refs_debt t U (A - {t}) s"
  proof (rule refs_debtI)
    show "RefCount (tasks s p) = of_bool (p \<in> A - {t})
        + int (card (children U (\<lambda>t. Parent (tasks s t)) p)) + of_bool (p = t)" if "p \<in> U" for p
      using refs_debtD(6) [OF r that] refs_pos [OF r that] t by auto
  qed (use refs_debtD [OF r] in auto)
  show "card U \<le> fuel" using refs_finite [OF r] fuel by simp
qed

section \<open>New tasks\<close>

lemma getData_next: "getData n th ps = (d, ps') \<Longrightarrow> next_obj ps \<le> next_obj ps'"
  by (auto simp: getData_def newDatas_def upd_pool_def Let_def split: if_splits)

lemma alloc_ok:
  assumes r: "refs_ok U A s" and a: "TaskData_alloc th s = (t, s1)"
  shows "t \<notin> U" "0 < t" "pools_ok (insert t U) (task_pools s1)" "task_block s1 = task_block s"
    and "d \<in> U \<Longrightarrow> tasks s1 d = tasks s d"
    and "d \<notin> U \<Longrightarrow> 0 < d \<Longrightarrow> d < next_obj (task_pools s1) \<Longrightarrow> RefCount (tasks s1 d) = 1 \<and> Parent (tasks s1 d) = 0"
proof -
  obtain ps where g: "getData (task_block s) th (task_pools s) = (t, ps)"
    using a by (auto simp: TaskData_alloc_def split: prod.splits)
  then have s1: "task_pools s1 = ps" "task_block s1 = task_block s"
      "tasks s1 = (\<lambda>t. if t \<in> fresh_objs (task_pools s) ps then TaskData_new else tasks s t)"
    using a by (auto simp: TaskData_alloc_def)
  show "t \<notin> U" "0 < t" "pools_ok (insert t U) (task_pools s1)" "task_block s1 = task_block s"
    using getData_ok [OF refs_debtD(1,2) [OF r] g] by (auto simp: s1)
  show "tasks s1 d = tasks s d" if "d \<in> U"
    using pools_okD(2) [OF refs_debtD(1) [OF r] that] by (simp add: s1 fresh_objs_def)
  show "RefCount (tasks s1 d) = 1 \<and> Parent (tasks s1 d) = 0"
    if "d \<notin> U" "0 < d" "d < next_obj (task_pools s1)"
    using refs_debtD(8) [OF r that(1,2)] that getData_next [OF g]
    by (auto simp: s1 fresh_objs_def TaskData_new_def)
qed

text \<open>A new task below \<open>p\<close>, or without a parent when \<open>p\<close> is 0.\<close>

lemma adopt:
  assumes r: "refs_ok U A s" and a: "TaskData_alloc th s = (t, s1)" and p: "p = 0 \<or> p \<in> U"
    and v: "task_view s2 = (task_pools s1, task_block s1,
          \<lambda>d. RefCount (tasks s1 d) + of_bool (p \<noteq> 0 \<and> d = p), (\<lambda>d. Parent (tasks s1 d))(t := p))"
  shows "refs_ok (insert t U) (insert t A) s2"
proof -
  note al = alloc_ok [OF r a]
  let ?par = "\<lambda>d. Parent (tasks s d)"
  have s2: "task_pools s2 = task_pools s1" "task_block s2 = task_block s"
      "RefCount (tasks s2 d) = RefCount (tasks s1 d) + of_bool (p \<noteq> 0 \<and> d = p)"
      "Parent (tasks s2 d) = (if d = t then p else Parent (tasks s1 d))" for d
    using v al(4) by (auto simp: task_view_def fun_eq_iff)
  have tp: "t \<noteq> p" using p al(1,2) by auto
  have ch: "children (insert t U) (\<lambda>d. Parent (tasks s2 d)) q =
      (if q = p then insert t (children U ?par q) else children U ?par q)" for q
    using al(1,5) by (auto simp: children_def s2)
  have pr: "parent_rel (insert t U) (\<lambda>d. Parent (tasks s2 d)) =
      (if p = 0 then parent_rel U ?par else insert (t, p) (parent_rel U ?par))"
    using al(1,5) by (auto simp: parent_rel_def s2)
  have new: "RefCount (tasks s1 t) = 1" using al(6) [OF al(1,2)] pools_okD(2) [OF al(3)] by blast
  have none: "children U ?par t = {}"
    using refs_debtD(4) [OF r] al(1,2) by (fastforce simp: children_def)
  show ?thesis
  proof (rule refs_debtI)
    show "pools_ok (insert t U) (task_pools s2)" "0 < task_block s2" "insert t A \<subseteq> insert t U"
      using al(3) refs_debtD(2,3) [OF r] by (auto simp: s2)
    show "Parent (tasks s2 c) = 0 \<or> Parent (tasks s2 c) \<in> insert t U" if "c \<in> insert t U" for c
      using that al(5) [of c] refs_debtD(4) [OF r, of c] p by (auto simp: s2)
    have edge: "(x, t) \<notin> parent_rel U ?par" for x
      using none by (auto simp: parent_rel_def children_def)
    have "(p, t) \<notin> (parent_rel U ?par)\<^sup>*"
      using tp edge by (auto elim: rtranclE)
    then show "acyclic (parent_rel (insert t U) (\<lambda>d. Parent (tasks s2 d)))"
      unfolding pr using refs_debtD(5) [OF r] by (simp add: acyclic_insert)
    show cnt: "RefCount (tasks s2 q) = of_bool (q \<in> insert t A)
        + int (card (children (insert t U) (\<lambda>d. Parent (tasks s2 d)) q)) + of_bool (q = 0)"
      if "q \<in> insert t U" for q
    proof (cases "q = t")
      case True
      then show ?thesis unfolding ch using new none tp al(2) by (simp add: s2(3))
    next
      case False
      then have q: "q \<in> U" using that by blast
      have "t \<notin> children U ?par q" using al(1) by (simp add: children_def)
      then have "int (card (children (insert t U) (\<lambda>d. Parent (tasks s2 d)) q)) =
          int (card (children U ?par q)) + of_bool (q = p)"
        unfolding ch using card_insert_disjoint [OF finite_children [OF r]] by auto
      then show ?thesis
        using refs_debtD(6) [OF r q] refs_pos [OF r q] al(5) [OF q] False by (auto simp: s2(3))
    qed
    show "0 < RefCount (tasks s2 q)" if "q \<in> insert t U" for q
      using that new refs_debtD(7) [OF r, of q] al(5) [of q] by (auto simp: s2)
    show "RefCount (tasks s2 d) = 1 \<and> Parent (tasks s2 d) = 0"
      if "d \<notin> insert t U" "0 < d" "d < next_obj (task_pools s2)" for d
      using al(6) [of d] that p by (auto simp: s2)
  qed
qed

lemma New_child_ok:
  assumes r: "refs_ok U A s" and p: "p \<in> U" and n: "TaskData_New_child th p type s = (t, s')"
  shows "refs_ok (insert t U) (insert t A) s' \<and> t \<notin> U"
proof -
  obtain s1 where a: "TaskData_alloc th s = (t, s1)" and s': "s' = Init_child t p type s1"
    using n by (auto simp: TaskData_New_child_def split: prod.splits)
  have "t \<noteq> p" "p \<noteq> 0" using alloc_ok(1) [OF r a] p refs_pos [OF r p] by auto
  then have "task_view s' = (task_pools s1, task_block s1,
      \<lambda>d. RefCount (tasks s1 d) + of_bool (p \<noteq> 0 \<and> d = p), (\<lambda>d. Parent (tasks s1 d))(t := p))"
    by (auto simp: s' Init_child_def upd_task_def task_view_def Let_def fun_eq_iff)
  then show ?thesis using adopt [OF r a _ ] p alloc_ok(1) [OF r a] by blast
qed

lemma New_root_ok:
  assumes r: "refs_ok U A s"
    and n: "TaskData_New_initial th team type s = (t, s') \<or> TaskData_New_implicit th team num type s = (t, s')"
  shows "refs_ok (insert t U) (insert t A) s' \<and> t \<notin> U"
proof -
  obtain s1 where a: "TaskData_alloc th s = (t, s1)"
      and s': "s' = Init_initial t team type s1 \<or> s' = Init_implicit t team num type s1"
    using n by (auto simp: TaskData_New_initial_def TaskData_New_implicit_def split: prod.splits)
  have "Parent (tasks s1 t) = 0"
    using alloc_ok(6) [OF r a alloc_ok(1,2) [OF r a]] pools_okD(2) [OF alloc_ok(3) [OF r a]] by blast
  then have "task_view s' = (task_pools s1, task_block s1,
      \<lambda>d. RefCount (tasks s1 d) + of_bool ((0::nat) \<noteq> 0 \<and> d = 0), (\<lambda>d. Parent (tasks s1 d))(t := 0))"
    using s' by (auto simp: Init_initial_def Init_implicit_def upd_task_def task_view_def fun_eq_iff)
  then show ?thesis using adopt [OF r a, of 0] alloc_ok(1) [OF r a] by blast
qed

section \<open>The remaining callbacks leave the tree alone\<close>

lemma task_view_group [simp]:
  "Taskgroup_New th p s = (g, s') \<Longrightarrow> task_view s' = task_view s" "task_view (Taskgroup_Delete th g s) = task_view s"
  by (auto simp: task_view_def Taskgroup_New_def Taskgroup_Delete_def split: prod.splits)

lemma task_view_dep_new [simp]: "DependencyData_New th s = (d, s') \<Longrightarrow> task_view s' = task_view s"
  by (auto simp: task_view_def DependencyData_New_def split: prod.splits)

lemma task_view_sync_region [simp]:
  "task_view (ompt_tsan_sync_region th kind endpoint hp t now now' s) = task_view s"
proof -
  have "task_view (sync_region_begin th kind t now s) = task_view s" for s
    by (cases kind)
       (auto simp: sync_region_begin_def barrier_begin_def Let_def task_view_upd_task split: prod.split)
  moreover have "task_view (sync_region_end th kind t hp now now' s) = task_view s" for s
    by (cases kind) (auto simp: sync_region_end_def barrier_end_def Let_def task_view_upd_task)
  ultimately show ?thesis by (cases endpoint) (simp_all add: ompt_tsan_sync_region_def)
qed

lemma task_view_sync_region_wait [simp]:
  "task_view (ompt_tsan_sync_region_wait th kind endpoint t now s) = task_view s"
  by (cases endpoint)
     (simp_all add: ompt_tsan_sync_region_wait_def sync_region_wait_begin_def sync_region_wait_end_def Let_def
       task_view_upd_task)

lemma task_view_add_dependence: "add_dependence th t dep s = Some s' \<Longrightarrow> task_view s' = task_view s"
  by (auto simp: add_dependence_def Let_def bind_eq_Some_conv task_view_upd_task split: option.splits if_splits prod.splits)

lemma task_view_add_dependences: "add_dependences th t deps s = Some s' \<Longrightarrow> task_view s' = task_view s"
  by (induction deps arbitrary: s) (auto simp: bind_eq_Some_conv dest: task_view_add_dependence)

lemma task_view_dependences:
  "ompt_tsan_dependences th t deps now now' s = Some s' \<Longrightarrow> task_view s' = task_view s"
  by (auto simp: ompt_tsan_dependences_def Let_def bind_eq_Some_conv task_view_upd_task
      dest!: task_view_add_dependences split: if_splits)

lemma task_view_lock_pair: "lock_pair w s = Some (p, s') \<Longrightarrow> task_view s' = task_view s"
  by (auto simp: lock_pair_def task_view_def bind_eq_Some_conv split: if_splits)

lemma task_view_held [simp]: "task_view (s\<lparr>lock_held := h\<rparr>) = task_view s" "task_view (s\<lparr>Locks := m\<rparr>) = task_view s"
  by (simp_all add: task_view_def)

lemma task_view_mutex:
  "task_view (ompt_tsan_mutex_acquire th now s) = task_view s"
  "ompt_tsan_mutex_acquired th w now s = Some s' \<Longrightarrow> task_view s' = task_view s"
  "ompt_tsan_mutex_released th w now now' s = Some s' \<Longrightarrow> task_view s' = task_view s"
  by (auto simp: ompt_tsan_mutex_acquire_def ompt_tsan_mutex_acquired_def ompt_tsan_mutex_released_def Let_def
      bind_eq_Some_conv split: if_splits dest!: task_view_lock_pair)

lemma task_view_parallel:
  "ompt_tsan_parallel_begin th c now s = (d, s') \<Longrightarrow> task_view s' = task_view s"
  "task_view (ompt_tsan_parallel_end th d now s) = task_view s"
  by (auto simp: ompt_tsan_parallel_begin_def ompt_tsan_parallel_end_def split: prod.splits)

section \<open>Reachable states\<close>

text \<open>The statuses with which \<^verbatim>\<open>task_schedule\<close> reports that the prior task is finished.\<close>

definition finishes :: "task_status \<Rightarrow> bool" where
  "finishes st \<longleftrightarrow> st \<in> {ompt_task_complete, ompt_task_cancel, ompt_task_late_fulfill, ompt_taskwait_complete}"

text \<open>
  \<open>task_reach A s\<close>: the callbacks of an OpenMP program have led to \<open>s\<close>, and \<open>A\<close> are the tasks that
  have been created and have not finished.  What the runtime guarantees is a premise: a task is
  created by one that has not finished, it finishes once, and an implicit task ends when no
  child refers to it any more.
\<close>

inductive task_reach :: "nat set \<Rightarrow> ompt \<Rightarrow> bool" where
  Start: "task_pools s = pools_new \<Longrightarrow> 0 < task_block s \<Longrightarrow> task_reach {} s"
| Create: "task_reach A s \<Longrightarrow> ompt_task_initial \<in> type \<or> par \<in> A \<Longrightarrow>
    ompt_tsan_task_create th par type now now' s = (team, t, s') \<Longrightarrow> t \<noteq> 0 \<Longrightarrow> task_reach (insert t A) s'"
| Implicit_begin: "task_reach A s \<Longrightarrow> implicit_task_begin th team num type now s = (team', t, s') \<Longrightarrow>
    task_reach (insert t A) s'"
| Implicit_end: "task_reach A s \<Longrightarrow> t \<in> A \<Longrightarrow> RefCount (tasks s t) = 1 \<Longrightarrow> Parent (tasks s t) = 0 \<Longrightarrow>
    task_reach (A - {t}) (implicit_task_end th team t type now s)"
| Finish: "task_reach A s \<Longrightarrow> from \<in> A \<Longrightarrow> finishes status \<Longrightarrow>
    ompt_tsan_task_schedule th from status to now now' s = Some s' \<Longrightarrow> task_reach (A - {from}) s'"
| Switch: "task_reach A s \<Longrightarrow> \<not> finishes status \<Longrightarrow>
    ompt_tsan_task_schedule th from status to now now' s = Some s' \<Longrightarrow> task_reach A s'"
| Sync: "task_reach A s \<Longrightarrow> task_reach A (ompt_tsan_sync_region th kind endpoint hp t now now' s)"
| Sync_wait: "task_reach A s \<Longrightarrow> task_reach A (ompt_tsan_sync_region_wait th kind endpoint t now s)"
| Depend: "task_reach A s \<Longrightarrow> ompt_tsan_dependences th t deps now now' s = Some s' \<Longrightarrow> task_reach A s'"
| Acquire: "task_reach A s \<Longrightarrow> task_reach A (ompt_tsan_mutex_acquire th now s)"
| Acquired: "task_reach A s \<Longrightarrow> ompt_tsan_mutex_acquired th w now s = Some s' \<Longrightarrow> task_reach A s'"
| Released: "task_reach A s \<Longrightarrow> ompt_tsan_mutex_released th w now now' s = Some s' \<Longrightarrow> task_reach A s'"
| Fork: "task_reach A s \<Longrightarrow> ompt_tsan_parallel_begin th c now s = (team, s') \<Longrightarrow> task_reach A s'"
| Join: "task_reach A s \<Longrightarrow> task_reach A (ompt_tsan_parallel_end th team now s)"

lemma create_ok:
  assumes r: "refs_ok U A s" and par: "ompt_task_initial \<in> type \<or> par \<in> A"
    and c: "ompt_tsan_task_create th par type now now' s = (team, t, s')" and t: "t \<noteq> 0"
  shows "refs_ok (insert t U) (insert t A) s'"
proof -
  define s0 where "s0 = count th (\<lambda>c. c\<lparr>taskCreate := taskCreate c + 1\<rparr>) s"
  have r0: "refs_ok U A s0" by (rule refs_view [OF _ r]) (simp add: s0_def)
  show ?thesis
  proof (cases "ompt_task_initial \<in> type")
    case True
    then obtain s1 where "ParallelData_New th 0 s0 = (team, s1)" "TaskData_New_initial th team type s1 = (t, s')"
      using c by (auto simp: ompt_tsan_task_create_def s0_def Let_def split: prod.splits)
    then show ?thesis using New_root_ok [OF refs_view [OF task_view_team(1) r0]] by blast
  next
    case False
    then have "par \<in> U" using par refs_debtD(3) [OF r] by blast
    moreover obtain s1 where "TaskData_New_child th par type s0 = (t, s1)" "task_view s' = task_view s1"
      using c False t
      by (auto simp: ompt_tsan_task_create_def s0_def Let_def task_view_upd_task split: prod.splits if_splits)
    ultimately show ?thesis using New_child_ok [OF r0, of par th type t s1] refs_view by blast
  qed
qed

lemma implicit_begin_ok:
  assumes r: "refs_ok U A s" and b: "implicit_task_begin th team num type now s = (team', t, s')"
  shows "refs_ok (insert t U) (insert t A) s'"
proof -
  define s0 where "s0 = count th (\<lambda>c. c\<lparr>implTaskBegin := implTaskBegin c + 1\<rparr>) s"
  obtain team1 s1 where p1: "(if ompt_task_initial \<in> type then ParallelData_New th 0 s0
      else (team, OmpHappensAfter th (GetParallelPtr team)
             (if GetState (cur_clock th s0) = STATE_INIT then enter th now STATE_OMP s0 else s0))) = (team1, s1)"
    by fastforce
  then have "task_view s1 = task_view s" by (auto simp: s0_def split: if_splits)
  moreover obtain t1 s2 where n: "TaskData_New_implicit th team1 num type s1 = (t1, s2)" by fastforce
  moreover have "t = t1" "s' = enter th now STATE_USEFUL s2"
    using b p1 n by (simp_all add: implicit_task_begin_def Let_def s0_def [symmetric] cong: if_cong)
  ultimately show ?thesis
    using New_root_ok [OF refs_view [OF _ r], of s1 th team1 type t1 s2 num] refs_view [OF task_view_enter] by blast
qed

lemma implicit_end_ok:
  assumes r: "refs_ok U A s" and t: "t \<in> A" and rc: "RefCount (tasks s t) = 1" and par: "Parent (tasks s t) = 0"
  shows "refs_ok (U - {t}) (A - {t}) (implicit_task_end th team t type now s)"
proof -
  have tU: "t \<in> U" using refs_debtD(3) [OF r] t by blast
  have d: "refs_debt t U (A - {t}) s"
  proof (rule refs_debtI)
    show "RefCount (tasks s p) = of_bool (p \<in> A - {t})
        + int (card (children U (\<lambda>t. Parent (tasks s t)) p)) + of_bool (p = t)" if "p \<in> U" for p
      using refs_debtD(6) [OF r that] refs_pos [OF r that] t by auto
  qed (use refs_debtD [OF r] in auto)
  define s1 where "s1 = leave th now (isRunning (tasks (count th (\<lambda>c. c\<lparr>implTaskEnd := implTaskEnd c + 1\<rparr>) s) t))
      (count th (\<lambda>c. c\<lparr>implTaskEnd := implTaskEnd c + 1\<rparr>) s)"
  have "task_view s1 = task_view s" by (simp add: s1_def)
  then have "refs_debt (Parent (tasks s t)) (U - {t}) (A - {t}) (TaskData_Delete th t s1)"
    using Delete_debt [OF d tU _ refs_no_child [OF r t rc], of s1 "\<lambda>d. RefCount (tasks s d)" th]
    by (simp add: task_view_def)
  then have d0: "refs_ok (U - {t}) (A - {t}) (TaskData_Delete th t s1)" using par by simp
  have "task_view (implicit_task_end th team t type now s) = task_view (TaskData_Delete th t s1)"
    by (simp add: implicit_task_end_def Let_def s1_def [symmetric])
  then show ?thesis using refs_view d0 by blast
qed

lemma tasks_scheduled:
  "tasks (suspendTaskEnd th t now (count th f s)) = tasks s"
  "tasks (OmpHappensAfter th l (ompTimer_begin th now (count th f s))) = tasks s"
  by (auto simp: suspendTaskEnd_def leave_def upd_cur_def count_def OmpHappensAfter_def ompTimer_begin_def enter_def
      new_clock_def split: prod.split option.split)

lemma schedule_ok:
  assumes r: "refs_ok U A s" and t: "from \<in> A" and f: "finishes status"
    and c: "status = ompt_taskwait_complete \<or> can_complete from (tasks s from)"
  shows "\<exists>s' U'. ompt_tsan_task_schedule th from status to now now' s = Some s' \<and> refs_ok U' (A - {from}) s'"
proof -
  define s0 where "s0 = count th (\<lambda>c. c\<lparr>taskSchedule := taskSchedule c + 1\<rparr>) s"
  have n0: "from \<noteq> 0" using t refs_debtD(3) [OF r] refs_pos [OF r] by auto
  have free: "\<exists>s2 U'. freeTask (next_obj (task_pools s0)) th from s1 = Some s2 \<and> refs_ok U' (A - {from}) s2"
    if "task_view s1 = task_view s" for s1
  proof -
    have "task_pools s1 = task_pools s0" using that by (simp add: s0_def task_view_def count_def split: option.splits)
    moreover have "refs_ok U A s1" by (rule refs_view [OF that r])
    ultimately show ?thesis using freeTask_ok [of U A s1 "from" "next_obj (task_pools s0)" th] t by auto
  qed
  have "task_view s0 = task_view s" by (simp add: s0_def)
  then obtain a U1 b U2 c U3 where
      "freeTask (next_obj (task_pools s0)) th from
         (completeTask_arcs th from (OmpHappensAfter th (Task_clock from) (ompTimer_begin th now s0))) = Some a"
      "freeTask (next_obj (task_pools s0)) th from (acquireDependencies th from (ompTimer_begin th now s0)) = Some b"
      "freeTask (next_obj (task_pools s0)) th from (completeTask_arcs th from (suspendTaskEnd th from now s0)) = Some c"
      and ok: "refs_ok U1 (A - {from}) a" "refs_ok U2 (A - {from}) b" "refs_ok U3 (A - {from}) c"
    using free by (metis task_view_complete task_view_after task_view_timer(1) task_view_dependencies(1) task_view_suspend(2))
  then have "ompt_tsan_task_schedule th from status to now now' s =
      Some (if status = ompt_task_late_fulfill then ompTimer_end th now' a
            else if status = ompt_taskwait_complete then ompTimer_end th now' b else startTask th to now c)"
    using f c n0
    by (auto simp: finishes_def ompt_tsan_task_schedule_def completeTask_def tasks_scheduled Let_def s0_def)
  then show ?thesis
    using refs_view [OF task_view_timer(2) ok(1)] refs_view [OF task_view_timer(2) ok(2)]
      refs_view [OF task_view_start ok(3)] by fastforce
qed

lemma schedule_undefined:
  assumes "finishes status" and "status \<noteq> ompt_taskwait_complete" and "\<not> can_complete from (tasks s from)"
  shows "ompt_tsan_task_schedule th from status to now now' s = None"
  using assms by (auto simp: finishes_def ompt_tsan_task_schedule_def Let_def completeTask_def can_complete_def
      tasks_scheduled)

lemma switch_ok:
  "\<not> finishes status \<Longrightarrow> ompt_tsan_task_schedule th from status to now now' s = Some s' \<Longrightarrow> task_view s' = task_view s"
  by (cases status) (auto simp: finishes_def ompt_tsan_task_schedule_def suspendTask_def Let_def task_view_upd_task
      setFulfilled_def split: if_splits)

lemma next_obj_new: "next_obj pools_new = 1"
  by (simp add: pools_new_def)

lemma task_reach_ok: "task_reach A s \<Longrightarrow> \<exists>U. refs_ok U A s"
proof (induction rule: task_reach.induct)
  case (Start s)
  then have "refs_ok {} {} s"
    using pools_ok_new by (intro refs_debtI) (simp_all add: parent_rel_def acyclic_def next_obj_new)
  then show ?case ..
next
  case (Create A s type par th now now' team t s')
  then show ?case using create_ok by blast
next
  case (Implicit_begin A s th team num type now team' t s')
  then show ?case using implicit_begin_ok by blast
next
  case (Implicit_end A s t th team type now)
  then show ?case using implicit_end_ok by blast
next
  case (Finish A s "from" status th to now now' s')
  then obtain U where "refs_ok U A s" by blast
  moreover have "status = ompt_taskwait_complete \<or> can_complete from (tasks s from)"
    using schedule_undefined [OF Finish.hyps(3)] Finish.hyps(4) by fastforce
  ultimately show ?case using schedule_ok [OF _ Finish.hyps(2,3)] Finish.hyps(4) by (metis option.inject)
next
  case (Switch A s status th "from" to now now' s')
  then show ?case using refs_view [OF switch_ok] by blast
next
  case (Depend A s th t deps now now' s')
  then show ?case using refs_view [OF task_view_dependences] by blast
next
  case (Acquired A s th w now s')
  then show ?case using refs_view [OF task_view_mutex(2)] by blast
next
  case (Released A s th w now now' s')
  then show ?case using refs_view [OF task_view_mutex(3)] by blast
next
  case (Fork A s th c now team s')
  then show ?case using refs_view [OF task_view_parallel(1)] by blast
next
  case (Sync A s th kind endpoint hp t now now')
  then show ?case using refs_view [OF task_view_sync_region] by blast
next
  case (Sync_wait A s th kind endpoint t now)
  then show ?case using refs_view [OF task_view_sync_region_wait] by blast
next
  case (Acquire A s th now)
  then show ?case using refs_view [OF task_view_mutex(1)] by blast
next
  case (Join A s th team now)
  then show ?case using refs_view [OF task_view_parallel(2)] by blast
qed

section \<open>Claims\<close>

text \<open>The tasks of \<open>A\<close> with all their ancestors.\<close>

definition parent_edges :: "ompt \<Rightarrow> (nat \<times> nat) set" where
  "parent_edges s = {(c, p). Parent (tasks s c) = p \<and> p \<noteq> 0}"

definition task_ancestors :: "nat set \<Rightarrow> ompt \<Rightarrow> nat set" where
  "task_ancestors A s = {t. \<exists>a \<in> A. (a, t) \<in> (parent_edges s)\<^sup>*}"

lemma in_use_iff_ancestor:
  assumes r: "refs_ok U A s"
  shows "U = task_ancestors A s"
proof
  let ?par = "\<lambda>t. Parent (tasks s t)"
  have edges: "parent_rel U ?par \<subseteq> parent_edges s" by (auto simp: parent_rel_def parent_edges_def)
  show "task_ancestors A s \<subseteq> U"
  proof
    fix t assume "t \<in> task_ancestors A s"
    then obtain a where a: "a \<in> A" and path: "(a, t) \<in> (parent_edges s)\<^sup>*" by (auto simp: task_ancestors_def)
    from path show "t \<in> U"
    proof (induction rule: rtrancl_induct)
      case base
      show ?case using a refs_debtD(3) [OF r] by blast
    next
      case (step y z)
      then show ?case using refs_debtD(4) [OF r, of y] by (auto simp: parent_edges_def)
    qed
  qed
  have "finite (parent_rel U ?par)"
    by (rule finite_subset [of _ "(\<lambda>c. (c, ?par c)) ` U"]) (use refs_finite [OF r] in \<open>auto simp: parent_rel_def\<close>)
  then have wf: "wf (parent_rel U ?par)" by (rule finite_acyclic_wf) (rule refs_debtD(5) [OF r])
  show "U \<subseteq> task_ancestors A s"
  proof
    fix t show "t \<in> U \<Longrightarrow> t \<in> task_ancestors A s"
    proof (induction t rule: wf_induct_rule [OF wf])
      case (1 t)
      show ?case
      proof (cases "t \<in> A")
        case True
        then show ?thesis by (auto simp: task_ancestors_def)
      next
        case False
        then have "card (children U ?par t) \<noteq> 0"
          using refs_debtD(6,7) [OF r 1(2)] refs_pos [OF r 1(2)] by auto
        then have "children U ?par t \<noteq> {}" by auto
        then obtain c where c: "c \<in> U" "?par c = t" by (auto simp: children_def)
        then have e: "(c, t) \<in> parent_rel U ?par" using refs_pos [OF r 1(2)] by (auto simp: parent_rel_def)
        then have "c \<in> task_ancestors A s" using 1(1) c by blast
        then show ?thesis using e edges by (auto simp: task_ancestors_def intro: rtrancl_into_rtrancl)
      qed
    qed
  qed
qed

text \<open>
  C9: In every state an OpenMP program can lead the tool to, the task objects in use are exactly
  the tasks that have not finished and their ancestors: each of their reference counts is one
  for a task that has not finished plus the number of its children in use, none of them is in a
  pool from which it could be handed out again, and everything else has been given back, so
  that the leak check counts nothing once all tasks have finished.
\<close>

theorem task_objects_in_use:
  assumes "task_reach A s" and "live = task_ancestors A s"
  shows "0 \<notin> live \<and>
         (\<forall>t \<in> live. RefCount (tasks s t) = of_bool (t \<in> A) + int (card {c \<in> live. Parent (tasks s c) = t})) \<and>
         (\<forall>t \<in> live. \<forall>th. t \<notin> set (free_of (task_pools s) th)) \<and>
         (\<forall>th. getMissing (pool_of (task_pools s) th) = int (card {t \<in> live. owner (task_pools s) t = th}))"
proof -
  obtain U where r: "refs_ok U A s" using task_reach_ok [OF assms(1)] by blast
  then have U: "U = live" using in_use_iff_ancestor assms(2) by blast
  note ok = refs_debtD(1) [OF r]
  show ?thesis
    using refs_pos [OF r] refs_debtD(6) [OF r] pools_okD(6) [OF ok] getMissing_ok [OF ok]
    unfolding U children_def by fastforce
qed

text \<open>
  C36: When the runtime reports that a task has finished (completed, cancelled, fulfilled late, or as a
  taskwait with dependences) that has a parent, and a team unless it is included, the callback returns: the loop of
  \<^verbatim>\<open>freeTask\<close> up the parents ends, and the new state is again one of those above, with the task finished.  For a
  task without a parent, as the initial and the implicit tasks are, only the report of a taskwait returns; any
  other one dereferences the null pointer.
\<close>

theorem finishing_task_returns:
  assumes "task_reach A s" and "from \<in> A" and "finishes status"
  shows "if status = ompt_taskwait_complete \<or>
            Parent (tasks s from) \<noteq> 0 \<and> (isIncluded (tasks s from) \<or> Team (tasks s from) \<noteq> 0)
         then \<exists>s'. ompt_tsan_task_schedule th from status to now now' s = Some s' \<and> task_reach (A - {from}) s'
         else ompt_tsan_task_schedule th from status to now now' s = None"
proof -
  obtain U where r: "refs_ok U A s" using task_reach_ok [OF assms(1)] by blast
  then have n0: "from \<noteq> 0" using assms(2) refs_debtD(3) [OF r] refs_pos [OF r] by auto
  show ?thesis
  proof (cases "status = ompt_taskwait_complete \<or> can_complete from (tasks s from)")
    case True
    then obtain s' where s': "ompt_tsan_task_schedule th from status to now now' s = Some s'"
      using schedule_ok [OF r assms(2,3)] by blast
    then show ?thesis using task_reach.Finish [OF assms s'] True n0 by (auto simp: can_complete_def)
  next
    case False
    then show ?thesis using schedule_undefined [OF assms(3)] n0 by (auto simp: can_complete_def)
  qed
qed

section \<open>Witnesses\<close>

text \<open>A tool that is not running yet, an initial task, and an explicit task it creates.\<close>

definition example_ompt :: ompt where
  "example_ompt =
     \<lparr>core = example_tool\<lparr>flags := SetDefaults\<lparr>running := False\<rparr>\<rparr>, thread_local_clock = (\<lambda>_. 1),
      omptThreadCount = (\<lambda>_. None), sync = (\<lambda>_. syncClock_init), tasks = (\<lambda>_. TaskData_new),
      group_parent = (\<lambda>_. 0), team_code = (\<lambda>_. 0), task_pools = pools_new, team_pools = pools_new,
      group_pools = pools_new, dep_pools = pools_new, task_block = 4, team_block = 4, group_block = 4,
      dep_block = 4, Locks = hm_new, lock_held = (\<lambda>_. False), next_lock = 1\<rparr>"

definition example_initial :: ompt where
  "example_initial = snd (snd (ompt_tsan_task_create 2 0 {ompt_task_initial} 0 0 example_ompt))"

definition example_child :: ompt where
  "example_child = snd (snd (ompt_tsan_task_create 2 4 {ompt_task_explicit} 0 0 example_initial))"

lemma example_getData:
  "getData 4 2 pools_new =
     (4, \<lparr>pool_of = (\<lambda>_. pool_new)(2 := \<lparr>DataPointer = [1, 2, 3], RemoteDataPointer = [], remote = 0, total_datas = 4\<rparr>),
          owner = (\<lambda>d. if 1 \<le> d \<and> d \<le> 4 then 2 else 0), next_obj = 5\<rparr>)"
  by (auto simp: getData_def newDatas_def upd_pool_def pools_new_def pool_new_def upt_rec Let_def fun_eq_iff)

lemma example_getData2:
  "\<exists>ps. getData 4 2 (snd (getData 4 2 pools_new)) = (3, ps) \<and> fresh_objs (snd (getData 4 2 pools_new)) ps = {}"
  by (simp add: example_getData) (simp add: getData_def upd_pool_def fresh_objs_def Let_def)

lemma example_create_initial:
  "ompt_tsan_task_create 2 0 {ompt_task_initial} 0 0 example_ompt = (4, 4, example_initial)"
proof -
  have "fst (ompt_tsan_task_create 2 0 {ompt_task_initial} 0 0 example_ompt) = 4"
    "fst (snd (ompt_tsan_task_create 2 0 {ompt_task_initial} 0 0 example_ompt)) = 4"
    by (simp_all add: ompt_tsan_task_create_def example_ompt_def count_def is_running_def ParallelData_New_def
        TaskData_New_initial_def TaskData_alloc_def example_getData Let_def split: prod.split)
  then show ?thesis by (simp add: example_initial_def prod_eq_iff)
qed

lemma example_initial_pools:
  "task_pools example_initial = snd (getData 4 2 pools_new)" "task_block example_initial = 4"
  "is_running example_initial = False" "thread_local_clock example_initial = (\<lambda>_. 1)"
  by (simp_all add: example_initial_def ompt_tsan_task_create_def example_ompt_def count_def is_running_def
      ParallelData_New_def TaskData_New_initial_def TaskData_alloc_def example_getData Let_def Init_initial_def
      upd_task_def split: prod.split)

lemma example_create_child:
  "ompt_tsan_task_create 2 4 {ompt_task_explicit} 0 0 example_initial = (0, 3, example_child)"
proof -
  have "fst (snd (ompt_tsan_task_create 2 4 {ompt_task_explicit} 0 0 example_initial)) = 3"
    "fst (ompt_tsan_task_create 2 4 {ompt_task_explicit} 0 0 example_initial) = 0"
    using example_getData2
    by (auto simp: ompt_tsan_task_create_def count_def example_initial_pools TaskData_New_child_def
        TaskData_alloc_def Let_def split: prod.split)
  then show ?thesis by (simp add: example_child_def prod_eq_iff)
qed

lemma example_reach: "task_reach {3, 4} example_child"
proof -
  have "task_reach {} example_ompt" by (rule task_reach.Start) (simp_all add: example_ompt_def)
  then have "task_reach {4} example_initial"
    by (rule task_reach.Create [OF _ _ example_create_initial]) simp_all
  then show ?thesis by (rule task_reach.Create [OF _ _ example_create_child]) simp_all
qed

theorem task_objects_in_use_witness:
  "task_reach {3, 4} example_child \<and> 4 \<in> task_ancestors {3, 4} example_child \<and>
   (\<forall>th. 4 \<notin> set (free_of (task_pools example_child) th))"
proof -
  have "4 \<in> task_ancestors {3, 4} example_child" by (auto simp: task_ancestors_def)
  then show ?thesis using task_objects_in_use [OF example_reach refl] example_reach by blast
qed

lemma example_child_task: "Parent (tasks example_child 3) = 4" "Team (tasks example_child 3) = 4"
  "Parent (tasks example_child 4) = 0"
proof -
  have i: "Parent (tasks example_initial 4) = 0" "Team (tasks example_initial 4) = 4"
    by (simp_all add: example_initial_def ompt_tsan_task_create_def example_ompt_def count_def is_running_def
        ParallelData_New_def TaskData_New_initial_def TaskData_alloc_def example_getData Let_def Init_initial_def
        TaskData_new_def upd_task_def split: prod.split)
  show "Parent (tasks example_child 3) = 4" "Team (tasks example_child 3) = 4" "Parent (tasks example_child 4) = 0"
    using example_getData2 i
    by (auto simp: example_child_def ompt_tsan_task_create_def count_def example_initial_pools TaskData_New_child_def
        TaskData_alloc_def Init_child_def upd_task_def ompTimer_begin_def ompTimer_end_def enter_def leave_def upd_cur_def
        OmpHappensBefore_def new_clock_def Let_def split: prod.split)
qed

theorem finishing_task_returns_witness:
  "(\<exists>s'. ompt_tsan_task_schedule 2 3 ompt_task_complete 4 0 0 example_child = Some s' \<and> task_reach {4} s') \<and>
   ompt_tsan_task_schedule 2 4 ompt_task_complete 3 0 0 example_child = None"
proof -
  have "{3, 4} - {3::nat} = {4}" by auto
  then show ?thesis
    using finishing_task_returns [OF example_reach, of 3 ompt_task_complete 2 4 0 0]
      finishing_task_returns [OF example_reach, of 4 ompt_task_complete 2 3 0 0]
    by (simp add: finishes_def example_child_task)
qed

end
