(* ===== verification/Cpt_Barrier.thy ===== *)
theory Cpt_Barrier
  imports Cpt_Task
begin

text \<open>
  The barriers of a team.  A team has three synchronisation clocks for its barriers and uses
  them in turn: a thread that enters its barrier number \<open>k\<close> adds its clock to slot \<open>k mod 3\<close>, thread
  0 then clears the slot of the next barrier, and a thread that leaves takes the maximum from
  slot \<open>k mod 3\<close>.  The callbacks of the threads interleave in any order the barrier of the OpenMP
  runtime allows: a thread leaves only after all have entered.
\<close>

section \<open>What the callbacks do to the slots\<close>

lemma running_simps [simp]:
  "is_running (upd_cur th f s) = is_running s"
  "is_running (upd_task t g s) = is_running s"
  "is_running (OmpHappensBefore th l s) = is_running s"
  "is_running (OmpHappensAfter th l s) = is_running s"
  "is_running (OmpClockReset l s) = is_running s"
  by (simp_all add: is_running_def upd_cur_def upd_clock_def upd_task_def OmpHappensBefore_def OmpHappensAfter_def
      OmpClockReset_def split: prod.split)

lemma running_enter [simp]: "is_running (enter th now cs s) = is_running s" "is_running (leave th now r s) = is_running s"
  by (simp_all add: enter_def leave_def)

lemma sync_simps_ompt [simp]:
  "sync (upd_cur th f s) = sync s" "sync (upd_task t g s) = sync s"
  "sync (enter th now cs s) = sync s" "sync (leave th now r s) = sync s"
  by (simp_all add: upd_cur_def upd_task_def enter_def leave_def)

lemma tasks_simps_ompt [simp]:
  "tasks (upd_cur th f s) = tasks s" "tasks (enter th now cs s) = tasks s" "tasks (leave th now r s) = tasks s"
  "tasks (OmpHappensBefore th l s) = tasks s" "tasks (OmpHappensAfter th l s) = tasks s"
  "tasks (OmpClockReset l s) = tasks s"
  by (simp_all add: upd_cur_def enter_def leave_def OmpHappensBefore_def OmpHappensAfter_def OmpClockReset_def split: prod.split)

lemma tasks_upd_task [simp]: "tasks (upd_task t g s) = (tasks s)(t := g (tasks s t))"
  by (simp add: upd_task_def)

lemma cur_clock_simps [simp]:
  "cur_clock th (upd_cur th f s) = f (cur_clock th s)"
  "cur_clock th (upd_task t g s) = cur_clock th s"
  "cur_clock th (OmpHappensBefore th' l s) = cur_clock th s"
  "cur_clock th (OmpClockReset l s) = cur_clock th s"
  "cur_clock th (enter th now cs s) = enterState (is_running s) now 0 cs (cur_clock th s)"
  "cur_clock th (leave th now r s) = exitState (is_running s) now 0 r (cur_clock th s)"
  by (simp_all add: cur_clock_def upd_cur_def upd_clock_def upd_task_def OmpHappensBefore_def OmpClockReset_def enter_def
      leave_def)

lemma sync_before: "sync (OmpHappensBefore th l s) = (sync s)(l := OmpHBefore (is_running s) (sync s l) (cur_clock th s))"
  by (simp add: OmpHappensBefore_def)


lemma cur_after: "cur_clock th (OmpHappensAfter th l s) = snd (OmpHAfter (is_running s) (sync s l) (cur_clock th s))"
  by (simp add: OmpHappensAfter_def cur_clock_def upd_cur_def upd_clock_def split: prod.split)

lemma sync_reset: "sync (OmpClockReset l s) = (sync s)(l := OmpCReset (is_running s) (sync s l))"
  by (simp add: OmpClockReset_def)

lemma next_slot: "i < 3 \<Longrightarrow> (i + 1) mod 3 \<noteq> (i::nat)"
  by presburger

definition slot :: "nat \<Rightarrow> nat \<Rightarrow> sync_loc" where
  "slot team k = Barrier_clock team (k mod 3)"


text \<open>The callbacks on a task of the team that is at its barrier number \<open>k\<close>.\<close>

definition at_barrier :: "nat \<Rightarrow> nat \<Rightarrow> nat \<Rightarrow> TaskData \<Rightarrow> bool" where
  "at_barrier team i k d \<longleftrightarrow> Team d = team \<and> ThreadNum d = int i \<and> BarrierIndex d = k mod 3"

lemma barrier_begin_effect:
  assumes "is_running s" and "at_barrier team i k (tasks s t)"
  shows "sync (barrier_begin th t now s) l =
      (if l = slot team k then OmpHBefore True (sync s l) (enterState True now 0 STATE_OMP (cur_clock th s))
       else if i = 0 \<and> l = slot team (k + 1) then OmpCReset True (sync s l) else sync s l)"
    and "tasks (barrier_begin th t now s) = (tasks s)(t := (tasks s t)\<lparr>InBarrier := True\<rparr>)"
    and "cur_clock th (barrier_begin th t now s) = enterState True now 0 STATE_OMP (cur_clock th s)"
    and "is_running (barrier_begin th t now s)"
  using assms next_slot [of "k mod 3"]
  by (auto simp: barrier_begin_def at_barrier_def Let_def GetBarrierPtr_def slot_def sync_before sync_reset mod_simps)

lemma barrier_begin_other:
  "thread_local_clock s w \<noteq> thread_local_clock s th \<Longrightarrow> cur_clock w (barrier_begin th t now s) = cur_clock w s"
  "thread_local_clock (barrier_begin th t now s) = thread_local_clock s"
  by (simp_all add: barrier_begin_def Let_def cur_clock_def OmpClockReset_def OmpHappensBefore_def enter_def upd_cur_def
      upd_clock_def upd_task_def)


section \<open>Slots collect clocks\<close>





lemma GetState_entered: "GetState (enterState True now 0 STATE_OMP tc) = STATE_OMP"
  by (simp add: GetState_def clock_simps)

section \<open>The threads of a team at their barriers\<close>

















section \<open>A worker begins\<close>

lemma implicit_begin_clock:
  assumes b: "implicit_task_begin w team num type now s' = (team', t', s'')" and r: "is_running s'"
    and g: "GetState (cur_clock w s') = STATE_OMP" and type: "ompt_task_initial \<notin> type" and j: "joined sel c"
  shows "shown sel (cur_clock w s'') c now =
      max (shown sel (cur_clock w s') c now)
          (cval sel (sync s' (GetParallelPtr team)) c + (if State STATE_OMP c then now else 0))"
proof -
  define s0 where "s0 = count w (\<lambda>c. c\<lparr>implTaskBegin := implTaskBegin c + 1\<rparr>) s'"
  define s1 where "s1 = OmpHappensAfter w (GetParallelPtr team) s0"
  have s0: "cur_clock w s0 = cur_clock w s'" "sync s0 = sync s'" "is_running s0"
    using r by (auto simp: s0_def count_def cur_clock_def is_running_def split: option.split)
  then have s1: "is_running s1" "shown sel (cur_clock w s1) c now =
      max (shown sel (cur_clock w s') c now) (cval sel (sync s' (GetParallelPtr team)) c + (if State STATE_OMP c then now else 0))"
    using g by (simp_all add: s1_def cur_after shown_after [OF j])
  obtain s2 where s2: "TaskData_New_implicit w team num type s1 = (t', s2)" "s'' = enter w now STATE_USEFUL s2"
    using b g type s0(1) by (auto simp: implicit_task_begin_def Let_def s0_def [symmetric] s1_def split: prod.splits)
  then have "cur_clock w s2 = cur_clock w s1 \<and> is_running s2 = is_running s1"
    by (auto simp: TaskData_New_implicit_def TaskData_alloc_def Init_implicit_def upd_task_def cur_clock_def is_running_def
        split: prod.splits)
  then show ?thesis
    using s1 shown_switch(1) [OF joined_is_sel [OF j], of now STATE_USEFUL] by (simp add: s2(2))
qed

section \<open>Claims\<close>


text \<open>
  C37: The fork of a parallel region uses the slot of the second barrier.  A worker that begins its
  implicit task takes over what the forking thread recorded there.  When thread 0 of the team reaches its
  first barrier before that, the clearing of the next slot has removed it, and the worker takes the
  maximum with a clock of 0 instead; any other thread that is at the barrier first leaves the arc in place.
\<close>

theorem fork_arc_lost_at_first_barrier:
  assumes "is_running s" and "at_barrier team i 0 (tasks s t)" and "thread_local_clock s w \<noteq> thread_local_clock s m"
    and "GetState (cur_clock w s) = STATE_OMP" and "sel = proc \<or> sel = critical" and "c \<noteq> CLOCK_OGPU"
    and "ompt_task_initial \<notin> type" and "on = (if State STATE_OMP c then now else 0)"
    and "implicit_task_begin w team num type now s = (team1, t1, s1)"
    and "implicit_task_begin w team num type now (barrier_begin m t now' s) = (team2, t2, s2)"
  shows "shown sel (cur_clock w s1) c now =
           max (shown sel (cur_clock w s) c now) (cval sel (sync s (GetParallelPtr team)) c + on) \<and>
         shown sel (cur_clock w s2) c now =
           max (shown sel (cur_clock w s) c now) ((if i = 0 then 0 else cval sel (sync s (GetParallelPtr team)) c) + on)"
proof -
  let ?sb = "barrier_begin m t now' s"
  have j: "joined sel c" using assms(5,6) by (auto simp: joined_def)
  have slot1: "GetParallelPtr team = slot team 1" "GetParallelPtr team \<noteq> slot team 0"
    by (simp_all add: GetParallelPtr_def slot_def)
  note E = barrier_begin_effect [OF assms(1,2), where th = m and now = now']
  have w: "cur_clock w ?sb = cur_clock w s"
    by (rule barrier_begin_other(1) [OF assms(3)])
  have "cval sel (sync ?sb (GetParallelPtr team)) c = (if i = 0 then 0 else cval sel (sync s (GetParallelPtr team)) c)"
    using E(1) [of "GetParallelPtr team"] slot1 j by (simp add: sync_simps)
  then show ?thesis
    using implicit_begin_clock [OF assms(9,1,4,7) j] implicit_begin_clock [OF assms(10) E(4) _ assms(7) j] assms(4)
    unfolding w assms(8) by simp
qed

section \<open>Witnesses\<close>

text \<open>Two threads with tasks 1 and 2 in team 7, at time 2 in useful work.\<close>

definition example_team :: ompt where
  "example_team = example_ompt\<lparr>core := example_tool, thread_local_clock := (\<lambda>th. th),
     tasks := (\<lambda>t. TaskData_new\<lparr>Team := 7, ThreadNum := int t - 1\<rparr>)\<rparr>"



lemma example_team_simps:
  "is_running example_team" "cur_clock th example_team = enterState True 2 0 STATE_USEFUL (threadClock_new 0 0 False)"
  "tasks example_team t = TaskData_new\<lparr>Team := 7, ThreadNum := int t - 1\<rparr>" "sync example_team l = syncClock_init"
  "thread_local_clock example_team th = th"
  by (simp_all add: example_team_def is_running_def cur_clock_def example_tool_def example_ompt_def)


lemma example_at: "at_barrier 7 0 0 (tasks example_team 1)" "at_barrier 7 1 0 (tasks example_team 2)"
  by (simp_all add: example_team_simps at_barrier_def TaskData_new_def)




text \<open>The fork has recorded a clock that shows 15 at time 6; the worker ends up with 6.\<close>

definition example_fork :: ompt where
  "example_fork = (enter 1 4 STATE_OMP example_team)
     \<lparr>sync := (\<lambda>_. OmpHBefore True syncClock_init (threadClock_new 0 0 True\<lparr>clocks := \<lambda>_. cpClocks_of 9\<rparr>))\<rparr>"

theorem fork_arc_lost_at_first_barrier_witness:
  "let w = snd (snd (implicit_task_begin 1 7 1 {ompt_task_implicit} 6 example_fork));
       w' = snd (snd (implicit_task_begin 1 7 1 {ompt_task_implicit} 6 (barrier_begin 0 1 5 example_fork)))
   in is_running example_fork \<and> GetState (cur_clock 1 example_fork) = STATE_OMP \<and>
      shown critical (cur_clock 1 w) CLOCK_OMPI 6 = 15 \<and> shown critical (cur_clock 1 w') CLOCK_OMPI 6 = 6"
proof -
  let ?c = "enterState True 2 0 STATE_USEFUL (threadClock_new 0 0 False)"
  have run: "is_running example_fork" and at: "at_barrier 7 0 0 (tasks example_fork 1)"
    and cur: "cur_clock 1 example_fork = enterState True 4 0 STATE_OMP ?c"
    and diff: "thread_local_clock example_fork 1 \<noteq> thread_local_clock example_fork 0"
    using example_team_simps example_at
    by (simp_all add: example_fork_def is_running_def cur_clock_def enter_def upd_cur_def upd_clock_def)
  have g: "GetState ?c = STATE_USEFUL" by (simp add: GetState_def clock_simps)
  have "cval critical (enterState True 4 0 STATE_OMP ?c) CLOCK_OMPI = - 2"
    by (simp add: enterState_def [of True 4] Let_def clock_simps g) (simp add: enterState_def Let_def clock_simps)
  moreover have "cval critical (sync example_fork (GetParallelPtr 7)) CLOCK_OMPI = 9"
    by (simp add: example_fork_def sync_simps syncClock_init_def) (simp add: cval_def clock_simps)
  moreover obtain a1 a2 a b1 b2 b where r: "implicit_task_begin 1 7 1 {ompt_task_implicit} 6 example_fork = (a1, a2, a)"
      "implicit_task_begin 1 7 1 {ompt_task_implicit} 6 (barrier_begin 0 1 5 example_fork) = (b1, b2, b)"
    by (metis prod_cases3)
  ultimately show ?thesis
    using fork_arc_lost_at_first_barrier [OF run at diff _ _ _ _ refl r, of critical CLOCK_OMPI] cur run
    unfolding r Let_def by (simp add: GetState_entered shown_def)
qed

end
