(* ===== verification/Cpt_Handle.thy ===== *)
theory Cpt_Handle
  imports Cpt_HashMap Cpt_Pool
begin

text \<open>
  \<^verbatim>\<open>include/tracking.h\<close>: the handle factories.  The application never sees an MPI handle: a wrapper
  replaces the handle MPI returns by one of the tool's own (an index into a table when MPI
  handles are integers, the address of the tool's data when they are pointers) and translates it
  back in every later call.

  Handles and addresses are natural numbers; the data is in a store by address, 0 is the null
  pointer.  The methods of the data class \<^verbatim>\<open>T\<close> are arguments: \<open>ini\<close> is \<^verbatim>\<open>init\<close>, \<open>fin\<close> is \<^verbatim>\<open>fini\<close>, \<open>mpi_handle\<close> reads
  the field \<^verbatim>\<open>handle\<close> and \<open>f_handle\<close> the field \<^verbatim>\<open>fHandle\<close>, \<open>dflt\<close> is \<^verbatim>\<open>T()\<close>.  A table access outside
  its bounds is the value \<^const>\<open>None\<close>.
\<close>

section \<open>The factory\<close>

text \<open>
  \<open>block\<close> is the number of objects in a block of the pool.  The predefined handles and the null
  handle are constants of the MPI library.
\<close>

record 'd factory =
  predefined :: "nat list"
  nullHandle :: nat
  predefHandles :: "(nat, nat) CompactHashMap"
  predefFHandles :: "(nat, nat) CompactHashMap"
  dataTable :: "nat list"
  availableHandles :: "nat list"
  dpool :: shared_pool
  block :: nat
  objs :: "nat \<Rightarrow> 'd"

definition handle_hash :: "nat \<Rightarrow> u64" where
  "handle_hash h = Hash (of_nat h)"

definition factory_new :: "nat list \<Rightarrow> nat \<Rightarrow> nat \<Rightarrow> 'd \<Rightarrow> 'd factory" where
  "factory_new pre null blk dflt =
     \<lparr>predefined = pre, nullHandle = null, predefHandles = hm_new, predefFHandles = hm_new, dataTable = [],
      availableHandles = [], dpool = shared_pool_new, block = blk, objs = (\<lambda>_. dflt)\<rparr>"

definition isPredefined :: "nat \<Rightarrow> 'd factory \<Rightarrow> bool" where
  "isPredefined h f \<longleftrightarrow> h \<in> set (predefined f)"

definition findPredefinedData :: "nat \<Rightarrow> 'd factory \<Rightarrow> nat option" where
  "findPredefinedData h f = do {
     r \<leftarrow> hm_get handle_hash h (predefHandles f);
     Some (case r of None \<Rightarrow> 0 | Some d \<Rightarrow> d) }"

definition findPredefinedDataF :: "nat \<Rightarrow> 'd factory \<Rightarrow> nat option" where
  "findPredefinedDataF h f = do {
     r \<leftarrow> hm_get handle_hash h (predefFHandles f);
     Some (case r of None \<Rightarrow> 0 | Some d \<Rightarrow> d) }"

definition upd_obj :: "nat \<Rightarrow> ('d \<Rightarrow> 'd) \<Rightarrow> 'd factory \<Rightarrow> 'd factory" where
  "upd_obj d g f = f\<lparr>objs := (objs f)(d := g (objs f d))\<rparr>"

text \<open>\<^verbatim>\<open>newData\<close>: an object of the pool; the objects of a new block are default-constructed.\<close>

definition newData :: "'d \<Rightarrow> 'd factory \<Rightarrow> nat \<times> 'd factory" where
  "newData dflt f =
     (case sp_getData (block f) (dpool f) of (d, p) \<Rightarrow>
        (d, f\<lparr>dpool := p,
              objs := (\<lambda>x. if next_data (dpool f) \<le> x \<and> x < next_data p then dflt else objs f x)\<rparr>))"

definition returnObj :: "nat \<Rightarrow> 'd factory \<Rightarrow> 'd factory" where
  "returnObj d f = f\<lparr>dpool := sp_returnData d (dpool f)\<rparr>"

definition newAH :: "'d factory \<Rightarrow> 'd factory" where
  "newAH f =
     (let ndatas = 4096 div 64; oldSize = length (dataTable f); newSize = oldSize + ndatas
      in f\<lparr>dataTable := dataTable f @ replicate ndatas 0,
           availableHandles := availableHandles f @ [oldSize..<newSize]\<rparr>)"

text \<open>The block under \<^verbatim>\<open>AHMutex\<close>: an index that is not in use, entered into the table.\<close>

definition takeHandle :: "nat \<Rightarrow> 'd factory \<Rightarrow> (nat \<times> 'd factory) option" where
  "takeHandle d f =
     (let f = (if availableHandles f = [] then newAH f else f);
          h = last (availableHandles f)
      in if h < length (dataTable f)
         then Some (h, f\<lparr>availableHandles := butlast (availableHandles f), dataTable := (dataTable f)[h := d]\<rparr>)
         else None)"

definition releaseHandle :: "nat \<Rightarrow> 'd factory \<Rightarrow> 'd factory" where
  "releaseHandle h f = f\<lparr>availableHandles := availableHandles f @ [h]\<rparr>"

definition table_at :: "nat \<Rightarrow> 'd factory \<Rightarrow> nat option" where
  "table_at h f = (if h < length (dataTable f) then Some (dataTable f ! h) else None)"

subsection \<open>Integer handles\<close>

definition int_newHandle_data :: "(nat \<Rightarrow> 'd \<Rightarrow> 'd) \<Rightarrow> nat \<Rightarrow> nat \<Rightarrow> 'd factory \<Rightarrow> (nat \<times> 'd factory) option" where
  "int_newHandle_data ini handle dp f = do {
     (ret, f) \<leftarrow> takeHandle dp f;
     Some (ret, upd_obj dp (ini handle) f) }"

definition int_newHandle :: "(nat \<Rightarrow> 'd \<Rightarrow> 'd) \<Rightarrow> 'd \<Rightarrow> nat \<Rightarrow> 'd factory \<Rightarrow> (nat \<times> 'd factory) option" where
  "int_newHandle ini dflt handle f =
     (if isPredefined handle f then Some (handle, f)
      else case newData dflt f of (d, f) \<Rightarrow> int_newHandle_data ini handle d f)"

definition int_freeHandle :: "('d \<Rightarrow> 'd) \<Rightarrow> nat \<Rightarrow> 'd factory \<Rightarrow> (nat \<times> 'd factory) option" where
  "int_freeHandle fin handle f =
     (if isPredefined handle f then Some (nullHandle f, f)
      else do {
        d \<leftarrow> table_at handle f;
        Some (nullHandle f, returnObj d (upd_obj d fin (releaseHandle handle f))) })"

definition int_detachHandle :: "nat \<Rightarrow> 'd factory \<Rightarrow> (nat \<times> 'd factory) option" where
  "int_detachHandle handle f = do { d \<leftarrow> table_at handle f; Some (d, releaseHandle handle f) }"

definition int_findData :: "nat \<Rightarrow> 'd factory \<Rightarrow> nat option" where
  "int_findData handle f = do {
     d \<leftarrow> findPredefinedData handle f;
     if d \<noteq> 0 then Some d else table_at handle f }"

definition int_getHandle :: "('d \<Rightarrow> nat) \<Rightarrow> nat \<Rightarrow> 'd factory \<Rightarrow> nat option" where
  "int_getHandle mpi_handle handle f =
     (if isPredefined handle f then Some handle
      else do { d \<leftarrow> table_at handle f; Some (mpi_handle (objs f d)) })"

subsection \<open>Pointer handles\<close>

text \<open>With Fortran support the table holds the data of the Fortran handles.\<close>

definition ptr_newHandle_data :: "(nat \<Rightarrow> nat \<Rightarrow> 'd \<Rightarrow> 'd) \<Rightarrow> nat \<Rightarrow> nat \<Rightarrow> 'd factory \<Rightarrow> (nat \<times> 'd factory) option" where
  "ptr_newHandle_data ini handle ret f = do {
     (fId, f) \<leftarrow> takeHandle ret f;
     Some (ret, upd_obj ret (ini handle fId) f) }"

definition ptr_newHandle :: "(nat \<Rightarrow> nat \<Rightarrow> 'd \<Rightarrow> 'd) \<Rightarrow> 'd \<Rightarrow> nat \<Rightarrow> 'd factory \<Rightarrow> (nat \<times> 'd factory) option" where
  "ptr_newHandle ini dflt handle f =
     (if isPredefined handle f then Some (handle, f)
      else case newData dflt f of (d, f) \<Rightarrow> ptr_newHandle_data ini handle d f)"

definition ptr_freeHandle :: "('d \<Rightarrow> nat) \<Rightarrow> ('d \<Rightarrow> 'd) \<Rightarrow> nat \<Rightarrow> 'd factory \<Rightarrow> (nat \<times> 'd factory) option" where
  "ptr_freeHandle f_handle fin handle f =
     (if isPredefined handle f then Some (nullHandle f, f)
      else let fId = f_handle (objs f handle)
           in Some (nullHandle f, returnObj handle (upd_obj handle fin (releaseHandle fId f))))"

definition ptr_detachHandle :: "('d \<Rightarrow> nat) \<Rightarrow> nat \<Rightarrow> 'd factory \<Rightarrow> nat \<times> 'd factory" where
  "ptr_detachHandle f_handle handle f = (handle, releaseHandle (f_handle (objs f handle)) f)"

definition ptr_findData :: "nat \<Rightarrow> 'd factory \<Rightarrow> nat option" where
  "ptr_findData handle f = do {
     d \<leftarrow> findPredefinedData handle f;
     Some (if d \<noteq> 0 then d else handle) }"

definition ptr_getHandle :: "('d \<Rightarrow> nat) \<Rightarrow> nat \<Rightarrow> 'd factory \<Rightarrow> nat" where
  "ptr_getHandle mpi_handle handle f = (if isPredefined handle f then handle else mpi_handle (objs f handle))"

definition ptr_f2c :: "('d \<Rightarrow> nat) \<Rightarrow> nat \<Rightarrow> 'd factory \<Rightarrow> nat option" where
  "ptr_f2c mpi_handle fhandle f = do {
     d \<leftarrow> findPredefinedDataF fhandle f;
     if d \<noteq> 0 then Some (mpi_handle (objs f d)) else table_at fhandle f }"

definition ptr_c2f :: "('d \<Rightarrow> nat) \<Rightarrow> nat \<Rightarrow> 'd factory \<Rightarrow> nat option" where
  "ptr_c2f f_handle handle f =
     (if isPredefined handle f
      then do { d \<leftarrow> findPredefinedData handle f; Some (f_handle (objs f d)) }
      else Some (f_handle (objs f handle)))"

text \<open>
  \<^verbatim>\<open>initPredefined\<close>: data for the predefined handles, found by handle and by Fortran handle.  \<open>ini\<close> is
  \<^verbatim>\<open>init\<close> with the default for the Fortran handle.
\<close>

definition initPredefined_one :: "(nat \<Rightarrow> 'd \<Rightarrow> 'd) \<Rightarrow> ('d \<Rightarrow> nat) \<Rightarrow> 'd \<Rightarrow> nat \<Rightarrow> 'd factory \<Rightarrow> 'd factory option" where
  "initPredefined_one ini f_handle dflt h f =
     (case newData dflt f of (d, f) \<Rightarrow>
        do {
          let f = upd_obj d (ini h) f;
          m \<leftarrow> hm_put handle_hash 0 h d (predefHandles f);
          mF \<leftarrow> hm_put handle_hash 0 (f_handle (objs f d)) d (predefFHandles f);
          Some (f\<lparr>predefHandles := m, predefFHandles := mF\<rparr>) })"

fun initPredefined :: "(nat \<Rightarrow> 'd \<Rightarrow> 'd) \<Rightarrow> ('d \<Rightarrow> nat) \<Rightarrow> 'd \<Rightarrow> nat list \<Rightarrow> 'd factory \<Rightarrow> 'd factory option" where
  "initPredefined ini f_handle dflt [] f = Some f"
| "initPredefined ini f_handle dflt (h # hs) f = do {
     f \<leftarrow> initPredefined_one ini f_handle dflt h f;
     initPredefined ini f_handle dflt hs f }"

section \<open>The contract of a factory\<close>

text \<open>
  \<open>ok m f\<close>: the handles in use are the domain of \<open>m\<close>, which gives the MPI handle of each.  \<open>pre\<close> are
  the predefined handles, which the application uses as they are; \<open>room n f\<close> says that \<open>n\<close> more
  handles do not reach the values of predefined ones.
\<close>

locale handle_contract =
  fixes ok :: "(nat \<rightharpoonup> nat) \<Rightarrow> 'f \<Rightarrow> bool"
    and pre :: "nat set"
    and null :: nat
    and room :: "nat \<Rightarrow> 'f \<Rightarrow> bool"
    and new :: "nat \<Rightarrow> 'f \<Rightarrow> (nat \<times> 'f) option"
    and release :: "nat \<Rightarrow> 'f \<Rightarrow> (nat \<times> 'f) option"
    and resolve :: "nat \<Rightarrow> 'f \<Rightarrow> nat option"
  assumes new_ok: "ok m f \<Longrightarrow> room (Suc n) f \<Longrightarrow> h \<notin> pre \<Longrightarrow>
      \<exists>a f'. new h f = Some (a, f') \<and> a \<notin> dom m \<and> a \<notin> pre \<and> ok (m(a \<mapsto> h)) f' \<and> room n f'"
    and release_ok: "ok m f \<Longrightarrow> a \<in> dom m \<Longrightarrow> room n f \<Longrightarrow>
      \<exists>f'. release a f = Some (null, f') \<and> ok (m(a := None)) f' \<and> room n f'"
    and resolve_ok: "ok m f \<Longrightarrow> m a = Some h \<Longrightarrow> resolve a f = Some h"
    and room_mono: "room (Suc n) f \<Longrightarrow> room n f"
    and predefined_ok: "ok m f \<Longrightarrow> h \<in> pre \<Longrightarrow>
      new h f = Some (h, f) \<and> release h f = Some (null, f) \<and> resolve h f = Some h"
begin

text \<open>
  A program that makes handles and frees the ones it holds: \<open>Inl h\<close> is a call that returns the MPI
  handle \<open>h\<close>, \<open>Inr i\<close> frees the \<open>i\<close>-th of the handles held.
\<close>

fun run :: "(nat + nat) list \<Rightarrow> (nat \<times> nat) list \<times> 'f \<Rightarrow> ((nat \<times> nat) list \<times> 'f) option" where
  "run [] s = Some s"
| "run (Inl h # ops) (held, f) = (case new h f of None \<Rightarrow> None | Some (a, f) \<Rightarrow> run ops ((a, h) # held, f))"
| "run (Inr i # ops) (held, f) =
     (if i < length held
      then case release (fst (held ! i)) f of None \<Rightarrow> None
             | Some (_, f) \<Rightarrow> run ops (take i held @ drop (Suc i) held, f)
      else run ops (held, f))"

lemma run_ok:
  "ok (map_of held) f \<Longrightarrow> distinct (map fst held) \<Longrightarrow> room (length ops) f \<Longrightarrow> fst ` set held \<inter> pre = {} \<Longrightarrow>
   (\<forall>h. Inl h \<in> set ops \<longrightarrow> h \<notin> pre) \<Longrightarrow>
     \<exists>held' f'. run ops (held, f) = Some (held', f') \<and> distinct (map fst held') \<and> fst ` set held' \<inter> pre = {} \<and>
       (\<forall>(a, h) \<in> set held'. resolve a f' = Some h)"
proof (induction ops "(held, f)" arbitrary: held f rule: run.induct)
  case (1 held f)
  then show ?case using resolve_ok [OF 1(1)] by fastforce
next
  case (2 h ops held f)
  have "room (Suc (length ops)) f" "h \<notin> pre" using 2(4,6) by auto
  from new_ok [OF 2(2) this] obtain a f' where a: "new h f = Some (a, f')" "a \<notin> dom (map_of held)" "a \<notin> pre"
    "ok ((map_of held)(a \<mapsto> h)) f'" "room (length ops) f'" by blast
  then have "ok (map_of ((a, h) # held)) f'" "distinct (map fst ((a, h) # held))"
    using 2(3) by (auto simp: dom_map_of_conv_image_fst)
  from 2(1) [OF a(1) refl this a(5)] show ?case using a(1,3) 2(5,6) by auto
next
  case (3 i ops held f)
  show ?case
  proof (cases "i < length held")
    case True
    have "fst (held ! i) \<in> dom (map_of held)" using True by (simp add: dom_map_of_conv_image_fst)
    moreover have r: "room (length ops) f" using 3(5) room_mono by auto
    ultimately obtain f' where f': "release (fst (held ! i)) f = Some (null, f')"
        "ok ((map_of held)(fst (held ! i) := None)) f'" "room (length ops) f'"
      using release_ok [OF 3(3)] by blast
    note rm = map_of_remove [OF 3(4) True]
    have "set (take i held @ drop (Suc i) held) \<subseteq> set held" by (auto dest: in_set_takeD in_set_dropD)
    then have "fst ` set (take i held @ drop (Suc i) held) \<inter> pre = {}" using 3(6) by blast
    then show ?thesis
      using 3(1) [OF True f'(1) refl _ rm(2) f'(3)] f'(1,2) rm(1) True 3(7) by auto
  next
    case False
    then show ?thesis using 3(2) [OF False 3(3,4)] 3(5,6,7) room_mono by auto
  qed
qed

end

section \<open>Both factories keep it\<close>

text \<open>What the table and the free list have in common.\<close>

definition table_ok :: "'d factory \<Rightarrow> bool" where
  "table_ok f \<longleftrightarrow>
     distinct (availableHandles f) \<and> set (availableHandles f) \<subseteq> {..<length (dataTable f)}"

lemma takeHandle_ok:
  assumes ok: "table_ok f"
  shows "\<exists>h f'. takeHandle d f = Some (h, f') \<and> table_ok f' \<and> h < length (dataTable f') \<and>
      h \<notin> set (availableHandles f') \<and> dataTable f' ! h = d \<and>
      (h \<in> set (availableHandles f) \<or> length (dataTable f) \<le> h) \<and>
      length (dataTable f) \<le> length (dataTable f') \<and> length (dataTable f') \<le> length (dataTable f) + 64 \<and>
      {..<length (dataTable f)} - set (availableHandles f) \<union> {h} = {..<length (dataTable f')} - set (availableHandles f') \<and>
      (\<forall>k < length (dataTable f). k \<noteq> h \<longrightarrow> dataTable f' ! k = dataTable f ! k) \<and>
      objs f' = objs f \<and> dpool f' = dpool f \<and> predefined f' = predefined f \<and> nullHandle f' = nullHandle f \<and>
      block f' = block f \<and> predefHandles f' = predefHandles f \<and> predefFHandles f' = predefFHandles f"
proof -
  define g where "g = (if availableHandles f = [] then newAH f else f)"
  let ?n = "length (dataTable f)"
  have len: "?n \<le> length (dataTable g)" "length (dataTable g) \<le> ?n + 64" by (auto simp: g_def newAH_def Let_def)
  have old: "k < ?n \<Longrightarrow> dataTable g ! k = dataTable f ! k" for k by (auto simp: g_def newAH_def nth_append Let_def)
  have free: "{..<?n} - set (availableHandles f) = {..<length (dataTable g)} - set (availableHandles g)"
    by (auto simp: g_def newAH_def Let_def)
  have ne: "availableHandles g \<noteq> []" and g: "table_ok g" using ok by (auto simp: g_def newAH_def table_ok_def Let_def)
  obtain xs h where h: "availableHandles g = xs @ [h]" using ne by (cases "availableHandles g" rule: rev_cases) auto
  then have hn: "h < length (dataTable g)" "h \<notin> set xs" "distinct xs" "set xs \<subseteq> {..<length (dataTable g)}"
    using g by (auto simp: table_ok_def)
  have "h \<in> set (availableHandles g)" using h by simp
  then have inF: "h \<in> set (availableHandles f) \<or> ?n \<le> h"
    by (auto simp: g_def newAH_def Let_def split: if_splits)
  define f' where "f' = g\<lparr>availableHandles := xs, dataTable := (dataTable g)[h := d]\<rparr>"
  have "takeHandle d f = Some (h, f')" using h hn(1) by (simp add: takeHandle_def g_def [symmetric] f'_def Let_def)
  moreover have "{..<?n} - set (availableHandles f) \<union> {h} = {..<length (dataTable f')} - set (availableHandles f')"
    unfolding free using h hn by (auto simp: f'_def)
  ultimately show ?thesis
    using hn len old inF by (auto simp: f'_def table_ok_def g_def newAH_def nth_list_update Let_def)
qed

lemma newData_ok:
  assumes "sp_ok U (dpool f)" and "0 < block f" and "newData dflt f = (d, f')"
  shows "d \<noteq> 0 \<and> d \<notin> U \<and> sp_ok (insert d U) (dpool f') \<and> (\<forall>x \<in> U. objs f' x = objs f x) \<and>
         dataTable f' = dataTable f \<and> availableHandles f' = availableHandles f \<and> predefined f' = predefined f \<and>
         nullHandle f' = nullHandle f \<and> block f' = block f \<and> predefHandles f' = predefHandles f \<and>
         predefFHandles f' = predefFHandles f \<and> next_data (dpool f') \<le> next_data (dpool f) + block f"
proof -
  obtain p where g: "sp_getData (block f) (dpool f) = (d, p)" using assms(3) by (auto simp: newData_def split: prod.splits)
  have "next_data p \<le> next_data (dpool f) + block f"
    using g by (auto simp: sp_getData_def sp_newDatas_def Let_def split: if_splits)
  moreover have "x < next_data (dpool f)" if "x \<in> U" for x using assms(1) that by (auto simp: sp_ok_def)
  ultimately show ?thesis
    using sp_getData_ok [OF assms(1,2) g] assms(3) g by (fastforce simp: newData_def)
qed

subsection \<open>Integer handles\<close>

definition int_ok :: "('d \<Rightarrow> nat) \<Rightarrow> nat list \<Rightarrow> nat \<Rightarrow> (nat \<rightharpoonup> nat) \<Rightarrow> 'd factory \<Rightarrow> bool" where
  "int_ok mpi_handle pre null m f \<longleftrightarrow>
     predefined f = pre \<and> nullHandle f = null \<and> 0 < block f \<and> table_ok f \<and>
     dom m = {..<length (dataTable f)} - set (availableHandles f) \<and>
     (\<forall>p \<in> set pre. length (dataTable f) \<le> p) \<and>
     inj_on (\<lambda>a. dataTable f ! a) (dom m) \<and>
     (\<forall>a h. m a = Some h \<longrightarrow> mpi_handle (objs f (dataTable f ! a)) = h) \<and>
     (\<exists>U. sp_ok U (dpool f) \<and> (\<lambda>a. dataTable f ! a) ` dom m \<subseteq> U)"

definition int_room :: "nat list \<Rightarrow> nat \<Rightarrow> 'd factory \<Rightarrow> bool" where
  "int_room pre n f \<longleftrightarrow> (\<forall>p \<in> set pre. length (dataTable f) + 64 * n \<le> p)"

lemma int_okI:
  assumes "predefined f = pre" "nullHandle f = null" "0 < block f" "table_ok f"
    "dom m = {..<length (dataTable f)} - set (availableHandles f)" "\<forall>p \<in> set pre. length (dataTable f) \<le> p"
    "inj_on (\<lambda>a. dataTable f ! a) (dom m)" "\<And>a h. m a = Some h \<Longrightarrow> mpi_handle (objs f (dataTable f ! a)) = h"
    "sp_ok U (dpool f)" "(\<lambda>a. dataTable f ! a) ` dom m \<subseteq> U"
  shows "int_ok mpi_handle pre null m f"
  using assms unfolding int_ok_def by blast

lemma int_okD:
  assumes "int_ok mpi_handle pre null m f"
  shows "predefined f = pre" "nullHandle f = null" "0 < block f" "table_ok f"
    "dom m = {..<length (dataTable f)} - set (availableHandles f)" "\<forall>p \<in> set pre. length (dataTable f) \<le> p"
    "inj_on (\<lambda>a. dataTable f ! a) (dom m)" "m a = Some h \<Longrightarrow> mpi_handle (objs f (dataTable f ! a)) = h"
    "\<exists>U. sp_ok U (dpool f) \<and> (\<lambda>a. dataTable f ! a) ` dom m \<subseteq> U"
  using assms unfolding int_ok_def by blast+

lemma int_new_ok:
  assumes ok: "int_ok mpi_handle pre null m f" and room: "int_room pre (Suc n) f" and h: "h \<notin> set pre"
    and ini: "\<And>h d. mpi_handle (ini h d) = h"
  shows "\<exists>a f'. int_newHandle ini dflt h f = Some (a, f') \<and> a \<notin> dom m \<and> a \<notin> set pre \<and>
           int_ok mpi_handle pre null (m(a \<mapsto> h)) f' \<and> int_room pre n f'"
proof -
  note f = int_okD(1-5,7,8) [OF ok]
  obtain U where U: "sp_ok U (dpool f)" "(\<lambda>a. dataTable f ! a) ` dom m \<subseteq> U" using int_okD(9) [OF ok] by blast
  obtain d g where g: "newData dflt f = (d, g)" by fastforce
  note N = newData_ok [OF U(1) f(3) g]
  have "table_ok g" using f(4) N by (simp add: table_ok_def)
  from takeHandle_ok [OF this, of d] obtain a g' where a: "takeHandle d g = Some (a, g')" "table_ok g'"
      "a < length (dataTable g')" "a \<notin> set (availableHandles g')" "dataTable g' ! a = d"
      "a \<in> set (availableHandles g) \<or> length (dataTable g) \<le> a"
      "length (dataTable g) \<le> length (dataTable g')" "length (dataTable g') \<le> length (dataTable g) + 64"
      "{..<length (dataTable g)} - set (availableHandles g) \<union> {a} = {..<length (dataTable g')} - set (availableHandles g')"
      "\<forall>k < length (dataTable g). k \<noteq> a \<longrightarrow> dataTable g' ! k = dataTable g ! k"
      "objs g' = objs g" "dpool g' = dpool g" "predefined g' = predefined g" "nullHandle g' = nullHandle g" "block g' = block g"
    by auto
  define f' where "f' = upd_obj d (ini h) g'"
  have f': "dataTable f' = dataTable g'" "availableHandles f' = availableHandles g'" "dpool f' = dpool g"
      "predefined f' = pre" "nullHandle f' = null" "block f' = block f" "table_ok f'"
      "objs f' x = (if x = d then ini h (objs g d) else objs g x)" for x
    using a N f by (auto simp: f'_def upd_obj_def table_ok_def)
  have new: "a \<notin> dom m" using a(6) N f(5) by auto
  have dom: "dom (m(a \<mapsto> h)) = {..<length (dataTable f')} - set (availableHandles f')"
    using a(9) N f(5) by (auto simp: f')
  have at: "dataTable f' ! k = (if k = a then d else dataTable f ! k)" if "k \<in> dom (m(a \<mapsto> h))" for k
    using that a(5,10) N f(5) new by (auto simp: f')
  have out: "dataTable f ! k \<noteq> d" if "k \<in> dom m" for k using U(2) N that by auto
  have inj: "inj_on (\<lambda>a. dataTable f' ! a) (dom (m(a \<mapsto> h)))"
    unfolding inj_on_def using at out f(6) by (auto simp: inj_on_def; metis)
  have val: "mpi_handle (objs f' (dataTable f' ! k)) = x" if "(m(a \<mapsto> h)) k = Some x" for k x
  proof -
    have k: "k \<in> dom (m(a \<mapsto> h))" using that by (rule domI)
    show ?thesis
    proof (cases "k = a")
      case False
      then have mk: "m k = Some x" using that by simp
      then have "dataTable f ! k \<in> U" using U(2) by blast
      then show ?thesis using f(7) [OF mk] at [OF k] out [of k] False N mk by (auto simp: f')
    qed (use that at [OF k] ini in \<open>auto simp: f'\<close>)
  qed
  have sub: "(\<lambda>a. dataTable f' ! a) ` dom (m(a \<mapsto> h)) \<subseteq> insert d U" using at U(2) by fastforce
  have big: "length (dataTable f') \<le> length (dataTable f) + 64" using a(8) N by (simp add: f')
  have bound: "\<forall>p \<in> set pre. length (dataTable f') \<le> p" and room': "int_room pre n f'"
    using room big by (fastforce simp: int_room_def)+
  have "int_ok mpi_handle pre null (m(a \<mapsto> h)) f'"
  proof (rule int_okI [OF f'(4,5)])
    show "sp_ok (insert d U) (dpool f')" using N by (simp add: f')
  qed (use f'(6,7) f(3) dom bound inj val sub in auto)
  moreover have "int_newHandle ini dflt h f = Some (a, f')"
    using g a(1) h f(1) by (simp add: int_newHandle_def isPredefined_def int_newHandle_data_def f'_def)
  moreover have "a \<notin> set pre" using bound a(3) by (auto simp: f')
  ultimately show ?thesis using new room' by blast
qed

lemma int_release_ok:
  assumes ok: "int_ok mpi_handle pre null m f" and a: "a \<in> dom m" and room: "int_room pre n f"
  shows "\<exists>f'. int_freeHandle fin a f = Some (null, f') \<and> int_ok mpi_handle pre null (m(a := None)) f' \<and> int_room pre n f'"
proof -
  note f = int_okD [OF ok]
  obtain U where U: "sp_ok U (dpool f)" "(\<lambda>a. dataTable f ! a) ` dom m \<subseteq> U" using f(9) by blast
  let ?d = "dataTable f ! a"
  define f' where "f' = returnObj ?d (upd_obj ?d fin (releaseHandle a f))"
  have f': "dataTable f' = dataTable f" "availableHandles f' = availableHandles f @ [a]"
      "dpool f' = sp_returnData ?d (dpool f)" "predefined f' = pre" "nullHandle f' = null" "block f' = block f"
      "objs f' x = (if x = ?d then fin (objs f x) else objs f x)" for x
    using f(1,2) by (auto simp: f'_def returnObj_def upd_obj_def releaseHandle_def)
  have alen: "a < length (dataTable f)" "a \<notin> set (availableHandles f)" using a f(5) by auto
  have other: "dataTable f ! k \<noteq> ?d" if "k \<in> dom m" "k \<noteq> a" for k using f(7) a that by (auto simp: inj_on_def)
  have "int_ok mpi_handle pre null (m(a := None)) f'"
  proof (rule int_okI [OF f'(4,5)])
    have "?d \<in> U" using U(2) a by blast
    then show "sp_ok (U - {?d}) (dpool f')" using sp_returnData_ok [OF U(1)] by (simp add: f')
    show "(\<lambda>a. dataTable f' ! a) ` dom (m(a := None)) \<subseteq> U - {?d}" using U(2) other by (auto simp: f')
    show "mpi_handle (objs f' (dataTable f' ! k)) = h" if "(m(a := None)) k = Some h" for k h
      using that f(8) [of k h] other [of k] by (auto simp: f' split: if_splits)
    show "inj_on (\<lambda>k. dataTable f' ! k) (dom (m(a := None)))" using f(7) by (auto simp: f' inj_on_def)
    show "dom (m(a := None)) = {..<length (dataTable f')} - set (availableHandles f')" using f(5) by (auto simp: f')
  qed (use f(3,4,6) alen in \<open>auto simp: f' table_ok_def\<close>)
  moreover have "a \<notin> set pre" using f(6) alen(1) by auto
  then have "int_freeHandle fin a f = Some (null, f')"
    using alen(1) f(1,2) by (simp add: int_freeHandle_def isPredefined_def table_at_def f'_def)
  ultimately show ?thesis using room by (simp add: int_room_def f')
qed

lemma int_resolve_ok:
  assumes ok: "int_ok mpi_handle pre null m f" and a: "m a = Some h"
  shows "int_getHandle mpi_handle a f = Some h"
proof -
  note f = int_okD [OF ok]
  have "a < length (dataTable f)" using a f(5) by auto
  moreover then have "a \<notin> set pre" using f(6) by auto
  ultimately show ?thesis using f(8) [OF a] f(1) by (simp add: int_getHandle_def isPredefined_def table_at_def)
qed

lemma int_predefined_ok:
  assumes ok: "int_ok mpi_handle pre null m f" and h: "h \<in> set pre"
  shows "int_newHandle ini dflt h f = Some (h, f) \<and> int_freeHandle fin h f = Some (null, f) \<and>
         int_getHandle mpi_handle h f = Some h"
  using int_okD(1,2) [OF ok] h
  by (simp add: int_newHandle_def int_freeHandle_def int_getHandle_def isPredefined_def)

subsection \<open>Pointer handles\<close>

definition ptr_ok :: "('d \<Rightarrow> nat) \<Rightarrow> ('d \<Rightarrow> nat) \<Rightarrow> nat list \<Rightarrow> nat \<Rightarrow> (nat \<rightharpoonup> nat) \<Rightarrow> 'd factory \<Rightarrow> bool" where
  "ptr_ok mpi_handle f_handle pre null m f \<longleftrightarrow>
     predefined f = pre \<and> nullHandle f = null \<and> 0 < block f \<and> table_ok f \<and>
     (\<forall>p \<in> set pre. next_data (dpool f) \<le> p) \<and>
     (\<forall>a h. m a = Some h \<longrightarrow> mpi_handle (objs f a) = h \<and> f_handle (objs f a) < length (dataTable f) \<and>
        f_handle (objs f a) \<notin> set (availableHandles f) \<and> dataTable f ! f_handle (objs f a) = a) \<and>
     (\<exists>U. sp_ok U (dpool f) \<and> dom m \<subseteq> U)"

definition ptr_room :: "nat list \<Rightarrow> nat \<Rightarrow> 'd factory \<Rightarrow> bool" where
  "ptr_room pre n f \<longleftrightarrow> (\<forall>p \<in> set pre. next_data (dpool f) + block f * n \<le> p)"

lemma ptr_okI:
  assumes "predefined f = pre" "nullHandle f = null" "0 < block f" "table_ok f" "\<forall>p \<in> set pre. next_data (dpool f) \<le> p"
    "\<And>a h. m a = Some h \<Longrightarrow> mpi_handle (objs f a) = h \<and> f_handle (objs f a) < length (dataTable f) \<and>
        f_handle (objs f a) \<notin> set (availableHandles f) \<and> dataTable f ! f_handle (objs f a) = a"
    "sp_ok U (dpool f)" "dom m \<subseteq> U"
  shows "ptr_ok mpi_handle f_handle pre null m f"
  using assms unfolding ptr_ok_def by blast

lemma ptr_okD:
  assumes "ptr_ok mpi_handle f_handle pre null m f"
  shows "predefined f = pre" "nullHandle f = null" "0 < block f" "table_ok f" "\<forall>p \<in> set pre. next_data (dpool f) \<le> p"
    "m a = Some h \<Longrightarrow> mpi_handle (objs f a) = h \<and> f_handle (objs f a) < length (dataTable f) \<and>
        f_handle (objs f a) \<notin> set (availableHandles f) \<and> dataTable f ! f_handle (objs f a) = a"
    "\<exists>U. sp_ok U (dpool f) \<and> dom m \<subseteq> U"
  using assms unfolding ptr_ok_def by blast+

lemma ptr_new_ok:
  assumes ok: "ptr_ok mpi_handle f_handle pre null m f" and room: "ptr_room pre (Suc n) f" and h: "h \<notin> set pre"
    and ini: "\<And>h i d. mpi_handle (ini h i d) = h \<and> f_handle (ini h i d) = i"
  shows "\<exists>a f'. ptr_newHandle ini dflt h f = Some (a, f') \<and> a \<notin> dom m \<and> a \<notin> set pre \<and>
           ptr_ok mpi_handle f_handle pre null (m(a \<mapsto> h)) f' \<and> ptr_room pre n f'"
proof -
  note f = ptr_okD [OF ok]
  obtain U where U: "sp_ok U (dpool f)" "dom m \<subseteq> U" using f(7) by blast
  obtain d g where g: "newData dflt f = (d, g)" by fastforce
  note N = newData_ok [OF U(1) f(3) g]
  have "table_ok g" using f(4) N by (simp add: table_ok_def)
  from takeHandle_ok [OF this, of d] obtain i g' where i: "takeHandle d g = Some (i, g')" "table_ok g'"
      "i < length (dataTable g')" "i \<notin> set (availableHandles g')" "dataTable g' ! i = d"
      "i \<in> set (availableHandles g) \<or> length (dataTable g) \<le> i" "length (dataTable g) \<le> length (dataTable g')"
      "{..<length (dataTable g)} - set (availableHandles g) \<union> {i} = {..<length (dataTable g')} - set (availableHandles g')"
      "\<forall>k < length (dataTable g). k \<noteq> i \<longrightarrow> dataTable g' ! k = dataTable g ! k"
      "objs g' = objs g" "dpool g' = dpool g" "predefined g' = predefined g" "nullHandle g' = nullHandle g" "block g' = block g"
    by auto
  define f' where "f' = upd_obj d (ini h i) g'"
  have f': "dataTable f' = dataTable g'" "availableHandles f' = availableHandles g'" "dpool f' = dpool g"
      "predefined f' = pre" "nullHandle f' = null" "block f' = block f" "table_ok f'"
      "objs f' x = (if x = d then ini h i (objs g d) else objs g x)" for x
    using i N f by (auto simp: f'_def upd_obj_def table_ok_def)
  have new: "d \<notin> dom m" using N U(2) by blast
  have sp: "sp_ok (insert d U) (dpool f')" using N by (simp add: f')
  have bound: "\<forall>p \<in> set pre. next_data (dpool f') \<le> p" "ptr_room pre n f'"
    using room N by (fastforce simp: ptr_room_def f')+
  have live: "mpi_handle (objs f' a) = x \<and> f_handle (objs f' a) < length (dataTable f') \<and>
      f_handle (objs f' a) \<notin> set (availableHandles f') \<and> dataTable f' ! f_handle (objs f' a) = a"
    if "(m(d \<mapsto> h)) a = Some x" for a x
  proof (cases "a = d")
    case False
    then have ma: "m a = Some x" using that by simp
    then have "objs f' a = objs f a" using False N U(2) by (auto simp: f')
    moreover have k: "f_handle (objs f a) < length (dataTable g)" "f_handle (objs f a) \<notin> set (availableHandles g)"
      using f(6) [OF ma] N by auto
    moreover have "f_handle (objs f a) \<noteq> i" using k i(6) by auto
    ultimately show ?thesis using f(6) [OF ma] N i(8,9) by (auto simp: f' set_eq_iff)
  qed (use that ini i(3,4,5) in \<open>auto simp: f'\<close>)
  have "ptr_ok mpi_handle f_handle pre null (m(d \<mapsto> h)) f'"
    by (rule ptr_okI [OF f'(4,5) _ f'(7) bound(1) live sp]) (use f'(6) f(3) U(2) in auto)
  moreover have "ptr_newHandle ini dflt h f = Some (d, f')"
    using g i(1) h f(1) by (simp add: ptr_newHandle_def isPredefined_def ptr_newHandle_data_def f'_def)
  moreover have "d < next_data (dpool f')" using sp by (auto simp: sp_ok_def)
  then have "d \<notin> set pre" using bound(1) by auto
  ultimately show ?thesis using new bound(2) by blast
qed

lemma ptr_release_ok:
  assumes ok: "ptr_ok mpi_handle f_handle pre null m f" and a: "a \<in> dom m" and room: "ptr_room pre n f"
  shows "\<exists>f'. ptr_freeHandle f_handle fin a f = Some (null, f') \<and>
           ptr_ok mpi_handle f_handle pre null (m(a := None)) f' \<and> ptr_room pre n f'"
proof -
  note f = ptr_okD [OF ok]
  obtain U where U: "sp_ok U (dpool f)" "dom m \<subseteq> U" using f(7) by blast
  obtain h where h: "m a = Some h" using a by blast
  let ?i = "f_handle (objs f a)"
  define f' where "f' = returnObj a (upd_obj a fin (releaseHandle ?i f))"
  have f': "dataTable f' = dataTable f" "availableHandles f' = availableHandles f @ [?i]"
      "dpool f' = sp_returnData a (dpool f)" "predefined f' = pre" "nullHandle f' = null" "block f' = block f"
      "objs f' x = (if x = a then fin (objs f x) else objs f x)" for x
    using f(1,2) by (auto simp: f'_def returnObj_def upd_obj_def releaseHandle_def)
  have next_eq: "next_data (dpool f') = next_data (dpool f)" by (simp add: f' sp_returnData_def)
  have aU: "a \<in> U" using a U(2) by blast
  have "ptr_ok mpi_handle f_handle pre null (m(a := None)) f'"
  proof (rule ptr_okI [OF f'(4,5)])
    show "sp_ok (U - {a}) (dpool f')" using sp_returnData_ok [OF U(1) aU] by (simp add: f')
    show "mpi_handle (objs f' k) = x \<and> f_handle (objs f' k) < length (dataTable f') \<and>
        f_handle (objs f' k) \<notin> set (availableHandles f') \<and> dataTable f' ! f_handle (objs f' k) = k"
      if "(m(a := None)) k = Some x" for k x
    proof -
      have k: "k \<noteq> a" "m k = Some x" using that by (auto split: if_splits)
      have "f_handle (objs f k) \<noteq> ?i" using f(6) [OF k(2)] f(6) [OF h] k(1) by metis
      then show ?thesis using f(6) [OF k(2)] k(1) by (simp add: f')
    qed
  qed (use f(3,4,5) f(6) [OF h] U(2) in \<open>auto simp: f' table_ok_def next_eq [unfolded f'(3)]\<close>)
  moreover have "a < next_data (dpool f)" using U(1) aU by (auto simp: sp_ok_def)
  then have "a \<notin> set pre" using f(5) by auto
  then have "ptr_freeHandle f_handle fin a f = Some (null, f')"
    using f(1,2) by (simp add: ptr_freeHandle_def isPredefined_def f'_def)
  ultimately show ?thesis using room by (simp add: ptr_room_def next_eq f'(6))
qed

lemma ptr_resolve_ok:
  assumes ok: "ptr_ok mpi_handle f_handle pre null m f" and a: "m a = Some h"
  shows "ptr_getHandle mpi_handle a f = h" "a \<notin> set pre"
proof -
  note f = ptr_okD [OF ok]
  obtain U where U: "sp_ok U (dpool f)" "dom m \<subseteq> U" using f(7) by blast
  then have "a < next_data (dpool f)" using a by (auto simp: sp_ok_def)
  then show "a \<notin> set pre" using f(5) by auto
  then show "ptr_getHandle mpi_handle a f = h" using f(6) [OF a] f(1) by (simp add: ptr_getHandle_def isPredefined_def)
qed

lemma ptr_predefined_ok:
  assumes ok: "ptr_ok mpi_handle f_handle pre null m f" and h: "h \<in> set pre"
  shows "ptr_newHandle ini dflt h f = Some (h, f) \<and> ptr_freeHandle f_handle fin h f = Some (null, f) \<and>
         Some (ptr_getHandle mpi_handle h f) = Some h"
  using ptr_okD(1,2) [OF ok] h
  by (simp add: ptr_newHandle_def ptr_freeHandle_def ptr_getHandle_def isPredefined_def)

text \<open>
  A data class with a handle and a Fortran handle; the factories rely on \<^verbatim>\<open>init\<close> to record both.
  \<open>ini0\<close> is \<^verbatim>\<open>init\<close> with the default for the Fortran handle.
\<close>

locale handle_data =
  fixes mpi_handle :: "'d \<Rightarrow> nat" and f_handle :: "'d \<Rightarrow> nat"
    and ini0 :: "nat \<Rightarrow> 'd \<Rightarrow> 'd" and ini :: "nat \<Rightarrow> nat \<Rightarrow> 'd \<Rightarrow> 'd" and fin :: "'d \<Rightarrow> 'd" and dflt :: 'd
  assumes init_records: "mpi_handle (ini h i d) = h \<and> f_handle (ini h i d) = i"
    and init_default_records: "mpi_handle (ini0 h d) = h"
begin

sublocale ints: handle_contract "int_ok mpi_handle pre null" "set pre" null "int_room pre"
  "int_newHandle ini0 dflt" "int_freeHandle fin" "int_getHandle mpi_handle" for pre null
proof
  show "int_room pre n f" if "int_room pre (Suc n) f" for n f using that by (fastforce simp: int_room_def)
  show "int_getHandle mpi_handle a f = Some h" if "int_ok mpi_handle pre null m f" "m a = Some h" for m f a h
    using that by (rule int_resolve_ok)
  show "int_newHandle ini0 dflt h f = Some (h, f) \<and> int_freeHandle fin h f = Some (null, f) \<and>
      int_getHandle mpi_handle h f = Some h" if "int_ok mpi_handle pre null m f" "h \<in> set pre" for m f h
    using that by (rule int_predefined_ok)
qed (rule int_new_ok int_release_ok; simp add: init_default_records)+

sublocale ptrs: handle_contract "ptr_ok mpi_handle f_handle pre null" "set pre" null "ptr_room pre"
  "ptr_newHandle ini dflt" "ptr_freeHandle f_handle fin" "\<lambda>a f. Some (ptr_getHandle mpi_handle a f)" for pre null
proof
  show "ptr_room pre n f" if "ptr_room pre (Suc n) f" for n f using that by (fastforce simp: ptr_room_def)
  show "Some (ptr_getHandle mpi_handle a f) = Some h"
    if "ptr_ok mpi_handle f_handle pre null m f" "m a = Some h" for m f a h
    using ptr_resolve_ok(1) [OF that] by simp
  show "ptr_newHandle ini dflt h f = Some (h, f) \<and> ptr_freeHandle f_handle fin h f = Some (null, f) \<and>
      Some (ptr_getHandle mpi_handle h f) = Some h" if "ptr_ok mpi_handle f_handle pre null m f" "h \<in> set pre" for m f h
    using that by (rule ptr_predefined_ok)
qed (rule ptr_new_ok ptr_release_ok; simp add: init_records)+

end

end
