(* ===== verification/Cpt_Request.thy ===== *)
theory Cpt_Request
  imports Cpt_Handle Cpt_Measure
begin

text \<open>
  \<^verbatim>\<open>include/handle-data.h\<close> and the request factories of \<^verbatim>\<open>include/tracking.h\<close>: the data the tool keeps
  for communicators and requests, and the life of a request from the call that makes it to its
  completion.

  MPI is a parameter: what its local functions return for a communicator, its constants, and what
  it has written into a piggyback buffer when the piggyback requests of an object are complete.
  The C++ function objects of a request are named by the functions the tool stores in them.
\<close>

section \<open>MPI\<close>

record mpi_lib =
  lib_Comm_dup :: "nat \<Rightarrow> nat"
  lib_Comm_size :: "nat \<Rightarrow> int"
  lib_Comm_rank :: "nat \<Rightarrow> int"
  lib_Comm_c2f :: "nat \<Rightarrow> nat"
  lib_Request_c2f :: "nat \<Rightarrow> nat"
  MPI_COMM_NULL :: nat
  MPI_REQUEST_NULL :: nat
  MPI_PROC_NULL :: int
  MPI_ANY_SOURCE :: int
  MPI_ANY_TAG :: int
  arriving :: "nat \<Rightarrow> time list \<Rightarrow> time list"   \<comment> \<open>object, old contents of its buffer\<close>

text \<open>The Fortran handle -1 of an object without one, as the table index it is converted to.\<close>

definition no_fHandle :: nat where "no_fHandle = 2 ^ 64 - 1"

section \<open>Communicators\<close>

record CommData =
  dupComm :: nat
  comm_size :: int
  comm_rank :: int
  comm_handle :: nat
  comm_fHandle :: nat

definition CommData_new :: "mpi_lib \<Rightarrow> CommData" where
  "CommData_new lib = \<lparr>dupComm = MPI_COMM_NULL lib, comm_size = 0, comm_rank = - 1,
     comm_handle = MPI_COMM_NULL lib, comm_fHandle = no_fHandle\<rparr>"

text \<open>\<^verbatim>\<open>init\<close> with Fortran support; \<^const>\<open>None\<close> is the default -1 of the Fortran handle.\<close>

definition CommData_init :: "mpi_lib \<Rightarrow> nat \<Rightarrow> nat option \<Rightarrow> CommData \<Rightarrow> CommData" where
  "CommData_init lib comm fComm d =
     (let d = d\<lparr>comm_handle := comm,
                comm_fHandle := (case fComm of None \<Rightarrow> lib_Comm_c2f lib comm | Some i \<Rightarrow> i)\<rparr>
      in if comm = MPI_COMM_NULL lib then d
         else d\<lparr>dupComm := lib_Comm_dup lib comm, comm_size := lib_Comm_size lib comm,
                comm_rank := lib_Comm_rank lib comm\<rparr>)"

definition CommData_fini :: "mpi_lib \<Rightarrow> CommData \<Rightarrow> CommData" where
  "CommData_fini lib d = d\<lparr>dupComm := MPI_COMM_NULL lib\<rparr>"

definition getSize :: "CommData \<Rightarrow> int" where "getSize d = comm_size d"

definition getRank :: "CommData \<Rightarrow> int" where "getRank d = comm_rank d"

definition getDupComm :: "CommData \<Rightarrow> nat" where "getDupComm d = dupComm d"

section \<open>Windows, files and sessions\<close>

text \<open>\<^verbatim>\<open>HandleData<M, E>\<close>: nothing but the handle and its Fortran handle, which a build without Fortran support
  does not set; \<^verbatim>\<open>fini\<close> does nothing.\<close>

record HandleData =
  hd_handle :: nat
  hd_fHandle :: nat

definition HandleData_new :: "nat \<Rightarrow> HandleData" where
  "HandleData_new null = \<lparr>hd_handle = null, hd_fHandle = no_fHandle\<rparr>"

definition HandleData_init :: "nat \<Rightarrow> nat option \<Rightarrow> HandleData \<Rightarrow> HandleData" where
  "HandleData_init h fHd d =
     (case fHd of None \<Rightarrow> d\<lparr>hd_handle := h\<rparr> | Some i \<Rightarrow> d\<lparr>hd_handle := h, hd_fHandle := i\<rparr>)"

definition HandleData_fini :: "HandleData \<Rightarrow> HandleData" where
  "HandleData_fini d = d"

section \<open>Requests\<close>

datatype KIND =
    ISEND | IRECV | IMRECV | MPROBE | ICOLL | IREDUCE | IALLREDUCE | IBCAST
  | PSEND | PRECV | PCOLL | PREDUCE | PALLREDUCE | PBCAST

datatype start_function = startPersPBHB_f | startPersPBnoHB_f

datatype cancel_function = cancelPB_f

datatype completion_function =
    completePBWC_f | completePBHB_f | completePBnoHB_f | completePersPBHB_f | completePersPBnoHB_f

text \<open>A piggyback request: \<^verbatim>\<open>MPI_REQUEST_NULL\<close>, one that a wait sets to null, or a persistent one.\<close>

datatype pb_request = Pb_null | Pb_once | Pb_persistent

record RequestData =
  pb_values :: "time list"
  persistent :: bool
  startCallback :: "start_function option"
  cancelCallback :: "cancel_function option"
  completionCallback :: "completion_function option"
  freed :: bool
  cancelled :: bool
  kind :: KIND
  pb_reqs :: "pb_request \<times> pb_request"
  remote_rank :: int
  req_tag :: int
  req_root :: int
  req_comm :: nat
  req_handle :: nat
  req_fHandle :: nat

definition RequestData_new :: "mpi_lib \<Rightarrow> RequestData" where
  "RequestData_new lib = \<lparr>pb_values = [0, 0, 0, 0], persistent = False, startCallback = None, cancelCallback = None,
     completionCallback = None, freed = True, cancelled = False, kind = ISEND, pb_reqs = (Pb_null, Pb_null),
     remote_rank = - 42, req_tag = - 42, req_root = - 42, req_comm = 0, req_handle = MPI_REQUEST_NULL lib,
     req_fHandle = no_fHandle\<rparr>"

text \<open>\<^verbatim>\<open>ipcData::operator=\<close> and \<^verbatim>\<open>RequestData::operator=\<close>: the two handle fields are not copied.\<close>

definition RequestData_assign :: "RequestData \<Rightarrow> RequestData \<Rightarrow> RequestData" where
  "RequestData_assign this rhs = rhs\<lparr>req_handle := req_handle this, req_fHandle := req_fHandle this\<rparr>"

text \<open>\<^verbatim>\<open>init(request, kind, remote, tag, comm, root, persistent)\<close>\<close>

definition RequestData_init_kind ::
  "nat \<Rightarrow> KIND \<Rightarrow> int \<Rightarrow> int \<Rightarrow> nat \<Rightarrow> int \<Rightarrow> bool \<Rightarrow> RequestData \<Rightarrow> RequestData"
where
  "RequestData_init_kind request k rem tg cm rt isPers d =
     d\<lparr>req_handle := request, req_fHandle := no_fHandle, kind := k, remote_rank := rem, req_tag := tg, req_comm := cm,
       req_root := rt, persistent := isPers, freed := False, cancelled := False\<rparr>"

text \<open>The template \<^verbatim>\<open>init(request, fRequest, persistent)\<close>; \<^const>\<open>None\<close> is the default -1.\<close>

definition RequestData_init :: "mpi_lib \<Rightarrow> nat \<Rightarrow> nat option \<Rightarrow> bool \<Rightarrow> RequestData \<Rightarrow> RequestData" where
  "RequestData_init lib request fRequest isPers d =
     d\<lparr>persistent := isPers, req_handle := request,
       req_fHandle := (case fRequest of None \<Rightarrow> lib_Request_c2f lib request | Some i \<Rightarrow> i),
       freed := False, cancelled := False\<rparr>"

text \<open>
  The call \<^verbatim>\<open>init(req, persistent)\<close> of the integer factory.  With Fortran support the second parameter
  of the template is the Fortran handle, so that the flag is converted to an integer and
  \<^verbatim>\<open>_persistent\<close> keeps its default.
\<close>

definition int_init :: "mpi_lib \<Rightarrow> bool \<Rightarrow> nat \<Rightarrow> bool \<Rightarrow> RequestData \<Rightarrow> RequestData" where
  "int_init lib fortran request isPers d =
     (if fortran then RequestData_init lib request (Some (of_bool isPers)) False d
      else (RequestData_init lib request (Some (req_fHandle d)) isPers d))"

definition RequestData_fini :: "mpi_lib \<Rightarrow> RequestData \<Rightarrow> RequestData" where
  "RequestData_fini lib d =
     d\<lparr>req_handle := MPI_REQUEST_NULL lib, req_fHandle := no_fHandle, pb_reqs := (Pb_null, Pb_null), completionCallback := None,
       startCallback := None, cancelCallback := None, remote_rank := - 42, req_tag := - 42, req_root := - 42,
       kind := ISEND, freed := True, cancelled := False\<rparr>"

definition isCancelled :: "RequestData \<Rightarrow> bool \<times> RequestData" where
  "isCancelled d = (cancelled d, d\<lparr>cancelled := False\<rparr>)"

definition setStartCallback :: "start_function \<Rightarrow> RequestData \<Rightarrow> RequestData" where
  "setStartCallback sc d = d\<lparr>persistent := True, startCallback := Some sc\<rparr>"

definition setCancelCallback :: "cancel_function \<Rightarrow> RequestData \<Rightarrow> RequestData" where
  "setCancelCallback cc d = d\<lparr>cancelCallback := Some cc\<rparr>"

definition setCompletionCallback :: "completion_function \<Rightarrow> RequestData \<Rightarrow> RequestData" where
  "setCompletionCallback cc d = d\<lparr>completionCallback := Some cc\<rparr>"

section \<open>The classes satisfy the factories' assumption\<close>

interpretation comm: handle_data comm_handle comm_fHandle "\<lambda>h. CommData_init lib h None"
  "\<lambda>h i. CommData_init lib h (Some i)" "CommData_fini lib"
  "CommData_new lib" for lib
  by unfold_locales (simp_all add: CommData_init_def Let_def)

interpretation req: handle_data req_handle req_fHandle "\<lambda>h. RequestData_init lib h None False"
  "\<lambda>h i. RequestData_init lib h (Some i) False"
  "RequestData_fini lib" "RequestData_new lib" for lib
  by unfold_locales (simp_all add: RequestData_init_def)

interpretation hdata: handle_data hd_handle hd_fHandle "\<lambda>h. HandleData_init h None" "\<lambda>h i. HandleData_init h (Some i)"
  HandleData_fini "HandleData_new null" for null
  by unfold_locales (simp_all add: HandleData_init_def)

section \<open>Request factories\<close>

text \<open>
  \<^verbatim>\<open>newRequest\<close> with data of the caller, and \<^verbatim>\<open>_newRequest\<close> with data of its own, for integer and for
  pointer handles.
\<close>

definition int_newRequest_data ::
  "mpi_lib \<Rightarrow> bool \<Rightarrow> nat \<Rightarrow> nat \<Rightarrow> bool \<Rightarrow> RequestData factory \<Rightarrow> (nat \<times> RequestData factory) option"
where
  "int_newRequest_data lib fortran r d isPers f =
     (if r = MPI_REQUEST_NULL lib then Some (MPI_REQUEST_NULL lib, f)
      else takeHandle d (upd_obj d (int_init lib fortran r isPers) f))"

definition int_newRequest ::
  "mpi_lib \<Rightarrow> bool \<Rightarrow> nat \<Rightarrow> bool \<Rightarrow> RequestData factory \<Rightarrow> (nat \<times> RequestData factory) option"
where
  "int_newRequest lib fortran r isPers f =
     (if r = MPI_REQUEST_NULL lib then Some (MPI_REQUEST_NULL lib, f)
      else case newData (RequestData_new lib) f of (d, f) \<Rightarrow>
        do { (ret, f) \<leftarrow> takeHandle d f; Some (ret, upd_obj d (int_init lib fortran r isPers) f) })"

definition ptr_newRequest_data ::
  "mpi_lib \<Rightarrow> nat \<Rightarrow> nat \<Rightarrow> bool \<Rightarrow> RequestData factory \<Rightarrow> (nat \<times> RequestData factory) option"
where
  "ptr_newRequest_data lib r d isPers f = do {
     (fId, f) \<leftarrow> takeHandle d f;
     Some (d, upd_obj d (RequestData_init lib r (Some fId) isPers) f) }"

definition ptr_newRequest ::
  "mpi_lib \<Rightarrow> nat \<Rightarrow> bool \<Rightarrow> RequestData factory \<Rightarrow> (nat \<times> RequestData factory) option"
where
  "ptr_newRequest lib r isPers f =
     (if r = MPI_REQUEST_NULL lib then Some (MPI_REQUEST_NULL lib, f)
      else case newData (RequestData_new lib) f of (d, f) \<Rightarrow> ptr_newRequest_data lib r d isPers f)"

section \<open>Claims\<close>

text \<open>
  A program that makes communicators and frees them: \<open>Inl h\<close> is a call in which MPI returns the
  handle \<open>h\<close>, \<open>Inr i\<close> frees the \<open>i\<close>-th communicator held.  The program keeps the tool's handle of
  each with the MPI handle it stands for.
\<close>

fun comm_run ::
  "(nat \<Rightarrow> 'f \<Rightarrow> (nat \<times> 'f) option) \<Rightarrow> (nat \<Rightarrow> 'f \<Rightarrow> (nat \<times> 'f) option) \<Rightarrow> (nat + nat) list \<Rightarrow>
   (nat \<times> nat) list \<times> 'f \<Rightarrow> ((nat \<times> nat) list \<times> 'f) option"
where
  "comm_run new release [] s = Some s"
| "comm_run new release (Inl h # ops) (held, f) =
     (case new h f of None \<Rightarrow> None | Some (a, f) \<Rightarrow> comm_run new release ops ((a, h) # held, f))"
| "comm_run new release (Inr i # ops) (held, f) =
     (if i < length held
      then case release (fst (held ! i)) f of None \<Rightarrow> None
             | Some (_, f) \<Rightarrow> comm_run new release ops (take i held @ drop (Suc i) held, f)
      else comm_run new release ops (held, f))"

lemma comm_run_int:
  "comm_run (int_newHandle (\<lambda>h. CommData_init lib h None) (CommData_new lib)) (int_freeHandle (CommData_fini lib)) ops s
     = comm.ints.run lib ops s"
  by (induction ops s rule: comm.ints.run.induct) (auto split: option.splits)

lemma comm_run_ptr:
  "comm_run (ptr_newHandle (\<lambda>h i. CommData_init lib h (Some i)) (CommData_new lib))
     (ptr_freeHandle comm_fHandle (CommData_fini lib)) ops s = comm.ptrs.run lib ops s"
  by (induction ops s rule: comm.ptrs.run.induct) (auto split: option.splits)

lemma factory_new_ok:
  assumes "0 < blk"
  shows "int_ok gh pre null Map.empty (factory_new pre null blk dflt)"
    and "0 \<notin> set pre \<Longrightarrow> ptr_ok gh fh pre null Map.empty (factory_new pre null blk dflt)"
proof -
  have sp: "sp_ok {} shared_pool_new" by (simp add: sp_ok_def shared_pool_new_def)
  show "int_ok gh pre null Map.empty (factory_new pre null blk dflt)"
    using assms sp by (intro int_okI [where U = "{}"]) (auto simp: factory_new_def table_ok_def)
  show "ptr_ok gh fh pre null Map.empty (factory_new pre null blk dflt)" if "0 \<notin> set pre"
  proof (rule ptr_okI [where U = "{}"])
    show "\<forall>p \<in> set pre. next_data (dpool (factory_new pre null blk dflt)) \<le> p"
      using that by (auto simp: factory_new_def shared_pool_new_def Suc_le_eq intro: gr0I)
  qed (use assms sp in \<open>auto simp: factory_new_def table_ok_def\<close>)
qed

text \<open>
  C15: For integer and for pointer handles, in every program that makes and frees communicators: the
  calls never access a table outside its bounds, the handles the program holds are different
  from each other and from the predefined ones, and each is translated back to the MPI handle
  it was made for, whatever was freed in between.  The predefined handles lie outside the
  range the factory can reach.
\<close>

theorem comm_handles_translate_back:
  assumes "0 < blk" and "\<forall>h. Inl h \<in> set ops \<longrightarrow> h \<notin> set pre"
    and "\<forall>p \<in> set pre. 64 * length ops \<le> p \<and> Suc (blk * length ops) \<le> p"
  shows "(\<exists>held f. comm_run (int_newHandle (\<lambda>h. CommData_init lib h None) (CommData_new lib))
              (int_freeHandle (CommData_fini lib)) ops ([], factory_new pre null blk (CommData_new lib)) = Some (held, f) \<and>
            distinct (map fst held) \<and> fst ` set held \<inter> set pre = {} \<and>
            (\<forall>(a, h) \<in> set held. int_getHandle comm_handle a f = Some h)) \<and>
         (\<exists>held f. comm_run (ptr_newHandle (\<lambda>h i. CommData_init lib h (Some i)) (CommData_new lib))
              (ptr_freeHandle comm_fHandle (CommData_fini lib)) ops ([], factory_new pre null blk (CommData_new lib)) = Some (held, f) \<and>
            distinct (map fst held) \<and> fst ` set held \<inter> set pre = {} \<and>
            (\<forall>(a, h) \<in> set held. ptr_getHandle comm_handle a f = h))"
proof -
  let ?f = "factory_new pre null blk (CommData_new lib)"
  have pos: "0 \<notin> set pre" using assms(3) by auto
  have ri: "int_room pre (length ops) ?f" using assms(3) by (auto simp: int_room_def factory_new_def)
  have rp: "ptr_room pre (length ops) ?f" using assms(3) by (auto simp: ptr_room_def factory_new_def shared_pool_new_def)
  have i: "int_ok comm_handle pre null (map_of []) ?f" using factory_new_ok(1) [OF assms(1)] by simp
  have p: "ptr_ok comm_handle comm_fHandle pre null (map_of []) ?f" using factory_new_ok(2) [OF assms(1) pos] by simp
  show ?thesis
    unfolding comm_run_int comm_run_ptr
    using comm.ints.run_ok [OF i _ ri _ assms(2), of lib] comm.ptrs.run_ok [OF p _ rp _ assms(2), of lib] by auto
qed

definition example_lib :: mpi_lib where
  "example_lib = \<lparr>lib_Comm_dup = (\<lambda>c. c + 5000), lib_Comm_size = (\<lambda>_. 2), lib_Comm_rank = (\<lambda>_. 0), lib_Comm_c2f = (\<lambda>c. c),
     lib_Request_c2f = (\<lambda>c. c), MPI_COMM_NULL = 1000, MPI_REQUEST_NULL = 1000, MPI_PROC_NULL = - 2,
     MPI_ANY_SOURCE = - 1, MPI_ANY_TAG = - 1, arriving = (\<lambda>_ v. v)\<rparr>"

theorem comm_handles_translate_back_witness:
  "\<exists>held f. comm_run (int_newHandle (\<lambda>h. CommData_init example_lib h None) (CommData_new example_lib))
        (int_freeHandle (CommData_fini example_lib)) [Inl 2000, Inl 2001, Inr 1, Inl 2002]
        ([], factory_new [1000, 1001, 1002] 1000 4 (CommData_new example_lib)) = Some (held, f) \<and>
      distinct (map fst held) \<and> (\<forall>(a, h) \<in> set held. int_getHandle comm_handle a f = Some h)"
  using comm_handles_translate_back [of 4 "[Inl 2000, Inl 2001, Inr 1, Inl 2002]" "[1000, 1001, 1002]" example_lib 1000]
  by auto

text \<open>
  The Fortran handle of a communicator, with pointer handles.  Converting to Fortran and back
  gives the same communicator exactly when the Fortran handle is not that of a predefined
  communicator: the table starts at 0 and does not avoid the values MPI uses for the predefined
  ones, and \<^verbatim>\<open>f2c\<close> looks these up first.
\<close>

theorem fortran_handle_round_trip:
  assumes "ptr_ok comm_handle comm_fHandle pre null m f" and "m a = Some h"
    and "findPredefinedDataF (comm_fHandle (objs f a)) f = Some d"
  shows "ptr_c2f comm_fHandle a f = Some (comm_fHandle (objs f a)) \<and>
         ptr_f2c comm_handle (comm_fHandle (objs f a)) f = Some (if d = 0 then a else comm_handle (objs f d))"
  using ptr_okD(1) [OF assms(1)] ptr_okD(6) [OF assms(1,2)] ptr_resolve_ok(2) [OF assms(1,2)] assms(3)
  by (auto simp: ptr_c2f_def ptr_f2c_def isPredefined_def table_at_def)

text \<open>
  With Fortran support and integer handles the flag of a persistent request is lost: whatever
  the caller asks for, the new request is not persistent, so that its first completion frees
  it.  Without Fortran support the flag is kept.
\<close>

theorem persistent_flag_lost:
  assumes "r \<noteq> MPI_REQUEST_NULL lib" and "int_newRequest_data lib fortran r d isPers f = Some (a, f')"
  shows "persistent (objs f' d) = (isPers \<and> \<not> fortran)"
proof -
  have "takeHandle d (upd_obj d (int_init lib fortran r isPers) f) = Some (a, f')"
    using assms by (simp add: int_newRequest_data_def)
  then have "objs f' d = int_init lib fortran r isPers (objs f d)"
    by (auto simp: takeHandle_def newAH_def upd_obj_def Let_def split: if_splits)
  then show ?thesis by (simp add: int_init_def RequestData_init_def)
qed

theorem persistent_flag_lost_witness:
  "let r = int_newRequest_data example_lib True 2000 1 True (factory_new [1000] 1000 4 (RequestData_new example_lib))
   in r \<noteq> None \<and> \<not> persistent (objs (snd (the r)) 1)"
proof -
  let ?r = "int_newRequest_data example_lib True 2000 1 True (factory_new [1000] 1000 4 (RequestData_new example_lib))"
  have n: "2000 \<noteq> MPI_REQUEST_NULL example_lib" by (simp add: example_lib_def)
  then obtain a f' where r: "?r = Some (a, f')"
    by (auto simp: int_newRequest_data_def takeHandle_def newAH_def factory_new_def upd_obj_def Let_def)
  show ?thesis using persistent_flag_lost [OF n r] r by simp
qed

text \<open>
  A first communicator gets the Fortran handle 63; where MPI uses 63 for a predefined one, here
  with its data at 7, the round trip ends there.
\<close>

definition example_comm_factory :: "CommData factory" where
  "example_comm_factory =
     (snd (the (ptr_newHandle (\<lambda>h i. CommData_init example_lib h (Some i)) (CommData_new example_lib) 2000
        (factory_new [1000] 1000 4 (CommData_new example_lib)))))
     \<lparr>predefFHandles := the (hm_put handle_hash 0 63 7 hm_new)\<rparr>"

lemma example_predefF: "hm_get handle_hash 63 (the (hm_put handle_hash 0 63 7 hm_new)) = Some (Some (7::nat))"
  by code_simp

lemma example_comm_objs:
  "comm_fHandle (objs example_comm_factory 4) = 63" "comm_handle (objs example_comm_factory 7) = 1000"
  by (simp_all add: example_comm_factory_def ptr_newHandle_def ptr_newHandle_data_def factory_new_def isPredefined_def
      newData_def sp_getData_def sp_newDatas_def shared_pool_new_def takeHandle_def newAH_def upd_obj_def Let_def
      CommData_init_def CommData_new_def example_lib_def upt_rec)

theorem fortran_handle_round_trip_witness:
  "ptr_c2f comm_fHandle 4 example_comm_factory = Some 63 \<and> ptr_f2c comm_handle 63 example_comm_factory = Some 1000"
proof -
  let ?f0 = "factory_new [1000] 1000 4 (CommData_new example_lib)"
  have "ptr_ok comm_handle comm_fHandle [1000] 1000 Map.empty ?f0" by (rule factory_new_ok) simp_all
  moreover have "ptr_room [1000] (Suc 0) ?f0" by (simp add: ptr_room_def factory_new_def shared_pool_new_def)
  ultimately obtain a f' where f': "ptr_newHandle (\<lambda>h i. CommData_init example_lib h (Some i)) (CommData_new example_lib) 2000 ?f0
      = Some (a, f')" "ptr_ok comm_handle comm_fHandle [1000] 1000 [a \<mapsto> 2000] f'"
    using comm.ptrs.new_ok [of "[1000]" 1000 Map.empty ?f0 0 2000 example_lib] by auto
  moreover have "a = 4" using f'(1)
    by (auto simp: ptr_newHandle_def ptr_newHandle_data_def factory_new_def isPredefined_def bind_eq_Some_conv
        newData_def sp_getData_def sp_newDatas_def shared_pool_new_def upt_rec)
  ultimately have ok: "ptr_ok comm_handle comm_fHandle [1000] 1000 [4 \<mapsto> 2000] example_comm_factory"
    by (simp add: example_comm_factory_def ptr_ok_def table_ok_def)
  have "findPredefinedDataF (comm_fHandle (objs example_comm_factory 4)) example_comm_factory = Some 7"
    unfolding example_comm_objs using example_predefF by (simp add: findPredefinedDataF_def example_comm_factory_def)
  then show ?thesis
    using fortran_handle_round_trip [OF ok, of 4 2000] by (simp add: example_comm_objs)
qed

end
