(* ===== verification/Cpt_Mpi.thy ===== *)
theory Cpt_Mpi
  imports Cpt_Request
begin

text \<open>
  \<^verbatim>\<open>src/mpi-critical.cpp\<close> and \<^verbatim>\<open>include/mpi-critical.h\<close>: the piggyback messages.  Every communication call
  of the application is accompanied by a message of the tool that carries the critical-path
  clocks; the receiver takes the maximum.  The tool's objects are created before the PMPI call
  of the wrapper and destroyed after it; the constructor and the destructor of each are one
  definition.

  The calls the tool makes to MPI are recorded in order.  What MPI writes into a piggyback buffer
  is the parameter \<^const>\<open>arriving\<close> of the library.
\<close>

section \<open>The state\<close>

text \<open>
  The piggyback calls, with the duplicated communicator and the contents of the buffer that is
  sent, or with the object (0 for one on the stack) whose piggyback requests are meant.
\<close>

datatype pmpi_call =
    PMPI_Isend int int nat "time list"
  | PMPI_Irecv int int nat
  | PMPI_Recv int int nat
  | PMPI_Send_init int int nat
  | PMPI_Recv_init int int nat
  | PMPI_Isendrecv_replace int int int int nat "time list"
  | PMPI_Ibcast int nat "time list"
  | PMPI_Iallreduce nat "time list"
  | PMPI_Allreduce nat "time list"
  | PMPI_Ireduce int nat "time list"
  | PMPI_Bcast_init int nat
  | PMPI_Allreduce_init nat
  | PMPI_Reduce_init int nat
  | PMPI_Wait nat
  | PMPI_Waitall nat
  | PMPI_Start nat
  | PMPI_Startall nat
  | PMPI_Cancel nat nat

record mpi_tool =
  mcore :: tool
  tlc :: nat                   \<comment> \<open>\<^verbatim>\<open>thread_local_clock\<close> of the calling thread\<close>
  ptr_handles :: bool          \<comment> \<open>MPI handles are pointers\<close>
  fortran :: bool
  cf :: "CommData factory"
  rf :: "RequestData factory"
  calls :: "pmpi_call list"

record MPI_Status =
  MPI_SOURCE :: int
  MPI_TAG :: int

definition active :: "mpi_tool \<Rightarrow> bool" where
  "active s = running (flags (mcore s))"

definition my_clock :: "mpi_tool \<Rightarrow> threadClock" where
  "my_clock s = store (mcore s) (tlc s)"

definition upd_my_clock :: "(threadClock \<Rightarrow> threadClock) \<Rightarrow> mpi_tool \<Rightarrow> mpi_tool" where
  "upd_my_clock f s = s\<lparr>mcore := upd_clock (tlc s) f (mcore s)\<rparr>"

definition pmpi :: "pmpi_call \<Rightarrow> mpi_tool \<Rightarrow> mpi_tool" where
  "pmpi c s = s\<lparr>calls := calls s @ [c]\<rparr>"

definition req_obj :: "nat \<Rightarrow> mpi_tool \<Rightarrow> RequestData" where
  "req_obj p s = objs (rf s) p"

definition upd_req :: "nat \<Rightarrow> (RequestData \<Rightarrow> RequestData) \<Rightarrow> mpi_tool \<Rightarrow> mpi_tool" where
  "upd_req p g s = s\<lparr>rf := upd_obj p g (rf s)\<rparr>"

text \<open>\<^verbatim>\<open>cf.findData\<close>; every caller reads the object it returns.\<close>

definition findComm :: "nat \<Rightarrow> mpi_tool \<Rightarrow> nat option" where
  "findComm c s = do {
     d \<leftarrow> (if ptr_handles s then ptr_findData c (cf s) else int_findData c (cf s));
     if d = 0 then None else Some d }"

definition comm_obj :: "nat \<Rightarrow> mpi_tool \<Rightarrow> CommData" where
  "comm_obj c s = objs (cf s) c"

definition rf_newData :: "mpi_lib \<Rightarrow> mpi_tool \<Rightarrow> nat \<times> mpi_tool" where
  "rf_newData lib s = (case newData (RequestData_new lib) (rf s) of (d, f) \<Rightarrow> (d, s\<lparr>rf := f\<rparr>))"

definition rf_newRequest :: "mpi_lib \<Rightarrow> nat \<Rightarrow> nat \<Rightarrow> bool \<Rightarrow> mpi_tool \<Rightarrow> (nat \<times> mpi_tool) option" where
  "rf_newRequest lib r d isPers s = do {
     (a, f) \<leftarrow> (if ptr_handles s then ptr_newRequest_data lib r d isPers (rf s)
                else int_newRequest_data lib (fortran s) r d isPers (rf s));
     Some (a, s\<lparr>rf := f\<rparr>) }"

text \<open>The constructor and the destructor of \<^verbatim>\<open>mpiTimer\<close>.\<close>

definition mpiTimer_begin :: "bool \<Rightarrow> time \<Rightarrow> mpi_tool \<Rightarrow> mpi_tool" where
  "mpiTimer_begin omp_thread now s =
     (let s = (if tlc s = 0
               then case my_next_id (mcore s) of (i, c) \<Rightarrow>
                      (let s = s\<lparr>mcore := c\<lparr>store := (store c)(next_clock c := threadClock_new (ucast i) 0 omp_thread),
                                 next_clock := Suc (next_clock c)\<rparr>, tlc := next_clock c\<rparr>
                       in upd_my_clock (enterState (active s) now 0 STATE_USEFUL) s)
               else s)
      in upd_my_clock (enterState (active s) now 0 STATE_MPI) s)"

definition mpiTimer_end :: "time \<Rightarrow> mpi_tool \<Rightarrow> mpi_tool" where
  "mpiTimer_end now s = upd_my_clock (exitState (active s) now 0 True) s"

section \<open>Clocks in messages\<close>

definition load_values :: "threadClock \<Rightarrow> time list \<Rightarrow> time list" where
  "load_values tc v =
     (let v = v[0 := tm_getTime (critical (clocks tc CLOCK_USEFUL))];
          v = v[1 := tm_getTime (critical (clocks tc CLOCK_OMPI))]
      in v[2 := tm_getTime (critical (clocks tc CLOCK_OOMP))])"

definition crit_max :: "ClockType \<Rightarrow> time \<Rightarrow> threadClock \<Rightarrow> threadClock" where
  "crit_max i t tc = tc\<lparr>clocks := (clocks tc)(i := (clocks tc i)\<lparr>critical := tm_maxUpdate (critical (clocks tc i)) (TimeMetric_of t)\<rparr>)\<rparr>"

definition take_values :: "time list \<Rightarrow> threadClock \<Rightarrow> threadClock" where
  "take_values v tc = crit_max CLOCK_OOMP (v ! 2) (crit_max CLOCK_OMPI (v ! 1) (crit_max CLOCK_USEFUL (v ! 0) tc))"

definition MpiHappensAfter :: "time list \<Rightarrow> mpi_tool \<Rightarrow> mpi_tool" where
  "MpiHappensAfter v s = (if active s then upd_my_clock (take_values v) s else s)"

text \<open>On a buffer, and on the buffer of a request object.\<close>

definition MpiHappensBefore :: "mpi_tool \<Rightarrow> time list \<Rightarrow> time list" where
  "MpiHappensBefore s v = load_values (my_clock s) v"

definition reqHappensBefore :: "nat \<Rightarrow> mpi_tool \<Rightarrow> mpi_tool" where
  "reqHappensBefore p s = upd_req p (\<lambda>d. d\<lparr>pb_values := MpiHappensBefore s (pb_values d)\<rparr>) s"

definition reqHappensAfter :: "nat \<Rightarrow> mpi_tool \<Rightarrow> mpi_tool" where
  "reqHappensAfter p s = MpiHappensAfter (pb_values (req_obj p s)) s"

section \<open>Callbacks of requests\<close>

fun pb_done :: "pb_request \<Rightarrow> pb_request" where
  "pb_done Pb_once = Pb_null"
| "pb_done r = r"

text \<open>The wait for the piggyback requests of object \<open>p\<close>, after which MPI has filled its buffer.\<close>

definition wait_pb :: "mpi_lib \<Rightarrow> nat \<Rightarrow> mpi_tool \<Rightarrow> mpi_tool" where
  "wait_pb lib p s =
     (let s = pmpi (if snd (pb_reqs (req_obj p s)) = Pb_null then PMPI_Wait p else PMPI_Waitall p) s
      in upd_req p (\<lambda>d. d\<lparr>pb_values := arriving lib p (pb_values d),
                         pb_reqs := (pb_done (fst (pb_reqs d)), pb_done (snd (pb_reqs d)))\<rparr>) s)"

definition start_pb :: "nat \<Rightarrow> mpi_tool \<Rightarrow> mpi_tool" where
  "start_pb p s = pmpi (if snd (pb_reqs (req_obj p s)) = Pb_null then PMPI_Start p else PMPI_Startall p) s"

definition clear_cancelled :: "nat \<Rightarrow> mpi_tool \<Rightarrow> bool \<times> mpi_tool" where
  "clear_cancelled p s = (fst (isCancelled (req_obj p s)), upd_req p (\<lambda>d. snd (isCancelled d)) s)"

text \<open>A status of \<^const>\<open>None\<close> is \<^verbatim>\<open>MPI_STATUS_IGNORE\<close>; reading it is the value \<^const>\<open>None\<close>.\<close>

definition completePBWC :: "mpi_lib \<Rightarrow> nat \<Rightarrow> MPI_Status option \<Rightarrow> mpi_tool \<Rightarrow> mpi_tool option" where
  "completePBWC lib p status s =
     (case clear_cancelled p s of (c, s) \<Rightarrow>
        if c then Some s
        else do {
          st \<leftarrow> status;
          let s = (if remote_rank (req_obj p s) = MPI_ANY_SOURCE lib
                   then upd_req p (\<lambda>d. d\<lparr>remote_rank := MPI_SOURCE st\<rparr>) s else s);
          let s = pmpi (PMPI_Recv (MPI_SOURCE st) (MPI_TAG st) (getDupComm (comm_obj (req_comm (req_obj p s)) s))) s;
          let s = upd_req p (\<lambda>d. d\<lparr>pb_values := arriving lib p (pb_values d)\<rparr>) s;
          Some (reqHappensAfter p s) })"

definition completePBHB :: "mpi_lib \<Rightarrow> nat \<Rightarrow> mpi_tool \<Rightarrow> mpi_tool" where
  "completePBHB lib p s =
     (case clear_cancelled p (wait_pb lib p s) of (c, s) \<Rightarrow> if c then s else reqHappensAfter p s)"

definition completePBnoHB :: "mpi_lib \<Rightarrow> nat \<Rightarrow> mpi_tool \<Rightarrow> mpi_tool" where
  "completePBnoHB lib p s = wait_pb lib p (snd (clear_cancelled p s))"

definition cancelPB :: "nat \<Rightarrow> mpi_tool \<Rightarrow> mpi_tool" where
  "cancelPB p s =
     (let s = (if fst (pb_reqs (req_obj p s)) \<noteq> Pb_null then pmpi (PMPI_Cancel p 0) s else s)
      in if snd (pb_reqs (req_obj p s)) \<noteq> Pb_null then pmpi (PMPI_Cancel p 1) s else s)"

definition completePersPBHB :: "mpi_lib \<Rightarrow> nat \<Rightarrow> mpi_tool \<Rightarrow> mpi_tool" where
  "completePersPBHB lib p s =
     (if \<not> active s then s
      else case clear_cancelled p (wait_pb lib p s) of (c, s) \<Rightarrow> if c then s else reqHappensAfter p s)"

definition completePersPBnoHB :: "mpi_lib \<Rightarrow> nat \<Rightarrow> mpi_tool \<Rightarrow> mpi_tool" where
  "completePersPBnoHB lib p s =
     (let s = snd (clear_cancelled p s) in if \<not> active s then s else wait_pb lib p s)"

definition startPersPBHB :: "nat \<Rightarrow> mpi_tool \<Rightarrow> mpi_tool" where
  "startPersPBHB p s = (if \<not> active s then s else start_pb p (reqHappensBefore p s))"

definition startPersPBnoHB :: "nat \<Rightarrow> mpi_tool \<Rightarrow> mpi_tool" where
  "startPersPBnoHB p s = (if \<not> active s then s else start_pb p s)"

text \<open>The methods \<^verbatim>\<open>start\<close>, \<^verbatim>\<open>cancel\<close> and \<^verbatim>\<open>complete\<close> of \<^verbatim>\<open>RequestData\<close>.\<close>

definition req_start :: "nat \<Rightarrow> mpi_tool \<Rightarrow> mpi_tool" where
  "req_start p s = (case startCallback (req_obj p s) of
      None \<Rightarrow> s | Some startPersPBHB_f \<Rightarrow> startPersPBHB p s | Some startPersPBnoHB_f \<Rightarrow> startPersPBnoHB p s)"

definition req_cancel :: "nat \<Rightarrow> mpi_tool \<Rightarrow> mpi_tool" where
  "req_cancel p s =
     (let s = upd_req p (\<lambda>d. d\<lparr>cancelled := True\<rparr>) s
      in case cancelCallback (req_obj p s) of None \<Rightarrow> s | Some cancelPB_f \<Rightarrow> cancelPB p s)"

definition req_complete :: "mpi_lib \<Rightarrow> nat \<Rightarrow> MPI_Status option \<Rightarrow> mpi_tool \<Rightarrow> mpi_tool option" where
  "req_complete lib p status s = (case completionCallback (req_obj p s) of
      None \<Rightarrow> Some s
    | Some completePBWC_f \<Rightarrow> completePBWC lib p status s
    | Some completePBHB_f \<Rightarrow> Some (completePBHB lib p s)
    | Some completePBnoHB_f \<Rightarrow> Some (completePBnoHB lib p s)
    | Some completePersPBHB_f \<Rightarrow> Some (completePersPBHB lib p s)
    | Some completePersPBnoHB_f \<Rightarrow> Some (completePersPBnoHB lib p s))"

definition req_fini :: "mpi_lib \<Rightarrow> nat \<Rightarrow> MPI_Status option \<Rightarrow> mpi_tool \<Rightarrow> mpi_tool option" where
  "req_fini lib p status s = do {
     s \<leftarrow> req_complete lib p status s;
     Some (upd_req p (RequestData_fini lib) s) }"

section \<open>Operations of the request factories\<close>

text \<open>
  \<^const>\<open>None\<close> is an access outside the table or through a pointer that is no object.  The version with
  three arguments stores the handle PMPI returned for an array element.
\<close>

definition finish_request ::
  "mpi_lib \<Rightarrow> nat \<Rightarrow> nat \<Rightarrow> nat \<Rightarrow> MPI_Status option \<Rightarrow> mpi_tool \<Rightarrow> (nat \<times> mpi_tool) option"
where
  "finish_request lib req index p status s =
     (if persistent (req_obj p s)
      then do { s \<leftarrow> req_complete lib p status s; Some (req, s) }
      else do {
        let s = s\<lparr>rf := releaseHandle index (rf s)\<rparr>;
        s \<leftarrow> req_fini lib p status s;
        Some (MPI_REQUEST_NULL lib, s\<lparr>rf := returnObj p (rf s)\<rparr>) })"

definition int_completeRequest :: "mpi_lib \<Rightarrow> nat \<Rightarrow> MPI_Status option \<Rightarrow> mpi_tool \<Rightarrow> (nat \<times> mpi_tool) option" where
  "int_completeRequest lib req status s =
     (if req = MPI_REQUEST_NULL lib then Some (MPI_REQUEST_NULL lib, s)
      else do { p \<leftarrow> table_at req (rf s); finish_request lib req req p status s })"

definition int_completeRequest_handle ::
  "mpi_lib \<Rightarrow> nat \<Rightarrow> nat \<Rightarrow> MPI_Status option \<Rightarrow> mpi_tool \<Rightarrow> (nat \<times> mpi_tool) option"
where
  "int_completeRequest_handle lib req mpi_req status s =
     (if req = MPI_REQUEST_NULL lib then Some (MPI_REQUEST_NULL lib, s)
      else do {
        p \<leftarrow> table_at req (rf s);
        finish_request lib req req p status (upd_req p (\<lambda>d. d\<lparr>req_handle := mpi_req\<rparr>) s) })"

definition ptr_completeRequest :: "mpi_lib \<Rightarrow> nat \<Rightarrow> MPI_Status option \<Rightarrow> mpi_tool \<Rightarrow> (nat \<times> mpi_tool) option" where
  "ptr_completeRequest lib req status s =
     (if req = MPI_REQUEST_NULL lib then Some (MPI_REQUEST_NULL lib, s)
      else finish_request lib req (req_fHandle (req_obj req s)) req status s)"

definition ptr_completeRequest_handle ::
  "mpi_lib \<Rightarrow> nat \<Rightarrow> nat \<Rightarrow> MPI_Status option \<Rightarrow> mpi_tool \<Rightarrow> (nat \<times> mpi_tool) option"
where
  "ptr_completeRequest_handle lib req mpi_req status s =
     (if req = MPI_REQUEST_NULL lib then None
      else ptr_completeRequest lib req status (upd_req req (\<lambda>d. d\<lparr>req_handle := mpi_req\<rparr>) s))"

definition completeRequest :: "mpi_lib \<Rightarrow> nat \<Rightarrow> MPI_Status option \<Rightarrow> mpi_tool \<Rightarrow> (nat \<times> mpi_tool) option" where
  "completeRequest lib req status s =
     (if ptr_handles s then ptr_completeRequest lib req status s else int_completeRequest lib req status s)"

definition completeRequest_handle ::
  "mpi_lib \<Rightarrow> nat \<Rightarrow> nat \<Rightarrow> MPI_Status option \<Rightarrow> mpi_tool \<Rightarrow> (nat \<times> mpi_tool) option"
where
  "completeRequest_handle lib req mpi_req status s =
     (if ptr_handles s then ptr_completeRequest_handle lib req mpi_req status s
      else int_completeRequest_handle lib req mpi_req status s)"

text \<open>The object of a request handle.\<close>

definition req_of :: "nat \<Rightarrow> mpi_tool \<Rightarrow> nat option" where
  "req_of req s = (if ptr_handles s then Some req else table_at req (rf s))"

definition startRequest :: "mpi_lib \<Rightarrow> nat \<Rightarrow> mpi_tool \<Rightarrow> (nat \<times> mpi_tool) option" where
  "startRequest lib req s =
     (if req = MPI_REQUEST_NULL lib then Some (MPI_REQUEST_NULL lib, s)
      else do {
        p \<leftarrow> req_of req s;
        let s = req_start p s;
        Some (req_handle (req_obj p s), s) })"

definition cancelRequest :: "mpi_lib \<Rightarrow> nat \<Rightarrow> mpi_tool \<Rightarrow> (nat \<times> mpi_tool) option" where
  "cancelRequest lib req s =
     (if req = MPI_REQUEST_NULL lib then Some (MPI_REQUEST_NULL lib, s)
      else do { p \<leftarrow> req_of req s; Some (req, req_cancel p s) })"

text \<open>\<^verbatim>\<open>getHandle\<close> of the request factory, whose only predefined handle is the null request.\<close>

definition rf_getHandle :: "nat \<Rightarrow> mpi_tool \<Rightarrow> nat option" where
  "rf_getHandle req s =
     (if ptr_handles s then Some (ptr_getHandle req_handle req (rf s)) else int_getHandle req_handle req (rf s))"

definition rf_freeHandle :: "mpi_lib \<Rightarrow> nat \<Rightarrow> mpi_tool \<Rightarrow> (nat \<times> mpi_tool) option" where
  "rf_freeHandle lib req s = do {
     (r, f) \<leftarrow> (if ptr_handles s then ptr_freeHandle req_fHandle (RequestData_fini lib) req (rf s)
               else int_freeHandle (RequestData_fini lib) req (rf s));
     Some (r, s\<lparr>rf := f\<rparr>) }"

end
