(* ===== verification/Cpt_Piggyback.thy ===== *)
theory Cpt_Piggyback
  imports Cpt_Mpi
begin

text \<open>
  The structures of \<^verbatim>\<open>include/mpi-critical.h\<close> that accompany a communication call: \<open>_begin\<close> is the
  constructor, which runs before the PMPI call of the wrapper, \<open>_end\<close> the destructor, which runs after it.
  A non-blocking call keeps its object in the request factory, and \<open>_end\<close> takes the request PMPI returned
  and gives the handle the application sees.  A blocking call keeps its object on the stack.

  A member that the constructor left uninitialised is \<^const>\<open>None\<close>, and so is the result of a
  destructor that reads it.
\<close>

section \<open>Piggyback operations on an object\<close>

definition REF_RANK :: int where "REF_RANK = 0"

definition on_req :: "nat \<Rightarrow> (RequestData \<Rightarrow> mpi_tool \<Rightarrow> RequestData \<times> mpi_tool) \<Rightarrow> mpi_tool \<Rightarrow> mpi_tool" where
  "on_req p f s = (case f (req_obj p s) s of (d, s) \<Rightarrow> upd_req p (\<lambda>_. d) s)"

definition post :: "pb_request \<Rightarrow> pmpi_call \<Rightarrow> RequestData \<Rightarrow> mpi_tool \<Rightarrow> RequestData \<times> mpi_tool" where
  "post k c d s = (d\<lparr>pb_reqs := (k, snd (pb_reqs d))\<rparr>, pmpi c s)"

definition IBcast :: "int \<Rightarrow> nat \<Rightarrow> RequestData \<Rightarrow> mpi_tool \<Rightarrow> RequestData \<times> mpi_tool" where
  "IBcast rt c d s = post Pb_once (PMPI_Ibcast rt (getDupComm (comm_obj c s)) (pb_values d)) d s"

definition IAllreduce :: "nat \<Rightarrow> RequestData \<Rightarrow> mpi_tool \<Rightarrow> RequestData \<times> mpi_tool" where
  "IAllreduce c d s = post Pb_once (PMPI_Iallreduce (getDupComm (comm_obj c s)) (pb_values d)) d s"

text \<open>The two branches of \<^verbatim>\<open>IReduce\<close> differ in the buffer MPI writes to, which only the root has.\<close>

definition IReduce :: "int \<Rightarrow> nat \<Rightarrow> RequestData \<Rightarrow> mpi_tool \<Rightarrow> RequestData \<times> mpi_tool" where
  "IReduce rt c d s = post Pb_once (PMPI_Ireduce rt (getDupComm (comm_obj c s)) (pb_values d)) d s"

definition BcastInit :: "int \<Rightarrow> nat \<Rightarrow> RequestData \<Rightarrow> mpi_tool \<Rightarrow> RequestData \<times> mpi_tool" where
  "BcastInit rt c d s = post Pb_persistent (PMPI_Bcast_init rt (getDupComm (comm_obj c s))) d s"

definition AllreduceInit :: "nat \<Rightarrow> RequestData \<Rightarrow> mpi_tool \<Rightarrow> RequestData \<times> mpi_tool" where
  "AllreduceInit c d s = post Pb_persistent (PMPI_Allreduce_init (getDupComm (comm_obj c s))) d s"

definition ReduceInit :: "int \<Rightarrow> nat \<Rightarrow> RequestData \<Rightarrow> mpi_tool \<Rightarrow> RequestData \<times> mpi_tool" where
  "ReduceInit rt c d s = post Pb_persistent (PMPI_Reduce_init rt (getDupComm (comm_obj c s))) d s"

text \<open>\<^verbatim>\<open>init(request, kind, remote)\<close> with the defaults of the other parameters.\<close>

definition init_remote :: "nat \<Rightarrow> KIND \<Rightarrow> int \<Rightarrow> RequestData \<Rightarrow> RequestData" where
  "init_remote r k rem = RequestData_init_kind r k rem (- 1) 0 (- 1) False"

section \<open>Collectives\<close>

subsection \<open>Non-blocking\<close>

definition mpiIcollBcastPB_begin :: "mpi_lib \<Rightarrow> nat \<Rightarrow> int \<Rightarrow> mpi_tool \<Rightarrow> (nat \<times> mpi_tool) option" where
  "mpiIcollBcastPB_begin lib comm rt s =
     (case rf_newData lib s of (p, s) \<Rightarrow>
        if \<not> active s then Some (p, s)
        else do {
          c \<leftarrow> findComm comm s;
          let s = (if rt = getRank (comm_obj c s) then reqHappensBefore p s else s);
          Some (p, on_req p (IBcast rt c) s) })"

definition mpiIcollBcastPB_end :: "mpi_lib \<Rightarrow> nat \<Rightarrow> nat \<Rightarrow> mpi_tool \<Rightarrow> (nat \<times> mpi_tool) option" where
  "mpiIcollBcastPB_end lib p r s =
     (let s = (if active s
               then upd_req p (setCompletionCallback completePBHB_f) (upd_req p (init_remote r IBCAST REF_RANK) s) else s)
      in rf_newRequest lib r p False s)"

definition mpiIcollAllreducePB_begin :: "mpi_lib \<Rightarrow> nat \<Rightarrow> mpi_tool \<Rightarrow> (nat \<times> mpi_tool) option" where
  "mpiIcollAllreducePB_begin lib comm s =
     (case rf_newData lib s of (p, s) \<Rightarrow>
        if \<not> active s then Some (p, s)
        else do {
          c \<leftarrow> findComm comm s;
          Some (p, on_req p (IAllreduce c) (reqHappensBefore p s)) })"

definition mpiIcollAllreducePB_end :: "mpi_lib \<Rightarrow> nat \<Rightarrow> nat \<Rightarrow> mpi_tool \<Rightarrow> (nat \<times> mpi_tool) option" where
  "mpiIcollAllreducePB_end lib p r s =
     (let s = (if active s
               then upd_req p (setCompletionCallback completePBHB_f) (upd_req p (init_remote r IALLREDUCE REF_RANK) s)
               else s)
      in rf_newRequest lib r p False s)"

text \<open>The member \<^verbatim>\<open>rank\<close> is passed as the tag.\<close>

definition mpiIcollReducePB_begin :: "mpi_lib \<Rightarrow> nat \<Rightarrow> int \<Rightarrow> mpi_tool \<Rightarrow> (nat \<times> int option \<times> mpi_tool) option" where
  "mpiIcollReducePB_begin lib comm rt s =
     (case rf_newData lib s of (p, s) \<Rightarrow>
        if \<not> active s then Some (p, None, s)
        else do {
          c \<leftarrow> findComm comm s;
          let rk = getRank (comm_obj c s);
          let s = on_req p (IReduce rt c) (reqHappensBefore p s);
          Some (p, Some rk,
                upd_req p (setCompletionCallback (if rt = rk then completePBHB_f else completePBnoHB_f)) s) })"

definition mpiIcollReducePB_end ::
  "mpi_lib \<Rightarrow> int \<Rightarrow> nat \<Rightarrow> int option \<Rightarrow> nat \<Rightarrow> mpi_tool \<Rightarrow> (nat \<times> mpi_tool) option"
where
  "mpiIcollReducePB_end lib rt p rk r s =
     (if active s
      then do {
        k \<leftarrow> rk;
        rf_newRequest lib r p False (upd_req p (RequestData_init_kind r IREDUCE REF_RANK k 0 rt False) s) }
      else rf_newRequest lib r p False s)"

subsection \<open>Persistent\<close>

definition mpiCollBcastInitPB_begin :: "mpi_lib \<Rightarrow> nat \<Rightarrow> int \<Rightarrow> mpi_tool \<Rightarrow> (nat \<times> mpi_tool) option" where
  "mpiCollBcastInitPB_begin lib comm rt s = do {
     c \<leftarrow> findComm comm s;
     (case rf_newData lib s of (p, s) \<Rightarrow>
        let s = upd_req p (setStartCallback (if rt = getRank (comm_obj c s) then startPersPBHB_f else startPersPBnoHB_f)) s;
            s = upd_req p (setCompletionCallback completePersPBHB_f) s
        in Some (p, on_req p (BcastInit rt c) s)) }"

definition mpiCollBcastInitPB_end :: "mpi_lib \<Rightarrow> nat \<Rightarrow> nat \<Rightarrow> mpi_tool \<Rightarrow> (nat \<times> mpi_tool) option" where
  "mpiCollBcastInitPB_end lib p r s = rf_newRequest lib r p True (upd_req p (init_remote r PBCAST REF_RANK) s)"

definition mpiCollAllreduceInitPB_begin :: "mpi_lib \<Rightarrow> nat \<Rightarrow> mpi_tool \<Rightarrow> (nat \<times> mpi_tool) option" where
  "mpiCollAllreduceInitPB_begin lib comm s = do {
     c \<leftarrow> findComm comm s;
     (case rf_newData lib s of (p, s) \<Rightarrow>
        let s = upd_req p (setStartCallback startPersPBHB_f) s;
            s = upd_req p (setCompletionCallback completePersPBHB_f) s
        in Some (p, on_req p (AllreduceInit c) s)) }"

definition mpiCollAllreduceInitPB_end :: "mpi_lib \<Rightarrow> nat \<Rightarrow> nat \<Rightarrow> mpi_tool \<Rightarrow> (nat \<times> mpi_tool) option" where
  "mpiCollAllreduceInitPB_end lib p r s = rf_newRequest lib r p True (upd_req p (init_remote r PALLREDUCE REF_RANK) s)"

definition mpiCollReduceInitPB_begin :: "mpi_lib \<Rightarrow> nat \<Rightarrow> int \<Rightarrow> mpi_tool \<Rightarrow> (nat \<times> int \<times> mpi_tool) option" where
  "mpiCollReduceInitPB_begin lib comm rt s = do {
     c \<leftarrow> findComm comm s;
     (case rf_newData lib s of (p, s) \<Rightarrow>
        let rk = getRank (comm_obj c s);
            s = on_req p (ReduceInit rt c) (upd_req p (setStartCallback startPersPBHB_f) s)
        in Some (p, rk,
                 upd_req p (setCompletionCallback (if rt = rk then completePersPBHB_f else completePersPBnoHB_f)) s)) }"

definition mpiCollReduceInitPB_end :: "mpi_lib \<Rightarrow> int \<Rightarrow> nat \<Rightarrow> int \<Rightarrow> nat \<Rightarrow> mpi_tool \<Rightarrow> (nat \<times> mpi_tool) option" where
  "mpiCollReduceInitPB_end lib rt p rk r s =
     rf_newRequest lib r p True (upd_req p (RequestData_init_kind r PREDUCE REF_RANK rk 0 rt False) s)"

subsection \<open>Blocking\<close>

text \<open>
  The members of a structure on the stack; \<open>l_status\<close> says that \<^verbatim>\<open>pStatus\<close> points to a status.
\<close>

record pb_local =
  l_req :: RequestData
  l_comm :: "nat option"
  l_rank :: "int option"
  l_status :: bool

definition pb_local_new :: "mpi_lib \<Rightarrow> bool \<Rightarrow> pb_local" where
  "pb_local_new lib has_status = \<lparr>l_req = RequestData_new lib, l_comm = None, l_rank = None, l_status = has_status\<rparr>"

text \<open>\<^verbatim>\<open>cf.findData(comm)\<close> and \<^verbatim>\<open>getRank\<close> at the beginning of a constructor.\<close>

definition with_comm :: "nat \<Rightarrow> pb_local \<Rightarrow> mpi_tool \<Rightarrow> (nat \<times> pb_local) option" where
  "with_comm comm l s = do {
     c \<leftarrow> findComm comm s;
     Some (c, l\<lparr>l_comm := Some c, l_rank := Some (getRank (comm_obj c s))\<rparr>) }"

definition localHappensBefore :: "mpi_tool \<Rightarrow> pb_local \<Rightarrow> pb_local" where
  "localHappensBefore s l = l\<lparr>l_req := (l_req l)\<lparr>pb_values := MpiHappensBefore s (pb_values (l_req l))\<rparr>\<rparr>"

definition on_local ::
  "(RequestData \<Rightarrow> mpi_tool \<Rightarrow> RequestData \<times> mpi_tool) \<Rightarrow> pb_local \<Rightarrow> mpi_tool \<Rightarrow> pb_local \<times> mpi_tool"
where
  "on_local f l s = (case f (l_req l) s of (d, s) \<Rightarrow> (l\<lparr>l_req := d\<rparr>, s))"

text \<open>\<^verbatim>\<open>PMPI_Waitall(2, rData.pb_reqs, \<dots>)\<close> and the values that are in the buffer afterwards.\<close>

definition wait_local :: "mpi_lib \<Rightarrow> pb_local \<Rightarrow> mpi_tool \<Rightarrow> time list \<times> mpi_tool" where
  "wait_local lib l s = (arriving lib 0 (pb_values (l_req l)), pmpi (PMPI_Waitall 0) s)"

definition mpiCollBcastPB_begin :: "mpi_lib \<Rightarrow> nat \<Rightarrow> int \<Rightarrow> mpi_tool \<Rightarrow> (pb_local \<times> mpi_tool) option" where
  "mpiCollBcastPB_begin lib comm rt s =
     (let l = pb_local_new lib False
      in if \<not> active s then Some (l, s)
         else do {
           (c, l) \<leftarrow> with_comm comm l s;
           let l = (if rt = getRank (comm_obj c s) then localHappensBefore s l else l);
           Some (on_local (IBcast rt c) l s) })"

definition mpiCollBcastPB_end :: "mpi_lib \<Rightarrow> pb_local \<Rightarrow> mpi_tool \<Rightarrow> mpi_tool" where
  "mpiCollBcastPB_end lib l s =
     (if \<not> active s then s else case wait_local lib l s of (v, s) \<Rightarrow> MpiHappensAfter v s)"

definition mpiCollAllreducePB_begin :: "mpi_lib \<Rightarrow> nat \<Rightarrow> mpi_tool \<Rightarrow> (pb_local \<times> mpi_tool) option" where
  "mpiCollAllreducePB_begin lib comm s =
     (let l = pb_local_new lib False
      in if \<not> active s then Some (l, s)
         else do {
           (c, l) \<leftarrow> with_comm comm l s;
           Some (on_local (IAllreduce c) (localHappensBefore s l) s) })"

definition mpiCollAllreducePB_end :: "mpi_lib \<Rightarrow> pb_local \<Rightarrow> mpi_tool \<Rightarrow> mpi_tool" where
  "mpiCollAllreducePB_end lib l s =
     (if \<not> active s then s else case wait_local lib l s of (v, s) \<Rightarrow> MpiHappensAfter v s)"

definition mpiCollReducePB_begin :: "mpi_lib \<Rightarrow> nat \<Rightarrow> int \<Rightarrow> mpi_tool \<Rightarrow> (pb_local \<times> mpi_tool) option" where
  "mpiCollReducePB_begin lib comm rt s =
     (let l = pb_local_new lib False
      in if \<not> active s then Some (l, s)
         else do {
           (c, l) \<leftarrow> with_comm comm l s;
           Some (on_local (IReduce rt c) (localHappensBefore s l) s) })"

definition mpiCollReducePB_end :: "mpi_lib \<Rightarrow> int \<Rightarrow> pb_local \<Rightarrow> mpi_tool \<Rightarrow> mpi_tool option" where
  "mpiCollReducePB_end lib rt l s =
     (if \<not> active s then Some s
      else case wait_local lib l s of (v, s) \<Rightarrow>
        do { rk \<leftarrow> l_rank l; Some (if rt = rk then MpiHappensAfter v s else s) })"

section \<open>Point-to-point\<close>

subsection \<open>Send\<close>

definition mpiIsendPB_begin :: "mpi_lib \<Rightarrow> int \<Rightarrow> int \<Rightarrow> nat \<Rightarrow> mpi_tool \<Rightarrow> (nat \<times> mpi_tool) option" where
  "mpiIsendPB_begin lib dest tg comm s =
     (case rf_newData lib s of (p, s) \<Rightarrow>
        if \<not> active s then Some (p, s)
        else if dest = MPI_PROC_NULL lib then Some (p, s)
        else do {
          c \<leftarrow> findComm comm s;
          let s = reqHappensBefore p s;
          Some (p, on_req p (\<lambda>d s. post Pb_once (PMPI_Isend dest tg (getDupComm (comm_obj c s)) (pb_values d)) d s) s) })"

definition mpiIsendPB_end :: "mpi_lib \<Rightarrow> int \<Rightarrow> nat \<Rightarrow> nat \<Rightarrow> mpi_tool \<Rightarrow> (nat \<times> mpi_tool) option" where
  "mpiIsendPB_end lib dest p r s =
     (let s = (if active s
               then if dest \<noteq> MPI_PROC_NULL lib
                    then upd_req p (setCompletionCallback completePBnoHB_f) (upd_req p (init_remote r ISEND dest) s)
                    else s
               else s)
      in rf_newRequest lib r p False s)"

definition mpiSendInitPB_begin :: "mpi_lib \<Rightarrow> int \<Rightarrow> int \<Rightarrow> nat \<Rightarrow> mpi_tool \<Rightarrow> (nat \<times> mpi_tool) option" where
  "mpiSendInitPB_begin lib dest tg comm s =
     (case rf_newData lib s of (p, s) \<Rightarrow>
        if dest = MPI_PROC_NULL lib then Some (p, s)
        else do {
          c \<leftarrow> findComm comm s;
          let s = upd_req p (setStartCallback startPersPBHB_f) s;
          let s = upd_req p (setCompletionCallback completePersPBnoHB_f) s;
          Some (p, on_req p (\<lambda>d s. post Pb_persistent (PMPI_Send_init dest tg (getDupComm (comm_obj c s))) d s) s) })"

definition mpiSendInitPB_end :: "mpi_lib \<Rightarrow> int \<Rightarrow> nat \<Rightarrow> nat \<Rightarrow> mpi_tool \<Rightarrow> (nat \<times> mpi_tool) option" where
  "mpiSendInitPB_end lib dest p r s =
     (let s = (if dest \<noteq> MPI_PROC_NULL lib then upd_req p (init_remote r PSEND dest) s else s)
      in rf_newRequest lib r p True s)"

definition mpiSendPB_begin :: "mpi_lib \<Rightarrow> int \<Rightarrow> int \<Rightarrow> nat \<Rightarrow> mpi_tool \<Rightarrow> (pb_local \<times> mpi_tool) option" where
  "mpiSendPB_begin lib dest tg comm s =
     (let l = pb_local_new lib False
      in if \<not> active s then Some (l, s)
         else if dest = MPI_PROC_NULL lib then Some (l, s)
         else do {
           (c, l) \<leftarrow> with_comm comm l s;
           Some (on_local (\<lambda>d s. post Pb_once (PMPI_Isend dest tg (getDupComm (comm_obj c s)) (pb_values d)) d s)
                   (localHappensBefore s l) s) })"

definition mpiSendPB_end :: "mpi_lib \<Rightarrow> int \<Rightarrow> pb_local \<Rightarrow> mpi_tool \<Rightarrow> mpi_tool" where
  "mpiSendPB_end lib dest l s =
     (if \<not> active s then s
      else if dest \<noteq> MPI_PROC_NULL lib then s
      else snd (wait_local lib l s))"

subsection \<open>Receive\<close>

definition wildcard :: "mpi_lib \<Rightarrow> int \<Rightarrow> int \<Rightarrow> bool" where
  "wildcard lib src tg \<longleftrightarrow> src = MPI_ANY_SOURCE lib \<or> tg = MPI_ANY_TAG lib"

text \<open>
  \<open>has_status\<close>: the caller passed a status, not \<^verbatim>\<open>MPI_STATUS_IGNORE\<close>.  PMPI has stored the status \<open>st\<close>
  where \<^verbatim>\<open>pStatus\<close> points to.
\<close>

definition mpiRecvPB_begin :: "mpi_lib \<Rightarrow> int \<Rightarrow> int \<Rightarrow> nat \<Rightarrow> bool \<Rightarrow> mpi_tool \<Rightarrow> (pb_local \<times> mpi_tool) option" where
  "mpiRecvPB_begin lib src tg comm has_status s =
     (let l = pb_local_new lib has_status
      in if \<not> active s then Some (l, s)
         else if src = MPI_PROC_NULL lib then Some (l, s)
         else do {
           (c, l) \<leftarrow> with_comm comm l s;
           if \<not> wildcard lib src tg
           then Some (on_local (\<lambda>d s. post Pb_once (PMPI_Irecv src tg (getDupComm (comm_obj c s))) d s) l s)
           else Some (l\<lparr>l_status := True\<rparr>, s) })"

definition mpiRecvPB_end ::
  "mpi_lib \<Rightarrow> int \<Rightarrow> int \<Rightarrow> MPI_Status \<Rightarrow> pb_local \<Rightarrow> mpi_tool \<Rightarrow> mpi_tool option"
where
  "mpiRecvPB_end lib src tg st l s =
     (if \<not> active s then Some s
      else if src = MPI_PROC_NULL lib then Some s
      else if wildcard lib src tg
      then if \<not> l_status l then None
           else do {
             c \<leftarrow> l_comm l;
             let s = pmpi (PMPI_Recv (MPI_SOURCE st) (MPI_TAG st) (getDupComm (comm_obj c s))) s;
             Some (MpiHappensAfter (arriving lib 0 (pb_values (l_req l))) s) }
      else case wait_local lib l s of (v, s) \<Rightarrow> Some (MpiHappensAfter v s))"

definition mpiIrecvPB_begin :: "mpi_lib \<Rightarrow> int \<Rightarrow> int \<Rightarrow> nat \<Rightarrow> mpi_tool \<Rightarrow> (nat \<times> nat option \<times> mpi_tool) option" where
  "mpiIrecvPB_begin lib src tg comm s =
     (case rf_newData lib s of (p, s) \<Rightarrow>
        if \<not> active s then Some (p, None, s)
        else if src = MPI_PROC_NULL lib then Some (p, None, s)
        else do {
          c \<leftarrow> findComm comm s;
          Some (p, Some c,
                if \<not> wildcard lib src tg
                then on_req p (\<lambda>d s. post Pb_once (PMPI_Irecv src tg (getDupComm (comm_obj c s))) d s) s
                else s) })"

definition mpiIrecvPB_end ::
  "mpi_lib \<Rightarrow> int \<Rightarrow> int \<Rightarrow> nat \<Rightarrow> nat option \<Rightarrow> nat \<Rightarrow> mpi_tool \<Rightarrow> (nat \<times> mpi_tool) option"
where
  "mpiIrecvPB_end lib src tg p cd r s = do {
     s \<leftarrow> (if active s
          then if src \<noteq> MPI_PROC_NULL lib
               then if wildcard lib src tg
                    then do {
                      c \<leftarrow> cd;
                      let s = upd_req p (RequestData_init_kind r IRECV src tg c (- 1) False) s;
                      Some (upd_req p (setCompletionCallback completePBWC_f) s) }
                    else
                      let s = upd_req p (init_remote r IRECV src) s;
                          s = upd_req p (setCompletionCallback completePBHB_f) s
                      in Some (upd_req p (setCancelCallback cancelPB_f) s)
               else Some s
          else Some s);
     rf_newRequest lib r p False s }"

definition mpiRecvInitPB_begin :: "mpi_lib \<Rightarrow> int \<Rightarrow> int \<Rightarrow> nat \<Rightarrow> mpi_tool \<Rightarrow> (nat \<times> nat option \<times> mpi_tool) option" where
  "mpiRecvInitPB_begin lib src tg comm s =
     (case rf_newData lib s of (p, s) \<Rightarrow>
        if src = MPI_PROC_NULL lib then Some (p, None, s)
        else do {
          c \<leftarrow> findComm comm s;
          Some (p, Some c,
                if wildcard lib src tg
                then upd_req p (setCompletionCallback completePBWC_f) s
                else let s = upd_req p (setStartCallback startPersPBnoHB_f) s;
                         s = upd_req p (setCompletionCallback completePersPBHB_f) s;
                         s = upd_req p (setCancelCallback cancelPB_f) s
                     in on_req p (\<lambda>d s. post Pb_persistent (PMPI_Recv_init src tg (getDupComm (comm_obj c s))) d s) s) })"

definition mpiRecvInitPB_end ::
  "mpi_lib \<Rightarrow> int \<Rightarrow> int \<Rightarrow> nat \<Rightarrow> nat option \<Rightarrow> nat \<Rightarrow> mpi_tool \<Rightarrow> (nat \<times> mpi_tool) option"
where
  "mpiRecvInitPB_end lib src tg p cd r s = do {
     s \<leftarrow> (if src \<noteq> MPI_PROC_NULL lib
          then if wildcard lib src tg
               then do { c \<leftarrow> cd; Some (upd_req p (RequestData_init_kind r IRECV src tg c (- 1) False) s) }
               else Some (upd_req p (init_remote r IRECV src) s)
          else Some s);
     rf_newRequest lib r p True s }"

subsection \<open>Send and receive\<close>

definition mpiSendrecvPB_begin ::
  "mpi_lib \<Rightarrow> int \<Rightarrow> int \<Rightarrow> int \<Rightarrow> int \<Rightarrow> nat \<Rightarrow> mpi_tool \<Rightarrow> (pb_local \<times> mpi_tool) option"
where
  "mpiSendrecvPB_begin lib dest stag src rtag comm s =
     (let l = pb_local_new lib False
      in if \<not> active s then Some (l, s)
         else if src = MPI_PROC_NULL lib \<and> dest = MPI_PROC_NULL lib then Some (l, s)
         else do {
           (c, l) \<leftarrow> with_comm comm l s;
           Some (on_local (\<lambda>d s. post Pb_once
                     (PMPI_Isendrecv_replace dest stag src rtag (getDupComm (comm_obj c s)) (pb_values d)) d s)
                   (localHappensBefore s l) s) })"

definition mpiSendrecvPB_end :: "mpi_lib \<Rightarrow> int \<Rightarrow> int \<Rightarrow> pb_local \<Rightarrow> mpi_tool \<Rightarrow> mpi_tool" where
  "mpiSendrecvPB_end lib dest src l s =
     (if \<not> active s then s
      else if src = MPI_PROC_NULL lib \<and> dest = MPI_PROC_NULL lib then s
      else case wait_local lib l s of (v, s) \<Rightarrow> if src \<noteq> MPI_PROC_NULL lib then MpiHappensAfter v s else s)"

definition mpiIsendrecvPB_begin ::
  "mpi_lib \<Rightarrow> int \<Rightarrow> int \<Rightarrow> int \<Rightarrow> int \<Rightarrow> nat \<Rightarrow> mpi_tool \<Rightarrow> (nat \<times> mpi_tool) option"
where
  "mpiIsendrecvPB_begin lib dest stag src rtag comm s =
     (case rf_newData lib s of (p, s) \<Rightarrow>
        if \<not> active s then Some (p, s)
        else if src = MPI_PROC_NULL lib \<and> dest = MPI_PROC_NULL lib then Some (p, s)
        else do {
          c \<leftarrow> findComm comm s;
          let s = reqHappensBefore p s;
          Some (p, on_req p (\<lambda>d s. post Pb_once
                     (PMPI_Isendrecv_replace dest stag src rtag (getDupComm (comm_obj c s)) (pb_values d)) d s) s) })"

definition mpiIsendrecvPB_end :: "mpi_lib \<Rightarrow> int \<Rightarrow> nat \<Rightarrow> nat \<Rightarrow> mpi_tool \<Rightarrow> (nat \<times> mpi_tool) option" where
  "mpiIsendrecvPB_end lib src p r s =
     (let s = (if active s
               then let s = upd_req p (init_remote r IRECV src) s;
                        s = upd_req p (setCancelCallback cancelPB_f) s
                    in upd_req p (setCompletionCallback
                         (if src \<noteq> MPI_PROC_NULL lib then completePBHB_f else completePBnoHB_f)) s
               else s)
      in rf_newRequest lib r p False s)"

section \<open>\<^verbatim>\<open>MPI_Finalize\<close> and \<^verbatim>\<open>MPI_Pcontrol\<close>\<close>

text \<open>
  \<open>world\<close> is \<^verbatim>\<open>MPI_COMM_WORLD\<close>; the buffer on the stack is not initialised.  With \<^verbatim>\<open>NUM_UC_INT64\<close> = 0 the
  piggyback type is \<^verbatim>\<open>MPI_DOUBLE\<close> and the operation \<^verbatim>\<open>MPI_MAX\<close>, for which \<^verbatim>\<open>finiIpcData\<close> does nothing.
  The timer ends after PMPI has returned.
\<close>

definition MPI_Finalize ::
  "mpi_lib \<Rightarrow> mpi_env \<Rightarrow> nat \<Rightarrow> time \<Rightarrow> time \<Rightarrow> time \<Rightarrow> mpi_tool \<Rightarrow> ((out_stream \<times> line list) option \<times> mpi_tool) option"
where
  "MPI_Finalize lib env world t1 t2 t3 s = do {
     let s = mpiTimer_begin False t1 s;
     let v = MpiHappensBefore s [0, 0, 0, 0];
     c \<leftarrow> findComm world s;
     let s = pmpi (PMPI_Allreduce (getDupComm (comm_obj c s)) v) s;
     let v = arriving lib 0 v;
     let s = upd_my_clock (take_values v) s;
     (case finishMeasurement env t2 (tlc s) (mcore s) of (r, core) \<Rightarrow>
        Some (r, mpiTimer_end t3 (s\<lparr>mcore := core\<rparr>))) }"

text \<open>
  \<open>barrier_call\<close> is the tool's wrapper of \<^verbatim>\<open>MPI_Barrier\<close>; \<^const>\<open>None\<close> is \<^verbatim>\<open>MPI_Abort\<close>.
\<close>

definition MPI_Pcontrol ::
  "mpi_env \<Rightarrow> (mpi_tool \<Rightarrow> mpi_tool) \<Rightarrow> int \<Rightarrow> time \<Rightarrow> mpi_tool \<Rightarrow> ((out_stream \<times> line list) option \<times> mpi_tool) option"
where
  "MPI_Pcontrol env barrier_call level now s =
     (if \<not> useMpi (mcore s) then None
      else if level = 1
      then let s = (if barrier (flags (mcore s)) then barrier_call s else s)
           in Some (None, s\<lparr>mcore := startTool now True STATE_USEFUL (tlc s) (mcore s)\<rparr>)
      else if level = 0
      then let s = (if barrier (flags (mcore s)) then barrier_call s else s)
           in case stopTool env now (tlc s) (mcore s) of (r, core) \<Rightarrow> Some (r, s\<lparr>mcore := core\<rparr>)
      else Some (None, s))"

end
