(* ===== verification/Cpt_Message.thy ===== *)
theory Cpt_Message
  imports Cpt_Piggyback Cpt_Critical_Path
begin

text \<open>
  The processes of an MPI program together.  Every process runs the tool of its own; a message of the
  program takes the clocks of its sender along in the piggyback message, and the network hands
  them to the receiver.  The result is that the critical clock of a process is the length of the
  longest path of useful work over all processes.

  The payload of a piggyback message stays in the buffer of the sender until the network takes it.  The buffer is a
  member of an object on the stack of the wrapper, which the destructor ends: \<^verbatim>\<open>~mpiSendrecvPB\<close> and the destructors
  of the collectives wait for the network before, \<^verbatim>\<open>~mpiSendPB\<close> does not.
\<close>

section \<open>What one call does to the clocks\<close>

named_theorems pb_simps

lemmas [pb_simps] = active_def my_clock_def upd_my_clock_def pmpi_def upd_clock_def findComm_def comm_obj_def
  on_local_def post_def localHappensBefore_def MpiHappensBefore_def wait_local_def with_comm_def pb_local_new_def

lemma length_load_values [simp]: "length (load_values tc v) = length v"
  by (simp add: load_values_def Let_def)

lemma load_values_nth:
  assumes "length v = 4"
  shows "load_values tc v ! 0 = cval critical tc CLOCK_USEFUL"
    and "load_values tc v ! Suc 0 = cval critical tc CLOCK_OMPI"
    and "load_values tc v ! 2 = cval critical tc CLOCK_OOMP"
  using assms by (simp_all add: load_values_def Let_def cval_def tm_getTime_def)

lemma cval_crit_max:
  "cval critical (crit_max i t tc) k = (if k = i then max (cval critical tc i) t else cval critical tc k)"
  by (auto simp: crit_max_def cval_def tm_maxUpdate_def TimeMetric_of_def max_def)

lemma cval_take_values:
  "cval critical (take_values v tc) CLOCK_USEFUL = max (cval critical tc CLOCK_USEFUL) (v ! 0)"
  "cval critical (take_values v tc) CLOCK_OMPI = max (cval critical tc CLOCK_OMPI) (v ! Suc 0)"
  "cval critical (take_values v tc) CLOCK_OOMP = max (cval critical tc CLOCK_OOMP) (v ! 2)"
  by (simp_all add: take_values_def cval_crit_max)

lemma take_values_stack [simp]: "clock_state_stack (take_values v tc) = clock_state_stack tc"
  by (simp add: take_values_def crit_max_def)

text \<open>
  \<open>same_tool s s'\<close>: \<open>s'\<close> differs from \<open>s\<close> at most in the thread's clock and in the recorded calls.
\<close>

definition same_tool :: "mpi_tool \<Rightarrow> mpi_tool \<Rightarrow> bool" where
  "same_tool s s' \<longleftrightarrow> active s' = active s \<and> tlc s' = tlc s \<and> cf s' = cf s \<and> ptr_handles s' = ptr_handles s"

lemma same_tool_refl [simp]: "same_tool s s" by (simp add: same_tool_def)

lemma same_tool_trans: "same_tool s t \<Longrightarrow> same_tool t u \<Longrightarrow> same_tool s u" by (simp add: same_tool_def)

lemma same_tool_findComm: "same_tool s s' \<Longrightarrow> findComm c s' = findComm c s"
  by (simp add: same_tool_def findComm_def)

lemma same_tool_simps [simp]:
  "same_tool s (pmpi c s')  = same_tool s s'"
  "same_tool s (upd_my_clock f s') = same_tool s s'"
  "my_clock (pmpi c s) = my_clock s" "my_clock (upd_my_clock f s) = f (my_clock s)"
  "active (pmpi c s) = active s" "active (upd_my_clock f s) = active s"
  by (simp_all add: same_tool_def pb_simps)

lemma MpiHappensAfter_active: "active s \<Longrightarrow> MpiHappensAfter v s = upd_my_clock (take_values v) s"
  by (simp add: MpiHappensAfter_def)

definition zeros :: "time list" where "zeros = [0, 0, 0, 0]"

lemma send_call:
  assumes "active s" and "dest \<noteq> MPI_PROC_NULL lib" and "findComm comm s = Some c"
  shows "\<exists>l s'. mpiSendPB_begin lib dest tg comm s = Some (l, s') \<and> pb_values (l_req l) = load_values (my_clock s) zeros \<and>
           same_tool s s' \<and> my_clock s' = my_clock s"
  using assms
  by (simp add: mpiSendPB_begin_def with_comm_def on_local_def post_def localHappensBefore_def
      MpiHappensBefore_def pb_local_new_def RequestData_new_def zeros_def)

lemma sendrecv_call:
  assumes "active s" and "dest \<noteq> MPI_PROC_NULL lib" and "findComm comm s = Some c"
  shows "\<exists>l s'. mpiSendrecvPB_begin lib dest stag src rtag comm s = Some (l, s') \<and>
           pb_values (l_req l) = load_values (my_clock s) zeros \<and> same_tool s s' \<and> my_clock s' = my_clock s"
  using assms
  by (simp add: mpiSendrecvPB_begin_def with_comm_def on_local_def post_def localHappensBefore_def
      MpiHappensBefore_def pb_local_new_def RequestData_new_def zeros_def)

lemma send_return: "dest \<noteq> MPI_PROC_NULL lib \<Longrightarrow> mpiSendPB_end lib dest l s = s"
  by (simp add: mpiSendPB_end_def)

lemma recv_call:
  assumes "active s" and "src \<noteq> MPI_PROC_NULL lib" and "findComm comm s = Some c" and "arriving lib = (\<lambda>_ _. v)"
  shows "\<exists>l s1 s2. mpiRecvPB_begin lib src tg comm has_status s = Some (l, s1) \<and>
           mpiRecvPB_end lib src tg st l s1 = Some s2 \<and> my_clock s2 = take_values v (my_clock s) \<and> same_tool s s2"
proof (cases "wildcard lib src tg")
  case True
  then show ?thesis using assms
    by (simp add: mpiRecvPB_begin_def mpiRecvPB_end_def with_comm_def MpiHappensAfter_active)
next
  case False
  then show ?thesis using assms
    by (simp add: mpiRecvPB_begin_def mpiRecvPB_end_def with_comm_def MpiHappensAfter_active
        on_local_def post_def wait_local_def Let_def)
qed

section \<open>The program and the network\<close>

text \<open>
  \<open>Compute i a b\<close>: process \<open>i\<close> leaves its MPI call at \<open>a\<close> and enters the next one at \<open>b\<close>.  The other events are
  what happens within a call, with its arguments: the constructor and the destructor of a send or of a send and
  receive, a receive of message \<open>m\<close> and a reduction over the processes \<open>is\<close>.  \<open>Take m\<close>: the network takes the payload of
  message \<open>m\<close> out of the buffer of its sender.  Every receive ignores its status.
\<close>

datatype mpi_event =
    Compute nat time time
  | Send_begin nat nat int int
  | Send_end nat nat int
  | Sendrecv_begin nat nat int int int int
  | Sendrecv_end nat nat int nat int
  | Take nat
  | Recv nat nat int int MPI_Status
  | Allreduce "nat list"

text \<open>The tools, the stack objects of the sends that have not returned yet, and the payloads on their way.\<close>

record mpi_sys =
  ranks :: "nat \<Rightarrow> mpi_tool"
  open_sends :: "nat \<Rightarrow> pb_local option"
  wire :: "nat \<Rightarrow> time list option"

definition max_values :: "time list list \<Rightarrow> time list" where
  "max_values vs = foldl (map2 max) (hd vs) (tl vs)"

definition with_arriving :: "time list \<Rightarrow> mpi_lib \<Rightarrow> mpi_lib" where
  "with_arriving v lib = lib\<lparr>arriving := (\<lambda>_ _. v)\<rparr>"

fun coll_begin :: "mpi_lib \<Rightarrow> nat \<Rightarrow> nat list \<Rightarrow> (nat \<Rightarrow> mpi_tool) \<Rightarrow> (pb_local list \<times> (nat \<Rightarrow> mpi_tool)) option" where
  "coll_begin lib comm [] R = Some ([], R)"
| "coll_begin lib comm (i # is) R = do {
     (l, s) \<leftarrow> mpiCollAllreducePB_begin lib comm (R i);
     (ls, R) \<leftarrow> coll_begin lib comm is (R(i := s));
     Some (l # ls, R) }"

fun coll_end :: "mpi_lib \<Rightarrow> (nat \<times> pb_local) list \<Rightarrow> (nat \<Rightarrow> mpi_tool) \<Rightarrow> (nat \<Rightarrow> mpi_tool)" where
  "coll_end lib [] R = R"
| "coll_end lib ((i, l) # ls) R = coll_end lib ls (R(i := mpiCollAllreducePB_end lib l (R i)))"

text \<open>
  The result is \<^const>\<open>None\<close> when the network takes a payload from a buffer that is gone, which is undefined, and when a
  call would wait: a receive for its payload, a send and receive also for its own payload to be taken.
\<close>

fun mpi_step :: "mpi_lib \<Rightarrow> nat \<Rightarrow> mpi_event \<Rightarrow> mpi_sys \<Rightarrow> mpi_sys option" where
  "mpi_step lib comm (Compute i a b) S =
     Some (S\<lparr>ranks := (ranks S)(i := mpiTimer_begin False b (mpiTimer_end a (ranks S i)))\<rparr>)"
| "mpi_step lib comm (Send_begin i m dest tg) S = do {
     (l, s) \<leftarrow> mpiSendPB_begin lib dest tg comm (ranks S i);
     Some (S\<lparr>ranks := (ranks S)(i := s), open_sends := (open_sends S)(m \<mapsto> l)\<rparr>) }"
| "mpi_step lib comm (Send_end i m dest) S = do {
     l \<leftarrow> open_sends S m;
     Some (S\<lparr>ranks := (ranks S)(i := mpiSendPB_end lib dest l (ranks S i)), open_sends := (open_sends S)(m := None)\<rparr>) }"
| "mpi_step lib comm (Sendrecv_begin i m dest stag src rtag) S = do {
     (l, s) \<leftarrow> mpiSendrecvPB_begin lib dest stag src rtag comm (ranks S i);
     Some (S\<lparr>ranks := (ranks S)(i := s), open_sends := (open_sends S)(m \<mapsto> l)\<rparr>) }"
| "mpi_step lib comm (Sendrecv_end i m dest m' src) S = do {
     l \<leftarrow> open_sends S m;
     _ \<leftarrow> wire S m;
     v \<leftarrow> wire S m';
     Some (S\<lparr>ranks := (ranks S)(i := mpiSendrecvPB_end (with_arriving v lib) dest src l (ranks S i)),
             open_sends := (open_sends S)(m := None)\<rparr>) }"
| "mpi_step lib comm (Take m) S = do {
     l \<leftarrow> open_sends S m;
     Some (S\<lparr>wire := (wire S)(m \<mapsto> pb_values (l_req l))\<rparr>) }"
| "mpi_step lib comm (Recv i m src tg st) S = do {
     v \<leftarrow> wire S m;
     (l, s) \<leftarrow> mpiRecvPB_begin lib src tg comm False (ranks S i);
     s \<leftarrow> mpiRecvPB_end (with_arriving v lib) src tg st l s;
     Some (S\<lparr>ranks := (ranks S)(i := s)\<rparr>) }"
| "mpi_step lib comm (Allreduce is) S = do {
     (ls, R) \<leftarrow> coll_begin lib comm is (ranks S);
     let v = max_values (map (\<lambda>l. pb_values (l_req l)) ls);
     Some (S\<lparr>ranks := coll_end (with_arriving v lib) (zip is ls) R\<rparr>) }"

text \<open>The latest event comes first.\<close>

fun mpi_run :: "mpi_lib \<Rightarrow> nat \<Rightarrow> mpi_sys \<Rightarrow> mpi_event list \<Rightarrow> mpi_sys option" where
  "mpi_run lib comm S [] = Some S"
| "mpi_run lib comm S (ev # es) = do { S \<leftarrow> mpi_run lib comm S es; mpi_step lib comm ev S }"

text \<open>
  The same program as an execution over threads and synchronisation objects: object 0 stands for a
  reduction, \<open>Suc m\<close> for message \<open>m\<close>; both are new whenever they are used.
\<close>

fun hb_of :: "mpi_event \<Rightarrow> hb_event list" where
  "hb_of (Compute i a b) = [Work i a b]"
| "hb_of (Send_begin i m _ _) = [Release i (Suc m), Renew (Suc m)]"
| "hb_of (Send_end i m _) = []"
| "hb_of (Sendrecv_begin i m _ _ _ _) = [Release i (Suc m), Renew (Suc m)]"
| "hb_of (Sendrecv_end i m _ m' _) = [Acquire i (Suc m')]"
| "hb_of (Take m) = []"
| "hb_of (Recv i m _ _ _) = [Acquire i (Suc m)]"
| "hb_of (Allreduce is) = map (\<lambda>i. Acquire i 0) is @ map (\<lambda>i. Release i 0) is @ [Renew 0]"

definition hb_trace :: "mpi_event list \<Rightarrow> hb_event list" where
  "hb_trace es = concat (map hb_of es)"

text \<open>What has happened to message \<open>m\<close>: its send has begun or returned, its payload has been taken.\<close>

fun begins_send :: "nat \<Rightarrow> mpi_event \<Rightarrow> bool" where
  "begins_send m (Send_begin _ m' _ _) = (m' = m)"
| "begins_send m (Sendrecv_begin _ m' _ _ _ _) = (m' = m)"
| "begins_send m _ = False"

fun ends_send :: "nat \<Rightarrow> mpi_event \<Rightarrow> bool" where
  "ends_send m (Send_end _ m' _) = (m' = m)"
| "ends_send m (Sendrecv_end _ m' _ _ _) = (m' = m)"
| "ends_send m _ = False"

definition in_send :: "nat \<Rightarrow> mpi_event list \<Rightarrow> bool" where
  "in_send m es \<longleftrightarrow> list_ex (begins_send m) es \<and> \<not> list_ex (ends_send m) es"

abbreviation taken :: "nat \<Rightarrow> mpi_event list \<Rightarrow> bool" where
  "taken m es \<equiv> Take m \<in> set es"

text \<open>
  Computations run forward, a message is sent once, its payload is taken before the send returns and received after
  that, a process reduces once.  MPI lets a send and receive return only when its payload has been taken.  For a
  blocking send, whose destructor does not wait, nothing but the network can see to it that the payload is taken in time.
\<close>

fun proper :: "mpi_lib \<Rightarrow> mpi_event list \<Rightarrow> bool" where
  "proper lib [] = True"
| "proper lib (Compute i a b # es) = (a \<le> b \<and> proper lib es)"
| "proper lib (Send_begin i m dest tg # es) =
     (dest \<noteq> MPI_PROC_NULL lib \<and> \<not> list_ex (begins_send m) es \<and> proper lib es)"
| "proper lib (Send_end i m dest # es) = (dest \<noteq> MPI_PROC_NULL lib \<and> in_send m es \<and> proper lib es)"
| "proper lib (Sendrecv_begin i m dest stag src rtag # es) =
     (dest \<noteq> MPI_PROC_NULL lib \<and> src \<noteq> MPI_PROC_NULL lib \<and> \<not> list_ex (begins_send m) es \<and> proper lib es)"
| "proper lib (Sendrecv_end i m dest m' src # es) =
     (dest \<noteq> MPI_PROC_NULL lib \<and> src \<noteq> MPI_PROC_NULL lib \<and> in_send m es \<and> taken m es \<and> taken m' es \<and> proper lib es)"
| "proper lib (Take m # es) = (in_send m es \<and> proper lib es)"
| "proper lib (Recv i m src tg st # es) = (src \<noteq> MPI_PROC_NULL lib \<and> taken m es \<and> proper lib es)"
| "proper lib (Allreduce is # es) = (is \<noteq> [] \<and> distinct is \<and> proper lib es)"

section \<open>The critical clock over all processes\<close>

lemma hb_path_Acquires:
  "hb_path (map (\<lambda>i. Acquire i x) is @ es) n w \<longleftrightarrow>
     hb_path es n w \<or> (\<exists>i \<in> set is. n = Thr i) \<and> hb_path es (Syn x) w"
  by (induction "is" arbitrary: n) auto

lemma hb_path_Releases:
  "hb_path (map (\<lambda>i. Release i x) is @ es) n w \<longleftrightarrow>
     hb_path es n w \<or> n = Syn x \<and> (\<exists>i \<in> set is. hb_path es (Thr i) w)"
  by (induction "is" arbitrary: n) auto

lemma hb_path_allreduce:
  "hb_path (hb_of (Allreduce is) @ es) (Thr i) w \<longleftrightarrow>
     hb_path es (Thr i) w \<or> i \<in> set is \<and> (\<exists>j \<in> set is. hb_path es (Thr j) w)"
  "hb_path (hb_of (Allreduce is) @ es) (Syn (Suc m)) w \<longleftrightarrow> hb_path es (Syn (Suc m)) w"
  by (auto simp: hb_path_Acquires hb_path_Releases)

definition rank_ok :: "nat \<Rightarrow> nat \<Rightarrow> hb_event list \<Rightarrow> mpi_tool \<Rightarrow> bool" where
  "rank_ok comm i hs s \<longleftrightarrow>
     active s \<and> tlc s \<noteq> 0 \<and> clock_state_stack (my_clock s) = [STATE_INIT, STATE_USEFUL, STATE_MPI] \<and>
     findComm comm s \<noteq> None \<and> longest hs (Thr i) (cval critical (my_clock s) CLOCK_USEFUL)"

definition sys_ok :: "nat \<Rightarrow> mpi_event list \<Rightarrow> mpi_sys \<Rightarrow> bool" where
  "sys_ok comm es S \<longleftrightarrow> (\<forall>i. rank_ok comm i (hb_trace es) (ranks S i)) \<and>
     (\<forall>m. in_send m es \<longrightarrow> m \<in> dom (open_sends S)) \<and> (\<forall>m. taken m es \<longrightarrow> m \<in> dom (wire S)) \<and>
     (\<forall>m l. open_sends S m = Some l \<longrightarrow> longest (hb_trace es) (Syn (Suc m)) (pb_values (l_req l) ! 0)) \<and>
     (\<forall>m v. wire S m = Some v \<longrightarrow> list_ex (begins_send m) es \<and> longest (hb_trace es) (Syn (Suc m)) (v ! 0))"

lemma rank_ok_transfer:
  assumes "rank_ok comm i hs s" and "same_tool s s'" and "clock_state_stack (my_clock s') = clock_state_stack (my_clock s)"
    and "longest hs' (Thr i) (cval critical (my_clock s') CLOCK_USEFUL)"
  shows "rank_ok comm i hs' s'"
  using assms same_tool_findComm [OF assms(2), of comm] by (auto simp: rank_ok_def same_tool_def)

lemma longest_other:
  "n \<noteq> Thr i \<Longrightarrow> longest (Work i a b # hs) n v = longest hs n v"
  "n \<noteq> Syn x \<Longrightarrow> longest (Release i x # hs) n v = longest hs n v"
  "n \<noteq> Thr i \<Longrightarrow> longest (Acquire i x # hs) n v = longest hs n v"
  "n \<noteq> Syn x \<Longrightarrow> longest (Renew x # hs) n v = longest hs n v"
  by (auto simp: longest_def)

lemma compute_call:
  assumes "rank_ok comm i hs s" and s'_def: "s' = mpiTimer_begin False b (mpiTimer_end a s)"
  shows "same_tool s s'" and "clock_state_stack (my_clock s') = clock_state_stack (my_clock s)"
    and "cval critical (my_clock s') CLOCK_USEFUL = cval critical (my_clock s) CLOCK_USEFUL + (b - a)"
proof -
  have a: "active s" "tlc s \<noteq> 0" and st: "clock_state_stack (my_clock s) = [STATE_INIT, STATE_USEFUL, STATE_MPI]"
    using assms(1) by (auto simp: rank_ok_def)
  have t: "tlc (mpiTimer_end a s) = tlc s" by (simp add: mpiTimer_end_def upd_my_clock_def)
  have s': "s' = upd_my_clock (\<lambda>tc. enterState True b 0 STATE_MPI (exitState True a 0 True tc)) s"
    using a t unfolding s'_def
    by (simp add: mpiTimer_begin_def mpiTimer_end_def upd_my_clock_def upd_clock_def Let_def active_def)
  show "same_tool s s'" "clock_state_stack (my_clock s') = clock_state_stack (my_clock s)"
    "cval critical (my_clock s') CLOCK_USEFUL = cval critical (my_clock s) CLOCK_USEFUL + (b - a)"
    unfolding s' using a st
    by (simp_all add: enterState_def exitState_def GetState_def Let_def clock_simps)
qed

lemma in_send_simps [simp]:
  "in_send m (Compute i a b # es) = in_send m es" "in_send m (Take m' # es) = in_send m es"
  "in_send m (Recv i m' src tg st # es) = in_send m es" "in_send m (Allreduce is # es) = in_send m es"
  by (simp_all add: in_send_def)

lemma step_compute:
  assumes ok: "sys_ok comm es S"
  shows "\<exists>S'. mpi_step lib comm (Compute i a b) S = Some S' \<and> sys_ok comm (Compute i a b # es) S'"
proof -
  have r: "rank_ok comm j (hb_trace es) (ranks S j)" for j using ok by (simp add: sys_ok_def)
  note c = compute_call [OF r [of i] refl, where a = a and b = b]
  have "longest (Work i a b # hb_trace es) (Thr i) (cval critical (my_clock (ranks S i)) CLOCK_USEFUL + (b - a))"
    using r [of i] by (auto simp: rank_ok_def longest_def algebra_simps)
  with c have "rank_ok comm i (Work i a b # hb_trace es) (mpiTimer_begin False b (mpiTimer_end a (ranks S i)))"
    by (intro rank_ok_transfer [OF r]) simp_all
  moreover have "rank_ok comm j (Work i a b # hb_trace es) (ranks S j)" if "j \<noteq> i" for j
    using r [of j] that by (simp add: rank_ok_def longest_other)
  ultimately show ?thesis
    using ok by (auto simp: sys_ok_def hb_trace_def longest_other)
qed

text \<open>A send begins: process \<open>i\<close> puts its clocks into the buffer of a new message.\<close>

lemma send_begun:
  assumes ok: "sys_ok comm es S" and new: "\<not> list_ex (begins_send m) es" and v: "pb_values (l_req l) = load_values (my_clock (ranks S i)) zeros"
    and s: "same_tool (ranks S i) s" "my_clock s = my_clock (ranks S i)"
    and ev: "hb_of ev = [Release i (Suc m), Renew (Suc m)]" "begins_send m ev" "\<And>k. \<not> ends_send k ev" "\<forall>k. ev \<noteq> Take k"
      "\<And>k. begins_send k ev \<Longrightarrow> k = m"
  shows "sys_ok comm (ev # es) (S\<lparr>ranks := (ranks S)(i := s), open_sends := (open_sends S)(m \<mapsto> l)\<rparr>)"
proof -
  let ?hs = "Release i (Suc m) # Renew (Suc m) # hb_trace es"
  have r: "rank_ok comm j (hb_trace es) (ranks S j)" for j using ok by (simp add: sys_ok_def)
  have hs: "hb_trace (ev # es) = ?hs" using ev(1) by (simp add: hb_trace_def)
  have rr: "rank_ok comm j ?hs (ranks S j)" for j using r [of j] by (simp add: rank_ok_def longest_other)
  have "rank_ok comm i ?hs s" using rr [of i] s by (intro rank_ok_transfer [OF r]) (auto simp: rank_ok_def)
  moreover have "longest ?hs (Syn (Suc m)) (pb_values (l_req l) ! 0)"
    using r [of i] by (auto simp: rank_ok_def longest_def load_values_nth zeros_def v)
  moreover have "k \<noteq> m" if "wire S k = Some v" for k v using that ok new by (auto simp: sys_ok_def)
  moreover have "\<exists>y. open_sends S k = Some y" if "in_send k (ev # es)" "k \<noteq> m" for k
    using that ev(5) [of k] ok by (auto simp: in_send_def sys_ok_def)
  ultimately show ?thesis
    using ok rr ev(4) unfolding sys_ok_def hs by (auto simp: longest_other)
qed

lemma step_send_begin:
  assumes ok: "sys_ok comm es S" and d: "dest \<noteq> MPI_PROC_NULL lib" and new: "\<not> list_ex (begins_send m) es"
  shows "\<exists>S'. mpi_step lib comm (Send_begin i m dest tg) S = Some S' \<and> sys_ok comm (Send_begin i m dest tg # es) S'"
    and "\<exists>S'. mpi_step lib comm (Sendrecv_begin i m dest tg src rtag) S = Some S' \<and>
           sys_ok comm (Sendrecv_begin i m dest tg src rtag # es) S'"
proof -
  obtain c where c: "active (ranks S i)" "findComm comm (ranks S i) = Some c"
    using ok unfolding sys_ok_def rank_ok_def by blast
  from send_call [OF c(1) d c(2), of tg] obtain l s where
    "mpiSendPB_begin lib dest tg comm (ranks S i) = Some (l, s)" "pb_values (l_req l) = load_values (my_clock (ranks S i)) zeros"
    "same_tool (ranks S i) s" "my_clock s = my_clock (ranks S i)" by blast
  then show "\<exists>S'. mpi_step lib comm (Send_begin i m dest tg) S = Some S' \<and> sys_ok comm (Send_begin i m dest tg # es) S'"
    using send_begun [OF ok new, of l i s "Send_begin i m dest tg"] by simp
  from sendrecv_call [OF c(1) d c(2), of tg src rtag] obtain l s where
    "mpiSendrecvPB_begin lib dest tg src rtag comm (ranks S i) = Some (l, s)"
    "pb_values (l_req l) = load_values (my_clock (ranks S i)) zeros"
    "same_tool (ranks S i) s" "my_clock s = my_clock (ranks S i)" by blast
  then show "\<exists>S'. mpi_step lib comm (Sendrecv_begin i m dest tg src rtag) S = Some S' \<and>
      sys_ok comm (Sendrecv_begin i m dest tg src rtag # es) S'"
    using send_begun [OF ok new, of l i s "Sendrecv_begin i m dest tg src rtag"] by simp
qed

lemma step_send_end:
  assumes ok: "sys_ok comm es S" and d: "dest \<noteq> MPI_PROC_NULL lib" and m: "in_send m es"
  shows "\<exists>S'. mpi_step lib comm (Send_end i m dest) S = Some S' \<and> sys_ok comm (Send_end i m dest # es) S'"
proof -
  obtain l where "open_sends S m = Some l" using ok m by (auto simp: sys_ok_def)
  then show ?thesis using ok d by (auto simp: send_return sys_ok_def hb_trace_def in_send_def split: if_splits)
qed

lemma step_take:
  assumes ok: "sys_ok comm es S" and m: "in_send m es"
  shows "\<exists>S'. mpi_step lib comm (Take m) S = Some S' \<and> sys_ok comm (Take m # es) S'"
proof -
  obtain l where "open_sends S m = Some l" using ok m by (auto simp: sys_ok_def)
  then show ?thesis using ok m by (auto simp: sys_ok_def hb_trace_def in_send_def)
qed

lemma step_recv:
  assumes ok: "sys_ok comm es S" and src: "src \<noteq> MPI_PROC_NULL lib" and m: "taken m es"
  shows "\<exists>S'. mpi_step lib comm (Recv i m src tg st) S = Some S' \<and> sys_ok comm (Recv i m src tg st # es) S'"
proof -
  let ?hs = "Acquire i (Suc m) # hb_trace es"
  have r: "rank_ok comm j (hb_trace es) (ranks S j)" for j using ok by (simp add: sys_ok_def)
  from r [of i] obtain c where act: "active (ranks S i)" and c: "findComm comm (ranks S i) = Some c"
    by (auto simp: rank_ok_def)
  from ok m obtain v where v: "wire S m = Some v" "longest (hb_trace es) (Syn (Suc m)) (v ! 0)"
    by (fastforce simp: sys_ok_def dom_def)
  let ?lib = "with_arriving v lib"
  have lib: "mpiRecvPB_begin ?lib = mpiRecvPB_begin lib"
    by (intro ext) (simp add: mpiRecvPB_begin_def with_arriving_def wildcard_def pb_local_new_def RequestData_new_def
        cong: if_cong)
  from recv_call [OF act _ c, of src ?lib v tg False st] src obtain l s1 s2 where
    s: "mpiRecvPB_begin lib src tg comm False (ranks S i) = Some (l, s1)" "mpiRecvPB_end ?lib src tg st l s1 = Some s2"
      "my_clock s2 = take_values v (my_clock (ranks S i))" "same_tool (ranks S i) s2"
    unfolding lib by (auto simp: with_arriving_def)
  have l: "longest (hb_trace es) (Thr i) (cval critical (my_clock (ranks S i)) CLOCK_USEFUL)"
    using r [of i] by (simp add: rank_ok_def)
  have "longest ?hs (Thr i) (cval critical (my_clock s2) CLOCK_USEFUL)"
    using longest_max [OF l v(2)] by (auto simp: longest_def s(3) cval_take_values)
  then have "rank_ok comm i ?hs s2" using s(3,4) by (intro rank_ok_transfer [OF r]) simp_all
  moreover have "rank_ok comm j ?hs (ranks S j)" if "j \<noteq> i" for j
    using r [of j] that by (simp add: rank_ok_def longest_other)
  ultimately show ?thesis
    using ok s v by (auto simp: sys_ok_def hb_trace_def longest_other)
qed

lemma step_sendrecv_end:
  assumes ok: "sys_ok comm es S" and src: "src \<noteq> MPI_PROC_NULL lib" and m: "in_send m es" "taken m es" "taken m' es"
  shows "\<exists>S'. mpi_step lib comm (Sendrecv_end i m dest m' src) S = Some S' \<and> sys_ok comm (Sendrecv_end i m dest m' src # es) S'"
proof -
  let ?hs = "Acquire i (Suc m') # hb_trace es"
  have r: "rank_ok comm j (hb_trace es) (ranks S j)" for j using ok by (simp add: sys_ok_def)
  obtain l where l: "open_sends S m = Some l" using ok m(1) by (auto simp: sys_ok_def)
  obtain w where w: "wire S m = Some w" using ok m(2) by (fastforce simp: sys_ok_def)
  from ok m(3) obtain v where v: "wire S m' = Some v" "longest (hb_trace es) (Syn (Suc m')) (v ! 0)"
    by (fastforce simp: sys_ok_def dom_def)
  define s where "s = mpiSendrecvPB_end (with_arriving v lib) dest src l (ranks S i)"
  have s: "my_clock s = take_values v (my_clock (ranks S i))" "same_tool (ranks S i) s"
    using r [of i] src by (simp_all add: s_def mpiSendrecvPB_end_def rank_ok_def wait_local_def with_arriving_def MpiHappensAfter_active)
  have lg: "longest (hb_trace es) (Thr i) (cval critical (my_clock (ranks S i)) CLOCK_USEFUL)"
    using r [of i] by (simp add: rank_ok_def)
  have "longest ?hs (Thr i) (cval critical (my_clock s) CLOCK_USEFUL)"
    using longest_max [OF lg v(2)] by (auto simp: longest_def s(1) cval_take_values)
  then have "rank_ok comm i ?hs s" using s by (intro rank_ok_transfer [OF r]) simp_all
  moreover have "rank_ok comm j ?hs (ranks S j)" if "j \<noteq> i" for j
    using r [of j] that by (simp add: rank_ok_def longest_other)
  ultimately show ?thesis
    using ok l w v by (auto simp: sys_ok_def hb_trace_def longest_other in_send_def s_def [symmetric] split: if_splits)
qed

lemma foldl_max_values:
  fixes a :: "time list"
  assumes "length a = 4" and "\<forall>v \<in> set vs. length v = 4"
  shows "length (foldl (map2 max) a vs) = (4::nat)"
    and "(\<exists>v \<in> insert a (set vs). foldl (map2 max) a vs ! 0 = v ! 0) \<and>
         (\<forall>v \<in> insert a (set vs). v ! 0 \<le> foldl (map2 max) a vs ! (0::nat))"
  using assms
proof (induction vs arbitrary: a)
  case (Cons v vs)
  { case 1 with Cons.IH(1) [of "map2 max a v"] show ?case by simp }
  { case 2
    with Cons.IH(2) [of "map2 max a v"] show ?case by (auto simp: max_def split: if_splits) }
qed auto

lemma max_values_nth:
  assumes "vs \<noteq> []" and "\<forall>v \<in> set vs. length v = 4"
  shows "(\<exists>v \<in> set vs. max_values vs ! 0 = v ! 0) \<and> (\<forall>v \<in> set vs. v ! 0 \<le> max_values vs ! 0)"
  using assms foldl_max_values(2) [of "hd vs" "tl vs"] by (cases vs) (auto simp: max_values_def)

lemma allreduce_begin:
  assumes "active s" and "findComm comm s = Some c"
  shows "\<exists>l s'. mpiCollAllreducePB_begin lib comm s = Some (l, s') \<and> pb_values (l_req l) = load_values (my_clock s) zeros \<and>
           same_tool s s' \<and> my_clock s' = my_clock s"
  using assms
  by (simp add: mpiCollAllreducePB_begin_def with_comm_def on_local_def localHappensBefore_def MpiHappensBefore_def
      IAllreduce_def post_def pb_local_new_def RequestData_new_def zeros_def)

lemma allreduce_end:
  assumes "active s"
  shows "my_clock (mpiCollAllreducePB_end (with_arriving v lib) l s) = take_values v (my_clock s)"
    and "same_tool s (mpiCollAllreducePB_end (with_arriving v lib) l s)"
  using assms by (simp_all add: mpiCollAllreducePB_end_def wait_local_def with_arriving_def MpiHappensAfter_active)

lemma coll_begin_ok:
  assumes "\<forall>i \<in> set is. active (R i) \<and> findComm comm (R i) \<noteq> None" and "distinct is"
  shows "\<exists>ls R'. coll_begin lib comm is R = Some (ls, R') \<and> length ls = length is \<and>
           map (\<lambda>l. pb_values (l_req l)) ls = map (\<lambda>i. load_values (my_clock (R i)) zeros) is \<and>
           (\<forall>i. same_tool (R i) (R' i) \<and> my_clock (R' i) = my_clock (R i))"
  using assms
proof (induction "is" arbitrary: R)
  case (Cons i "is")
  then obtain c where c: "active (R i)" "findComm comm (R i) = Some c" by auto
  obtain l s where l: "mpiCollAllreducePB_begin lib comm (R i) = Some (l, s)"
    and s: "same_tool (R i) s" "my_clock s = my_clock (R i)" "pb_values (l_req l) = load_values (my_clock (R i)) zeros"
    using allreduce_begin [OF c, of lib] by blast
  let ?R = "R(i := s)"
  have R: "\<forall>j \<in> set is. active (?R j) \<and> findComm comm (?R j) \<noteq> None" using Cons.prems by auto
  obtain ls R' where R': "coll_begin lib comm is ?R = Some (ls, R')" "length ls = length is"
      "map (\<lambda>l. pb_values (l_req l)) ls = map (\<lambda>i. load_values (my_clock (?R i)) zeros) is"
      "\<forall>i. same_tool (?R i) (R' i) \<and> my_clock (R' i) = my_clock (?R i)"
    using Cons.IH [OF R] Cons.prems(2) by (auto simp del: fun_upd_apply)
  have "map (\<lambda>i. load_values (my_clock (?R i)) zeros) is = map (\<lambda>i. load_values (my_clock (R i)) zeros) is"
    using Cons.prems(2) by (intro map_cong) auto
  moreover have "same_tool (R j) (R' j) \<and> my_clock (R' j) = my_clock (R j)" for j
    using R'(4) [rule_format, of j] s same_tool_trans [OF s(1), of "R' j"] by (cases "j = i") auto
  ultimately show ?case using l R' s(3) by simp
qed simp

lemma coll_end_ok:
  assumes "distinct (map fst ls)" and "\<forall>i \<in> fst ` set ls. active (R i)"
  shows "same_tool (R i) (coll_end (with_arriving v lib) ls R i) \<and>
         my_clock (coll_end (with_arriving v lib) ls R i) =
           (if i \<in> fst ` set ls then take_values v (my_clock (R i)) else my_clock (R i))"
  using assms
proof (induction ls arbitrary: R)
  case (Cons p ls)
  obtain k l where p: "p = (k, l)" by fastforce
  define R' where "R' = R(k := mpiCollAllreducePB_end (with_arriving v lib) l (R k))"
  have k: "active (R k)" "k \<notin> fst ` set ls" using Cons.prems p by auto
  note e = allreduce_end [OF k(1), of v lib l]
  have R': "R' k = mpiCollAllreducePB_end (with_arriving v lib) l (R k)" "i \<noteq> k \<Longrightarrow> R' i = R i" by (simp_all add: R'_def)
  have "\<forall>i \<in> fst ` set ls. active (R' i)" using Cons.prems p k by (auto simp: R'_def)
  moreover have "coll_end (with_arriving v lib) (p # ls) R = coll_end (with_arriving v lib) ls R'" by (simp add: p R'_def)
  ultimately show ?case
    using Cons.IH [of R'] Cons.prems(1) e k(2) R' same_tool_trans [OF e(2)] by (cases "i = k") (auto simp: p)
qed simp

lemma step_allreduce:
  assumes ok: "sys_ok comm es S" and ne: "is \<noteq> []" and d: "distinct is"
  shows "\<exists>S'. mpi_step lib comm (Allreduce is) S = Some S' \<and> sys_ok comm (Allreduce is # es) S'"
proof -
  let ?c = "\<lambda>s. cval critical (my_clock s) CLOCK_USEFUL" and ?hs = "hb_of (Allreduce is) @ hb_trace es"
  have r: "rank_ok comm j (hb_trace es) (ranks S j)" for j using ok by (simp add: sys_ok_def)
  then have "\<forall>i \<in> set is. active (ranks S i) \<and> findComm comm (ranks S i) \<noteq> None" by (simp add: rank_ok_def)
  from coll_begin_ok [OF this d, of lib] obtain ls R' where b: "coll_begin lib comm is (ranks S) = Some (ls, R')"
      "length ls = length is" "map (\<lambda>l. pb_values (l_req l)) ls = map (\<lambda>i. load_values (my_clock (ranks S i)) zeros) is"
      "\<And>i. same_tool (ranks S i) (R' i) \<and> my_clock (R' i) = my_clock (ranks S i)" by blast
  define v where "v = max_values (map (\<lambda>l. pb_values (l_req l)) ls)"
  define R'' where "R'' = coll_end (with_arriving v lib) (zip is ls) R'"
  have v: "(\<exists>i \<in> set is. v ! 0 = ?c (ranks S i)) \<and> (\<forall>i \<in> set is. ?c (ranks S i) \<le> v ! 0)"
    using max_values_nth [of "map (\<lambda>l. pb_values (l_req l)) ls"] ne unfolding v_def b(3)
    by (auto simp: zeros_def load_values_nth simp del: map_map)
  have act: "active (R' i)" for i using b(4) [of i] r [of i] by (auto simp: same_tool_def rank_ok_def)
  have f: "map fst (zip is ls) = is" using b(2) by simp
  then have fs: "fst ` set (zip is ls) = set is" by (metis list.set_map)
  have e: "same_tool (ranks S i) (R'' i)"
    "my_clock (R'' i) = (if i \<in> set is then take_values v (my_clock (ranks S i)) else my_clock (ranks S i))" for i
    using coll_end_ok [of "zip is ls" R' i v lib] d act b(4) [of i]
    by (auto simp: R''_def f fs intro: same_tool_trans)
  have lg: "longest ?hs (Thr i) (?c (R'' i))" for i
  proof (cases "i \<in> set is")
    case True
    then have "?c (R'' i) = v ! 0" using v by (auto simp: e(2) cval_take_values)
    then show ?thesis using r v True unfolding longest_def hb_path_allreduce rank_ok_def
      by (metis order_trans)
  next
    case False
    then show ?thesis using r [of i] by (simp add: longest_def hb_path_allreduce e(2) rank_ok_def del: hb_of.simps)
  qed
  have "rank_ok comm i ?hs (R'' i)" for i
    using lg [of i] e [of i] by (intro rank_ok_transfer [OF r]) auto
  moreover have "longest ?hs (Syn (Suc m)) w = longest (hb_trace es) (Syn (Suc m)) w" for m w
    by (simp add: longest_def hb_path_allreduce del: hb_of.simps)
  moreover have "hb_trace (Allreduce is # es) = ?hs" by (simp add: hb_trace_def)
  ultimately show ?thesis
    using ok b(1) by (auto simp: sys_ok_def v_def R''_def Let_def)
qed

lemma mpi_run_ok:
  assumes "sys_ok comm [] S" and "proper lib es"
  shows "\<exists>S'. mpi_run lib comm S es = Some S' \<and> sys_ok comm es S'"
  using assms(2)
proof (induction es)
  case Nil
  then show ?case using assms(1) by simp
next
  case (Cons ev es)
  then have "proper lib es" by (cases ev) auto
  with Cons.IH obtain S' where "mpi_run lib comm S es = Some S'" and ok: "sys_ok comm es S'" by blast
  moreover have "\<exists>S''. mpi_step lib comm ev S' = Some S'' \<and> sys_ok comm (ev # es) S''"
    using Cons.prems step_compute [OF ok] step_send_begin [OF ok] step_send_end [OF ok] step_sendrecv_end [OF ok]
      step_take [OF ok] step_recv [OF ok] step_allreduce [OF ok]
    by (cases ev) auto
  ultimately show ?case by auto
qed

text \<open>Each process enters its first MPI call at \<open>t0 i\<close>; the timer makes the clock of its thread.\<close>

definition mpi_start :: "(nat \<Rightarrow> time) \<Rightarrow> (nat \<Rightarrow> mpi_tool) \<Rightarrow> mpi_sys" where
  "mpi_start t0 base = \<lparr>ranks = (\<lambda>i. mpiTimer_begin False (t0 i) (base i)), open_sends = Map.empty, wire = Map.empty\<rparr>"

definition fresh_tool :: "nat \<Rightarrow> mpi_tool \<Rightarrow> bool" where
  "fresh_tool comm s \<longleftrightarrow> active s \<and> tlc s = 0 \<and> next_clock (mcore s) \<noteq> 0 \<and> findComm comm s \<noteq> None"

lemma mpi_start_ok:
  assumes "\<forall>i. fresh_tool comm (base i)"
  shows "sys_ok comm [] (mpi_start t0 base)"
proof -
  have "rank_ok comm i [] (mpiTimer_begin False (t0 i) (base i))" for i
  proof -
    let ?s = "mpiTimer_begin False (t0 i) (base i)" and ?n = "ucast (ID (mcore (base i))) :: i32"
    have f: "fresh_tool comm (base i)" using assms by simp
    have "my_clock ?s = enterState True (t0 i) 0 STATE_MPI (enterState True (t0 i) 0 STATE_USEFUL (threadClock_new ?n 0 False))"
      "active ?s" "tlc ?s = next_clock (mcore (base i))" "findComm comm ?s = findComm comm (base i)"
      using f by (simp_all add: mpiTimer_begin_def fresh_tool_def my_next_id_def my_clock_def upd_my_clock_def
          upd_clock_def active_def findComm_def Let_def)
    then show ?thesis
      using f by (simp add: rank_ok_def fresh_tool_def longest_def enterState_def Let_def clock_simps GetState_def)
  qed
  then show ?thesis by (simp add: sys_ok_def mpi_start_def hb_trace_def in_send_def)
qed

text \<open>
  C2: In every program in which each payload is taken from the buffer of its sender before the send returns and received
  afterwards, the processes run through all their sends, receives (with or without wildcards), combined sends and receives
  and reductions, and then the critical useful-computation clock of each process is the length of a path of useful work
  that ends there, through the messages and reductions of all processes, and no such path is longer.  For the
  combined send and receive and for the reductions, whose destructors wait, MPI gives this order; for a blocking send,
  whose destructor does not wait, it is an assumption on the network, and without it the payload is undefined.
\<close>

theorem mpi_critical_is_longest_path:
  assumes "\<forall>i. fresh_tool comm (base i)" and "proper lib es"
  shows "\<exists>S. mpi_run lib comm (mpi_start t0 base) es = Some S \<and>
           (\<forall>i. longest (hb_trace es) (Thr i) (cval critical (my_clock (ranks S i)) CLOCK_USEFUL))"
  using mpi_run_ok [OF mpi_start_ok [OF assms(1), of t0] assms(2)] by (auto simp: sys_ok_def rank_ok_def)

definition example_mpi_tool :: mpi_tool where
  "example_mpi_tool =
     \<lparr>mcore = example_tool, tlc = 0, ptr_handles = True, fortran = True,
      cf = factory_new [1000] 1000 4 (CommData_new example_lib),
      rf = factory_new [1000] 1000 4 (RequestData_new example_lib), calls = []\<rparr>"

lemma example_findComm: "findComm 4 example_mpi_tool = Some 4"
proof -
  have "hm_get handle_hash 4 hm_new = Some (None :: nat option)" by code_simp
  then show ?thesis
    by (simp add: findComm_def example_mpi_tool_def ptr_findData_def findPredefinedData_def factory_new_def)
qed

lemma example_fresh: "fresh_tool 4 example_mpi_tool"
  using example_findComm by (simp add: fresh_tool_def active_def) (simp add: example_mpi_tool_def example_tool_def)

text \<open>
  Process 0 works from 1 to 8 and sends; process 1 receives with a wildcard and exchanges messages with process 2.
\<close>

definition example_events :: "mpi_event list" where
  "example_events =
     [Allreduce [0, 1, 2], Sendrecv_end 2 2 1 1 1, Sendrecv_end 1 1 2 2 2, Take 2, Take 1,
      Sendrecv_begin 2 2 1 3 1 3, Sendrecv_begin 1 1 2 3 2 3, Recv 1 0 (- 1) 7 \<lparr>MPI_SOURCE = 0, MPI_TAG = 7\<rparr>,
      Compute 1 2 5, Send_end 0 0 1, Take 0, Send_begin 0 0 1 7, Compute 0 1 8]"

theorem mpi_critical_is_longest_path_witness:
  "\<exists>S. mpi_run example_lib 4 (mpi_start (\<lambda>_. 1) (\<lambda>_. example_mpi_tool)) example_events = Some S \<and>
     (\<forall>i. longest (hb_trace example_events) (Thr i) (cval critical (my_clock (ranks S i)) CLOCK_USEFUL)) \<and>
     cval critical (my_clock (ranks S 2)) CLOCK_USEFUL = 7"
proof -
  have "proper example_lib example_events" by (simp add: example_events_def example_lib_def in_send_def)
  with mpi_critical_is_longest_path [of 4 "\<lambda>_. example_mpi_tool" example_lib example_events "\<lambda>_. 1"] example_fresh
  obtain S where S: "mpi_run example_lib 4 (mpi_start (\<lambda>_. 1) (\<lambda>_. example_mpi_tool)) example_events = Some S"
      "\<And>i. longest (hb_trace example_events) (Thr i) (cval critical (my_clock (ranks S i)) CLOCK_USEFUL)" by blast
  have "longest (hb_trace example_events) (Thr 2) 7"
    by (simp add: longest_def hb_trace_def example_events_def)
  with S(2) [of 2] have "cval critical (my_clock (ranks S 2)) CLOCK_USEFUL = 7" by (auto simp: longest_def intro: antisym)
  with S show ?thesis by blast
qed

end
