(* ===== verification/Cpt_Completion.thy ===== *)
theory Cpt_Completion
  imports Cpt_Message
begin

text \<open>
  \<^verbatim>\<open>src/completion-wrappers.cpp\<close> and \<^verbatim>\<open>src/man-wrappers.cpp\<close>: the wrappers of the calls that start, complete,
  cancel and free requests and that free communicators.

  What PMPI returns in its output arguments is a parameter of the wrapper: the request handle it
  leaves behind (\<^verbatim>\<open>MPI_REQUEST_NULL\<close>, or the same handle for a persistent request), the status, the index.
  The handles passed to PMPI are part of the result.  \<open>t1\<close> and \<open>t2\<close> are the times at which the timer of
  the wrapper begins and ends.  \<open>has_status\<close> is false for \<^verbatim>\<open>MPI_STATUS_IGNORE\<close>.
\<close>

section \<open>Counters\<close>

definition count_pers :: "mpi_tool \<Rightarrow> mpi_tool" where
  "count_pers s = (if active s then upd_my_clock (\<lambda>tc. tc\<lparr>counts := (counts tc)\<lparr>pers := pers (counts tc) + 1\<rparr>\<rparr>) s else s)"

definition count_wait :: "mpi_tool \<Rightarrow> mpi_tool" where
  "count_wait s = (if active s then upd_my_clock (\<lambda>tc. tc\<lparr>counts := (counts tc)\<lparr>wait := wait (counts tc) + 1\<rparr>\<rparr>) s else s)"

definition count_test :: "mpi_tool \<Rightarrow> mpi_tool" where
  "count_test s = (if active s then upd_my_clock (\<lambda>tc. tc\<lparr>counts := (counts tc)\<lparr>test := test (counts tc) + 1\<rparr>\<rparr>) s else s)"

section \<open>Start, cancel, free\<close>

definition MPI_Start :: "mpi_lib \<Rightarrow> time \<Rightarrow> time \<Rightarrow> nat \<Rightarrow> mpi_tool \<Rightarrow> (nat \<times> mpi_tool) option" where
  "MPI_Start lib t1 t2 request s = do {
     let s = count_pers (mpiTimer_begin False t1 s);
     (myReq, s) \<leftarrow> startRequest lib request s;
     Some (myReq, mpiTimer_end t2 s) }"

fun start_all :: "mpi_lib \<Rightarrow> nat list \<Rightarrow> mpi_tool \<Rightarrow> (nat list \<times> mpi_tool) option" where
  "start_all lib [] s = Some ([], s)"
| "start_all lib (r # rs) s = do {
     (m, s) \<leftarrow> startRequest lib r s;
     (ms, s) \<leftarrow> start_all lib rs s;
     Some (m # ms, s) }"

definition MPI_Startall :: "mpi_lib \<Rightarrow> time \<Rightarrow> time \<Rightarrow> nat list \<Rightarrow> mpi_tool \<Rightarrow> (nat list \<times> mpi_tool) option" where
  "MPI_Startall lib t1 t2 array_of_requests s = do {
     let s = count_pers (mpiTimer_begin False t1 s);
     (myReqs, s) \<leftarrow> start_all lib array_of_requests s;
     Some (myReqs, mpiTimer_end t2 s) }"

definition MPI_Request_free :: "mpi_lib \<Rightarrow> time \<Rightarrow> time \<Rightarrow> nat \<Rightarrow> mpi_tool \<Rightarrow> (nat \<times> nat \<times> mpi_tool) option" where
  "MPI_Request_free lib t1 t2 request s = do {
     let s = count_pers (mpiTimer_begin False t1 s);
     myReq \<leftarrow> rf_getHandle request s;
     (request, s) \<leftarrow> rf_freeHandle lib request s;
     Some (myReq, request, mpiTimer_end t2 s) }"

text \<open>\<open>out\<close>: the handle PMPI leaves in the request that is passed by reference.\<close>

definition set_handle :: "mpi_lib \<Rightarrow> nat \<Rightarrow> nat \<Rightarrow> mpi_tool \<Rightarrow> mpi_tool option" where
  "set_handle lib request h s =
     (if request = MPI_REQUEST_NULL lib then Some s
      else do { p \<leftarrow> req_of request s; Some (upd_req p (\<lambda>d. d\<lparr>req_handle := h\<rparr>) s) })"

definition MPI_Cancel :: "mpi_lib \<Rightarrow> time \<Rightarrow> time \<Rightarrow> nat \<Rightarrow> mpi_tool \<Rightarrow> (nat \<times> mpi_tool) option" where
  "MPI_Cancel lib t1 t2 request s = do {
     let s = count_pers (mpiTimer_begin False t1 s);
     myReq \<leftarrow> rf_getHandle request s;
     (_, s) \<leftarrow> cancelRequest lib request s;
     Some (myReq, mpiTimer_end t2 s) }"

section \<open>Wait\<close>

definition MPI_Wait ::
  "mpi_lib \<Rightarrow> (nat \<Rightarrow> nat \<times> MPI_Status) \<Rightarrow> time \<Rightarrow> time \<Rightarrow> nat \<Rightarrow> mpi_tool \<Rightarrow> (nat \<times> mpi_tool) option"
where
  "MPI_Wait lib out t1 t2 request s = do {
     let s = count_wait (mpiTimer_begin False t1 s);
     myReq \<leftarrow> rf_getHandle request s;
     let (h, status) = out myReq;
     s \<leftarrow> set_handle lib request h s;
     (request, s) \<leftarrow> completeRequest lib request (Some status) s;
     Some (request, mpiTimer_end t2 s) }"

text \<open>The loops over an array of requests.\<close>

fun get_handles :: "nat list \<Rightarrow> mpi_tool \<Rightarrow> nat list option" where
  "get_handles [] s = Some []"
| "get_handles (r # rs) s = do { h \<leftarrow> rf_getHandle r s; hs \<leftarrow> get_handles rs s; Some (h # hs) }"

fun complete_all :: "mpi_lib \<Rightarrow> (nat \<times> nat \<times> MPI_Status) list \<Rightarrow> mpi_tool \<Rightarrow> (nat list \<times> mpi_tool) option" where
  "complete_all lib [] s = Some ([], s)"
| "complete_all lib ((r, h, status) # rs) s = do {
     (r, s) \<leftarrow> completeRequest_handle lib r h (Some status) s;
     (rs, s) \<leftarrow> complete_all lib rs s;
     Some (r # rs, s) }"

definition MPI_Waitall ::
  "mpi_lib \<Rightarrow> (nat list \<Rightarrow> (nat \<times> MPI_Status) list) \<Rightarrow> time \<Rightarrow> time \<Rightarrow> nat list \<Rightarrow> mpi_tool \<Rightarrow> (nat list \<times> mpi_tool) option"
where
  "MPI_Waitall lib out t1 t2 array_of_requests s = do {
     let s = count_wait (mpiTimer_begin False t1 s);
     myReqs \<leftarrow> get_handles array_of_requests s;
     (rs, s) \<leftarrow> complete_all lib (zip array_of_requests (out myReqs)) s;
     Some (rs, mpiTimer_end t2 s) }"

text \<open>\<open>complete_at\<close>: the element at an index PMPI returned; \<^const>\<open>None\<close> outside the array.\<close>

definition complete_at ::
  "mpi_lib \<Rightarrow> int \<Rightarrow> nat list \<Rightarrow> MPI_Status \<Rightarrow> nat list \<Rightarrow> mpi_tool \<Rightarrow> (nat list \<times> mpi_tool) option"
where
  "complete_at lib indx myReqs status rs s =
     (if 0 \<le> indx \<and> nat indx < length rs
      then do {
        (r, s) \<leftarrow> completeRequest_handle lib (rs ! nat indx) (myReqs ! nat indx) (Some status) s;
        Some (rs[nat indx := r], s) }
      else None)"

definition MPI_Waitany ::
  "mpi_lib \<Rightarrow> (nat list \<Rightarrow> nat list \<times> int \<times> MPI_Status) \<Rightarrow> time \<Rightarrow> time \<Rightarrow> nat list \<Rightarrow> mpi_tool \<Rightarrow>
     (nat list \<times> mpi_tool) option"
where
  "MPI_Waitany lib out t1 t2 array_of_requests s = do {
     let s = count_wait (mpiTimer_begin False t1 s);
     myReqs \<leftarrow> get_handles array_of_requests s;
     let (myReqs, indx, status) = out myReqs;
     (rs, s) \<leftarrow> complete_at lib indx myReqs status array_of_requests s;
     Some (rs, mpiTimer_end t2 s) }"

fun complete_some ::
  "mpi_lib \<Rightarrow> nat list \<Rightarrow> (int \<times> MPI_Status) list \<Rightarrow> nat list \<Rightarrow> mpi_tool \<Rightarrow> (nat list \<times> mpi_tool) option"
where
  "complete_some lib myReqs [] rs s = Some (rs, s)"
| "complete_some lib myReqs ((indx, status) # xs) rs s = do {
     (rs, s) \<leftarrow> complete_at lib indx myReqs status rs s;
     complete_some lib myReqs xs rs s }"

text \<open>\<open>out\<close> gives \<^verbatim>\<open>*outcount\<close>, which is negative for \<^verbatim>\<open>MPI_UNDEFINED\<close>, and the arrays of indices and statuses.\<close>

definition MPI_Waitsome ::
  "mpi_lib \<Rightarrow> (nat list \<Rightarrow> nat list \<times> int \<times> (int \<times> MPI_Status) list) \<Rightarrow> time \<Rightarrow> time \<Rightarrow> nat list \<Rightarrow> mpi_tool \<Rightarrow>
     (nat list \<times> mpi_tool) option"
where
  "MPI_Waitsome lib out t1 t2 array_of_requests s = do {
     let s = count_wait (mpiTimer_begin False t1 s);
     myReqs \<leftarrow> get_handles array_of_requests s;
     let (myReqs, outcount, xs) = out myReqs;
     (rs, s) \<leftarrow> complete_some lib myReqs (take (nat outcount) xs) array_of_requests s;
     Some (rs, mpiTimer_end t2 s) }"

section \<open>Test\<close>

text \<open>\<open>out\<close> is \<^const>\<open>None\<close> where PMPI sets the flag to 0.\<close>

definition MPI_Test ::
  "mpi_lib \<Rightarrow> (nat \<Rightarrow> (nat \<times> MPI_Status) option) \<Rightarrow> bool \<Rightarrow> time \<Rightarrow> time \<Rightarrow> nat \<Rightarrow> mpi_tool \<Rightarrow> (nat \<times> mpi_tool) option"
where
  "MPI_Test lib out has_status t1 t2 request s = do {
     let s = count_test (mpiTimer_begin False t1 s);
     myReq \<leftarrow> rf_getHandle request s;
     (case out myReq of
        None \<Rightarrow> Some (request, mpiTimer_end t2 s)
      | Some (h, status) \<Rightarrow> do {
          s \<leftarrow> set_handle lib request h s;
          (request, s) \<leftarrow> completeRequest lib request (if has_status then Some status else None) s;
          Some (request, mpiTimer_end t2 s) }) }"

definition MPI_Testall ::
  "mpi_lib \<Rightarrow> (nat list \<Rightarrow> (nat \<times> MPI_Status) list option) \<Rightarrow> time \<Rightarrow> time \<Rightarrow> nat list \<Rightarrow> mpi_tool \<Rightarrow>
     (nat list \<times> mpi_tool) option"
where
  "MPI_Testall lib out t1 t2 array_of_requests s = do {
     let s = count_test (mpiTimer_begin False t1 s);
     myReqs \<leftarrow> get_handles array_of_requests s;
     (case out myReqs of
        None \<Rightarrow> Some (array_of_requests, mpiTimer_end t2 s)
      | Some xs \<Rightarrow> do {
          (rs, s) \<leftarrow> complete_all lib (zip array_of_requests xs) s;
          Some (rs, mpiTimer_end t2 s) }) }"

definition MPI_Testany ::
  "mpi_lib \<Rightarrow> (nat list \<Rightarrow> (nat list \<times> int \<times> MPI_Status) option) \<Rightarrow> time \<Rightarrow> time \<Rightarrow> nat list \<Rightarrow> mpi_tool \<Rightarrow>
     (nat list \<times> mpi_tool) option"
where
  "MPI_Testany lib out t1 t2 array_of_requests s = do {
     let s = count_test (mpiTimer_begin False t1 s);
     myReqs \<leftarrow> get_handles array_of_requests s;
     (case out myReqs of
        None \<Rightarrow> Some (array_of_requests, mpiTimer_end t2 s)
      | Some (myReqs, indx, status) \<Rightarrow> do {
          (rs, s) \<leftarrow> complete_at lib indx myReqs status array_of_requests s;
          Some (rs, mpiTimer_end t2 s) }) }"

definition MPI_Testsome ::
  "mpi_lib \<Rightarrow> (nat list \<Rightarrow> nat list \<times> int \<times> (int \<times> MPI_Status) list) \<Rightarrow> time \<Rightarrow> time \<Rightarrow> nat list \<Rightarrow> mpi_tool \<Rightarrow>
     (nat list \<times> mpi_tool) option"
where
  "MPI_Testsome lib out t1 t2 array_of_requests s = do {
     let s = count_test (mpiTimer_begin False t1 s);
     myReqs \<leftarrow> get_handles array_of_requests s;
     let (myReqs, outcount, xs) = out myReqs;
     (rs, s) \<leftarrow> complete_some lib myReqs (take (nat outcount) xs) array_of_requests s;
     Some (rs, mpiTimer_end t2 s) }"

section \<open>Freeing communicators\<close>

definition cf_getHandle :: "nat \<Rightarrow> mpi_tool \<Rightarrow> nat option" where
  "cf_getHandle c s =
     (if ptr_handles s then Some (ptr_getHandle comm_handle c (cf s)) else int_getHandle comm_handle c (cf s))"

definition cf_freeHandle :: "mpi_lib \<Rightarrow> nat \<Rightarrow> mpi_tool \<Rightarrow> (nat \<times> mpi_tool) option" where
  "cf_freeHandle lib c s = do {
     (r, f) \<leftarrow> (if ptr_handles s then ptr_freeHandle comm_fHandle (CommData_fini lib) c (cf s)
               else int_freeHandle (CommData_fini lib) c (cf s));
     Some (r, s\<lparr>cf := f\<rparr>) }"

text \<open>The result is the handle passed to PMPI and the one stored for the application.\<close>

definition MPI_Comm_free :: "mpi_lib \<Rightarrow> time \<Rightarrow> time \<Rightarrow> nat \<Rightarrow> mpi_tool \<Rightarrow> (nat \<times> nat \<times> mpi_tool) option" where
  "MPI_Comm_free lib t1 t2 comm s = do {
     let s = mpiTimer_begin False t1 s;
     myComm \<leftarrow> cf_getHandle comm s;
     (comm, s) \<leftarrow> cf_freeHandle lib comm s;
     Some (myComm, comm, mpiTimer_end t2 s) }"

definition MPI_Comm_disconnect :: "mpi_lib \<Rightarrow> time \<Rightarrow> time \<Rightarrow> nat \<Rightarrow> mpi_tool \<Rightarrow> (nat \<times> nat \<times> mpi_tool) option" where
  "MPI_Comm_disconnect lib t1 t2 comm s = do {
     let s = mpiTimer_begin False t1 s;
     myComm \<leftarrow> cf_getHandle comm s;
     (comm, s) \<leftarrow> cf_freeHandle lib comm s;
     Some (myComm, comm, mpiTimer_end t2 s) }"

text \<open>Without \<^verbatim>\<open>HANDLE_WIN\<close> and \<^verbatim>\<open>HANDLE_SESSION\<close> the application's handle is passed on.\<close>

definition MPI_Win_free :: "time \<Rightarrow> time \<Rightarrow> nat \<Rightarrow> mpi_tool \<Rightarrow> nat \<times> mpi_tool" where
  "MPI_Win_free t1 t2 win s = (win, mpiTimer_end t2 (mpiTimer_begin False t1 s))"

definition MPI_Session_finalize :: "time \<Rightarrow> time \<Rightarrow> nat \<Rightarrow> mpi_tool \<Rightarrow> nat \<times> mpi_tool" where
  "MPI_Session_finalize t1 t2 session s = (session, mpiTimer_end t2 (mpiTimer_begin False t1 s))"

section \<open>What the callbacks of a request leave alone\<close>

definition req_frame :: "nat \<Rightarrow> mpi_tool \<Rightarrow> mpi_tool \<Rightarrow> bool" where
  "req_frame p s s' \<longleftrightarrow>
     ptr_handles s' = ptr_handles s \<and> active s' = active s \<and> tlc s' = tlc s \<and> cf s' = cf s \<and> fortran s' = fortran s \<and>
     dataTable (rf s') = dataTable (rf s) \<and> predefined (rf s') = predefined (rf s) \<and>
     availableHandles (rf s') = availableHandles (rf s) \<and> dpool (rf s') = dpool (rf s) \<and>
     (\<forall>q. q \<noteq> p \<longrightarrow> req_obj q s' = req_obj q s) \<and>
     persistent (req_obj p s') = persistent (req_obj p s) \<and> req_fHandle (req_obj p s') = req_fHandle (req_obj p s) \<and>
     startCallback (req_obj p s') = startCallback (req_obj p s) \<and>
     cancelCallback (req_obj p s') = cancelCallback (req_obj p s) \<and>
     completionCallback (req_obj p s') = completionCallback (req_obj p s)"

lemma req_frame_refl [simp]: "req_frame p s s" by (simp add: req_frame_def)

lemma req_frame_trans: "req_frame p s t \<Longrightarrow> req_frame p t u \<Longrightarrow> req_frame p s u"
  by (simp add: req_frame_def)

lemma req_frame_pmpi [simp]: "req_frame p s (pmpi c t) = req_frame p s t"
  by (simp add: req_frame_def pmpi_def req_obj_def active_def)

lemma req_frame_clock [simp]: "req_frame p s (upd_my_clock f t) = req_frame p s t"
  by (simp add: req_frame_def upd_my_clock_def upd_clock_def req_obj_def active_def)

lemma req_frame_MpiHappensAfter [simp]: "req_frame p s (MpiHappensAfter v t) = req_frame p s t"
  by (simp add: MpiHappensAfter_def)

lemma req_frame_after [simp]: "req_frame p s (reqHappensAfter p t) = req_frame p s t"
  by (simp add: reqHappensAfter_def)

lemma req_frame_upd:
  assumes "\<And>d. persistent (g d) = persistent d \<and> req_fHandle (g d) = req_fHandle d \<and> startCallback (g d) = startCallback d \<and>
      cancelCallback (g d) = cancelCallback d \<and> completionCallback (g d) = completionCallback d"
  shows "req_frame p s (upd_req p g t) = req_frame p s t"
  using assms by (simp add: req_frame_def upd_req_def upd_obj_def req_obj_def active_def)

lemma req_frame_wait_pb [simp]: "req_frame p s (wait_pb lib p t) = req_frame p s t"
  by (simp add: wait_pb_def Let_def req_frame_upd)

lemma req_frame_start_pb [simp]: "req_frame p s (start_pb p t) = req_frame p s t"
  by (simp add: start_pb_def)

lemma req_frame_before [simp]: "req_frame p s (reqHappensBefore p t) = req_frame p s t"
  by (simp add: reqHappensBefore_def req_frame_upd)

lemma req_frame_clear [simp]: "req_frame p s (snd (clear_cancelled p t)) = req_frame p s t"
  by (simp add: clear_cancelled_def req_frame_upd isCancelled_def)

lemma req_complete_frame: "\<exists>s'. req_complete lib p (Some st) s = Some s' \<and> req_frame p s s'"
  by (simp add: req_complete_def completePBWC_def completePBHB_def completePBnoHB_def completePersPBHB_def
      completePersPBnoHB_def clear_cancelled_def req_frame_upd isCancelled_def Let_def
      split: option.splits completion_function.splits)

lemma req_start_frame: "req_frame p s (req_start p s)"
  by (simp add: req_start_def startPersPBHB_def startPersPBnoHB_def split: option.splits start_function.splits)

lemma req_cancel_frame: "req_frame p s (req_cancel p s)"
  by (simp add: req_cancel_def cancelPB_def Let_def req_frame_upd split: option.splits cancel_function.splits)

section \<open>Completing requests\<close>

definition kept :: "nat \<Rightarrow> mpi_tool \<Rightarrow> mpi_tool \<Rightarrow> bool" where
  "kept p s s' \<longleftrightarrow> ptr_handles s' = ptr_handles s \<and> dataTable (rf s') = dataTable (rf s) \<and>
     (\<forall>q. q \<noteq> p \<longrightarrow> req_obj q s' = req_obj q s)"

lemma req_frame_kept: "req_frame p s s' \<Longrightarrow> kept p s s'" by (simp add: req_frame_def kept_def)

lemma kept_rf:
  "kept p s (upd_req p g t) = kept p s t" "kept p s (t\<lparr>rf := releaseHandle i (rf t)\<rparr>) = kept p s t"
  "kept p s (t\<lparr>rf := returnObj p (rf t)\<rparr>) = kept p s t"
  by (simp_all add: kept_def upd_req_def upd_obj_def req_obj_def releaseHandle_def returnObj_def)

lemma req_of_kept: "kept p s s' \<Longrightarrow> req_of r s' = req_of r s"
  by (simp add: kept_def req_of_def table_at_def)

text \<open>What the application finds in place of a request it has completed.\<close>

definition completed :: "mpi_lib \<Rightarrow> mpi_tool \<Rightarrow> nat \<Rightarrow> nat" where
  "completed lib s r =
     (if r \<noteq> MPI_REQUEST_NULL lib \<and> persistent (req_obj (the (req_of r s)) s) then r else MPI_REQUEST_NULL lib)"

lemma finish_request_ok:
  "\<exists>s'. finish_request lib r k p (Some st) s
      = Some (if persistent (req_obj p s) then r else MPI_REQUEST_NULL lib, s') \<and> kept p s s'"
proof (cases "persistent (req_obj p s)")
  case True
  then show ?thesis
    using req_complete_frame [of lib p st s] by (auto simp: finish_request_def intro: req_frame_kept)
next
  case False
  let ?s = "s\<lparr>rf := releaseHandle k (rf s)\<rparr>"
  obtain s' where s': "req_complete lib p (Some st) ?s = Some s'" "req_frame p ?s s'"
    using req_complete_frame [of lib p st ?s] by blast
  have "kept p s s'"
    using req_frame_kept [OF s'(2)] by (simp add: kept_def req_obj_def releaseHandle_def)
  with s'(1) False show ?thesis by (auto simp: finish_request_def req_fini_def kept_rf)
qed

lemma upd_handle_persistent [simp]:
  "persistent (req_obj p (upd_req p (\<lambda>d. d\<lparr>req_handle := h\<rparr>) s)) = persistent (req_obj p s)"
  by (simp add: req_obj_def upd_req_def upd_obj_def)

lemma kept_trans: "kept p s t \<Longrightarrow> kept p t u \<Longrightarrow> kept p s u" by (simp add: kept_def)

lemma kept_upd: "kept p s (upd_req p g s)" by (simp add: kept_rf) (simp add: kept_def)

text \<open>A request the application may pass: the null request, or one with an object.\<close>

definition valid_req :: "mpi_lib \<Rightarrow> mpi_tool \<Rightarrow> nat \<Rightarrow> bool" where
  "valid_req lib s r \<longleftrightarrow> r = MPI_REQUEST_NULL lib \<or> req_of r s \<noteq> None"

lemma completeRequest_ok:
  assumes "valid_req lib s r"
  shows "\<exists>s'. completeRequest lib r (Some st) s = Some (completed lib s r, s') \<and> kept (the (req_of r s)) s s'"
proof (cases "r = MPI_REQUEST_NULL lib")
  case True
  then show ?thesis
    by (auto simp: completeRequest_def ptr_completeRequest_def int_completeRequest_def completed_def kept_def)
next
  case False
  with assms obtain p where p: "req_of r s = Some p" by (auto simp: valid_req_def)
  show ?thesis
    using False p finish_request_ok [of lib r r p st s] finish_request_ok [of lib r "req_fHandle (req_obj p s)" p st s]
    by (cases "ptr_handles s")
       (auto simp: completeRequest_def ptr_completeRequest_def int_completeRequest_def completed_def req_of_def)
qed

lemma completeRequest_handle_ok:
  assumes "valid_req lib s r" and "ptr_handles s \<Longrightarrow> r \<noteq> MPI_REQUEST_NULL lib"
  shows "\<exists>s'. completeRequest_handle lib r h (Some st) s = Some (completed lib s r, s') \<and> kept (the (req_of r s)) s s'"
proof (cases "r = MPI_REQUEST_NULL lib")
  case True
  then show ?thesis
    using assms(2) by (auto simp: completeRequest_handle_def int_completeRequest_handle_def completed_def kept_def)
next
  case False
  with assms obtain p where p: "req_of r s = Some p" by (auto simp: valid_req_def)
  let ?s = "upd_req p (\<lambda>d. d\<lparr>req_handle := h\<rparr>) s"
  note k = kept_trans [OF kept_upd [of p s "\<lambda>d. d\<lparr>req_handle := h\<rparr>"]]
  show ?thesis
    using False p finish_request_ok [of lib r r p st ?s] finish_request_ok [of lib r "req_fHandle (req_obj p ?s)" p st ?s]
    by (cases "ptr_handles s")
       (auto simp: completeRequest_handle_def ptr_completeRequest_handle_def int_completeRequest_handle_def
          ptr_completeRequest_def completed_def req_of_def intro: k)
qed

text \<open>The objects of the requests in an array, without the null requests.\<close>

definition req_objs :: "mpi_lib \<Rightarrow> mpi_tool \<Rightarrow> nat list \<Rightarrow> nat list" where
  "req_objs lib s rs = map (\<lambda>r. the (req_of r s)) (filter (\<lambda>r. r \<noteq> MPI_REQUEST_NULL lib) rs)"

lemma completed_kept:
  assumes "kept p s s'" and "r \<noteq> MPI_REQUEST_NULL lib \<Longrightarrow> the (req_of r s) \<noteq> p"
  shows "completed lib s' r = completed lib s r"
  using assms req_of_kept [OF assms(1), of r] by (auto simp: completed_def kept_def)

lemma complete_all_ok:
  assumes "\<forall>(r, h, st) \<in> set xs. valid_req lib s r \<and> (ptr_handles s \<longrightarrow> r \<noteq> MPI_REQUEST_NULL lib)"
    and "distinct (req_objs lib s (map fst xs))"
  shows "\<exists>s'. complete_all lib xs s = Some (map (completed lib s) (map fst xs), s')"
  using assms
proof (induction xs arbitrary: s)
  case (Cons x xs)
  obtain r h st where x: "x = (r, h, st)" by (cases x) auto
  have v: "valid_req lib s r" "ptr_handles s \<Longrightarrow> r \<noteq> MPI_REQUEST_NULL lib" using Cons.prems(1) by (auto simp: x)
  from completeRequest_handle_ok [OF v, of h st] obtain s' where
    s': "completeRequest_handle lib r h (Some st) s = Some (completed lib s r, s')" "kept (the (req_of r s)) s s'" by blast
  note of = req_of_kept [OF s'(2)]
  have v': "\<forall>(r, h, st) \<in> set xs. valid_req lib s' r \<and> (ptr_handles s' \<longrightarrow> r \<noteq> MPI_REQUEST_NULL lib)"
    using Cons.prems(1) s'(2) of by (auto simp: valid_req_def kept_def)
  have "req_objs lib s' (map fst xs) = req_objs lib s (map fst xs)" by (simp add: req_objs_def of)
  moreover have "distinct (req_objs lib s (map fst xs))" using Cons.prems(2) by (auto simp: req_objs_def x split: if_splits)
  ultimately have "distinct (req_objs lib s' (map fst xs))" by simp
  from Cons.IH [OF v' this] obtain s'' where
    s'': "complete_all lib xs s' = Some (map (completed lib s') (map fst xs), s'')" by blast
  have "completed lib s' q = completed lib s q" if "q \<in> fst ` set xs" for q
  proof (cases "r = MPI_REQUEST_NULL lib")
    case True
    then have "s' = s" using s'(1)
      by (auto simp: completeRequest_handle_def ptr_completeRequest_handle_def int_completeRequest_handle_def split: if_splits)
    then show ?thesis by simp
  next
    case False
    with Cons.prems(2) have "the (req_of r s) \<notin> set (req_objs lib s (map fst xs))" by (simp add: req_objs_def x)
    moreover have "the (req_of q s) \<in> set (req_objs lib s (map fst xs))" if "q \<noteq> MPI_REQUEST_NULL lib"
      using that \<open>q \<in> fst ` set xs\<close> by (simp add: req_objs_def)
    ultimately show ?thesis by (intro completed_kept [OF s'(2)]) auto
  qed
  then have "map (completed lib s') (map fst xs) = map (completed lib s) (map fst xs)" by simp
  with s'(1) s'' show ?case by (simp add: x)
qed simp

lemma timer_rf [simp]:
  "rf (mpiTimer_begin omp t s) = rf s" "ptr_handles (mpiTimer_begin omp t s) = ptr_handles s"
  "rf (mpiTimer_end t s) = rf s" "ptr_handles (mpiTimer_end t s) = ptr_handles s"
  by (simp_all add: mpiTimer_begin_def mpiTimer_end_def upd_my_clock_def Let_def split: prod.splits)

lemma count_rf [simp]:
  "rf (count_wait s) = rf s" "ptr_handles (count_wait s) = ptr_handles s"
  "rf (count_test s) = rf s" "ptr_handles (count_test s) = ptr_handles s"
  "rf (count_pers s) = rf s" "ptr_handles (count_pers s) = ptr_handles s"
  by (simp_all add: count_wait_def count_test_def count_pers_def upd_my_clock_def)

lemma same_rf:
  assumes "rf s' = rf s" and "ptr_handles s' = ptr_handles s"
  shows "req_of r s' = req_of r s" "valid_req lib s' r = valid_req lib s r" "completed lib s' r = completed lib s r"
    "req_objs lib s' rs = req_objs lib s rs" "rf_getHandle r s' = rf_getHandle r s" "req_obj p s' = req_obj p s"
  using assms by (simp_all add: req_of_def valid_req_def completed_def req_objs_def rf_getHandle_def req_obj_def)

lemma getHandle_ok:
  assumes "predefined (rf s) = [MPI_REQUEST_NULL lib]" and "valid_req lib s r"
  shows "\<exists>h. rf_getHandle r s = Some h"
  using assms by (auto simp: rf_getHandle_def int_getHandle_def isPredefined_def valid_req_def req_of_def)

lemma get_handles_ok:
  assumes "predefined (rf s) = [MPI_REQUEST_NULL lib]" and "\<forall>r \<in> set rs. valid_req lib s r"
  shows "\<exists>hs. get_handles rs s = Some hs \<and> length hs = length rs"
  using assms(2)
proof (induction rs)
  case (Cons r rs)
  then show ?case using getHandle_ok [OF assms(1), of r] by fastforce
qed simp

lemmas wrapper_rf = same_rf [where s' = "count_wait (mpiTimer_begin omp t s)" and s = s for omp t s, simplified]
  same_rf [where s' = "count_test (mpiTimer_begin omp t s)" and s = s for omp t s, simplified]

text \<open>
  C24: \<^verbatim>\<open>MPI_Waitall\<close> on requests of different objects: it returns, every persistent request is still there and
  every other one is \<^verbatim>\<open>MPI_REQUEST_NULL\<close>.  With pointer handles there is no null request in the array.
\<close>

theorem waitall_completes:
  assumes "predefined (rf s) = [MPI_REQUEST_NULL lib]"
    and "\<forall>r \<in> set rs. valid_req lib s r \<and> (ptr_handles s \<longrightarrow> r \<noteq> MPI_REQUEST_NULL lib)"
    and "distinct (req_objs lib s rs)" and "\<And>hs. length hs = length rs \<Longrightarrow> length (out hs) = length rs"
  shows "\<exists>s'. MPI_Waitall lib out t1 t2 rs s = Some (map (completed lib s) rs, s')"
proof -
  let ?s = "count_wait (mpiTimer_begin False t1 s)"
  have "\<forall>r \<in> set rs. valid_req lib ?s r" using assms(2) by (simp add: wrapper_rf)
  with get_handles_ok [of ?s lib rs] assms(1) obtain hs where hs: "get_handles rs ?s = Some hs" "length hs = length rs" by auto
  have "map fst (zip rs (out hs)) = rs" using assms(4) [OF hs(2)] by simp
  moreover have "\<forall>(r, h, st) \<in> set (zip rs (out hs)). valid_req lib ?s r \<and> (ptr_handles ?s \<longrightarrow> r \<noteq> MPI_REQUEST_NULL lib)"
    using assms(2) by (auto simp: wrapper_rf dest: set_zip_leftD)
  moreover have "map (completed lib ?s) rs = map (completed lib s) rs" by (simp add: wrapper_rf)
  ultimately show ?thesis
    using complete_all_ok [of "zip rs (out hs)" lib ?s] assms(3) hs(1)
    by (auto simp: MPI_Waitall_def wrapper_rf)
qed

lemma complete_all_null:
  assumes "ptr_handles s" and "MPI_REQUEST_NULL lib \<in> fst ` set xs"
  shows "complete_all lib xs s = None"
  using assms
proof (induction xs arbitrary: s)
  case (Cons x xs)
  obtain r h st where x: "x = (r, h, st)" by (cases x) auto
  show ?case
  proof (cases "r = MPI_REQUEST_NULL lib")
    case True
    with Cons.prems(1) show ?thesis
      by (simp add: x completeRequest_handle_def ptr_completeRequest_handle_def)
  next
    case False
    with Cons.prems(1) obtain s' where s': "completeRequest_handle lib r h (Some st) s = Some (completed lib s r, s')"
        "ptr_handles s'"
      using completeRequest_handle_ok [of lib s r h st] by (auto simp: valid_req_def req_of_def kept_def)
    have "complete_all lib xs s' = None" using Cons.prems(2) False by (intro Cons.IH [OF s'(2)]) (simp add: x)
    with s'(1) show ?thesis by (simp add: x)
  qed
qed simp

text \<open>
  With pointer handles a null request in the array of \<^verbatim>\<open>MPI_Waitall\<close>, which MPI allows, is written
  through: no call with one ever returns.
\<close>

theorem waitall_null_request:
  assumes "ptr_handles s" and "MPI_REQUEST_NULL lib \<in> set rs" and "\<And>hs. length (out hs) = length rs"
  shows "MPI_Waitall lib out t1 t2 rs s = None"
proof -
  note complete_all_null [of _ lib]
  moreover have "fst ` set (zip rs (out hs)) = set rs" for hs
    using assms(3) [of hs] by (metis list.set_map map_fst_zip)
  ultimately show ?thesis
    using assms by (auto simp: MPI_Waitall_def Let_def split: option.splits bind_splits)
qed

lemma complete_at_ok:
  assumes "\<forall>r \<in> set rs. valid_req lib s r \<and> (ptr_handles s \<longrightarrow> r \<noteq> MPI_REQUEST_NULL lib)"
  shows "if 0 \<le> i \<and> nat i < length rs
         then \<exists>s'. complete_at lib i hs st rs s = Some (rs[nat i := completed lib s (rs ! nat i)], s')
         else complete_at lib i hs st rs s = None"
proof (cases "0 \<le> i \<and> nat i < length rs")
  case True
  then have "rs ! nat i \<in> set rs" by simp
  with assms completeRequest_handle_ok [of lib s "rs ! nat i" "hs ! nat i" st] True show ?thesis
    by (auto simp: complete_at_def)
qed (auto simp: complete_at_def)

text \<open>
  \<^verbatim>\<open>MPI_Waitany\<close> and \<^verbatim>\<open>MPI_Testany\<close> use the index that PMPI returns without looking at it.  With an index of
  the array they complete that request and no other.  With \<^verbatim>\<open>MPI_UNDEFINED\<close>, which MPI returns when
  no request of the array is active, they access the array outside its bounds.
\<close>

theorem waitany_undefined_index:
  assumes "predefined (rf s) = [MPI_REQUEST_NULL lib]"
    and "\<forall>r \<in> set rs. valid_req lib s r \<and> (ptr_handles s \<longrightarrow> r \<noteq> MPI_REQUEST_NULL lib)"
  shows "if 0 \<le> i \<and> nat i < length rs
         then (\<exists>s'. MPI_Waitany lib (\<lambda>hs. (hs, i, st)) t1 t2 rs s = Some (rs[nat i := completed lib s (rs ! nat i)], s')) \<and>
              (\<exists>s'. MPI_Testany lib (\<lambda>hs. Some (hs, i, st)) t1 t2 rs s = Some (rs[nat i := completed lib s (rs ! nat i)], s'))
         else MPI_Waitany lib (\<lambda>hs. (hs, i, st)) t1 t2 rs s = None \<and>
              MPI_Testany lib (\<lambda>hs. Some (hs, i, st)) t1 t2 rs s = None"
proof -
  let ?w = "count_wait (mpiTimer_begin False t1 s)" and ?t = "count_test (mpiTimer_begin False t1 s)"
  have w: "\<forall>r \<in> set rs. valid_req lib ?w r \<and> (ptr_handles ?w \<longrightarrow> r \<noteq> MPI_REQUEST_NULL lib)"
    and t: "\<forall>r \<in> set rs. valid_req lib ?t r \<and> (ptr_handles ?t \<longrightarrow> r \<noteq> MPI_REQUEST_NULL lib)"
    using assms(2) by (simp_all add: wrapper_rf)
  obtain hw ht where h: "get_handles rs ?w = Some hw" "get_handles rs ?t = Some ht"
    using get_handles_ok [of ?w lib rs] get_handles_ok [of ?t lib rs] assms(1) w t by auto
  show ?thesis
    using complete_at_ok [OF w, of i hw st] complete_at_ok [OF t, of i ht st] h
    by (auto simp: MPI_Waitany_def MPI_Testany_def wrapper_rf split: if_splits)
qed

text \<open>
  A receive with a wildcard that was not cancelled reads the status when it completes.  \<^verbatim>\<open>MPI_Wait\<close>
  replaces \<^verbatim>\<open>MPI_STATUS_IGNORE\<close> by a status of its own and returns; \<^verbatim>\<open>MPI_Test\<close> passes it on, and the
  callback reads through it.
\<close>

theorem test_ignoring_status:
  assumes "predefined (rf s) = [MPI_REQUEST_NULL lib]" and "r \<noteq> MPI_REQUEST_NULL lib" and "req_of r s = Some p"
    and "completionCallback (req_obj p s) = Some completePBWC_f" and "\<not> cancelled (req_obj p s)"
  shows "MPI_Test lib (\<lambda>h. Some (h', st)) False t1 t2 r s = None \<and>
         (\<exists>s'. MPI_Test lib (\<lambda>h. Some (h', st)) True t1 t2 r s = Some (completed lib s r, s')) \<and>
         (\<exists>s'. MPI_Wait lib (\<lambda>h. (h', st)) t1 t2 r s = Some (completed lib s r, s'))"
proof -
  let ?w = "count_wait (mpiTimer_begin False t1 s)" and ?t = "count_test (mpiTimer_begin False t1 s)"
  let ?u = "upd_req p (\<lambda>d. d\<lparr>req_handle := h'\<rparr>)"
  have v: "valid_req lib s r" using assms(3) by (simp add: valid_req_def)
  obtain h where h: "rf_getHandle r s = Some h" using getHandle_ok [OF assms(1) v] by blast
  have c: "valid_req lib (?u x) r" "completed lib (?u x) r = completed lib x r" if "req_of r x = Some p" for x
    using that req_of_kept [OF kept_upd, of r p "\<lambda>d. d\<lparr>req_handle := h'\<rparr>" x] by (simp_all add: valid_req_def completed_def)
  have "completeRequest lib r None (?u ?t) = None"
    using assms(2-5) by (auto simp: completeRequest_def ptr_completeRequest_def int_completeRequest_def finish_request_def
      req_fini_def req_complete_def completePBWC_def clear_cancelled_def isCancelled_def req_obj_def upd_req_def
      upd_obj_def releaseHandle_def req_of_def table_at_def split: if_splits)
  then show ?thesis
    using completeRequest_ok [OF c(1), of ?w st] completeRequest_ok [OF c(1), of ?t st] h assms(2,3)
    by (auto simp: MPI_Test_def MPI_Wait_def set_handle_def wrapper_rf c(2))
qed

section \<open>Non-blocking receives\<close>

lemma my_clock_rf [simp]:
  "my_clock (s\<lparr>rf := f\<rparr>) = my_clock s" "my_clock (upd_req p g s) = my_clock s"
  "active (s\<lparr>rf := f\<rparr>) = active s" "active (upd_req p g s) = active s"
  by (simp_all add: my_clock_def active_def upd_req_def)

lemma req_obj_upd [simp]:
  "req_obj p (upd_req p g s) = g (req_obj p s)" "req_obj p (pmpi c s) = req_obj p s"
  "req_obj p (upd_my_clock f s) = req_obj p s" "req_obj p (s\<lparr>rf := releaseHandle i (rf s)\<rparr>) = req_obj p s"
  by (simp_all add: req_obj_def upd_req_def upd_obj_def pmpi_def upd_my_clock_def releaseHandle_def)

lemma pending_receive_completes:
  assumes "active s" and "arriving lib = (\<lambda>_ _. v)" and "\<not> cancelled (req_obj p s)"
    and "completionCallback (req_obj p s) \<in> {Some completePBHB_f, Some completePBWC_f}"
  shows "\<exists>s'. req_complete lib p (Some st) s = Some s' \<and> my_clock s' = take_values v (my_clock s) \<and> req_frame p s s'"
  using assms req_complete_frame [of lib p st s]
  by (auto simp: req_complete_def completePBHB_def completePBWC_def clear_cancelled_def isCancelled_def wait_pb_def Let_def
      reqHappensAfter_def MpiHappensAfter_active)

lemma rf_newRequest_ok:
  assumes "table_ok (rf s)" and "r \<noteq> MPI_REQUEST_NULL lib"
  shows "\<exists>a s'. rf_newRequest lib r p False s = Some (a, s') \<and> req_of a s' = Some p \<and> my_clock s' = my_clock s \<and>
           active s' = active s \<and> \<not> persistent (req_obj p s') \<and> \<not> cancelled (req_obj p s') \<and>
           completionCallback (req_obj p s') = completionCallback (req_obj p s) \<and>
           dpool (rf s') = dpool (rf s) \<and> (ptr_handles s \<longrightarrow> a = p) \<and>
           (\<not> ptr_handles s \<longrightarrow> a < length (dataTable (rf s)) + 64)"
proof (cases "ptr_handles s")
  case True
  from takeHandle_ok [OF assms(1), of p] obtain h f where f: "takeHandle p (rf s) = Some (h, f)"
    "objs f = objs (rf s)" "dpool f = dpool (rf s)" by blast
  then show ?thesis using True
    by (simp add: rf_newRequest_def ptr_newRequest_data_def req_of_def req_obj_def upd_obj_def RequestData_init_def)
next
  case False
  let ?f = "upd_obj p (int_init lib (fortran s) r False) (rf s)"
  have "table_ok ?f" using assms(1) by (simp add: table_ok_def upd_obj_def)
  from takeHandle_ok [OF this, of p] obtain h f where f: "takeHandle p ?f = Some (h, f)" "h < length (dataTable f)"
    "dataTable f ! h = p" "length (dataTable f) \<le> length (dataTable ?f) + 64" "objs f = objs ?f" "dpool f = dpool ?f"
    by blast
  then show ?thesis using False assms(2)
    by (simp add: rf_newRequest_def int_newRequest_data_def req_of_def table_at_def req_obj_def upd_obj_def int_init_def
        RequestData_init_def)
qed

lemma rf_newData_ok:
  assumes "sp_ok U (dpool (rf s))" and "0 < block (rf s)"
  shows "\<exists>p s'. rf_newData lib s = (p, s') \<and> p \<notin> U \<and> sp_ok (insert p U) (dpool (rf s')) \<and> same_tool s s' \<and>
           my_clock s' = my_clock s \<and> active s' = active s \<and> (table_ok (rf s) \<longrightarrow> table_ok (rf s')) \<and>
           dataTable (rf s') = dataTable (rf s) \<and> p < next_data (dpool (rf s)) + block (rf s)"
proof -
  obtain p f where f: "newData (RequestData_new lib) (rf s) = (p, f)" by fastforce
  note n = newData_ok [OF assms f]
  then have "p < next_data (dpool f)" by (auto simp: sp_ok_def)
  with n f show ?thesis by (auto simp: rf_newData_def same_tool_def table_ok_def)
qed

lemma finish_receive:
  assumes "active s" and "arriving lib = (\<lambda>_ _. v)" and "req_of a s = Some p" and "a \<noteq> MPI_REQUEST_NULL lib"
    and "\<not> persistent (req_obj p s)" and "\<not> cancelled (req_obj p s)"
    and "completionCallback (req_obj p s) \<in> {Some completePBHB_f, Some completePBWC_f}"
  shows "\<exists>s'. completeRequest lib a (Some st) s = Some (MPI_REQUEST_NULL lib, s') \<and>
           my_clock s' = take_values v (my_clock s) \<and> dpool (rf s') = sp_returnData p (dpool (rf s))"
proof -
  have "\<exists>s'. finish_request lib a k p (Some st) s = Some (MPI_REQUEST_NULL lib, s') \<and>
           my_clock s' = take_values v (my_clock s) \<and> dpool (rf s') = sp_returnData p (dpool (rf s))" for k
  proof -
    let ?s = "s\<lparr>rf := releaseHandle k (rf s)\<rparr>"
    obtain s' where s': "req_complete lib p (Some st) ?s = Some s'" "my_clock s' = take_values v (my_clock s)" "req_frame p ?s s'"
      using pending_receive_completes [of ?s lib v p st] assms by auto
    then have "dpool (rf s') = dpool (rf s)" by (simp add: req_frame_def releaseHandle_def)
    with s'(1,2) assms(5) show ?thesis
      by (simp add: finish_request_def req_fini_def returnObj_def upd_req_def upd_obj_def)
  qed
  then show ?thesis using assms(3,4)
    by (cases "ptr_handles s") (auto simp: completeRequest_def ptr_completeRequest_def int_completeRequest_def req_of_def)
qed

lemma irecv_posted:
  assumes "active s" and "src \<noteq> MPI_PROC_NULL lib" and "findComm comm s = Some c" and "table_ok (rf s)"
    and "0 < block (rf s)" and "sp_ok U (dpool (rf s))" and "r \<noteq> MPI_REQUEST_NULL lib"
    and "length (dataTable (rf s)) + 64 \<le> MPI_REQUEST_NULL lib"
    and "next_data (dpool (rf s)) + block (rf s) \<le> MPI_REQUEST_NULL lib"
  shows "\<exists>p cd s1 a s2. mpiIrecvPB_begin lib src tg comm s = Some (p, cd, s1) \<and>
           mpiIrecvPB_end lib src tg p cd r s1 = Some (a, s2) \<and> req_of a s2 = Some p \<and> a \<noteq> MPI_REQUEST_NULL lib \<and>
           my_clock s2 = my_clock s \<and> active s2 \<and> \<not> persistent (req_obj p s2) \<and> \<not> cancelled (req_obj p s2) \<and>
           completionCallback (req_obj p s2) \<in> {Some completePBHB_f, Some completePBWC_f} \<and>
           p \<notin> U \<and> sp_ok (insert p U) (dpool (rf s2))"
proof -
  obtain p s0 where p: "rf_newData lib s = (p, s0)" "p \<notin> U" "sp_ok (insert p U) (dpool (rf s0))" "same_tool s s0"
      "my_clock s0 = my_clock s" "active s0" "table_ok (rf s0)" "dataTable (rf s0) = dataTable (rf s)"
      "p < MPI_REQUEST_NULL lib"
    using rf_newData_ok [OF assms(6,5), of lib] assms(1,4,9) by fastforce
  define s1 where "s1 = (if \<not> wildcard lib src tg
     then on_req p (\<lambda>d s. post Pb_once (PMPI_Irecv src tg (getDupComm (comm_obj c s))) d s) s0 else s0)"
  have b: "mpiIrecvPB_begin lib src tg comm s = Some (p, Some c, s1)"
    using p assms(2,3) same_tool_findComm [OF p(4), of comm] by (simp add: mpiIrecvPB_begin_def s1_def)
  define s1' where "s1' = (if wildcard lib src tg
     then upd_req p (setCompletionCallback completePBWC_f) (upd_req p (RequestData_init_kind r IRECV src tg c (- 1) False) s1)
     else upd_req p (setCancelCallback cancelPB_f) (upd_req p (setCompletionCallback completePBHB_f) (upd_req p (init_remote r IRECV src) s1)))"
  have s1: "my_clock s1' = my_clock s" "active s1'" "table_ok (rf s1')" "dpool (rf s1') = dpool (rf s0)"
      "dataTable (rf s1') = dataTable (rf s)" "active s1"
    using p by (auto simp: s1_def s1'_def on_req_def post_def upd_req_def upd_obj_def table_ok_def pmpi_def my_clock_def active_def)
  have cb: "completionCallback (req_obj p s1') \<in> {Some completePBHB_f, Some completePBWC_f}"
    by (simp add: s1'_def setCompletionCallback_def setCancelCallback_def)
  have e: "mpiIrecvPB_end lib src tg p (Some c) r s1 = rf_newRequest lib r p False s1'"
    using assms(2) s1(6) by (simp add: mpiIrecvPB_end_def s1'_def)
  show ?thesis
    using rf_newRequest_ok [OF s1(3) assms(7), of p] b e p s1 cb assms(8) by fastforce
qed

text \<open>
  C21: A non-blocking receive, with or without wildcards, for integer and for pointer handles: the
  application gets a request that is not null; posting it leaves the clock alone; completing it
  gives the clock the value that a blocking receive of the same message gives it and the null
  request to the application, and the object of the request is back in the pool.
\<close>

theorem irecv_wait_is_recv:
  assumes "active s" and "src \<noteq> MPI_PROC_NULL lib" and "findComm comm s = Some c" and "arriving lib = (\<lambda>_ _. v)"
    and "table_ok (rf s)" and "0 < block (rf s)" and "sp_ok U (dpool (rf s))" and "r \<noteq> MPI_REQUEST_NULL lib"
    and "length (dataTable (rf s)) + 64 \<le> MPI_REQUEST_NULL lib"
    and "next_data (dpool (rf s)) + block (rf s) \<le> MPI_REQUEST_NULL lib"
  shows "\<exists>p cd s1 a s2 s3 l s4 s5.
           mpiIrecvPB_begin lib src tg comm s = Some (p, cd, s1) \<and> mpiIrecvPB_end lib src tg p cd r s1 = Some (a, s2) \<and>
           a \<noteq> MPI_REQUEST_NULL lib \<and> my_clock s2 = my_clock s \<and>
           completeRequest lib a (Some st) s2 = Some (MPI_REQUEST_NULL lib, s3) \<and> sp_ok U (dpool (rf s3)) \<and>
           mpiRecvPB_begin lib src tg comm has_status s = Some (l, s4) \<and> mpiRecvPB_end lib src tg st l s4 = Some s5 \<and>
           my_clock s3 = my_clock s5"
proof -
  obtain p cd s1 a s2 where p: "mpiIrecvPB_begin lib src tg comm s = Some (p, cd, s1)"
      "mpiIrecvPB_end lib src tg p cd r s1 = Some (a, s2)" and
    q: "req_of a s2 = Some p" "a \<noteq> MPI_REQUEST_NULL lib" "my_clock s2 = my_clock s" "active s2" "\<not> persistent (req_obj p s2)"
      "\<not> cancelled (req_obj p s2)" "completionCallback (req_obj p s2) \<in> {Some completePBHB_f, Some completePBWC_f}"
      "p \<notin> U" "sp_ok (insert p U) (dpool (rf s2))"
    using irecv_posted [OF assms(1-3,5-10)] by blast
  obtain s3 where s3: "completeRequest lib a (Some st) s2 = Some (MPI_REQUEST_NULL lib, s3)"
      "my_clock s3 = take_values v (my_clock s)" "dpool (rf s3) = sp_returnData p (dpool (rf s2))"
    using finish_receive [OF q(4) assms(4) q(1,2,5-7), of st] q(3) by auto
  have "sp_ok U (dpool (rf s3))" using sp_returnData_ok [OF q(9), of p] q(8) s3(3) by simp
  then show ?thesis
    using recv_call [OF assms(1-4), of tg has_status st] p q(2,3) s3(1,2) by fastforce
qed

section \<open>Persistent requests\<close>

datatype pers_op = Op_Start time time | Op_Wait nat MPI_Status time time | Op_Cancel time time

text \<open>A program that uses one persistent request; each wait stores the handle the next call gets.\<close>

fun pers_run :: "mpi_lib \<Rightarrow> pers_op list \<Rightarrow> nat \<times> mpi_tool \<Rightarrow> (nat \<times> mpi_tool) option" where
  "pers_run lib [] rs = Some rs"
| "pers_run lib (Op_Start t1 t2 # ops) (r, s) = do {
     (_, s) \<leftarrow> MPI_Start lib t1 t2 r s; pers_run lib ops (r, s) }"
| "pers_run lib (Op_Wait h st t1 t2 # ops) (r, s) = do {
     (r, s) \<leftarrow> MPI_Wait lib (\<lambda>_. (h, st)) t1 t2 r s; pers_run lib ops (r, s) }"
| "pers_run lib (Op_Cancel t1 t2 # ops) (r, s) = do {
     (_, s) \<leftarrow> MPI_Cancel lib t1 t2 r s; pers_run lib ops (r, s) }"

text \<open>What has to hold between the calls.\<close>

definition pers_ok :: "mpi_lib \<Rightarrow> nat \<Rightarrow> nat \<Rightarrow> mpi_tool \<Rightarrow> bool" where
  "pers_ok lib r p s \<longleftrightarrow> tlc s \<noteq> 0 \<and> predefined (rf s) = [MPI_REQUEST_NULL lib] \<and> r \<noteq> MPI_REQUEST_NULL lib \<and>
     req_of r s = Some p \<and> persistent (req_obj p s)"

lemma pers_ok_frame: "pers_ok lib r p s \<Longrightarrow> req_frame p s s' \<Longrightarrow> pers_ok lib r p s'"
  by (auto simp: pers_ok_def req_frame_def req_of_def table_at_def)

lemma req_frame_timer:
  assumes "tlc s \<noteq> 0"
  shows "req_frame p s (count_pers (mpiTimer_begin False t s))" "req_frame p s (count_wait (mpiTimer_begin False t s))"
  using assms by (simp_all add: mpiTimer_begin_def count_pers_def count_wait_def)

lemma req_frame_timer_end [simp]: "req_frame p s (mpiTimer_end t s') = req_frame p s s'"
  by (simp add: mpiTimer_end_def)

lemma pers_getHandle: "pers_ok lib r p s \<Longrightarrow> \<exists>h. rf_getHandle r s = Some h"
  using getHandle_ok [of s lib r] by (auto simp: pers_ok_def valid_req_def)

lemma pers_complete:
  assumes "pers_ok lib r p s"
  shows "\<exists>s'. completeRequest lib r (Some st) s = Some (r, s') \<and> req_frame p s s'"
  using assms req_complete_frame [of lib p st s]
  by (cases "ptr_handles s")
     (auto simp: pers_ok_def completeRequest_def ptr_completeRequest_def int_completeRequest_def finish_request_def req_of_def)

lemma pers_step:
  assumes "pers_ok lib r p s"
  shows "\<exists>m s'. MPI_Start lib t1 t2 r s = Some (m, s') \<and> req_frame p s s'"
    and "\<exists>m s'. MPI_Cancel lib t1 t2 r s = Some (m, s') \<and> req_frame p s s'"
    and "\<exists>s'. MPI_Wait lib (\<lambda>_. (h, st)) t1 t2 r s = Some (r, s') \<and> req_frame p s s'"
proof -
  let ?p = "count_pers (mpiTimer_begin False t1 s)" and ?w = "count_wait (mpiTimer_begin False t1 s)"
  have f: "req_frame p s ?p" "req_frame p s ?w" using assms by (simp_all add: pers_ok_def req_frame_timer)
  have ok: "pers_ok lib r p ?p" "pers_ok lib r p ?w" using pers_ok_frame [OF assms] f by blast+
  then have r: "r \<noteq> MPI_REQUEST_NULL lib" "req_of r ?p = Some p" "req_of r ?w = Some p" by (simp_all add: pers_ok_def)
  show "\<exists>m s'. MPI_Start lib t1 t2 r s = Some (m, s') \<and> req_frame p s s'"
    using r req_frame_trans [OF f(1) req_start_frame] by (simp add: MPI_Start_def startRequest_def Let_def)
  show "\<exists>m s'. MPI_Cancel lib t1 t2 r s = Some (m, s') \<and> req_frame p s s'"
    using r req_frame_trans [OF f(1) req_cancel_frame] pers_getHandle [OF ok(1)]
    by (auto simp: MPI_Cancel_def cancelRequest_def)
  let ?u = "upd_req p (\<lambda>d. d\<lparr>req_handle := h\<rparr>) ?w"
  have u: "req_frame p s ?u" using f(2) by (simp add: req_frame_upd)
  obtain s' where "completeRequest lib r (Some st) ?u = Some (r, s')" "req_frame p ?u s'"
    using pers_complete [OF pers_ok_frame [OF assms u], of st] by blast
  with pers_getHandle [OF ok(2)] r req_frame_trans [OF u]
  show "\<exists>s'. MPI_Wait lib (\<lambda>_. (h, st)) t1 t2 r s = Some (r, s') \<and> req_frame p s s'"
    by (auto simp: MPI_Wait_def set_handle_def)
qed

lemma pers_run_step:
  assumes "pers_ok lib r p s"
  shows "\<exists>s'. pers_run lib (op # ops) (r, s) = pers_run lib ops (r, s') \<and> req_frame p s s'"
proof (cases op)
  case (Op_Start t1 t2)
  then show ?thesis using pers_step(1) [OF assms, of t1 t2] by auto
next
  case (Op_Wait h st t1 t2)
  then show ?thesis using pers_step(3) [OF assms, of h st t1 t2] by auto
next
  case (Op_Cancel t1 t2)
  then show ?thesis using pers_step(2) [OF assms, of t1 t2] by auto
qed

text \<open>
  C23: A persistent request stays the same through every sequence of starts, waits and cancellations:
  all of them return, the application's handle and the object behind it do not change, and
  neither the object nor the handle is given back.
\<close>

theorem persistent_request_survives:
  assumes "tlc s \<noteq> 0" and "predefined (rf s) = [MPI_REQUEST_NULL lib]" and "r \<noteq> MPI_REQUEST_NULL lib"
    and "req_of r s = Some p" and "persistent (req_obj p s)"
  shows "\<exists>s'. pers_run lib ops (r, s) = Some (r, s') \<and> req_of r s' = Some p \<and> persistent (req_obj p s') \<and>
           dpool (rf s') = dpool (rf s) \<and> availableHandles (rf s') = availableHandles (rf s)"
proof -
  have ok: "pers_ok lib r p s" using assms by (simp add: pers_ok_def)
  have "\<exists>s'. pers_run lib ops (r, t) = Some (r, s') \<and> req_frame p s s'" if "req_frame p s t" for t
    using that
  proof (induction ops arbitrary: t)
    case (Cons op ops)
    note t = pers_ok_frame [OF ok Cons.prems]
    from pers_run_step [OF t] obtain s' where
      s': "pers_run lib (op # ops) (r, t) = pers_run lib ops (r, s')" "req_frame p t s'" by blast
    show ?case unfolding s'(1) by (rule Cons.IH [OF req_frame_trans [OF Cons.prems s'(2)]])
  qed simp
  from this [OF req_frame_refl] obtain s' where s': "pers_run lib ops (r, s) = Some (r, s')" "req_frame p s s'" by blast
  then show ?thesis using pers_ok_frame [OF ok s'(2)] by (simp add: pers_ok_def req_frame_def)
qed

section \<open>Examples\<close>

text \<open>
  Two requests, the second persistent, the first a receive with a wildcard; with integer handles they
  have the handles 0 and 1, with pointer handles 1 and 2.
\<close>

definition example_requests :: "bool \<Rightarrow> mpi_tool" where
  "example_requests ptr =
     example_mpi_tool\<lparr>ptr_handles := ptr, tlc := 3,
       rf := (factory_new [1000] 1000 4 (RequestData_new example_lib))
         \<lparr>dataTable := [1, 2], objs := (\<lambda>_. RequestData_new example_lib)
            (1 := (RequestData_new example_lib)\<lparr>completionCallback := Some completePBWC_f\<rparr>,
             2 := (RequestData_new example_lib)\<lparr>persistent := True\<rparr>)\<rparr>\<rparr>"

lemma example_requests_simps [simp]:
  "predefined (rf (example_requests ptr)) = [MPI_REQUEST_NULL example_lib]" "ptr_handles (example_requests ptr) = ptr"
  "tlc (example_requests ptr) = 3"
  "req_of 0 (example_requests False) = Some 1" "req_of (Suc 0) (example_requests False) = Some 2" "req_of 1 (example_requests False) = Some 2"
  "req_obj 1 (example_requests ptr) = (RequestData_new example_lib)\<lparr>completionCallback := Some completePBWC_f\<rparr>"
  "req_obj (Suc 0) (example_requests ptr) = (RequestData_new example_lib)\<lparr>completionCallback := Some completePBWC_f\<rparr>"
  "req_obj 2 (example_requests ptr) = (RequestData_new example_lib)\<lparr>persistent := True\<rparr>"
  "MPI_REQUEST_NULL example_lib = 1000"
  by (simp_all add: example_requests_def factory_new_def req_of_def table_at_def req_obj_def example_lib_def example_mpi_tool_def)

lemma example_new [simp]:
  "persistent (RequestData_new lib) = False" "cancelled (RequestData_new lib) = False"
  by (simp_all add: RequestData_new_def)

theorem waitall_completes_witness:
  "\<exists>s'. MPI_Waitall example_lib (map (\<lambda>h. (h, \<lparr>MPI_SOURCE = 0, MPI_TAG = 7\<rparr>))) 1 2 [0, 1000, 1] (example_requests False)
     = Some ([1000, 1000, 1], s')"
  using waitall_completes [of "example_requests False" example_lib "[0, 1000, 1]" "map (\<lambda>h. (h, \<lparr>MPI_SOURCE = 0, MPI_TAG = 7\<rparr>))" 1 2]
  by (simp add: valid_req_def req_objs_def completed_def)

theorem waitall_null_request_witness:
  "MPI_Waitall example_lib (\<lambda>_. replicate 2 (1000, \<lparr>MPI_SOURCE = 0, MPI_TAG = 7\<rparr>)) 1 2 [1, 1000] (example_requests True) = None"
  using waitall_null_request [of "example_requests True" example_lib "[1, 1000]" "\<lambda>_. replicate 2 (1000, \<lparr>MPI_SOURCE = 0, MPI_TAG = 7\<rparr>)" 1 2]
  by simp

theorem waitany_undefined_index_witness:
  "MPI_Waitany example_lib (\<lambda>hs. (hs, - 32766, \<lparr>MPI_SOURCE = 0, MPI_TAG = 7\<rparr>)) 1 2 [1000, 1000] (example_requests False) = None \<and>
   (\<exists>s'. MPI_Waitany example_lib (\<lambda>hs. (hs, 1, \<lparr>MPI_SOURCE = 0, MPI_TAG = 7\<rparr>)) 1 2 [1000, 0] (example_requests False) = Some ([1000, 1000], s'))"
  using waitany_undefined_index [of "example_requests False" example_lib "[1000, 1000]" "- 32766" "\<lparr>MPI_SOURCE = 0, MPI_TAG = 7\<rparr>" 1 2]
    waitany_undefined_index [of "example_requests False" example_lib "[1000, 0]" 1 "\<lparr>MPI_SOURCE = 0, MPI_TAG = 7\<rparr>" 1 2]
  by (simp add: valid_req_def completed_def)

theorem test_ignoring_status_witness:
  "MPI_Test example_lib (\<lambda>h. Some (1000, \<lparr>MPI_SOURCE = 0, MPI_TAG = 7\<rparr>)) False 1 2 0 (example_requests False) = None"
  using test_ignoring_status [of "example_requests False" example_lib 0 1 1000 "\<lparr>MPI_SOURCE = 0, MPI_TAG = 7\<rparr>" 1 2]
  by simp

theorem persistent_request_survives_witness:
  "\<exists>s'. pers_run example_lib [Op_Start 1 2, Op_Wait 55 \<lparr>MPI_SOURCE = 0, MPI_TAG = 7\<rparr> 3 4, Op_Cancel 5 6, Op_Start 7 8]
       (1, example_requests False) = Some (1, s') \<and> persistent (req_obj 2 s')"
  using persistent_request_survives [of "example_requests False" example_lib 1 2
      "[Op_Start 1 2, Op_Wait 55 \<lparr>MPI_SOURCE = 0, MPI_TAG = 7\<rparr> 3 4, Op_Cancel 5 6, Op_Start 7 8]"]
  by auto

text \<open>The sender's clocks of the example message are 3, 5 and 7.\<close>

theorem irecv_wait_is_recv_witness:
  "let lib = with_arriving [3, 5, 7, 0] example_lib; st = \<lparr>MPI_SOURCE = 0, MPI_TAG = 7\<rparr>
   in \<exists>p cd s1 a s2 s3 l s4 s5.
           mpiIrecvPB_begin lib (- 1) 7 4 example_mpi_tool = Some (p, cd, s1) \<and> mpiIrecvPB_end lib (- 1) 7 p cd 2000 s1 = Some (a, s2) \<and>
           completeRequest lib a (Some st) s2 = Some (1000, s3) \<and>
           mpiRecvPB_begin lib (- 1) 7 4 False example_mpi_tool = Some (l, s4) \<and> mpiRecvPB_end lib (- 1) 7 st l s4 = Some s5 \<and>
           my_clock s3 = my_clock s5"
proof -
  let ?lib = "with_arriving [3, 5, 7, 0] example_lib" and ?st = "\<lparr>MPI_SOURCE = 0, MPI_TAG = 7\<rparr>"
  have l: "arriving ?lib = (\<lambda>_ _. [3, 5, 7, 0])" "MPI_PROC_NULL ?lib = - 2" "MPI_REQUEST_NULL ?lib = 1000"
    by (simp_all add: with_arriving_def example_lib_def)
  have r: "table_ok (rf example_mpi_tool)" "0 < block (rf example_mpi_tool)" "sp_ok {} (dpool (rf example_mpi_tool))"
    "length (dataTable (rf example_mpi_tool)) + 64 \<le> 1000"
    "next_data (dpool (rf example_mpi_tool)) + block (rf example_mpi_tool) \<le> 1000"
    by (simp_all add: example_mpi_tool_def factory_new_def table_ok_def sp_ok_def shared_pool_new_def)
  have a: "active example_mpi_tool" using example_fresh by (simp add: fresh_tool_def)
  show ?thesis
    using irecv_wait_is_recv [of example_mpi_tool "- 1" ?lib 4 4 "[3, 5, 7, 0]" "{}" 2000 7 ?st False] a r example_findComm l
    unfolding Let_def by auto
qed

end
