(* ===== verification/Cpt_Fortran.thy ===== *)
theory Cpt_Fortran
  imports Cpt_Completion
begin

text \<open>
  \<^verbatim>\<open>src/fort-wrappers.c\<close>: the Fortran entry points of the calls of \<^verbatim>\<open>completion-wrappers.cpp\<close> and
  \<^verbatim>\<open>man-wrappers.cpp\<close>.  Each converts its handles and statuses to C, calls the C wrapper of the tool and
  converts back.  The conversions are functions of the MPI library and parameters here; the model
  follows the branch for MPI-2, the other one casts the pointers.  The four spellings of each entry
  point call the same function.

  What the C call leaves in its output arguments is a parameter, as for the C wrappers.  A Fortran
  status is a list of integers, \<^const>\<open>None\<close> for \<^verbatim>\<open>MPI_F_STATUS_IGNORE\<close>; \<open>ret\<close> is the value returned by the
  C wrapper, which is stored in \<^verbatim>\<open>ierr\<close>.
\<close>

section \<open>The wrappers\<close>

record fortran_lib =
  Request_f2c :: "int \<Rightarrow> nat"
  Request_c2f :: "nat \<Rightarrow> int"
  Comm_f2c :: "int \<Rightarrow> nat"
  Comm_c2f :: "nat \<Rightarrow> int"
  Win_f2c :: "int \<Rightarrow> nat"
  Win_c2f :: "nat \<Rightarrow> int"
  Session_f2c :: "int \<Rightarrow> nat"
  Session_c2f :: "nat \<Rightarrow> int"
  Status_c2f :: "MPI_Status \<Rightarrow> int list"
  MPI_UNDEFINED :: int

text \<open>Storing a status for the application, unless it ignores it.\<close>

definition put_status :: "fortran_lib \<Rightarrow> MPI_Status \<Rightarrow> int list option \<Rightarrow> int list option" where
  "put_status F st status = (case status of None \<Rightarrow> None | Some _ \<Rightarrow> Some (Status_c2f F st))"

definition put_statuses :: "fortran_lib \<Rightarrow> MPI_Status list \<Rightarrow> int list list option \<Rightarrow> int list list option" where
  "put_statuses F sts statuses = (case statuses of None \<Rightarrow> None | Some _ \<Rightarrow> Some (map (Status_c2f F) sts))"

definition MPI_Start_fortran ::
  "fortran_lib \<Rightarrow> mpi_lib \<Rightarrow> int \<Rightarrow> time \<Rightarrow> time \<Rightarrow> int \<Rightarrow> mpi_tool \<Rightarrow> (int \<times> int \<times> mpi_tool) option"
where
  "MPI_Start_fortran F lib ret t1 t2 request s = do {
     let temp_request = Request_f2c F request;
     (_, s) \<leftarrow> MPI_Start lib t1 t2 temp_request s;
     Some (Request_c2f F temp_request, ret, s) }"

definition MPI_Startall_fortran ::
  "fortran_lib \<Rightarrow> mpi_lib \<Rightarrow> int \<Rightarrow> time \<Rightarrow> time \<Rightarrow> int list \<Rightarrow> mpi_tool \<Rightarrow> (int list \<times> int \<times> mpi_tool) option"
where
  "MPI_Startall_fortran F lib ret t1 t2 array_of_requests s = do {
     let temp_array_of_requests = map (Request_f2c F) array_of_requests;
     (_, s) \<leftarrow> MPI_Startall lib t1 t2 temp_array_of_requests s;
     Some (map (Request_c2f F) temp_array_of_requests, ret, s) }"

definition MPI_Request_free_fortran ::
  "fortran_lib \<Rightarrow> mpi_lib \<Rightarrow> int \<Rightarrow> time \<Rightarrow> time \<Rightarrow> int \<Rightarrow> mpi_tool \<Rightarrow> (int \<times> int \<times> mpi_tool) option"
where
  "MPI_Request_free_fortran F lib ret t1 t2 request s = do {
     let temp_request = Request_f2c F request;
     (_, temp_request, s) \<leftarrow> MPI_Request_free lib t1 t2 temp_request s;
     Some (Request_c2f F temp_request, ret, s) }"

definition MPI_Cancel_fortran ::
  "fortran_lib \<Rightarrow> mpi_lib \<Rightarrow> int \<Rightarrow> time \<Rightarrow> time \<Rightarrow> int \<Rightarrow> mpi_tool \<Rightarrow> (int \<times> int \<times> mpi_tool) option"
where
  "MPI_Cancel_fortran F lib ret t1 t2 request s = do {
     let temp_request = Request_f2c F request;
     (_, s) \<leftarrow> MPI_Cancel lib t1 t2 temp_request s;
     Some (Request_c2f F temp_request, ret, s) }"

definition MPI_Wait_fortran ::
  "fortran_lib \<Rightarrow> mpi_lib \<Rightarrow> int \<Rightarrow> nat \<times> MPI_Status \<Rightarrow> time \<Rightarrow> time \<Rightarrow> int \<Rightarrow> int list option \<Rightarrow> mpi_tool \<Rightarrow>
     (int \<times> int list option \<times> int \<times> mpi_tool) option"
where
  "MPI_Wait_fortran F lib ret out t1 t2 request status s = do {
     let temp_request = Request_f2c F request;
     (temp_request, s) \<leftarrow> MPI_Wait lib (\<lambda>_. out) t1 t2 temp_request s;
     Some (Request_c2f F temp_request, put_status F (snd out) status, ret, s) }"

text \<open>From here on the arrays of requests are converted for the call and not stored back.\<close>

definition MPI_Waitall_fortran ::
  "fortran_lib \<Rightarrow> mpi_lib \<Rightarrow> int \<Rightarrow> (nat \<times> MPI_Status) list \<Rightarrow> time \<Rightarrow> time \<Rightarrow> int list \<Rightarrow> int list list option \<Rightarrow> mpi_tool \<Rightarrow>
     (int list \<times> int list list option \<times> int \<times> mpi_tool) option"
where
  "MPI_Waitall_fortran F lib ret out t1 t2 array_of_requests array_of_statuses s = do {
     let temp_array_of_requests = map (Request_f2c F) array_of_requests;
     (_, s) \<leftarrow> MPI_Waitall lib (\<lambda>_. out) t1 t2 temp_array_of_requests s;
     Some (array_of_requests, put_statuses F (map snd out) array_of_statuses, ret, s) }"

text \<open>Indices start at 1 in Fortran.\<close>

definition MPI_Waitany_fortran ::
  "fortran_lib \<Rightarrow> mpi_lib \<Rightarrow> int \<Rightarrow> nat list \<times> int \<times> MPI_Status \<Rightarrow> time \<Rightarrow> time \<Rightarrow> int list \<Rightarrow> int list option \<Rightarrow> mpi_tool \<Rightarrow>
     (int list \<times> int \<times> int list option \<times> int \<times> mpi_tool) option"
where
  "MPI_Waitany_fortran F lib ret out t1 t2 array_of_requests status s = do {
     let temp_array_of_requests = map (Request_f2c F) array_of_requests;
     (_, s) \<leftarrow> MPI_Waitany lib (\<lambda>_. out) t1 t2 temp_array_of_requests s;
     let (_, indx, st) = out;
     Some (if indx \<noteq> MPI_UNDEFINED F
           then (array_of_requests, indx + 1, put_status F st status, ret, s)
           else (array_of_requests, indx, status, ret, s)) }"

definition fortran_indices :: "fortran_lib \<Rightarrow> int \<Rightarrow> int list \<Rightarrow> int list" where
  "fortran_indices F outcount array_of_indices =
     (if outcount \<noteq> MPI_UNDEFINED F
      then map (\<lambda>i. i + 1) (take (nat outcount) array_of_indices) @ drop (nat outcount) array_of_indices
      else array_of_indices)"

text \<open>
  \<open>out\<close>: the temporary requests, \<^verbatim>\<open>*outcount\<close>, the indices and the temporary statuses after the call.
\<close>

definition MPI_Waitsome_fortran ::
  "fortran_lib \<Rightarrow> mpi_lib \<Rightarrow> int \<Rightarrow> nat list \<times> int \<times> int list \<times> MPI_Status list \<Rightarrow> time \<Rightarrow> time \<Rightarrow> int list \<Rightarrow>
     int list list option \<Rightarrow> mpi_tool \<Rightarrow> (int list \<times> int \<times> int list \<times> int list list option \<times> int \<times> mpi_tool) option"
where
  "MPI_Waitsome_fortran F lib ret out t1 t2 array_of_requests array_of_statuses s = do {
     let temp_array_of_requests = map (Request_f2c F) array_of_requests;
     let (hs, outcount, array_of_indices, temp_array_of_statuses) = out;
     (_, s) \<leftarrow> MPI_Waitsome lib (\<lambda>_. (hs, outcount, zip array_of_indices temp_array_of_statuses)) t1 t2 temp_array_of_requests s;
     Some (array_of_requests, outcount, fortran_indices F outcount array_of_indices,
           if outcount \<noteq> MPI_UNDEFINED F then put_statuses F temp_array_of_statuses array_of_statuses else array_of_statuses,
           ret, s) }"

text \<open>The status is converted whether or not the request was complete; \<open>st\<close> is the temporary status.\<close>

definition MPI_Test_fortran ::
  "fortran_lib \<Rightarrow> mpi_lib \<Rightarrow> int \<Rightarrow> nat option \<Rightarrow> MPI_Status \<Rightarrow> time \<Rightarrow> time \<Rightarrow> int \<Rightarrow> int list option \<Rightarrow> mpi_tool \<Rightarrow>
     (int \<times> bool \<times> int list option \<times> int \<times> mpi_tool) option"
where
  "MPI_Test_fortran F lib ret done_handle st t1 t2 request status s = do {
     let temp_request = Request_f2c F request;
     (temp_request, s) \<leftarrow> MPI_Test lib (\<lambda>_. map_option (\<lambda>h. (h, st)) done_handle) (status \<noteq> None) t1 t2 temp_request s;
     Some (Request_c2f F temp_request, done_handle \<noteq> None, put_status F st status, ret, s) }"

definition MPI_Testall_fortran ::
  "fortran_lib \<Rightarrow> mpi_lib \<Rightarrow> int \<Rightarrow> bool \<Rightarrow> (nat \<times> MPI_Status) list \<Rightarrow> time \<Rightarrow> time \<Rightarrow> int list \<Rightarrow> int list list option \<Rightarrow>
     mpi_tool \<Rightarrow> (int list \<times> bool \<times> int list list option \<times> int \<times> mpi_tool) option"
where
  "MPI_Testall_fortran F lib ret flag out t1 t2 array_of_requests array_of_statuses s = do {
     let temp_array_of_requests = map (Request_f2c F) array_of_requests;
     (_, s) \<leftarrow> MPI_Testall lib (\<lambda>_. if flag then Some out else None) t1 t2 temp_array_of_requests s;
     Some (array_of_requests, flag, put_statuses F (map snd out) array_of_statuses, ret, s) }"

definition MPI_Testany_fortran ::
  "fortran_lib \<Rightarrow> mpi_lib \<Rightarrow> int \<Rightarrow> bool \<Rightarrow> nat list \<times> int \<times> MPI_Status \<Rightarrow> time \<Rightarrow> time \<Rightarrow> int list \<Rightarrow> int list option \<Rightarrow>
     mpi_tool \<Rightarrow> (int list \<times> int \<times> bool \<times> int list option \<times> int \<times> mpi_tool) option"
where
  "MPI_Testany_fortran F lib ret flag out t1 t2 array_of_requests status s = do {
     let temp_array_of_requests = map (Request_f2c F) array_of_requests;
     (_, s) \<leftarrow> MPI_Testany lib (\<lambda>_. if flag then Some out else None) t1 t2 temp_array_of_requests s;
     let (_, indx, st) = out;
     Some (if indx \<noteq> MPI_UNDEFINED F
           then (array_of_requests, indx + 1, flag, put_status F st status, ret, s)
           else (array_of_requests, indx, flag, status, ret, s)) }"

definition MPI_Testsome_fortran ::
  "fortran_lib \<Rightarrow> mpi_lib \<Rightarrow> int \<Rightarrow> nat list \<times> int \<times> int list \<times> MPI_Status list \<Rightarrow> time \<Rightarrow> time \<Rightarrow> int list \<Rightarrow>
     int list list option \<Rightarrow> mpi_tool \<Rightarrow> (int list \<times> int \<times> int list \<times> int list list option \<times> int \<times> mpi_tool) option"
where
  "MPI_Testsome_fortran F lib ret out t1 t2 array_of_requests array_of_statuses s = do {
     let temp_array_of_requests = map (Request_f2c F) array_of_requests;
     let (hs, outcount, array_of_indices, temp_array_of_statuses) = out;
     (_, s) \<leftarrow> MPI_Testsome lib (\<lambda>_. (hs, outcount, zip array_of_indices temp_array_of_statuses)) t1 t2 temp_array_of_requests s;
     Some (array_of_requests, outcount, fortran_indices F outcount array_of_indices,
           if outcount \<noteq> MPI_UNDEFINED F then put_statuses F temp_array_of_statuses array_of_statuses else array_of_statuses,
           ret, s) }"

definition MPI_Win_free_fortran :: "fortran_lib \<Rightarrow> int \<Rightarrow> nat \<Rightarrow> time \<Rightarrow> time \<Rightarrow> int \<Rightarrow> mpi_tool \<Rightarrow> int \<times> int \<times> mpi_tool" where
  "MPI_Win_free_fortran F ret freed_win t1 t2 win s =
     (case MPI_Win_free t1 t2 (Win_f2c F win) s of (_, s) \<Rightarrow> (Win_c2f F freed_win, ret, s))"

definition MPI_Comm_free_fortran ::
  "fortran_lib \<Rightarrow> mpi_lib \<Rightarrow> int \<Rightarrow> time \<Rightarrow> time \<Rightarrow> int \<Rightarrow> mpi_tool \<Rightarrow> (int \<times> int \<times> mpi_tool) option"
where
  "MPI_Comm_free_fortran F lib ret t1 t2 comm s = do {
     let temp_comm = Comm_f2c F comm;
     (_, temp_comm, s) \<leftarrow> MPI_Comm_free lib t1 t2 temp_comm s;
     Some (Comm_c2f F temp_comm, ret, s) }"

text \<open>The local variable of this wrapper is not initialised.\<close>

definition MPI_Comm_disconnect_fortran ::
  "fortran_lib \<Rightarrow> mpi_lib \<Rightarrow> int \<Rightarrow> time \<Rightarrow> time \<Rightarrow> int \<Rightarrow> mpi_tool \<Rightarrow> (int \<times> int \<times> mpi_tool) option"
where
  "MPI_Comm_disconnect_fortran F lib ret t1 t2 comm s = do {
     let temp_comm = (None :: nat option);
     c \<leftarrow> temp_comm;
     (_, c, s) \<leftarrow> MPI_Comm_disconnect lib t1 t2 c s;
     Some (Comm_c2f F c, ret, s) }"

definition MPI_Session_finalize_fortran :: "fortran_lib \<Rightarrow> int \<Rightarrow> nat \<Rightarrow> time \<Rightarrow> time \<Rightarrow> int \<Rightarrow> mpi_tool \<Rightarrow> int \<times> int \<times> mpi_tool"
where
  "MPI_Session_finalize_fortran F ret freed_session t1 t2 session s =
     (case MPI_Session_finalize t1 t2 (Session_f2c F session) s of (_, s) \<Rightarrow> (Session_c2f F freed_session, ret, s))"

definition MPI_Finalize_fortran ::
  "mpi_lib \<Rightarrow> mpi_env \<Rightarrow> int \<Rightarrow> nat \<Rightarrow> time \<Rightarrow> time \<Rightarrow> time \<Rightarrow> mpi_tool \<Rightarrow> (int \<times> (out_stream \<times> line list) option \<times> mpi_tool) option"
where
  "MPI_Finalize_fortran lib env ret world t1 t2 t3 s = do {
     (r, s) \<leftarrow> MPI_Finalize lib env world t1 t2 t3 s;
     Some (ret, r, s) }"

section \<open>One request\<close>

lemma finish_request_pool:
  assumes "\<not> persistent (req_obj p s)"
  shows "\<exists>s'. finish_request lib r k p (Some st) s = Some (MPI_REQUEST_NULL lib, s') \<and> kept p s s' \<and>
           \<not> persistent (req_obj p s') \<and> predefined (rf s') = predefined (rf s) \<and>
           dpool (rf s') = sp_returnData p (dpool (rf s))"
proof -
  let ?s = "s\<lparr>rf := releaseHandle k (rf s)\<rparr>"
  obtain s' where s': "req_complete lib p (Some st) ?s = Some s'" "req_frame p ?s s'"
    using req_complete_frame [of lib p st ?s] by blast
  then have "kept p s s'" "\<not> persistent (req_obj p s')" "dpool (rf s') = dpool (rf s)" "predefined (rf s') = predefined (rf s)"
    using assms by (auto simp: req_frame_def kept_def req_obj_def releaseHandle_def)
  with s'(1) assms show ?thesis
    by (auto simp: finish_request_def req_fini_def kept_def RequestData_fini_def upd_req_def upd_obj_def req_obj_def
        returnObj_def)
qed

lemma finish_request_persistent:
  assumes "persistent (req_obj p s)"
  shows "\<exists>s'. finish_request lib r k p (Some st) s = Some (r, s') \<and> req_frame p s s'"
  using assms req_complete_frame [of lib p st s] by (auto simp: finish_request_def req_frame_def)

lemma wait_null:
  assumes "predefined (rf s) = [MPI_REQUEST_NULL lib]"
  shows "\<exists>s'. MPI_Wait lib (\<lambda>_. (h, st)) t1 t2 (MPI_REQUEST_NULL lib) s = Some (MPI_REQUEST_NULL lib, s') \<and> rf s' = rf s"
proof -
  let ?w = "count_wait (mpiTimer_begin False t1 s)"
  obtain k where "rf_getHandle (MPI_REQUEST_NULL lib) ?w = Some k"
    using getHandle_ok [of ?w lib "MPI_REQUEST_NULL lib"] assms by (auto simp: valid_req_def)
  then show ?thesis
    by (simp add: MPI_Wait_def set_handle_def completeRequest_def ptr_completeRequest_def int_completeRequest_def Let_def)
qed

lemma wait_request:
  assumes "predefined (rf s) = [MPI_REQUEST_NULL lib]" and "r \<noteq> MPI_REQUEST_NULL lib" and "req_of r s = Some p"
  shows "\<exists>s'. MPI_Wait lib (\<lambda>_. (h, st)) t1 t2 r s =
             Some (if persistent (req_obj p s) then r else MPI_REQUEST_NULL lib, s') \<and>
           predefined (rf s') = predefined (rf s) \<and>
           dpool (rf s') = (if persistent (req_obj p s) then dpool (rf s) else sp_returnData p (dpool (rf s)))"
proof -
  let ?w = "count_wait (mpiTimer_begin False t1 s)" and ?g = "\<lambda>d. d\<lparr>req_handle := h\<rparr>"
  let ?u = "upd_req p ?g ?w"
  have r: "req_of r ?w = Some p" using assms(3) by (simp add: wrapper_rf)
  have u: "req_of r ?u = Some p" using r req_of_kept [OF kept_upd, of r p ?g ?w] by simp
  obtain k where k: "rf_getHandle r ?w = Some k"
    using getHandle_ok [of ?w lib r] assms(1) r by (auto simp: valid_req_def)
  obtain i where i: "completeRequest lib r (Some st) ?u = finish_request lib r i p (Some st) ?u"
    using assms(2) u by (cases "ptr_handles ?u")
      (auto simp: completeRequest_def ptr_completeRequest_def int_completeRequest_def req_of_def)
  have f: "persistent (req_obj p ?u) = persistent (req_obj p s)" "dpool (rf ?u) = dpool (rf s)"
      "predefined (rf ?u) = predefined (rf s)"
    by (simp_all add: wrapper_rf) (simp_all add: upd_req_def upd_obj_def)
  have "\<exists>s'. finish_request lib r i p (Some st) ?u = Some (if persistent (req_obj p s) then r else MPI_REQUEST_NULL lib, s') \<and>
           predefined (rf s') = predefined (rf s) \<and>
           dpool (rf s') = (if persistent (req_obj p s) then dpool (rf s) else sp_returnData p (dpool (rf s)))"
    using finish_request_pool [of p ?u lib r i st] finish_request_persistent [of p ?u lib r i st]
    unfolding f by (cases "persistent (req_obj p s)") (auto simp: req_frame_def f)
  then obtain s' where s': "completeRequest lib r (Some st) ?u = Some (if persistent (req_obj p s) then r else MPI_REQUEST_NULL lib, s')"
      "predefined (rf s') = predefined (rf s)"
      "dpool (rf s') = (if persistent (req_obj p s) then dpool (rf s) else sp_returnData p (dpool (rf s)))"
    unfolding i by blast
  have "set_handle lib r h ?w = Some ?u" using assms(2) r by (simp add: set_handle_def)
  with k s' show ?thesis by (simp add: MPI_Wait_def)
qed

text \<open>
  C38: \<^verbatim>\<open>MPI_Wait\<close> from Fortran on a request of the tool, whatever the handle conversions of the library do with
  the handles of the tool: it returns and stores the conversion of what the C wrapper left in the request: the same C
  handle if the request is persistent, otherwise the null request, and then its object is back in the pool.  The status
  is stored exactly when the application passed one.  A second \<^verbatim>\<open>MPI_Wait\<close> on the stored null request, which MPI
  converts back to the null request, changes no request and does not give the object back again.
\<close>

theorem fortran_wait_updates_handle:
  assumes "predefined (rf s) = [MPI_REQUEST_NULL lib]" and "Request_f2c F fr \<noteq> MPI_REQUEST_NULL lib"
    and "req_of (Request_f2c F fr) s = Some p"
    and null: "Request_f2c F (Request_c2f F (MPI_REQUEST_NULL lib)) = MPI_REQUEST_NULL lib"
  shows "\<exists>s1. MPI_Wait_fortran F lib ret (h, st) t1 t2 fr status s =
             Some (Request_c2f F (if persistent (req_obj p s) then Request_f2c F fr else MPI_REQUEST_NULL lib),
                   map_option (\<lambda>_. Status_c2f F st) status, ret, s1) \<and>
           dpool (rf s1) = (if persistent (req_obj p s) then dpool (rf s) else sp_returnData p (dpool (rf s))) \<and>
           (\<exists>s2. MPI_Wait_fortran F lib ret (h', st') t3 t4 (Request_c2f F (MPI_REQUEST_NULL lib)) status s1 =
                Some (Request_c2f F (MPI_REQUEST_NULL lib), map_option (\<lambda>_. Status_c2f F st') status, ret, s2) \<and>
              rf s2 = rf s1)"
proof -
  obtain s1 where s1: "MPI_Wait lib (\<lambda>_. (h, st)) t1 t2 (Request_f2c F fr) s =
        Some (if persistent (req_obj p s) then Request_f2c F fr else MPI_REQUEST_NULL lib, s1)"
      "predefined (rf s1) = [MPI_REQUEST_NULL lib]"
      "dpool (rf s1) = (if persistent (req_obj p s) then dpool (rf s) else sp_returnData p (dpool (rf s)))"
    using wait_request [OF assms(1-3), of h st t1 t2] assms(1) by auto
  obtain s2 where "MPI_Wait lib (\<lambda>_. (h', st')) t3 t4 (MPI_REQUEST_NULL lib) s1 = Some (MPI_REQUEST_NULL lib, s2)" "rf s2 = rf s1"
    using wait_null [OF s1(2), of h' st' t3 t4] by blast
  then show ?thesis
    using s1 null by (auto simp: MPI_Wait_fortran_def put_status_def split: option.splits)
qed

section \<open>Arrays of requests\<close>

lemma waitall_one:
  assumes "predefined (rf s) = [MPI_REQUEST_NULL lib]" and "r \<noteq> MPI_REQUEST_NULL lib" and "req_of r s = Some p"
    and "\<not> persistent (req_obj p s)"
  shows "\<exists>s'. MPI_Waitall lib (\<lambda>_. [(h, st)]) t1 t2 [r] s = Some ([MPI_REQUEST_NULL lib], s') \<and>
           predefined (rf s') = predefined (rf s) \<and> req_of r s' = Some p \<and> \<not> persistent (req_obj p s') \<and>
           dpool (rf s') = sp_returnData p (dpool (rf s))"
proof -
  let ?w = "count_wait (mpiTimer_begin False t1 s)" and ?u = "upd_req p (\<lambda>d. d\<lparr>req_handle := h\<rparr>)"
  have r: "req_of r ?w = Some p" "\<not> persistent (req_obj p ?w)" using assms(3,4) by (simp_all add: wrapper_rf)
  obtain k where k: "rf_getHandle r ?w = Some k"
    using getHandle_ok [of ?w lib r] assms(1) r(1) by (auto simp: valid_req_def)
  obtain i where i: "completeRequest_handle lib r h (Some st) ?w = finish_request lib r i p (Some st) (?u ?w)"
    using assms(2) r(1) by (cases "ptr_handles ?w")
      (auto simp: completeRequest_handle_def ptr_completeRequest_handle_def int_completeRequest_handle_def
        ptr_completeRequest_def req_of_def)
  have "\<not> persistent (req_obj p (?u ?w))" using r(2) by simp
  from finish_request_pool [OF this, of lib r i st] obtain s' where
    s': "finish_request lib r i p (Some st) (?u ?w) = Some (MPI_REQUEST_NULL lib, s')" "kept p (?u ?w) s'"
      "\<not> persistent (req_obj p s')" "predefined (rf s') = predefined (rf s)" "dpool (rf s') = sp_returnData p (dpool (rf s))"
    by (auto simp: upd_req_def upd_obj_def)
  have "req_of r s' = Some p"
    using r(1) req_of_kept [OF s'(2)] req_of_kept [OF kept_upd, of r p "\<lambda>d. d\<lparr>req_handle := h\<rparr>" ?w] by simp
  with s' i k show ?thesis
    by (auto simp: MPI_Waitall_def req_of_def req_obj_def)
qed

text \<open>
  C39: \<^verbatim>\<open>MPI_Waitall\<close> from Fortran does not store the handles back: the application's array still holds the
  handle of a request that is complete, where MPI promises the null request.  A second \<^verbatim>\<open>MPI_Waitall\<close> on
  the array, which would have nothing to do, puts the object of the request into the pool a second
  time, from where two later requests get the same object.
\<close>

theorem fortran_waitall_stale_handles:
  assumes "predefined (rf s) = [MPI_REQUEST_NULL lib]" and "Request_f2c F fr \<noteq> MPI_REQUEST_NULL lib"
    and "req_of (Request_f2c F fr) s = Some p" and "\<not> persistent (req_obj p s)"
  shows "\<exists>s1 s2. MPI_Waitall_fortran F lib ret [(h, st)] t1 t2 [fr] None s = Some ([fr], None, ret, s1) \<and>
           MPI_Waitall_fortran F lib ret [(h', st')] t3 t4 [fr] None s1 = Some ([fr], None, ret, s2) \<and>
           \<not> distinct (dataPointer (dpool (rf s2)))"
proof -
  obtain s1 where s1: "MPI_Waitall lib (\<lambda>_. [(h, st)]) t1 t2 [Request_f2c F fr] s = Some ([MPI_REQUEST_NULL lib], s1)"
      "predefined (rf s1) = [MPI_REQUEST_NULL lib]" "req_of (Request_f2c F fr) s1 = Some p" "\<not> persistent (req_obj p s1)"
      "dpool (rf s1) = sp_returnData p (dpool (rf s))"
    using waitall_one [OF assms, of h st t1 t2] assms(1) by auto
  obtain s2 where s2: "MPI_Waitall lib (\<lambda>_. [(h', st')]) t3 t4 [Request_f2c F fr] s1 = Some ([MPI_REQUEST_NULL lib], s2)"
      "dpool (rf s2) = sp_returnData p (dpool (rf s1))"
    using waitall_one [OF s1(2) assms(2) s1(3,4), of h' st' t3 t4] by auto
  have "\<not> distinct (dataPointer (dpool (rf s2)))" by (simp add: s2(2) s1(5) sp_returnData_def)
  with s1(1) s2(1) show ?thesis by (auto simp: MPI_Waitall_fortran_def put_statuses_def)
qed

definition example_fortran :: fortran_lib where
  "example_fortran = \<lparr>Request_f2c = nat, Request_c2f = int, Comm_f2c = nat, Comm_c2f = int, Win_f2c = nat, Win_c2f = int,
     Session_f2c = nat, Session_c2f = int, Status_c2f = (\<lambda>st. [MPI_SOURCE st, MPI_TAG st]), MPI_UNDEFINED = - 32766\<rparr>"

theorem fortran_wait_updates_handle_witness:
  "\<exists>s1. MPI_Wait_fortran example_fortran example_lib 0 (1000, \<lparr>MPI_SOURCE = 3, MPI_TAG = 7\<rparr>) 1 2 0 (Some [0, 0]) (example_requests False)
       = Some (1000, Some [3, 7], 0, s1) \<and>
     (\<exists>s2. MPI_Wait_fortran example_fortran example_lib 0 (1000, \<lparr>MPI_SOURCE = 3, MPI_TAG = 7\<rparr>) 3 4 1000 (Some [0, 0]) s1
       = Some (1000, Some [3, 7], 0, s2) \<and> rf s2 = rf s1)"
  using fortran_wait_updates_handle [of "example_requests False" example_lib example_fortran 0 1 0 1000 "\<lparr>MPI_SOURCE = 3, MPI_TAG = 7\<rparr>" 1 2
      "Some [0, 0]" 1000 "\<lparr>MPI_SOURCE = 3, MPI_TAG = 7\<rparr>" 3 4]
  by (auto simp: example_fortran_def)

theorem fortran_waitall_stale_handles_witness:
  "\<exists>s1 s2. MPI_Waitall_fortran example_fortran example_lib 0 [(1000, \<lparr>MPI_SOURCE = 3, MPI_TAG = 7\<rparr>)] 1 2 [0] None (example_requests False)
       = Some ([0], None, 0, s1) \<and>
     MPI_Waitall_fortran example_fortran example_lib 0 [(1000, \<lparr>MPI_SOURCE = 3, MPI_TAG = 7\<rparr>)] 3 4 [0] None s1 = Some ([0], None, 0, s2) \<and>
     \<not> distinct (dataPointer (dpool (rf s2)))"
  using fortran_waitall_stale_handles [of "example_requests False" example_lib example_fortran 0 1 0 1000 "\<lparr>MPI_SOURCE = 3, MPI_TAG = 7\<rparr>" 1 2
      1000 "\<lparr>MPI_SOURCE = 3, MPI_TAG = 7\<rparr>" 3 4]
  by (simp add: example_fortran_def)

end
