(* ===== verification/Cpt_Offsets.thy ===== *)
theory Cpt_Offsets
  imports Cpt_Measure
begin

text \<open>
  The timer offsets of \<^verbatim>\<open>src/mpi-critical.cpp\<close>: process 0 asks every other process for its time \<^verbatim>\<open>NTIMES\<close>
  times, takes the middle of each round trip as the moment of the answer, and uses the median of the
  differences as the offset of that process.
\<close>

section \<open>The protocol\<close>

definition NTIMES :: nat where "NTIMES = 19"

text \<open>One round with a process: \<^verbatim>\<open>localTime\<close>, \<^verbatim>\<open>remoteTime\<close> and \<^verbatim>\<open>endTime\<close> as process 0 sees them.\<close>

definition offset_sample :: "time \<times> time \<times> time \<Rightarrow> time" where
  "offset_sample p = (case p of (localTime, remoteTime, endTime) \<Rightarrow> remoteTime - (localTime + endTime) / 2)"

text \<open>\<open>ping j i\<close> is round \<open>i\<close> with process \<open>j\<close>; the entries of process 0 keep their initial value.\<close>

definition allTimes :: "nat \<Rightarrow> (nat \<Rightarrow> nat \<Rightarrow> time \<times> time \<times> time) \<Rightarrow> time list" where
  "allTimes n ping =
     map (\<lambda>k. if k div NTIMES = 0 then 0 else offset_sample (ping (k div NTIMES) (k mod NTIMES))) [0..<n * NTIMES]"

definition timeOffset :: "time list \<Rightarrow> time list \<Rightarrow> nat \<Rightarrow> time" where
  "timeOffset ts localTimes i =
     sort (map2 (\<lambda>x l. x - l) (take NTIMES (drop (i * NTIMES) ts)) localTimes) ! (NTIMES div 2)"

definition timeOffsets :: "nat \<Rightarrow> (nat \<Rightarrow> nat \<Rightarrow> time \<times> time \<times> time) \<Rightarrow> time list" where
  "timeOffsets n ping = map (timeOffset (allTimes n ping) (replicate NTIMES 0)) [0..<n]"

text \<open>
  \<open>received\<close> is what the broadcast of process 0 brings to the others.  The result is the vector
  \<^verbatim>\<open>timeOffsets\<close>, which process 0 shifts for its verbose output, and the state of the tool.
\<close>

definition init_timer_offsets ::
  "nat \<Rightarrow> nat \<Rightarrow> (nat \<Rightarrow> nat \<Rightarrow> time \<times> time \<times> time) \<Rightarrow> time list \<Rightarrow> tool \<Rightarrow> time list \<times> tool"
where
  "init_timer_offsets n rk ping received s =
     (let offs = (if rk = 0 then timeOffsets n ping else received);
          localTime = offs ! rk;
          s = s\<lparr>localTimeOffset := localTime\<rparr>
      in (if rk = 0 \<and> verbose (flags s) then map (\<lambda>v. v - localTime) offs else offs, s))"

definition init_processes ::
  "nat \<Rightarrow> nat \<Rightarrow> (nat \<Rightarrow> nat \<Rightarrow> time \<times> time \<times> time) \<Rightarrow> time list \<Rightarrow> time \<Rightarrow> nat \<Rightarrow> tool \<Rightarrow> tool"
where
  "init_processes n rk ping received now self s =
     (let s = s\<lparr>myProcId := int rk\<rparr>;
          s = snd (init_timer_offsets n rk ping received s)
      in if \<not> running (flags s) then startTool now False STATE_MPI self s else s)"

section \<open>The median\<close>

lemma median_within:
  fixes ys :: "time list"
  assumes "sorted ys" and "length ys = NTIMES" and "NTIMES < 2 * length (filter (\<lambda>y. a \<le> y \<and> y \<le> b) ys)"
  shows "a \<le> ys ! (NTIMES div 2) \<and> ys ! (NTIMES div 2) \<le> b"
proof -
  let ?I = "{i. i < NTIMES \<and> (a \<le> ys ! i \<and> ys ! i \<le> b)}" and ?m = "NTIMES div 2"
  have c: "9 < card ?I" using assms(2,3) by (simp add: length_filter_conv_card NTIMES_def)
  have mono: "ys ! i \<le> ys ! j" if "i \<le> j" "j < NTIMES" for i j using assms(1,2) that by (simp add: sorted_nth_mono)
  have "a \<le> ys ! ?m"
  proof (rule ccontr)
    assume "\<not> a \<le> ys ! ?m"
    then have "9 < i" if "i \<in> ?I" for i using that mono [of i ?m] by (force simp: NTIMES_def not_le)
    then have "?I \<subseteq> {10..<19}" by (fastforce simp: NTIMES_def)
    then have "card ?I \<le> 9" using card_mono [of "{10..<19}" ?I] by simp
    with c show False by simp
  qed
  moreover have "ys ! ?m \<le> b"
  proof (rule ccontr)
    assume "\<not> ys ! ?m \<le> b"
    then have "i < 9" if "i \<in> ?I" for i using that mono [of ?m i] by (force simp: NTIMES_def not_le)
    then have "?I \<subseteq> {0..<9}" by fastforce
    then have "card ?I \<le> 9" using card_mono [of "{0..<9}" ?I] by simp
    with c show False by simp
  qed
  ultimately show ?thesis by simp
qed

lemma allTimes_segment:
  assumes "j < n"
  shows "take NTIMES (drop (j * NTIMES) (allTimes n ping)) =
           map (\<lambda>i. if j = 0 then 0 else offset_sample (ping j i)) [0..<NTIMES]"
proof -
  have le: "j * NTIMES + NTIMES \<le> n * NTIMES" using assms by (metis Suc_leI add.commute mult_Suc mult_le_mono1)
  then have "j * NTIMES \<le> n * NTIMES" and lt: "i < NTIMES \<Longrightarrow> j * NTIMES + i < n * NTIMES" for i by linarith+
  then show ?thesis using le by (intro nth_equalityI) (simp_all add: allTimes_def nth_drop)
qed

lemma timeOffset_sort:
  assumes "j < n"
  shows "timeOffsets n ping ! j =
           sort (map (\<lambda>i. if j = 0 then 0 else offset_sample (ping j i)) [0..<NTIMES]) ! (NTIMES div 2)"
proof -
  have "map2 (\<lambda>x l. x - l) xs (replicate (length xs) 0) = xs" for xs :: "time list"
    by (induction xs) simp_all
  from this [of "map (\<lambda>i. if j = 0 then 0 else offset_sample (ping j i)) [0..<NTIMES]"] assms show ?thesis
    by (simp add: timeOffsets_def timeOffset_def allTimes_segment)
qed

text \<open>
  C25: The clock of process \<open>j\<close> runs \<open>\<delta>\<close> ahead of that of process 0: in round \<open>i\<close> it answered at the moment
  \<open>x i\<close> of process 0 within the round trip.  If more than half of the rounds took at most \<open>2 * \<epsilon>\<close>, the
  offset is within \<open>\<epsilon>\<close> of \<open>\<delta>\<close>, whatever the other rounds measured, and so is the time that process \<open>j\<close>
  uses from then on of the time of process 0.
\<close>

theorem timer_offset_accurate:
  assumes "0 < j" and "j < n"
    and "\<forall>i < NTIMES. case ping j i of (l, r, e) \<Rightarrow> l \<le> x i \<and> x i \<le> e \<and> r = x i + \<delta>"
    and "NTIMES < 2 * card {i. i < NTIMES \<and> (case ping j i of (l, r, e) \<Rightarrow> e - l \<le> 2 * \<epsilon>)}"
  shows "\<bar>timeOffsets n ping ! j - \<delta>\<bar> \<le> \<epsilon> \<and>
         \<bar>getTime sec nsec (snd (init_timer_offsets n j ping (timeOffsets n ping) s)) -
          (of_int (sec - startTimeOffset s) + of_int nsec / 10 ^ 9 - \<delta>)\<bar> \<le> \<epsilon>"
proof -
  let ?xs = "map (\<lambda>i. offset_sample (ping j i)) [0..<NTIMES]" and ?P = "\<lambda>y. \<delta> - \<epsilon> \<le> y \<and> y \<le> \<delta> + \<epsilon>"
  let ?I = "{i. i < NTIMES \<and> (case ping j i of (l, r, e) \<Rightarrow> e - l \<le> 2 * \<epsilon>)}"
  have near: "?P (offset_sample (ping j i))" if "i \<in> ?I" for i
  proof -
    obtain l r e where q: "ping j i = (l, r, e)" by (metis prod_cases3)
    with that assms(3) have "l \<le> x i" "x i \<le> e" "r = x i + \<delta>" "e - l \<le> 2 * \<epsilon>" by auto
    then show ?thesis by (simp add: q offset_sample_def field_simps)
  qed
  have "length (filter ?P (sort ?xs)) = length (filter ?P ?xs)" by (simp add: filter_sort)
  also have "\<dots> = card {i. i < NTIMES \<and> ?P (offset_sample (ping j i))}"
    by (simp add: length_filter_conv_card cong: conj_cong)
  also have "\<dots> \<ge> card ?I"
  proof (rule card_mono)
    show "?I \<subseteq> {i. i < NTIMES \<and> ?P (offset_sample (ping j i))}"
    proof
      fix i
      assume i: "i \<in> ?I"
      from near [OF i] i show "i \<in> {i. i < NTIMES \<and> ?P (offset_sample (ping j i))}" by simp
    qed
  qed simp
  finally have "card ?I \<le> length (filter ?P (sort ?xs))" .
  with assms(4) have "NTIMES < 2 * length (filter ?P (sort ?xs))" by linarith
  from median_within [OF sorted_sort _ this]
  have "?P (timeOffsets n ping ! j)" using assms(1,2) by (simp add: timeOffset_sort)
  then show ?thesis using assms(1)
    by (auto simp: init_timer_offsets_def getTime_def Let_def abs_le_iff algebra_simps)
qed

text \<open>
  Nineteen rounds with process 1, whose clock is 5 ahead: each answers at once, and the first nine then
  need 100 for the way back, the others 2.
\<close>

theorem timer_offset_accurate_witness:
  "\<bar>timeOffsets 2 (\<lambda>_ i. (0, 5, if i < 9 then 100 else 2)) ! 1 - 5\<bar> \<le> 1"
proof -
  have "{i. i < NTIMES \<and> (case (0::time, 5::time, if i < 9 then 100 else 2) of (l, r, e) \<Rightarrow> e - l \<le> 2 * 1)} = {9..<19}"
    by (auto simp: NTIMES_def)
  then show ?thesis
    using timer_offset_accurate [where j = 1 and n = 2 and ping = "\<lambda>_ i. (0, 5, if i < 9 then 100 else 2)" and
        x = "\<lambda>_. 0" and \<delta> = 5 and \<epsilon> = 1 and sec = 0 and nsec = 0 and s = example_tool]
    by (simp add: NTIMES_def)
qed

end
