(* ===== verification/Cpt_Kmpc.thy ===== *)
theory Cpt_Kmpc
  imports Cpt_Measure "HOL-Library.Monad_Syntax"
begin

text \<open>
  \<^verbatim>\<open>src/kmpc-intercept.c\<close>: the library that intercepts entry points of the LLVM OpenMP runtime.  Each entry
  point switches the clock of the thread to OpenMP, looks up the runtime's function of the same name
  on the first call and keeps it in a static variable, calls it with the same arguments, switches
  the clock back and returns what the runtime returned.

  The runtime and the dynamic linker are parameters: \<open>dlsym_next\<close> gives the address for a name (0 if there
  is none), \<open>kcall\<close> what a call of an address does.  Reading a null \<^verbatim>\<open>thread_local_clock\<close> and calling a
  null pointer are \<^const>\<open>None\<close>.  The part of the file that is compiled out is not modelled.
\<close>

section \<open>Entry points in general\<close>

type_synonym u32 = "32 word"
type_synonym i64 = "64 word"

datatype kmp_val =
    CInt i32 | Int32 i32 | Uint32 u32 | Int64 i64 | Uint64 u64 | Size u64 | Sched i32 | Ptr nat | Void

text \<open>\<open>lookups\<close> records the calls of \<^verbatim>\<open>dlsym\<close>; \<open>fn_ptrs\<close> are the static variables.\<close>

record 'r kmp_state =
  kclock :: "threadClock option"
  fn_ptrs :: "string \<Rightarrow> nat"
  lookups :: "string list"
  omp_runtime :: 'r

record 'r kmp_env =
  krun :: bool
  dlsym_next :: "string \<Rightarrow> nat"
  kcall :: "nat \<Rightarrow> kmp_val list \<Rightarrow> 'r kmp_state \<Rightarrow> (kmp_val \<times> 'r kmp_state) option"

definition ENTEROMP :: "'r kmp_env \<Rightarrow> time \<Rightarrow> 'r kmp_state \<Rightarrow> 'r kmp_state option" where
  "ENTEROMP E now s = do { c \<leftarrow> kclock s; Some (s\<lparr>kclock := Some (enterOpenMP (krun E) now c)\<rparr>) }"

definition EXITOMP :: "'r kmp_env \<Rightarrow> time \<Rightarrow> 'r kmp_state \<Rightarrow> 'r kmp_state option" where
  "EXITOMP E now s = do { c \<leftarrow> kclock s; Some (s\<lparr>kclock := Some (exitOpenMP (krun E) now c)\<rparr>) }"

definition resolve :: "'r kmp_env \<Rightarrow> string \<Rightarrow> 'r kmp_state \<Rightarrow> 'r kmp_state" where
  "resolve E name s =
     (if fn_ptrs s name = 0
      then s\<lparr>fn_ptrs := (fn_ptrs s)(name := dlsym_next E name), lookups := lookups s @ [name]\<rparr> else s)"

text \<open>The body of an entry point, which enters at \<open>t1\<close> and leaves at \<open>t2\<close>.\<close>

definition intercept ::
  "string \<Rightarrow> kmp_val list \<Rightarrow> 'r kmp_env \<Rightarrow> time \<Rightarrow> time \<Rightarrow> 'r kmp_state \<Rightarrow> (kmp_val \<times> 'r kmp_state) option"
where
  "intercept name args E t1 t2 s = do {
     s \<leftarrow> ENTEROMP E t1 s;
     let s = resolve E name s;
     (retval, s) \<leftarrow> (if fn_ptrs s name = 0 then None else kcall E (fn_ptrs s name) args s);
     s \<leftarrow> EXITOMP E t2 s;
     Some (retval, s) }"

definition intercept_void ::
  "string \<Rightarrow> kmp_val list \<Rightarrow> 'r kmp_env \<Rightarrow> time \<Rightarrow> time \<Rightarrow> 'r kmp_state \<Rightarrow> (kmp_val \<times> 'r kmp_state) option"
where
  "intercept_void name args E t1 t2 s = do { (_, s) \<leftarrow> intercept name args E t1 t2 s; Some (Void, s) }"

section \<open>The entry points\<close>

definition kmpc_dispatch_init_4 ::
  "nat \<Rightarrow> i32 \<Rightarrow> i32 \<Rightarrow> i32 \<Rightarrow> i32 \<Rightarrow> i32 \<Rightarrow> i32 \<Rightarrow> 'r kmp_env \<Rightarrow> time \<Rightarrow> time \<Rightarrow> 'r kmp_state \<Rightarrow> (kmp_val \<times> 'r kmp_state) option"
where
  "kmpc_dispatch_init_4 loc gtid schedule lb ub st chunk =
     intercept_void ''__kmpc_dispatch_init_4'' [Ptr loc, Int32 gtid, Sched schedule, Int32 lb, Int32 ub, Int32 st, Int32 chunk]"

definition kmpc_dispatch_init_4u ::
  "nat \<Rightarrow> i32 \<Rightarrow> i32 \<Rightarrow> u32 \<Rightarrow> u32 \<Rightarrow> i32 \<Rightarrow> i32 \<Rightarrow> 'r kmp_env \<Rightarrow> time \<Rightarrow> time \<Rightarrow> 'r kmp_state \<Rightarrow> (kmp_val \<times> 'r kmp_state) option"
where
  "kmpc_dispatch_init_4u loc gtid schedule lb ub st chunk =
     intercept_void ''__kmpc_dispatch_init_4u'' [Ptr loc, Int32 gtid, Sched schedule, Uint32 lb, Uint32 ub, Int32 st, Int32 chunk]"

definition kmpc_dispatch_init_8 ::
  "nat \<Rightarrow> i32 \<Rightarrow> i32 \<Rightarrow> i64 \<Rightarrow> i64 \<Rightarrow> i64 \<Rightarrow> i64 \<Rightarrow> 'r kmp_env \<Rightarrow> time \<Rightarrow> time \<Rightarrow> 'r kmp_state \<Rightarrow> (kmp_val \<times> 'r kmp_state) option"
where
  "kmpc_dispatch_init_8 loc gtid schedule lb ub st chunk =
     intercept_void ''__kmpc_dispatch_init_8'' [Ptr loc, Int32 gtid, Sched schedule, Int64 lb, Int64 ub, Int64 st, Int64 chunk]"

definition kmpc_dispatch_init_8u ::
  "nat \<Rightarrow> i32 \<Rightarrow> i32 \<Rightarrow> u64 \<Rightarrow> u64 \<Rightarrow> i64 \<Rightarrow> i64 \<Rightarrow> 'r kmp_env \<Rightarrow> time \<Rightarrow> time \<Rightarrow> 'r kmp_state \<Rightarrow> (kmp_val \<times> 'r kmp_state) option"
where
  "kmpc_dispatch_init_8u loc gtid schedule lb ub st chunk =
     intercept_void ''__kmpc_dispatch_init_8u'' [Ptr loc, Int32 gtid, Sched schedule, Uint64 lb, Uint64 ub, Int64 st, Int64 chunk]"

definition kmpc_dispatch_next_4 ::
  "nat \<Rightarrow> i32 \<Rightarrow> nat \<Rightarrow> nat \<Rightarrow> nat \<Rightarrow> nat \<Rightarrow> 'r kmp_env \<Rightarrow> time \<Rightarrow> time \<Rightarrow> 'r kmp_state \<Rightarrow> (kmp_val \<times> 'r kmp_state) option"
where
  "kmpc_dispatch_next_4 loc gtid p_last p_lb p_ub p_st =
     intercept ''__kmpc_dispatch_next_4'' [Ptr loc, Int32 gtid, Ptr p_last, Ptr p_lb, Ptr p_ub, Ptr p_st]"

definition kmpc_dispatch_next_4u ::
  "nat \<Rightarrow> i32 \<Rightarrow> nat \<Rightarrow> nat \<Rightarrow> nat \<Rightarrow> nat \<Rightarrow> 'r kmp_env \<Rightarrow> time \<Rightarrow> time \<Rightarrow> 'r kmp_state \<Rightarrow> (kmp_val \<times> 'r kmp_state) option"
where
  "kmpc_dispatch_next_4u loc gtid p_last p_lb p_ub p_st =
     intercept ''__kmpc_dispatch_next_4u'' [Ptr loc, Int32 gtid, Ptr p_last, Ptr p_lb, Ptr p_ub, Ptr p_st]"

definition kmpc_dispatch_next_8 ::
  "nat \<Rightarrow> i32 \<Rightarrow> nat \<Rightarrow> nat \<Rightarrow> nat \<Rightarrow> nat \<Rightarrow> 'r kmp_env \<Rightarrow> time \<Rightarrow> time \<Rightarrow> 'r kmp_state \<Rightarrow> (kmp_val \<times> 'r kmp_state) option"
where
  "kmpc_dispatch_next_8 loc gtid p_last p_lb p_ub p_st =
     intercept ''__kmpc_dispatch_next_8'' [Ptr loc, Int32 gtid, Ptr p_last, Ptr p_lb, Ptr p_ub, Ptr p_st]"

definition kmpc_dispatch_next_8u ::
  "nat \<Rightarrow> i32 \<Rightarrow> nat \<Rightarrow> nat \<Rightarrow> nat \<Rightarrow> nat \<Rightarrow> 'r kmp_env \<Rightarrow> time \<Rightarrow> time \<Rightarrow> 'r kmp_state \<Rightarrow> (kmp_val \<times> 'r kmp_state) option"
where
  "kmpc_dispatch_next_8u loc gtid p_last p_lb p_ub p_st =
     intercept ''__kmpc_dispatch_next_8u'' [Ptr loc, Int32 gtid, Ptr p_last, Ptr p_lb, Ptr p_ub, Ptr p_st]"

definition kmpc_dispatch_fini_4 ::
  "nat \<Rightarrow> i32 \<Rightarrow> 'r kmp_env \<Rightarrow> time \<Rightarrow> time \<Rightarrow> 'r kmp_state \<Rightarrow> (kmp_val \<times> 'r kmp_state) option"
where
  "kmpc_dispatch_fini_4 loc gtid =
     intercept_void ''__kmpc_dispatch_fini_4'' [Ptr loc, Int32 gtid]"

definition kmpc_dispatch_fini_8 ::
  "nat \<Rightarrow> i32 \<Rightarrow> 'r kmp_env \<Rightarrow> time \<Rightarrow> time \<Rightarrow> 'r kmp_state \<Rightarrow> (kmp_val \<times> 'r kmp_state) option"
where
  "kmpc_dispatch_fini_8 loc gtid =
     intercept_void ''__kmpc_dispatch_fini_8'' [Ptr loc, Int32 gtid]"

definition kmpc_dispatch_fini_4u ::
  "nat \<Rightarrow> i32 \<Rightarrow> 'r kmp_env \<Rightarrow> time \<Rightarrow> time \<Rightarrow> 'r kmp_state \<Rightarrow> (kmp_val \<times> 'r kmp_state) option"
where
  "kmpc_dispatch_fini_4u loc gtid =
     intercept_void ''__kmpc_dispatch_fini_4u'' [Ptr loc, Int32 gtid]"

definition kmpc_dispatch_fini_8u ::
  "nat \<Rightarrow> i32 \<Rightarrow> 'r kmp_env \<Rightarrow> time \<Rightarrow> time \<Rightarrow> 'r kmp_state \<Rightarrow> (kmp_val \<times> 'r kmp_state) option"
where
  "kmpc_dispatch_fini_8u loc gtid =
     intercept_void ''__kmpc_dispatch_fini_8u'' [Ptr loc, Int32 gtid]"

definition kmpc_dispatch_deinit ::
  "nat \<Rightarrow> i32 \<Rightarrow> 'r kmp_env \<Rightarrow> time \<Rightarrow> time \<Rightarrow> 'r kmp_state \<Rightarrow> (kmp_val \<times> 'r kmp_state) option"
where
  "kmpc_dispatch_deinit loc gtid =
     intercept_void ''__kmpc_dispatch_deinit'' [Ptr loc, Int32 gtid]"

definition kmpc_for_static_init_4 ::
  "nat \<Rightarrow> i32 \<Rightarrow> i32 \<Rightarrow> nat \<Rightarrow> nat \<Rightarrow> nat \<Rightarrow> nat \<Rightarrow> i32 \<Rightarrow> i32 \<Rightarrow> 'r kmp_env \<Rightarrow> time \<Rightarrow> time \<Rightarrow> 'r kmp_state \<Rightarrow> (kmp_val \<times> 'r kmp_state) option"
where
  "kmpc_for_static_init_4 loc gtid schedtype plastiter plower pupper pstride incr chunk =
     intercept_void ''__kmpc_for_static_init_4'' [Ptr loc, Int32 gtid, Int32 schedtype, Ptr plastiter, Ptr plower, Ptr pupper, Ptr pstride, Int32 incr, Int32 chunk]"

definition kmpc_for_static_init_4u ::
  "nat \<Rightarrow> i32 \<Rightarrow> i32 \<Rightarrow> nat \<Rightarrow> nat \<Rightarrow> nat \<Rightarrow> nat \<Rightarrow> i32 \<Rightarrow> i32 \<Rightarrow> 'r kmp_env \<Rightarrow> time \<Rightarrow> time \<Rightarrow> 'r kmp_state \<Rightarrow> (kmp_val \<times> 'r kmp_state) option"
where
  "kmpc_for_static_init_4u loc gtid schedtype plastiter plower pupper pstride incr chunk =
     intercept_void ''__kmpc_for_static_init_4u'' [Ptr loc, Int32 gtid, Int32 schedtype, Ptr plastiter, Ptr plower, Ptr pupper, Ptr pstride, Int32 incr, Int32 chunk]"

definition kmpc_for_static_init_8 ::
  "nat \<Rightarrow> i32 \<Rightarrow> i32 \<Rightarrow> nat \<Rightarrow> nat \<Rightarrow> nat \<Rightarrow> nat \<Rightarrow> i64 \<Rightarrow> i64 \<Rightarrow> 'r kmp_env \<Rightarrow> time \<Rightarrow> time \<Rightarrow> 'r kmp_state \<Rightarrow> (kmp_val \<times> 'r kmp_state) option"
where
  "kmpc_for_static_init_8 loc gtid schedtype plastiter plower pupper pstride incr chunk =
     intercept_void ''__kmpc_for_static_init_8'' [Ptr loc, Int32 gtid, Int32 schedtype, Ptr plastiter, Ptr plower, Ptr pupper, Ptr pstride, Int64 incr, Int64 chunk]"

definition kmpc_for_static_init_8u ::
  "nat \<Rightarrow> i32 \<Rightarrow> i32 \<Rightarrow> nat \<Rightarrow> nat \<Rightarrow> nat \<Rightarrow> nat \<Rightarrow> i64 \<Rightarrow> i64 \<Rightarrow> 'r kmp_env \<Rightarrow> time \<Rightarrow> time \<Rightarrow> 'r kmp_state \<Rightarrow> (kmp_val \<times> 'r kmp_state) option"
where
  "kmpc_for_static_init_8u loc gtid schedtype plastiter plower pupper pstride incr chunk =
     intercept_void ''__kmpc_for_static_init_8u'' [Ptr loc, Int32 gtid, Int32 schedtype, Ptr plastiter, Ptr plower, Ptr pupper, Ptr pstride, Int64 incr, Int64 chunk]"

definition kmpc_dist_for_static_init_4 ::
  "nat \<Rightarrow> i32 \<Rightarrow> i32 \<Rightarrow> nat \<Rightarrow> nat \<Rightarrow> nat \<Rightarrow> nat \<Rightarrow> nat \<Rightarrow> i32 \<Rightarrow> i32 \<Rightarrow> 'r kmp_env \<Rightarrow> time \<Rightarrow> time \<Rightarrow> 'r kmp_state \<Rightarrow> (kmp_val \<times> 'r kmp_state) option"
where
  "kmpc_dist_for_static_init_4 loc gtid schedule plastiter plower pupper pupperD pstride incr chunk =
     intercept_void ''__kmpc_dist_for_static_init_4'' [Ptr loc, Int32 gtid, Int32 schedule, Ptr plastiter, Ptr plower, Ptr pupper, Ptr pupperD, Ptr pstride, Int32 incr, Int32 chunk]"

definition kmpc_dist_for_static_init_4u ::
  "nat \<Rightarrow> i32 \<Rightarrow> i32 \<Rightarrow> nat \<Rightarrow> nat \<Rightarrow> nat \<Rightarrow> nat \<Rightarrow> nat \<Rightarrow> i32 \<Rightarrow> i32 \<Rightarrow> 'r kmp_env \<Rightarrow> time \<Rightarrow> time \<Rightarrow> 'r kmp_state \<Rightarrow> (kmp_val \<times> 'r kmp_state) option"
where
  "kmpc_dist_for_static_init_4u loc gtid schedule plastiter plower pupper pupperD pstride incr chunk =
     intercept_void ''__kmpc_dist_for_static_init_4u'' [Ptr loc, Int32 gtid, Int32 schedule, Ptr plastiter, Ptr plower, Ptr pupper, Ptr pupperD, Ptr pstride, Int32 incr, Int32 chunk]"

definition kmpc_dist_for_static_init_8 ::
  "nat \<Rightarrow> i32 \<Rightarrow> i32 \<Rightarrow> nat \<Rightarrow> nat \<Rightarrow> nat \<Rightarrow> nat \<Rightarrow> nat \<Rightarrow> i64 \<Rightarrow> i64 \<Rightarrow> 'r kmp_env \<Rightarrow> time \<Rightarrow> time \<Rightarrow> 'r kmp_state \<Rightarrow> (kmp_val \<times> 'r kmp_state) option"
where
  "kmpc_dist_for_static_init_8 loc gtid schedule plastiter plower pupper pupperD pstride incr chunk =
     intercept_void ''__kmpc_dist_for_static_init_8'' [Ptr loc, Int32 gtid, Int32 schedule, Ptr plastiter, Ptr plower, Ptr pupper, Ptr pupperD, Ptr pstride, Int64 incr, Int64 chunk]"

definition kmpc_dist_for_static_init_8u ::
  "nat \<Rightarrow> i32 \<Rightarrow> i32 \<Rightarrow> nat \<Rightarrow> nat \<Rightarrow> nat \<Rightarrow> nat \<Rightarrow> nat \<Rightarrow> i64 \<Rightarrow> i64 \<Rightarrow> 'r kmp_env \<Rightarrow> time \<Rightarrow> time \<Rightarrow> 'r kmp_state \<Rightarrow> (kmp_val \<times> 'r kmp_state) option"
where
  "kmpc_dist_for_static_init_8u loc gtid schedule plastiter plower pupper pupperD pstride incr chunk =
     intercept_void ''__kmpc_dist_for_static_init_8u'' [Ptr loc, Int32 gtid, Int32 schedule, Ptr plastiter, Ptr plower, Ptr pupper, Ptr pupperD, Ptr pstride, Int64 incr, Int64 chunk]"

definition kmpc_team_static_init_4 ::
  "nat \<Rightarrow> i32 \<Rightarrow> nat \<Rightarrow> nat \<Rightarrow> nat \<Rightarrow> nat \<Rightarrow> i32 \<Rightarrow> i32 \<Rightarrow> 'r kmp_env \<Rightarrow> time \<Rightarrow> time \<Rightarrow> 'r kmp_state \<Rightarrow> (kmp_val \<times> 'r kmp_state) option"
where
  "kmpc_team_static_init_4 loc gtid p_last p_lb p_ub p_st incr chunk =
     intercept_void ''__kmpc_team_static_init_4'' [Ptr loc, Int32 gtid, Ptr p_last, Ptr p_lb, Ptr p_ub, Ptr p_st, Int32 incr, Int32 chunk]"

definition kmpc_team_static_init_4u ::
  "nat \<Rightarrow> i32 \<Rightarrow> nat \<Rightarrow> nat \<Rightarrow> nat \<Rightarrow> nat \<Rightarrow> i32 \<Rightarrow> i32 \<Rightarrow> 'r kmp_env \<Rightarrow> time \<Rightarrow> time \<Rightarrow> 'r kmp_state \<Rightarrow> (kmp_val \<times> 'r kmp_state) option"
where
  "kmpc_team_static_init_4u loc gtid p_last p_lb p_ub p_st incr chunk =
     intercept_void ''__kmpc_team_static_init_4u'' [Ptr loc, Int32 gtid, Ptr p_last, Ptr p_lb, Ptr p_ub, Ptr p_st, Int32 incr, Int32 chunk]"

definition kmpc_team_static_init_8 ::
  "nat \<Rightarrow> i32 \<Rightarrow> nat \<Rightarrow> nat \<Rightarrow> nat \<Rightarrow> nat \<Rightarrow> i64 \<Rightarrow> i64 \<Rightarrow> 'r kmp_env \<Rightarrow> time \<Rightarrow> time \<Rightarrow> 'r kmp_state \<Rightarrow> (kmp_val \<times> 'r kmp_state) option"
where
  "kmpc_team_static_init_8 loc gtid p_last p_lb p_ub p_st incr chunk =
     intercept_void ''__kmpc_team_static_init_8'' [Ptr loc, Int32 gtid, Ptr p_last, Ptr p_lb, Ptr p_ub, Ptr p_st, Int64 incr, Int64 chunk]"

definition kmpc_team_static_init_8u ::
  "nat \<Rightarrow> i32 \<Rightarrow> nat \<Rightarrow> nat \<Rightarrow> nat \<Rightarrow> nat \<Rightarrow> i64 \<Rightarrow> i64 \<Rightarrow> 'r kmp_env \<Rightarrow> time \<Rightarrow> time \<Rightarrow> 'r kmp_state \<Rightarrow> (kmp_val \<times> 'r kmp_state) option"
where
  "kmpc_team_static_init_8u loc gtid p_last p_lb p_ub p_st incr chunk =
     intercept_void ''__kmpc_team_static_init_8u'' [Ptr loc, Int32 gtid, Ptr p_last, Ptr p_lb, Ptr p_ub, Ptr p_st, Int64 incr, Int64 chunk]"

definition kmpc_for_static_fini ::
  "nat \<Rightarrow> i32 \<Rightarrow> 'r kmp_env \<Rightarrow> time \<Rightarrow> time \<Rightarrow> 'r kmp_state \<Rightarrow> (kmp_val \<times> 'r kmp_state) option"
where
  "kmpc_for_static_fini loc global_tid =
     intercept_void ''__kmpc_for_static_fini'' [Ptr loc, Int32 global_tid]"

definition kmpc_doacross_init ::
  "nat \<Rightarrow> i32 \<Rightarrow> i32 \<Rightarrow> nat \<Rightarrow> 'r kmp_env \<Rightarrow> time \<Rightarrow> time \<Rightarrow> 'r kmp_state \<Rightarrow> (kmp_val \<times> 'r kmp_state) option"
where
  "kmpc_doacross_init loc gtid num_dims dims =
     intercept_void ''__kmpc_doacross_init'' [Ptr loc, Int32 gtid, Int32 num_dims, Ptr dims]"

definition kmpc_doacross_wait ::
  "nat \<Rightarrow> i32 \<Rightarrow> nat \<Rightarrow> 'r kmp_env \<Rightarrow> time \<Rightarrow> time \<Rightarrow> 'r kmp_state \<Rightarrow> (kmp_val \<times> 'r kmp_state) option"
where
  "kmpc_doacross_wait loc gtid vec =
     intercept_void ''__kmpc_doacross_wait'' [Ptr loc, Int32 gtid, Ptr vec]"

definition kmpc_doacross_post ::
  "nat \<Rightarrow> i32 \<Rightarrow> nat \<Rightarrow> 'r kmp_env \<Rightarrow> time \<Rightarrow> time \<Rightarrow> 'r kmp_state \<Rightarrow> (kmp_val \<times> 'r kmp_state) option"
where
  "kmpc_doacross_post loc gtid vec =
     intercept_void ''__kmpc_doacross_post'' [Ptr loc, Int32 gtid, Ptr vec]"

definition kmpc_doacross_fini ::
  "nat \<Rightarrow> i32 \<Rightarrow> 'r kmp_env \<Rightarrow> time \<Rightarrow> time \<Rightarrow> 'r kmp_state \<Rightarrow> (kmp_val \<times> 'r kmp_state) option"
where
  "kmpc_doacross_fini loc gtid =
     intercept_void ''__kmpc_doacross_fini'' [Ptr loc, Int32 gtid]"

definition kmpc_omp_task_complete ::
  "nat \<Rightarrow> i32 \<Rightarrow> nat \<Rightarrow> 'r kmp_env \<Rightarrow> time \<Rightarrow> time \<Rightarrow> 'r kmp_state \<Rightarrow> (kmp_val \<times> 'r kmp_state) option"
where
  "kmpc_omp_task_complete loc_ref gtid task =
     intercept_void ''__kmpc_omp_task_complete'' [Ptr loc_ref, Int32 gtid, Ptr task]"

definition kmpc_omp_task_alloc ::
  "nat \<Rightarrow> i32 \<Rightarrow> i32 \<Rightarrow> u64 \<Rightarrow> u64 \<Rightarrow> nat \<Rightarrow> 'r kmp_env \<Rightarrow> time \<Rightarrow> time \<Rightarrow> 'r kmp_state \<Rightarrow> (kmp_val \<times> 'r kmp_state) option"
where
  "kmpc_omp_task_alloc loc_ref gtid task_flags sizeof_kmp_task_t sizeof_shareds task_entry =
     intercept ''__kmpc_omp_task_alloc'' [Ptr loc_ref, Int32 gtid, Int32 task_flags, Size sizeof_kmp_task_t, Size sizeof_shareds, Ptr task_entry]"

definition kmpc_omp_target_task_alloc ::
  "nat \<Rightarrow> i32 \<Rightarrow> i32 \<Rightarrow> u64 \<Rightarrow> u64 \<Rightarrow> nat \<Rightarrow> i64 \<Rightarrow> 'r kmp_env \<Rightarrow> time \<Rightarrow> time \<Rightarrow> 'r kmp_state \<Rightarrow> (kmp_val \<times> 'r kmp_state) option"
where
  "kmpc_omp_target_task_alloc loc_ref gtid task_flags sizeof_kmp_task_t sizeof_shareds task_entry device_id =
     intercept ''__kmpc_omp_target_task_alloc'' [Ptr loc_ref, Int32 gtid, Int32 task_flags, Size sizeof_kmp_task_t, Size sizeof_shareds, Ptr task_entry, Int64 device_id]"

definition kmpc_omp_task_parts ::
  "nat \<Rightarrow> i32 \<Rightarrow> nat \<Rightarrow> 'r kmp_env \<Rightarrow> time \<Rightarrow> time \<Rightarrow> 'r kmp_state \<Rightarrow> (kmp_val \<times> 'r kmp_state) option"
where
  "kmpc_omp_task_parts loc_ref gtid new_task =
     intercept ''__kmpc_omp_task_parts'' [Ptr loc_ref, Int32 gtid, Ptr new_task]"

definition kmpc_omp_task ::
  "nat \<Rightarrow> i32 \<Rightarrow> nat \<Rightarrow> 'r kmp_env \<Rightarrow> time \<Rightarrow> time \<Rightarrow> 'r kmp_state \<Rightarrow> (kmp_val \<times> 'r kmp_state) option"
where
  "kmpc_omp_task loc_ref gtid new_task =
     intercept ''__kmpc_omp_task'' [Ptr loc_ref, Int32 gtid, Ptr new_task]"

definition kmpc_omp_taskyield ::
  "nat \<Rightarrow> i32 \<Rightarrow> i32 \<Rightarrow> 'r kmp_env \<Rightarrow> time \<Rightarrow> time \<Rightarrow> 'r kmp_state \<Rightarrow> (kmp_val \<times> 'r kmp_state) option"
where
  "kmpc_omp_taskyield loc_ref gtid end_part =
     intercept ''__kmpc_omp_taskyield'' [Ptr loc_ref, Int32 gtid, CInt end_part]"

definition kmpc_task_reduction_get_th_data ::
  "i32 \<Rightarrow> nat \<Rightarrow> nat \<Rightarrow> 'r kmp_env \<Rightarrow> time \<Rightarrow> time \<Rightarrow> 'r kmp_state \<Rightarrow> (kmp_val \<times> 'r kmp_state) option"
where
  "kmpc_task_reduction_get_th_data gtid tskgrp data =
     intercept ''__kmpc_task_reduction_get_th_data'' [CInt gtid, Ptr tskgrp, Ptr data]"

definition kmpc_task_reduction_modifier_init ::
  "nat \<Rightarrow> i32 \<Rightarrow> i32 \<Rightarrow> i32 \<Rightarrow> nat \<Rightarrow> 'r kmp_env \<Rightarrow> time \<Rightarrow> time \<Rightarrow> 'r kmp_state \<Rightarrow> (kmp_val \<times> 'r kmp_state) option"
where
  "kmpc_task_reduction_modifier_init loc gtid is_ws num data =
     intercept ''__kmpc_task_reduction_modifier_init'' [Ptr loc, CInt gtid, CInt is_ws, CInt num, Ptr data]"

definition kmpc_taskred_modifier_init ::
  "nat \<Rightarrow> i32 \<Rightarrow> i32 \<Rightarrow> i32 \<Rightarrow> nat \<Rightarrow> 'r kmp_env \<Rightarrow> time \<Rightarrow> time \<Rightarrow> 'r kmp_state \<Rightarrow> (kmp_val \<times> 'r kmp_state) option"
where
  "kmpc_taskred_modifier_init loc gtid is_ws num data =
     intercept ''__kmpc_taskred_modifier_init'' [Ptr loc, CInt gtid, CInt is_ws, CInt num, Ptr data]"

definition kmpc_taskgroup ::
  "nat \<Rightarrow> i32 \<Rightarrow> 'r kmp_env \<Rightarrow> time \<Rightarrow> time \<Rightarrow> 'r kmp_state \<Rightarrow> (kmp_val \<times> 'r kmp_state) option"
where
  "kmpc_taskgroup loc gtid =
     intercept_void ''__kmpc_taskgroup'' [Ptr loc, CInt gtid]"

definition kmpc_end_taskgroup ::
  "nat \<Rightarrow> i32 \<Rightarrow> 'r kmp_env \<Rightarrow> time \<Rightarrow> time \<Rightarrow> 'r kmp_state \<Rightarrow> (kmp_val \<times> 'r kmp_state) option"
where
  "kmpc_end_taskgroup loc gtid =
     intercept_void ''__kmpc_end_taskgroup'' [Ptr loc, CInt gtid]"

definition kmpc_proxy_task_completed ::
  "i32 \<Rightarrow> nat \<Rightarrow> 'r kmp_env \<Rightarrow> time \<Rightarrow> time \<Rightarrow> 'r kmp_state \<Rightarrow> (kmp_val \<times> 'r kmp_state) option"
where
  "kmpc_proxy_task_completed gtid ptask =
     intercept_void ''__kmpc_proxy_task_completed'' [Int32 gtid, Ptr ptask]"

definition kmpc_proxy_task_completed_ooo ::
  "nat \<Rightarrow> 'r kmp_env \<Rightarrow> time \<Rightarrow> time \<Rightarrow> 'r kmp_state \<Rightarrow> (kmp_val \<times> 'r kmp_state) option"
where
  "kmpc_proxy_task_completed_ooo ptask =
     intercept_void ''__kmpc_proxy_task_completed_ooo'' [Ptr ptask]"

definition kmpc_task_allow_completion_event ::
  "nat \<Rightarrow> i32 \<Rightarrow> nat \<Rightarrow> 'r kmp_env \<Rightarrow> time \<Rightarrow> time \<Rightarrow> 'r kmp_state \<Rightarrow> (kmp_val \<times> 'r kmp_state) option"
where
  "kmpc_task_allow_completion_event loc_ref gtid task =
     intercept ''__kmpc_task_allow_completion_event'' [Ptr loc_ref, CInt gtid, Ptr task]"

definition kmpc_taskloop ::
  "nat \<Rightarrow> i32 \<Rightarrow> nat \<Rightarrow> i32 \<Rightarrow> nat \<Rightarrow> nat \<Rightarrow> i64 \<Rightarrow> i32 \<Rightarrow> i32 \<Rightarrow> u64 \<Rightarrow> nat \<Rightarrow> 'r kmp_env \<Rightarrow> time \<Rightarrow> time \<Rightarrow> 'r kmp_state \<Rightarrow> (kmp_val \<times> 'r kmp_state) option"
where
  "kmpc_taskloop loc gtid task if_val lb ub st nogroup sched grainsize task_dup =
     intercept_void ''__kmpc_taskloop'' [Ptr loc, CInt gtid, Ptr task, CInt if_val, Ptr lb, Ptr ub, Int64 st, CInt nogroup, CInt sched, Uint64 grainsize, Ptr task_dup]"

definition kmpc_taskloop_5 ::
  "nat \<Rightarrow> i32 \<Rightarrow> nat \<Rightarrow> i32 \<Rightarrow> nat \<Rightarrow> nat \<Rightarrow> i64 \<Rightarrow> i32 \<Rightarrow> i32 \<Rightarrow> u64 \<Rightarrow> i32 \<Rightarrow> nat \<Rightarrow> 'r kmp_env \<Rightarrow> time \<Rightarrow> time \<Rightarrow> 'r kmp_state \<Rightarrow> (kmp_val \<times> 'r kmp_state) option"
where
  "kmpc_taskloop_5 loc gtid task if_val lb ub st nogroup sched grainsize modifier task_dup =
     intercept_void ''__kmpc_taskloop_5'' [Ptr loc, CInt gtid, Ptr task, CInt if_val, Ptr lb, Ptr ub, Int64 st, CInt nogroup, CInt sched, Uint64 grainsize, CInt modifier, Ptr task_dup]"

definition kmpc_omp_get_target_async_handle_ptr ::
  "i32 \<Rightarrow> 'r kmp_env \<Rightarrow> time \<Rightarrow> time \<Rightarrow> 'r kmp_state \<Rightarrow> (kmp_val \<times> 'r kmp_state) option"
where
  "kmpc_omp_get_target_async_handle_ptr gtid =
     intercept ''__kmpc_omp_get_target_async_handle_ptr'' [Int32 gtid]"

definition kmpc_end_record_task ::
  "nat \<Rightarrow> i32 \<Rightarrow> i32 \<Rightarrow> i32 \<Rightarrow> 'r kmp_env \<Rightarrow> time \<Rightarrow> time \<Rightarrow> 'r kmp_state \<Rightarrow> (kmp_val \<times> 'r kmp_state) option"
where
  "kmpc_end_record_task loc_ref gtid input_flags tdg_id =
     intercept_void ''__kmpc_end_record_task'' [Ptr loc_ref, Int32 gtid, Int32 input_flags, Int32 tdg_id]"

definition kmpc_omp_task_with_deps ::
  "nat \<Rightarrow> i32 \<Rightarrow> nat \<Rightarrow> i32 \<Rightarrow> nat \<Rightarrow> i32 \<Rightarrow> nat \<Rightarrow> 'r kmp_env \<Rightarrow> time \<Rightarrow> time \<Rightarrow> 'r kmp_state \<Rightarrow> (kmp_val \<times> 'r kmp_state) option"
where
  "kmpc_omp_task_with_deps loc_ref gtid new_task ndeps dep_list ndeps_noalias noalias_dep_list =
     intercept ''__kmpc_omp_task_with_deps'' [Ptr loc_ref, Int32 gtid, Ptr new_task, Int32 ndeps, Ptr dep_list, Int32 ndeps_noalias, Ptr noalias_dep_list]"

section \<open>The interface\<close>

text \<open>The calls of the entry points, with all arguments.\<close>

inductive kmpc_entry :: "('r kmp_env \<Rightarrow> time \<Rightarrow> time \<Rightarrow> 'r kmp_state \<Rightarrow> (kmp_val \<times> 'r kmp_state) option) \<Rightarrow> bool" where
  "kmpc_entry (kmpc_dispatch_init_4 loc gtid schedule lb ub st chunk)"
| "kmpc_entry (kmpc_dispatch_init_4u loc gtid schedule lb ub st chunk)"
| "kmpc_entry (kmpc_dispatch_init_8 loc gtid schedule lb ub st chunk)"
| "kmpc_entry (kmpc_dispatch_init_8u loc gtid schedule lb ub st chunk)"
| "kmpc_entry (kmpc_dispatch_next_4 loc gtid p_last p_lb p_ub p_st)"
| "kmpc_entry (kmpc_dispatch_next_4u loc gtid p_last p_lb p_ub p_st)"
| "kmpc_entry (kmpc_dispatch_next_8 loc gtid p_last p_lb p_ub p_st)"
| "kmpc_entry (kmpc_dispatch_next_8u loc gtid p_last p_lb p_ub p_st)"
| "kmpc_entry (kmpc_dispatch_fini_4 loc gtid)"
| "kmpc_entry (kmpc_dispatch_fini_8 loc gtid)"
| "kmpc_entry (kmpc_dispatch_fini_4u loc gtid)"
| "kmpc_entry (kmpc_dispatch_fini_8u loc gtid)"
| "kmpc_entry (kmpc_dispatch_deinit loc gtid)"
| "kmpc_entry (kmpc_for_static_init_4 loc gtid schedtype plastiter plower pupper pstride incr chunk)"
| "kmpc_entry (kmpc_for_static_init_4u loc gtid schedtype plastiter plower pupper pstride incr chunk)"
| "kmpc_entry (kmpc_for_static_init_8 loc gtid schedtype plastiter plower pupper pstride incr chunk)"
| "kmpc_entry (kmpc_for_static_init_8u loc gtid schedtype plastiter plower pupper pstride incr chunk)"
| "kmpc_entry (kmpc_dist_for_static_init_4 loc gtid schedule plastiter plower pupper pupperD pstride incr chunk)"
| "kmpc_entry (kmpc_dist_for_static_init_4u loc gtid schedule plastiter plower pupper pupperD pstride incr chunk)"
| "kmpc_entry (kmpc_dist_for_static_init_8 loc gtid schedule plastiter plower pupper pupperD pstride incr chunk)"
| "kmpc_entry (kmpc_dist_for_static_init_8u loc gtid schedule plastiter plower pupper pupperD pstride incr chunk)"
| "kmpc_entry (kmpc_team_static_init_4 loc gtid p_last p_lb p_ub p_st incr chunk)"
| "kmpc_entry (kmpc_team_static_init_4u loc gtid p_last p_lb p_ub p_st incr chunk)"
| "kmpc_entry (kmpc_team_static_init_8 loc gtid p_last p_lb p_ub p_st incr chunk)"
| "kmpc_entry (kmpc_team_static_init_8u loc gtid p_last p_lb p_ub p_st incr chunk)"
| "kmpc_entry (kmpc_for_static_fini loc global_tid)"
| "kmpc_entry (kmpc_doacross_init loc gtid num_dims dims)"
| "kmpc_entry (kmpc_doacross_wait loc gtid vec)"
| "kmpc_entry (kmpc_doacross_post loc gtid vec)"
| "kmpc_entry (kmpc_doacross_fini loc gtid)"
| "kmpc_entry (kmpc_omp_task_complete loc_ref gtid task)"
| "kmpc_entry (kmpc_omp_task_alloc loc_ref gtid task_flags sizeof_kmp_task_t sizeof_shareds task_entry)"
| "kmpc_entry (kmpc_omp_target_task_alloc loc_ref gtid task_flags sizeof_kmp_task_t sizeof_shareds task_entry device_id)"
| "kmpc_entry (kmpc_omp_task_parts loc_ref gtid new_task)"
| "kmpc_entry (kmpc_omp_task loc_ref gtid new_task)"
| "kmpc_entry (kmpc_omp_taskyield loc_ref gtid end_part)"
| "kmpc_entry (kmpc_task_reduction_get_th_data gtid tskgrp data)"
| "kmpc_entry (kmpc_task_reduction_modifier_init loc gtid is_ws num data)"
| "kmpc_entry (kmpc_taskred_modifier_init loc gtid is_ws num data)"
| "kmpc_entry (kmpc_taskgroup loc gtid)"
| "kmpc_entry (kmpc_end_taskgroup loc gtid)"
| "kmpc_entry (kmpc_proxy_task_completed gtid ptask)"
| "kmpc_entry (kmpc_proxy_task_completed_ooo ptask)"
| "kmpc_entry (kmpc_task_allow_completion_event loc_ref gtid task)"
| "kmpc_entry (kmpc_taskloop loc gtid task if_val lb ub st nogroup sched grainsize task_dup)"
| "kmpc_entry (kmpc_taskloop_5 loc gtid task if_val lb ub st nogroup sched grainsize modifier task_dup)"
| "kmpc_entry (kmpc_omp_get_target_async_handle_ptr gtid)"
| "kmpc_entry (kmpc_end_record_task loc_ref gtid input_flags tdg_id)"
| "kmpc_entry (kmpc_omp_task_with_deps loc_ref gtid new_task ndeps dep_list ndeps_noalias noalias_dep_list)"

lemmas kmpc_defs = kmpc_dispatch_init_4_def kmpc_dispatch_init_4u_def kmpc_dispatch_init_8_def kmpc_dispatch_init_8u_def kmpc_dispatch_next_4_def kmpc_dispatch_next_4u_def kmpc_dispatch_next_8_def kmpc_dispatch_next_8u_def kmpc_dispatch_fini_4_def kmpc_dispatch_fini_8_def kmpc_dispatch_fini_4u_def kmpc_dispatch_fini_8u_def kmpc_dispatch_deinit_def kmpc_for_static_init_4_def kmpc_for_static_init_4u_def kmpc_for_static_init_8_def kmpc_for_static_init_8u_def kmpc_dist_for_static_init_4_def kmpc_dist_for_static_init_4u_def kmpc_dist_for_static_init_8_def kmpc_dist_for_static_init_8u_def kmpc_team_static_init_4_def kmpc_team_static_init_4u_def kmpc_team_static_init_8_def kmpc_team_static_init_8u_def kmpc_for_static_fini_def kmpc_doacross_init_def kmpc_doacross_wait_def kmpc_doacross_post_def kmpc_doacross_fini_def kmpc_omp_task_complete_def kmpc_omp_task_alloc_def kmpc_omp_target_task_alloc_def kmpc_omp_task_parts_def kmpc_omp_task_def kmpc_omp_taskyield_def kmpc_task_reduction_get_th_data_def kmpc_task_reduction_modifier_init_def kmpc_taskred_modifier_init_def kmpc_taskgroup_def kmpc_end_taskgroup_def kmpc_proxy_task_completed_def kmpc_proxy_task_completed_ooo_def kmpc_task_allow_completion_event_def kmpc_taskloop_def kmpc_taskloop_5_def kmpc_omp_get_target_async_handle_ptr_def kmpc_end_record_task_def kmpc_omp_task_with_deps_def

lemma kmpc_entry_intercept:
  "kmpc_entry w \<Longrightarrow> \<exists>name args. w = intercept name args \<or> w = intercept_void name args"
  by (induction rule: kmpc_entry.induct) (unfold kmpc_defs, blast+)

section \<open>Calls leave the clock as they found it\<close>

text \<open>A static variable is set exactly when its name has been looked up, and then to the linker's answer.\<close>

definition kmp_ok :: "'r kmp_env \<Rightarrow> 'r kmp_state \<Rightarrow> bool" where
  "kmp_ok E s \<longleftrightarrow> distinct (lookups s) \<and>
     (\<forall>n. fn_ptrs s n = (if n \<in> set (lookups s) then dlsym_next E n else 0))"

text \<open>
  What is assumed of the runtime: its functions exist and return, and what they do to the tool (through
  its callbacks and through entry points called from user code) is balanced.
\<close>

definition balanced_runtime :: "'r kmp_env \<Rightarrow> bool" where
  "balanced_runtime E \<longleftrightarrow> (\<forall>n. dlsym_next E n \<noteq> 0) \<and>
     (\<forall>n args s c. kmp_ok E s \<and> kclock s = Some c \<longrightarrow>
        (\<exists>r s' c'. kcall E (dlsym_next E n) args s = Some (r, s') \<and> kmp_ok E s' \<and> kclock s' = Some c' \<and>
           clock_state_stack c' = clock_state_stack c))"

lemma resolve_ok:
  assumes "kmp_ok E s" and "\<forall>n. dlsym_next E n \<noteq> 0"
  shows "kmp_ok E (resolve E n s)" "fn_ptrs (resolve E n s) n = dlsym_next E n" "kclock (resolve E n s) = kclock s"
  using assms by (auto simp: kmp_ok_def resolve_def split: if_splits)

lemma enter_exit_stack:
  assumes "clock_state_stack c' = clock_state_stack (enterOpenMP run t1 c)" and "clock_state_stack c \<noteq> []"
  shows "clock_state_stack (exitOpenMP run t2 c') = clock_state_stack c"
  using assms by (auto simp: enterOpenMP_def exitOpenMP_def enterState_def exitState_def GetState_def Let_def clock_simps)

lemma intercept_balanced:
  assumes E: "balanced_runtime E" and ok: "kmp_ok E s" and c: "kclock s = Some c" "clock_state_stack c \<noteq> []"
  shows "\<exists>r s' c'. intercept name args E t1 t2 s = Some (r, s') \<and> kmp_ok E s' \<and> kclock s' = Some c' \<and>
           clock_state_stack c' = clock_state_stack c"
proof -
  let ?c = "enterOpenMP (krun E) t1 c"
  define s1 where "s1 = resolve E name (s\<lparr>kclock := Some ?c\<rparr>)"
  have "kmp_ok E (s\<lparr>kclock := Some ?c\<rparr>)" using ok by (simp add: kmp_ok_def)
  moreover have d: "\<forall>n. dlsym_next E n \<noteq> 0" using E by (simp add: balanced_runtime_def)
  ultimately have s1: "kmp_ok E s1" "fn_ptrs s1 name = dlsym_next E name" "kclock s1 = Some ?c"
    using resolve_ok [of E "s\<lparr>kclock := Some ?c\<rparr>" name] by (simp_all add: s1_def)
  then obtain r s2 c2 where s2: "kcall E (dlsym_next E name) args s1 = Some (r, s2)" "kmp_ok E s2" "kclock s2 = Some c2"
      "clock_state_stack c2 = clock_state_stack ?c"
    using E by (metis balanced_runtime_def)
  have "intercept name args E t1 t2 s = Some (r, s2\<lparr>kclock := Some (exitOpenMP (krun E) t2 c2)\<rparr>)"
    using c(1) s1 s2 d by (simp add: intercept_def ENTEROMP_def EXITOMP_def s1_def [symmetric])
  moreover have "kmp_ok E (s2\<lparr>kclock := Some (exitOpenMP (krun E) t2 c2)\<rparr>)" using s2(2) by (simp add: kmp_ok_def)
  ultimately show ?thesis using enter_exit_stack [OF s2(4) c(2)] by auto
qed

lemma entry_balanced:
  assumes "kmpc_entry w" and "balanced_runtime E" and "kmp_ok E s" and "kclock s = Some c" and "clock_state_stack c \<noteq> []"
  shows "\<exists>r s' c'. w E t1 t2 s = Some (r, s') \<and> kmp_ok E s' \<and> kclock s' = Some c' \<and> clock_state_stack c' = clock_state_stack c"
proof -
  obtain name args where "w = intercept name args \<or> w = intercept_void name args"
    using kmpc_entry_intercept [OF assms(1)] by blast
  moreover note intercept_balanced [OF assms(2-5), of name args t1 t2]
  ultimately show ?thesis by (auto simp: intercept_void_def)
qed

text \<open>A thread that calls entry points one after the other, each with the times of entry and exit.\<close>

fun kmpc_run ::
  "'r kmp_env \<Rightarrow> (('r kmp_env \<Rightarrow> time \<Rightarrow> time \<Rightarrow> 'r kmp_state \<Rightarrow> (kmp_val \<times> 'r kmp_state) option) \<times> time \<times> time) list \<Rightarrow>
     'r kmp_state \<Rightarrow> 'r kmp_state option"
where
  "kmpc_run E [] s = Some s"
| "kmpc_run E ((w, t1, t2) # ws) s = do { (_, s) \<leftarrow> w E t1 t2 s; kmpc_run E ws s }"

text \<open>
  C26: Whatever entry points a thread calls, in whatever order: all calls return, the state stack of its
  clock is afterwards what it was before, no name is looked up twice, and every static variable that
  is set holds the address of the runtime's function of that name.
\<close>

theorem kmpc_calls_transparent:
  assumes "balanced_runtime E" and "\<forall>(w, _) \<in> set ws. kmpc_entry w"
    and "fn_ptrs s = (\<lambda>_. 0)" and "lookups s = []" and "kclock s = Some c" and "clock_state_stack c \<noteq> []"
  shows "\<exists>s' c'. kmpc_run E ws s = Some s' \<and> kclock s' = Some c' \<and> clock_state_stack c' = clock_state_stack c \<and>
           distinct (lookups s') \<and> (\<forall>n. fn_ptrs s' n \<noteq> 0 \<longrightarrow> n \<in> set (lookups s') \<and> fn_ptrs s' n = dlsym_next E n)"
proof -
  have "\<exists>s' c'. kmpc_run E ws s = Some s' \<and> kmp_ok E s' \<and> kclock s' = Some c' \<and> clock_state_stack c' = clock_state_stack c"
    if "kmp_ok E s" "kclock s = Some c" "clock_state_stack c \<noteq> []" for s c
    using that assms(2)
  proof (induction ws arbitrary: s c)
    case (Cons x ws)
    obtain w t1 t2 where x: "x = (w, t1, t2)" by (cases x) auto
    with Cons.prems have w: "kmpc_entry w" and ws: "\<forall>(w, _) \<in> set ws. kmpc_entry w" by auto
    from entry_balanced [OF w assms(1) Cons.prems(1-3), of t1 t2] obtain r s1 c1 where
      s1: "w E t1 t2 s = Some (r, s1)" "kmp_ok E s1" "kclock s1 = Some c1" "clock_state_stack c1 = clock_state_stack c" by blast
    have "clock_state_stack c1 \<noteq> []" using s1(4) Cons.prems(3) by simp
    from Cons.IH [OF s1(2,3) this ws] s1 show ?case by (auto simp: x)
  qed auto
  moreover have "kmp_ok E s" using assms(3,4) by (simp add: kmp_ok_def)
  ultimately obtain s' c' where "kmpc_run E ws s = Some s'" "kmp_ok E s'" "kclock s' = Some c'"
      "clock_state_stack c' = clock_state_stack c"
    using assms(5,6) by blast
  then show ?thesis by (auto simp: kmp_ok_def split: if_splits)
qed

lemma intercept_time:
  assumes "krun E" and "kclock s = Some c" and "GetState c = STATE_USEFUL" and "\<forall>n. dlsym_next E n \<noteq> 0"
    and "\<And>f args s. kcall E f args s = Some (R f args, s)" and "is_sel sel"
  shows "\<exists>f s' c'. intercept name args E t1 t2 s = Some (R f args, s') \<and> kclock s' = Some c' \<and>
           cval sel c' CLOCK_USEFUL + t2 = cval sel c CLOCK_USEFUL + t1 \<and>
           cval sel c' CLOCK_OMPI = cval sel c CLOCK_OMPI"
proof -
  have "cval sel (exitOpenMP True t2 (enterOpenMP True t1 c)) CLOCK_USEFUL + t2 = cval sel c CLOCK_USEFUL + t1"
    "cval sel (exitOpenMP True t2 (enterOpenMP True t1 c)) CLOCK_OMPI = cval sel c CLOCK_OMPI"
    using assms(3,6) by (simp_all add: enterOpenMP_def exitOpenMP_def enterState_def exitState_def GetState_def Let_def clock_simps)
  with assms(1,2,4,5) show ?thesis
    by (auto simp: intercept_def ENTEROMP_def EXITOMP_def resolve_def Let_def)
qed

text \<open>
  The time between entry and exit of an intercepted call does not count as useful computation: for
  every entry point, when the runtime leaves the clock alone, the useful clocks show at the exit
  what they showed at the entry, while the clocks for the time outside MPI go on.
\<close>

theorem kmpc_time_not_useful:
  assumes "kmpc_entry w" and "krun E" and "kclock s = Some c" and "GetState c = STATE_USEFUL" and "\<forall>n. dlsym_next E n \<noteq> 0"
    and "\<And>f args s. kcall E f args s = Some (R f args, s)" and "is_sel sel"
  shows "\<exists>r s' c'. w E t1 t2 s = Some (r, s') \<and> kclock s' = Some c' \<and>
           cval sel c' CLOCK_USEFUL + t2 = cval sel c CLOCK_USEFUL + t1 \<and>
           cval sel c' CLOCK_OMPI = cval sel c CLOCK_OMPI"
proof -
  obtain name args where "w = intercept name args \<or> w = intercept_void name args"
    using kmpc_entry_intercept [OF assms(1)] by blast
  moreover note intercept_time [of E s c R sel name args t1 t2, OF assms(2-5) assms(6,7)]
  ultimately show ?thesis by (auto simp: intercept_void_def)
qed

definition example_omp :: "unit kmp_env" where
  "example_omp = \<lparr>krun = True, dlsym_next = (\<lambda>n. Suc (length n)), kcall = (\<lambda>f args s. Some (Ptr f, s))\<rparr>"

definition example_omp_state :: "unit kmp_state" where
  "example_omp_state = \<lparr>kclock = Some (enterState True 2 0 STATE_USEFUL (threadClock_new 0 0 False)), fn_ptrs = (\<lambda>_. 0),
     lookups = [], omp_runtime = ()\<rparr>"

lemma example_clock:
  "clock_state_stack (enterState True 2 0 STATE_USEFUL (threadClock_new 0 0 False)) = [STATE_INIT, STATE_USEFUL]"
  by (simp add: enterState_def Let_def clock_simps)

theorem kmpc_calls_transparent_witness:
  "\<exists>s'. kmpc_run example_omp [(kmpc_taskgroup 5 0, 3, 4), (kmpc_omp_task 5 0 9, 6, 7), (kmpc_taskgroup 5 0, 8, 9)] example_omp_state = Some s' \<and>
     distinct (lookups s')"
proof -
  let ?ws = "[(kmpc_taskgroup 5 0, 3, 4), (kmpc_omp_task 5 0 9, 6, 7), (kmpc_taskgroup 5 0, 8, 9)]"
  let ?c = "enterState True 2 0 STATE_USEFUL (threadClock_new 0 0 False)"
  have "balanced_runtime example_omp" by (auto simp: balanced_runtime_def example_omp_def)
  moreover have "\<forall>(w, _) \<in> set ?ws. kmpc_entry w" by (auto intro: kmpc_entry.intros)
  moreover have "fn_ptrs example_omp_state = (\<lambda>_. 0)" "lookups example_omp_state = []" "kclock example_omp_state = Some ?c"
    by (simp_all add: example_omp_state_def)
  moreover have "clock_state_stack ?c \<noteq> []" using example_clock by simp
  ultimately show ?thesis using kmpc_calls_transparent [of example_omp ?ws example_omp_state ?c] by blast
qed

theorem kmpc_time_not_useful_witness:
  "\<exists>r s' c'. kmpc_omp_task 5 0 9 example_omp 6 10 example_omp_state = Some (r, s') \<and> kclock s' = Some c' \<and>
     cval thread c' CLOCK_USEFUL + 10 = - 2 + 6"
proof -
  let ?c = "enterState True 2 0 STATE_USEFUL (threadClock_new 0 0 False)"
  have s: "kclock example_omp_state = Some ?c" by (simp add: example_omp_state_def)
  have "GetState ?c = STATE_USEFUL" using example_clock by (simp add: GetState_def)
  moreover have "cval thread ?c CLOCK_USEFUL = - 2"
    by (simp add: enterState_def Let_def clock_simps GetState_def is_sel_def cval_threadClock_new)
  ultimately show ?thesis
    using kmpc_time_not_useful [of "kmpc_omp_task 5 0 9" example_omp example_omp_state ?c "\<lambda>f _. Ptr f" thread 6 10] s
    by (auto simp: example_omp_def is_sel_def intro: kmpc_entry.intros)
qed

end
