(* ===== verification/Cpt_String.thy ===== *)
theory Cpt_String
  imports Cpt_Vector "HOL-Library.Word" "HOL-Library.Sublist"
begin

unbundle bit_operations_syntax

text \<open>
  \<^verbatim>\<open>containers/String.h\<close>: strings on the tool's vector, and their hash value.  The only member \<^verbatim>\<open>data_\<close> holds the
  characters and a terminating zero, except that a string made by the default constructor or emptied
  by \<^verbatim>\<open>clear\<close> holds nothing at all.

  A C string argument is the list of characters from its address on; a result that is a C string is
  what a reader finds up to the terminating zero.  Arguments that are strings are not the string
  itself.  As for the vector, undefined behaviour is \<^const>\<open>None\<close> and the debug checks are not there:
  \<^verbatim>\<open>end()\<close> of a string without a terminating zero points in front of its memory.
\<close>

section \<open>Operations\<close>

type_synonym String = "char Vector"

definition NUL :: char where "NUL = CHR 0x00"

definition String_new :: String where "String_new = Vector_new"

definition assign_cstr :: "char list option \<Rightarrow> String \<Rightarrow> String option" where
  "assign_cstr p s = (case p of None \<Rightarrow> Some s | Some cs \<Rightarrow> Vector_assign (takeWhile (\<lambda>c. c \<noteq> NUL) cs @ [NUL]) s)"

definition String_of_cstr :: "char list option \<Rightarrow> String option" where
  "String_of_cstr p = assign_cstr p String_new"

definition String_size :: "String \<Rightarrow> nat" where
  "String_size s = (if Vector_empty s then 0 else Vector_size s - 1)"

definition String_capacity :: "String \<Rightarrow> nat" where
  "String_capacity s = (if Vector_capacity s = 0 then 0 else Vector_capacity s - 1)"

definition String_empty :: "String \<Rightarrow> bool" where
  "String_empty s \<longleftrightarrow> String_size s = 0"

definition String_reserve :: "nat \<Rightarrow> String \<Rightarrow> String option" where
  "String_reserve n s = (if n > String_capacity s then Vector_reserve (n + 1) s else Some s)"

definition String_c_str :: "String \<Rightarrow> char list option" where
  "String_c_str s =
     (if Vector_empty s then Some []
      else do { xs \<leftarrow> Vector_elems s; if NUL \<in> set xs then Some (takeWhile (\<lambda>c. c \<noteq> NUL) xs) else None })"

definition String_at :: "nat \<Rightarrow> String \<Rightarrow> char option" where
  "String_at i s = Vector_at i s"

text \<open>\<^verbatim>\<open>end()\<close>, and what a loop from \<^verbatim>\<open>begin()\<close> to \<^verbatim>\<open>end()\<close> sees.\<close>

definition String_end :: "String \<Rightarrow> nat option" where
  "String_end s = (if Vector_size s = 0 then None else Some (Vector_size s - 1))"

definition String_range :: "String \<Rightarrow> char list option" where
  "String_range s = do { e \<leftarrow> String_end s; xs \<leftarrow> Vector_elems s; Some (take e xs) }"

definition String_append :: "String \<Rightarrow> String \<Rightarrow> String option" where
  "String_append str s = do {
     e \<leftarrow> String_end s; xs \<leftarrow> String_range str; (_, s) \<leftarrow> Vector_insert_range e xs s; Some s }"

definition String_append_char :: "char \<Rightarrow> String \<Rightarrow> String option" where
  "String_append_char c s = do { e \<leftarrow> String_end s; (_, s) \<leftarrow> Vector_insert e c s; Some s }"

definition String_append_chars :: "char list \<Rightarrow> String \<Rightarrow> String option" where
  "String_append_chars cs s = do { e \<leftarrow> String_end s; (_, s) \<leftarrow> Vector_insert_range e cs s; Some s }"

definition String_insert :: "nat \<Rightarrow> String \<Rightarrow> String \<Rightarrow> String option" where
  "String_insert pos str s =
     (if pos \<le> Vector_size s
      then do { xs \<leftarrow> String_range str; (_, s) \<leftarrow> Vector_insert_range pos xs s; Some s } else None)"

text \<open>
  The assertion \<^verbatim>\<open>DCHECK_LT(pos, size() - 1)\<close> of \<^verbatim>\<open>insert\<close>; the difference is unsigned, for an empty string it is the largest
  \<^verbatim>\<open>size_t\<close>.
\<close>

definition String_insert_dcheck :: "nat \<Rightarrow> String \<Rightarrow> bool" where
  "String_insert_dcheck pos s \<longleftrightarrow> (if String_size s = 0 then pos < 2 ^ 64 - 1 else pos < String_size s - 1)"

text \<open>\<open>count\<close> is \<^const>\<open>None\<close> for \<^verbatim>\<open>npos\<close>.\<close>

definition String_substr :: "nat \<Rightarrow> nat option \<Rightarrow> String \<Rightarrow> String option" where
  "String_substr pos count s =
     (if pos \<le> String_size s
      then do {
        let realCount = (case count of None \<Rightarrow> String_size s - pos | Some n \<Rightarrow> min n (String_size s - pos));
        xs \<leftarrow> Vector_elems s;
        result \<leftarrow> Vector_assign (take realCount (drop pos xs)) String_new;
        Vector_push_back NUL result }
      else None)"

fun strstr :: "char list \<Rightarrow> char list \<Rightarrow> nat option" where
  "strstr h n =
     (if prefix n h then Some 0 else case h of [] \<Rightarrow> None | _ # h' \<Rightarrow> map_option Suc (strstr h' n))"

declare strstr.simps [simp del]

text \<open>The result \<^term>\<open>Some None\<close> is \<^verbatim>\<open>npos\<close>.\<close>

definition String_find :: "String \<Rightarrow> nat \<Rightarrow> String \<Rightarrow> nat option option" where
  "String_find needle pos s =
     (if String_empty needle then Some (if pos \<le> String_size s then Some pos else None)
      else if pos \<ge> String_size s then Some None
      else do { h \<leftarrow> String_c_str s; n \<leftarrow> String_c_str needle; Some (strstr h n) })"

definition String_assign :: "char list \<Rightarrow> String \<Rightarrow> String option" where
  "String_assign xs s = do {
     s \<leftarrow> Vector_assign xs s;
     b \<leftarrow> Vector_getBack s;
     if b \<noteq> NUL then Vector_push_back NUL s else Some s }"

definition String_eq :: "String \<Rightarrow> String \<Rightarrow> bool option" where
  "String_eq s other = Vector_eq s other"

definition String_eq_cstr :: "char list \<Rightarrow> String \<Rightarrow> bool option" where
  "String_eq_cstr other s =
     (let other = takeWhile (\<lambda>c. c \<noteq> NUL) other
      in if length other \<noteq> String_size s then Some False
         else do { xs \<leftarrow> Vector_elems s; Some (take (String_size s) xs = other) })"

definition String_plus :: "String \<Rightarrow> String \<Rightarrow> String option" where
  "String_plus lhs rhs = do { ret \<leftarrow> Vector_copy lhs; String_append rhs ret }"

definition String_plus_char :: "String \<Rightarrow> char \<Rightarrow> String option" where
  "String_plus_char lhs rhs = do { ret \<leftarrow> Vector_copy lhs; String_append_char rhs ret }"

definition String_resize :: "nat \<Rightarrow> String \<Rightarrow> String option" where
  "String_resize count s = Vector_resize NUL count s"

definition String_push_back :: "char \<Rightarrow> String \<Rightarrow> String option" where
  "String_push_back c s =
     (if String_empty s then do { s \<leftarrow> Vector_push_back c s; Vector_push_back NUL s }
      else String_append_char c s)"

definition String_clear :: "String \<Rightarrow> String option" where
  "String_clear s = Vector_clear s"

definition FNV_OFFSET_BASIS_64 :: "64 word" where "FNV_OFFSET_BASIS_64 = 14695981039346656037"

definition FNV_PRIME_64 :: "64 word" where "FNV_PRIME_64 = 1099511628211"

definition Hash_String :: "String \<Rightarrow> 64 word option" where
  "Hash_String s = do {
     xs \<leftarrow> String_range s;
     Some (foldl (\<lambda>h c. (h XOR of_char c) * FNV_PRIME_64) FNV_OFFSET_BASIS_64 xs) }"

section \<open>Strings as texts\<close>

text \<open>The form a string of the text \<open>xs\<close> has: terminated, or nothing at all.\<close>

definition str_rep :: "String \<Rightarrow> char list \<Rightarrow> bool" where
  "str_rep s xs \<longleftrightarrow> NUL \<notin> set xs \<and> vec_rep s (if xs = [] then [] else xs @ [NUL])"

lemma str_rep_new: "str_rep String_new []"
  by (simp add: str_rep_def String_new_def Vector_new_rep)

lemma vec_rep_size: "vec_rep v xs \<Longrightarrow> Vector_size v = length xs" "vec_rep v xs \<Longrightarrow> Vector_empty v \<longleftrightarrow> xs = []"
  by (auto simp: vec_rep_def Vector_size_def Vector_empty_def)

lemma str_rep_size:
  assumes "str_rep s xs"
  shows "String_size s = length xs" "String_empty s \<longleftrightarrow> xs = []"
    "String_end s = (if xs = [] then None else Some (length xs))"
    "String_range s = (if xs = [] then None else Some xs)"
    "String_c_str s = Some xs"
    "Vector_elems s = Some (if xs = [] then [] else xs @ [NUL])"
proof -
  have r: "vec_rep s (if xs = [] then [] else xs @ [NUL])" and n: "NUL \<notin> set xs" using assms by (simp_all add: str_rep_def)
  note v = vec_rep_size [OF r] elems_rep [OF r]
  have t: "takeWhile (\<lambda>c. c \<noteq> NUL) (xs @ [NUL]) = xs" using n by (induction xs) auto
  show s: "String_size s = length xs" using v by (simp add: String_size_def)
  show "String_empty s \<longleftrightarrow> xs = []" by (simp add: String_empty_def s)
  show e: "String_end s = (if xs = [] then None else Some (length xs))" using v by (simp add: String_end_def)
  show "String_range s = (if xs = [] then None else Some xs)" using v e by (simp add: String_range_def)
  show "String_c_str s = Some xs" using v t by (simp add: String_c_str_def)
  show "Vector_elems s = Some (if xs = [] then [] else xs @ [NUL])" by (rule v(3))
qed

lemma push_back_str:
  assumes "str_rep s xs" and "c \<noteq> NUL"
  shows "\<exists>s'. String_push_back c s = Some s' \<and> str_rep s' (xs @ [c])"
proof (cases "xs = []")
  case True
  then have "vec_rep s []" using assms(1) by (simp add: str_rep_def)
  from push_back_rep [OF this, of c] obtain s1 where s1: "Vector_push_back c s = Some s1" "vec_rep s1 [c]" by auto
  from push_back_rep [OF s1(2), of NUL] obtain s2 where "Vector_push_back NUL s1 = Some s2" "vec_rep s2 [c, NUL]" by auto
  with s1 True assms(2) show ?thesis by (simp add: String_push_back_def str_rep_size [OF assms(1)] str_rep_def)
next
  case False
  then have r: "vec_rep s (xs @ [NUL])" using assms(1) by (simp add: str_rep_def)
  from insert_rep [OF r, of "length xs" c] False assms(2) show ?thesis
    using assms(1) by (auto simp: String_push_back_def String_append_char_def str_rep_size [OF assms(1)] str_rep_def)
qed

lemma insert_range_str:
  assumes "str_rep s xs" and "xs \<noteq> []" and "NUL \<notin> set cs" and "pos \<le> length xs"
  shows "\<exists>s'. Vector_insert_range pos cs s = Some (pos, s') \<and> str_rep s' (take pos xs @ cs @ drop pos xs)"
proof -
  have r: "vec_rep s (xs @ [NUL])" and n: "NUL \<notin> set xs" using assms by (simp_all add: str_rep_def)
  have "take pos xs @ cs @ drop pos xs \<noteq> []" using assms(2) by (metis append_is_Nil_conv append_take_drop_id)
  with insert_range_rep [OF r, of pos cs] n assms(3,4) show ?thesis
    by (auto simp: str_rep_def dest: in_set_takeD in_set_dropD)
qed

lemma append_chars_str:
  assumes "str_rep s xs" and "xs \<noteq> []" and "NUL \<notin> set cs"
  shows "\<exists>s'. String_append_chars cs s = Some s' \<and> str_rep s' (xs @ cs)"
  using insert_range_str [OF assms, of "length xs"] assms(2)
  by (auto simp: String_append_chars_def str_rep_size [OF assms(1)])

lemma append_str:
  assumes "str_rep s xs" and "str_rep t ys" and "xs \<noteq> []" and "ys \<noteq> []"
  shows "\<exists>s'. String_append t s = Some s' \<and> str_rep s' (xs @ ys)"
  using insert_range_str [OF assms(1,3), of ys "length xs"] assms
  by (auto simp: String_append_def str_rep_size [OF assms(1)] str_rep_size [OF assms(2)] str_rep_def)

lemma insert_str:
  assumes "str_rep s xs" and "str_rep t ys" and "xs \<noteq> []" and "ys \<noteq> []" and "pos \<le> length xs"
  shows "\<exists>s'. String_insert pos t s = Some s' \<and> str_rep s' (take pos xs @ ys @ drop pos xs)"
proof -
  have "Vector_size s = Suc (length xs)" using assms(1,3) vec_rep_size(1) [of s "xs @ [NUL]"] by (simp add: str_rep_def)
  then show ?thesis
    using insert_range_str [OF assms(1,3) _ assms(5), of ys] assms
    by (auto simp: String_insert_def str_rep_size [OF assms(2)] str_rep_def)
qed

lemma clear_str: "str_rep s xs \<Longrightarrow> \<exists>s'. String_clear s = Some s' \<and> str_rep s' []"
  using clear_rep by (fastforce simp: String_clear_def str_rep_def)

lemma assign_str:
  assumes "str_rep s xs" and "NUL \<notin> set cs" and "cs \<noteq> []"
  shows "\<exists>s'. String_assign cs s = Some s' \<and> str_rep s' cs"
proof -
  have "vec_rep s (if xs = [] then [] else xs @ [NUL])" using assms(1) by (simp add: str_rep_def)
  from assign_rep [OF this, of cs] obtain v where v: "Vector_assign cs s = Some v" "vec_rep v cs" by blast
  moreover have "last cs \<noteq> NUL" using assms(2,3) by (metis last_in_set)
  ultimately show ?thesis
    using push_back_rep [OF v(2), of NUL] assms by (auto simp: String_assign_def getBack_rep [OF v(2)] str_rep_def)
qed

lemma of_cstr_str:
  assumes "NUL \<notin> set cs" and "cs \<noteq> []"
  shows "\<exists>s. String_of_cstr (Some (cs @ NUL # junk)) = Some s \<and> str_rep s cs"
proof -
  have "takeWhile (\<lambda>c. c \<noteq> NUL) (cs @ NUL # junk) = cs" using assms(1) by (induction cs) auto
  then show ?thesis
    using assign_rep [OF Vector_new_rep, of "cs @ [NUL]"] assms by (auto simp: String_of_cstr_def assign_cstr_def String_new_def str_rep_def)
qed

section \<open>Sequences of operations\<close>

text \<open>The texts of string arguments are in strings of their own.\<close>

datatype str_op =
    Push_back char | Append_char char | Append_chars "char list" | Append String | Insert_at nat String
  | Assign_range "char list" | Clear_all | Reserve_room nat | Plus String

fun str_exec :: "str_op \<Rightarrow> String \<Rightarrow> String option" where
  "str_exec (Push_back c) s = String_push_back c s"
| "str_exec (Append_char c) s = String_append_char c s"
| "str_exec (Append_chars cs) s = String_append_chars cs s"
| "str_exec (Append t) s = String_append t s"
| "str_exec (Insert_at pos t) s = (if String_insert_dcheck pos s then String_insert pos t s else None)"
| "str_exec (Assign_range cs) s = String_assign cs s"
| "str_exec Clear_all s = String_clear s"
| "str_exec (Reserve_room n) s = String_reserve n s"
| "str_exec (Plus t) s = String_plus s t"

text \<open>
  The same on texts.  What is not there is what a string cannot do: appending to, inserting into and
  adding to the empty string, using the empty string as an argument, and inserting where the assertion of
  \<^verbatim>\<open>insert\<close> fails, which are the last position and the end.
\<close>

inductive text_step :: "str_op \<Rightarrow> char list \<Rightarrow> char list \<Rightarrow> bool" where
  "c \<noteq> NUL \<Longrightarrow> text_step (Push_back c) xs (xs @ [c])"
| "c \<noteq> NUL \<Longrightarrow> xs \<noteq> [] \<Longrightarrow> text_step (Append_char c) xs (xs @ [c])"
| "NUL \<notin> set cs \<Longrightarrow> xs \<noteq> [] \<Longrightarrow> text_step (Append_chars cs) xs (xs @ cs)"
| "str_rep t ys \<Longrightarrow> xs \<noteq> [] \<Longrightarrow> ys \<noteq> [] \<Longrightarrow> text_step (Append t) xs (xs @ ys)"
| "str_rep t ys \<Longrightarrow> xs \<noteq> [] \<Longrightarrow> ys \<noteq> [] \<Longrightarrow> pos + 1 < length xs \<Longrightarrow> text_step (Insert_at pos t) xs (take pos xs @ ys @ drop pos xs)"
| "NUL \<notin> set cs \<Longrightarrow> cs \<noteq> [] \<Longrightarrow> text_step (Assign_range cs) xs cs"
| "text_step Clear_all xs []"
| "text_step (Reserve_room n) xs xs"
| "str_rep t ys \<Longrightarrow> xs \<noteq> [] \<Longrightarrow> ys \<noteq> [] \<Longrightarrow> text_step (Plus t) xs (xs @ ys)"

inductive text_steps :: "str_op list \<Rightarrow> char list \<Rightarrow> char list \<Rightarrow> bool" where
  "text_steps [] xs xs"
| "text_step op xs ys \<Longrightarrow> text_steps ops ys zs \<Longrightarrow> text_steps (op # ops) xs zs"

lemma copy_str: "str_rep s xs \<Longrightarrow> \<exists>s'. Vector_copy s = Some s' \<and> str_rep s' xs"
  unfolding str_rep_def using copy_rep(1) [OF Vector_new_rep] by blast

lemma reserve_str: "str_rep s xs \<Longrightarrow> \<exists>s'. String_reserve n s = Some s' \<and> str_rep s' xs"
  unfolding str_rep_def String_reserve_def using reserve_rep by fastforce

lemma append_char_chars: "String_append_char c s = String_push_back c s" if "str_rep s xs" "xs \<noteq> []"
  using that by (simp add: String_push_back_def str_rep_size)

lemma text_step_str:
  assumes "text_step op xs ys" and "str_rep s xs"
  shows "\<exists>s'. str_exec op s = Some s' \<and> str_rep s' ys"
  using assms
proof (induction rule: text_step.induct)
  case (9 t ys xs)
  obtain r where r: "Vector_copy s = Some r" "str_rep r xs" using copy_str [OF 9(4)] by blast
  from append_str [OF r(2) 9(1-3)] r(1) show ?case by (auto simp: String_plus_def)
next
  case (5 t ys xs pos)
  then have "String_insert_dcheck pos s" by (simp add: String_insert_dcheck_def str_rep_size [OF 5(5)])
  with 5 insert_str [OF 5(5,1-3), of pos] show ?case by simp
qed (auto simp: append_char_chars intro: push_back_str append_chars_str append_str assign_str clear_str reserve_str)

lemma text_steps_str:
  assumes "text_steps ops xs ys" and "str_rep s xs"
  shows "\<exists>s'. loop str_exec ops s = Some s' \<and> str_rep s' ys"
  using assms
proof (induction arbitrary: s rule: text_steps.induct)
  case (2 op xs ys ops zs)
  obtain s1 where "str_exec op s = Some s1" "str_rep s1 ys" using text_step_str [OF 2(1,4)] by blast
  with 2(3) show ?case by simp
qed simp

lemma str_rep_eq:
  assumes "str_rep s xs" and "str_rep t ys"
  shows "String_eq s t = Some (xs = ys)"
  using assms eq_rep [of s "if xs = [] then [] else xs @ [NUL]" t "if ys = [] then [] else ys @ [NUL]"]
  by (auto simp: str_rep_def String_eq_def split: if_splits)

lemma str_rep_at: "str_rep s xs \<Longrightarrow> i < length xs \<Longrightarrow> String_at i s = Some (xs ! i)"
  by (auto simp: str_rep_def String_at_def at_rep nth_append split: if_splits)

text \<open>
  C28: Strings implement texts: any sequence of operations that the specification allows runs without
  undefined behaviour and without an insertion outside of what its assertion allows, and leaves a string
  that has the length, the characters and the C string of the text, is equal to exactly the strings of the
  same text and, if it is not empty, hashes by the text alone.  The hash of the empty string reads outside of
  its memory.
\<close>

theorem string_refines_text:
  assumes "text_steps ops [] xs"
  shows "\<exists>s. loop str_exec ops String_new = Some s \<and> String_size s = length xs \<and> String_c_str s = Some xs \<and>
           (\<forall>i < length xs. String_at i s = Some (xs ! i)) \<and>
           (\<forall>t ys. str_rep t ys \<longrightarrow> String_eq s t = Some (xs = ys)) \<and>
           Hash_String s = (if xs = [] then None
              else Some (foldl (\<lambda>h c. (h XOR of_char c) * FNV_PRIME_64) FNV_OFFSET_BASIS_64 xs))"
proof -
  obtain s where "loop str_exec ops String_new = Some s" "str_rep s xs"
    using text_steps_str [OF assms str_rep_new] by blast
  then show ?thesis using str_rep_eq str_rep_at by (auto simp: str_rep_size Hash_String_def)
qed

theorem string_refines_text_witness:
  "\<exists>s. loop str_exec [Push_back CHR ''o'', Append_chars ''mp'', Reserve_room 40, Push_back CHR ''t''] String_new = Some s \<and>
     String_c_str s = Some ''ompt'' \<and> String_size s = 4"
proof -
  have "text_steps [Push_back CHR ''o'', Append_chars ''mp'', Reserve_room 40, Push_back CHR ''t''] [] ''ompt''"
    by (rule text_steps.intros, rule text_step.intros, simp add: NUL_def,
        rule text_steps.intros, rule text_step.intros, simp add: NUL_def, simp,
        rule text_steps.intros, rule text_step.intros,
        rule text_steps.intros, rule text_step.intros, simp add: NUL_def, simp, rule text_steps.intros)
  from string_refines_text [OF this] show ?thesis by auto
qed

section \<open>Empty strings\<close>

lemma of_cstr_empty: "\<exists>e. String_of_cstr (Some [NUL]) = Some e \<and> vec_rep e [NUL]"
  using assign_rep [OF Vector_new_rep, of "[NUL]"] by (auto simp: String_of_cstr_def assign_cstr_def String_new_def)

lemma str_rep_copy_empty: "str_rep s [] \<Longrightarrow> \<exists>r. Vector_copy s = Some r \<and> str_rep r []"
  by (rule copy_str)

text \<open>
  There are two empty strings and neither behaves like one.  On the one made by the default
  constructor appending, concatenation and hashing go outside its memory.  The one made from an empty
  C string is not equal to it, and \<^verbatim>\<open>push_back\<close> puts the character behind its terminating zero: the size
  becomes 2 and the C string stays empty.
\<close>

theorem empty_strings_differ:
  assumes "str_rep s []" and "c \<noteq> NUL"
  shows "String_append t s = None \<and> String_append_char c s = None \<and> String_append_chars cs s = None \<and>
         String_plus s t = None \<and> Hash_String s = None \<and>
         (\<exists>e e'. String_of_cstr (Some [NUL]) = Some e \<and> String_size e = String_size s \<and> String_c_str e = String_c_str s \<and>
            String_eq s e = Some False \<and>
            String_push_back c e = Some e' \<and> String_size e' = 2 \<and> String_c_str e' = Some [])"
proof -
  note e = str_rep_size [OF assms(1)]
  obtain r where r: "Vector_copy s = Some r" "str_rep r []" using copy_str [OF assms(1)] by blast
  have "String_append t s = None" "String_append_char c s = None" "String_append_chars cs s = None" "Hash_String s = None"
    by (simp_all add: String_append_def String_append_char_def String_append_chars_def Hash_String_def e)
  moreover have "String_plus s t = None" using r by (simp add: String_plus_def String_append_def str_rep_size [OF r(2)])
  moreover obtain z where z: "String_of_cstr (Some [NUL]) = Some z" "vec_rep z [NUL]" using of_cstr_empty by blast
  have "String_eq s z = Some False" using assms(1) eq_rep [OF _ z(2), of s "[]"] by (simp add: String_eq_def str_rep_def)
  moreover have sz: "String_size z = 0" "String_c_str z = Some []"
    using vec_rep_size [OF z(2)] elems_rep [OF z(2)] by (simp_all add: String_size_def String_c_str_def)
  moreover obtain z1 where z1: "Vector_push_back c z = Some z1" "vec_rep z1 [NUL, c]" using push_back_rep [OF z(2), of c] by auto
  obtain z2 where z2: "Vector_push_back NUL z1 = Some z2" "vec_rep z2 [NUL, c, NUL]" using push_back_rep [OF z1(2), of NUL] by auto
  have "String_push_back c z = Some z2" "String_size z2 = 2" "String_c_str z2 = Some []"
    using vec_rep_size [OF z2(2)] elems_rep [OF z2(2)] sz z1 z2
    by (simp_all add: String_push_back_def String_empty_def String_size_def String_c_str_def)
  ultimately show ?thesis using z(1) e by auto
qed

theorem empty_strings_differ_witness: "Hash_String String_new = None \<and> String_append_chars ''x'' String_new = None"
  using empty_strings_differ [OF str_rep_new, of "CHR ''a''" String_new "''x''"] by (simp add: NUL_def)

section \<open>Searching\<close>

lemma strstr_first:
  "strstr h n = (if \<exists>i. prefix n (drop i h) then Some (LEAST i. prefix n (drop i h)) else None)"
proof (induction h)
  case Nil
  show ?case by (auto simp: strstr.simps)
next
  case (Cons a h)
  show ?case
  proof (cases "prefix n (a # h)")
    case True
    then show ?thesis by (subst strstr.simps) (auto intro!: exI [of _ 0] Least_equality [symmetric])
  next
    case False
    have ex: "(\<exists>i. prefix n (drop i (a # h))) \<longleftrightarrow> (\<exists>i. prefix n (drop i h))"
      using False by (metis drop0 drop_Suc_Cons not0_implies_Suc)
    have "(LEAST i. prefix n (drop i (a # h))) = Suc (LEAST i. prefix n (drop i h))" if "prefix n (drop i h)" for i
      using that False Least_Suc [of "\<lambda>i. prefix n (drop i (a # h))" "Suc i"] by simp
    with False Cons.IH ex show ?thesis by (subst strstr.simps) auto
  qed
qed

text \<open>
  \<^verbatim>\<open>find\<close> returns the first occurrence in the whole string: the position from which it is to search
  only decides whether it searches at all.
\<close>

theorem find_ignores_position:
  assumes "str_rep s xs" and "str_rep t ys" and "ys \<noteq> []" and "pos < length xs"
  shows "String_find t pos s =
           Some (if \<exists>i. prefix ys (drop i xs) then Some (LEAST i. prefix ys (drop i xs)) else None)"
  using assms by (simp add: String_find_def str_rep_size strstr_first)

end
