(* ===== verification/Cpt_Stream.thy ===== *)
theory Cpt_Stream
  imports Cpt_String Cpt_Text
begin

text \<open>
  \<^verbatim>\<open>containers/StreamBuf.h\<close>, \<^verbatim>\<open>containers/IStream.h\<close>, \<^verbatim>\<open>containers/OStream.h\<close> and \<^verbatim>\<open>containers/Manip.h\<close>: stream
  buffers and formatted input and output on them.  The virtual functions of a buffer are a record of
  functions: \<open>view\<close> is the text between \<^verbatim>\<open>gptr()\<close> and \<^verbatim>\<open>egptr()\<close>.  The end of the input is \<^const>\<open>None\<close> where
  the code has \<^verbatim>\<open>EOF\<close>.

  A loop over the input ends only if the buffer reports the end: the loops are partial functions, and
  \<^const>\<open>None\<close> is the result of a loop that does not end, of undefined behaviour, and of \<^verbatim>\<open>abort\<close>.
\<close>

section \<open>Stream buffers\<close>

record 'b source =
  view :: "'b \<Rightarrow> char list option"
  gbump :: "nat \<Rightarrow> 'b \<Rightarrow> 'b"
  underflow :: "'b \<Rightarrow> (char option \<times> 'b) option"

definition sgetc :: "'b source \<Rightarrow> 'b \<Rightarrow> (char option \<times> 'b) option" where
  "sgetc B b = do {
     v \<leftarrow> view B b;
     if v = []
     then do {
       (c, b) \<leftarrow> underflow B b;
       case c of None \<Rightarrow> Some (None, b)
       | Some _ \<Rightarrow> do { v \<leftarrow> view B b; if v = [] then None else Some (Some (hd v), b) } }
     else Some (Some (hd v), b) }"

definition sbumpc :: "'b source \<Rightarrow> 'b \<Rightarrow> (char option \<times> 'b) option" where
  "sbumpc B b = do {
     (c, b) \<leftarrow> sgetc B b;
     case c of None \<Rightarrow> Some (None, b) | Some c \<Rightarrow> Some (Some c, gbump B 1 b) }"

record 'b sink =
  sputc :: "char \<Rightarrow> 'b \<Rightarrow> 'b option"
  sputn :: "char list \<Rightarrow> 'b \<Rightarrow> (nat \<times> 'b) option"
  flush_buf :: "'b \<Rightarrow> 'b option"

section \<open>Formatted input\<close>

record iostate =
  eofbit :: bool
  failbit :: bool
  badbit :: bool

definition goodbit :: iostate where
  "goodbit = \<lparr>eofbit = False, failbit = False, badbit = False\<rparr>"

record 'b IStream =
  ibuf :: 'b
  istate :: iostate

definition IStream_new :: "'b \<Rightarrow> 'b IStream" where
  "IStream_new b = \<lparr>ibuf = b, istate = goodbit\<rparr>"

definition set_eof :: "'b IStream \<Rightarrow> 'b IStream" where
  "set_eof s = s\<lparr>istate := (istate s)\<lparr>eofbit := True\<rparr>\<rparr>"

definition set_fail :: "'b IStream \<Rightarrow> 'b IStream" where
  "set_fail s = s\<lparr>istate := (istate s)\<lparr>failbit := True\<rparr>\<rparr>"

definition IStream_fail :: "'b IStream \<Rightarrow> bool" where
  "IStream_fail s \<longleftrightarrow> failbit (istate s) \<or> badbit (istate s)"

definition IStream_good :: "'b IStream \<Rightarrow> bool" where
  "IStream_good s \<longleftrightarrow> istate s = goodbit"

partial_function (option) skip_ws :: "'b source \<Rightarrow> 'b \<Rightarrow> 'b option" where
  "skip_ws B b = do {
     (c, b) \<leftarrow> sgetc B b;
     case c of None \<Rightarrow> Some b | Some c \<Rightarrow> (if isspace c then skip_ws B (gbump B 1 b) else Some b) }"

text \<open>The next value for a digit; an \<^verbatim>\<open>int\<close> must not overflow, an \<^verbatim>\<open>unsigned\<close> wraps around.\<close>

definition int_digit :: "int \<Rightarrow> char \<Rightarrow> int option" where
  "int_digit v c = (if v * 10 + int (digit_value c) < 2 ^ 31 then Some (v * 10 + int (digit_value c)) else None)"

definition uint_digit :: "32 word \<Rightarrow> char \<Rightarrow> (32 word) option" where
  "uint_digit v c = Some (v * 10 + of_nat (digit_value c))"

partial_function (option) digits_loop ::
  "('v \<Rightarrow> char \<Rightarrow> 'v option) \<Rightarrow> 'b source \<Rightarrow> 'v \<Rightarrow> bool \<Rightarrow> char option \<Rightarrow> 'b \<Rightarrow> ('v \<times> bool \<times> char option \<times> 'b) option"
where
  "digits_loop digit B v digits_read c b =
     (case c of None \<Rightarrow> Some (v, digits_read, c, b)
      | Some ch \<Rightarrow>
          if is_digit ch
          then do { v \<leftarrow> digit v ch; (c, b) \<leftarrow> sgetc B (gbump B 1 b); digits_loop digit B v True c b }
          else Some (v, digits_read, c, b))"

definition end_extract :: "char option \<Rightarrow> bool \<Rightarrow> 'b IStream \<Rightarrow> 'b IStream" where
  "end_extract c something_read s =
     (let s = (if c = None then set_eof s else s) in if \<not> something_read then set_fail s else s)"

definition extract_int :: "'b source \<Rightarrow> int \<Rightarrow> 'b IStream \<Rightarrow> (int \<times> 'b IStream) option" where
  "extract_int B v s =
     (if IStream_fail s then Some (v, s)
      else do {
        b \<leftarrow> skip_ws B (ibuf s);
        (c, b) \<leftarrow> sgetc B b;
        let sgn = (if c = Some (CHR ''-'') then - 1 else 1);
        (c, b) \<leftarrow> (if c = Some (CHR ''-'') \<or> c = Some (CHR ''+'') then sgetc B (gbump B 1 b) else Some (c, b));
        (v, digits_read, c, b) \<leftarrow> digits_loop int_digit B 0 False c b;
        Some (v * sgn, end_extract c digits_read (s\<lparr>ibuf := b\<rparr>)) })"

definition extract_uint :: "'b source \<Rightarrow> 32 word \<Rightarrow> 'b IStream \<Rightarrow> (32 word \<times> 'b IStream) option" where
  "extract_uint B v s =
     (if IStream_fail s then Some (v, s)
      else do {
        b \<leftarrow> skip_ws B (ibuf s);
        (c, b) \<leftarrow> sgetc B b;
        (v, digits_read, c, b) \<leftarrow> digits_loop uint_digit B 0 False c b;
        Some (v, end_extract c digits_read (s\<lparr>ibuf := b\<rparr>)) })"

partial_function (option) chars_loop ::
  "'b source \<Rightarrow> String \<Rightarrow> bool \<Rightarrow> char option \<Rightarrow> 'b \<Rightarrow> (String \<times> bool \<times> char option \<times> 'b) option"
where
  "chars_loop B out chars_read c b =
     (case c of None \<Rightarrow> Some (out, chars_read, c, b)
      | Some ch \<Rightarrow>
          if \<not> isspace ch
          then do { out \<leftarrow> String_push_back ch out; (c, b) \<leftarrow> sgetc B (gbump B 1 b); chars_loop B out True c b }
          else Some (out, chars_read, c, b))"

definition extract_string :: "'b source \<Rightarrow> String \<Rightarrow> 'b IStream \<Rightarrow> (String \<times> 'b IStream) option" where
  "extract_string B out s =
     (if IStream_fail s then Some (out, s)
      else do {
        b \<leftarrow> skip_ws B (ibuf s);
        out \<leftarrow> String_clear out;
        (c, b) \<leftarrow> sgetc B b;
        (out, chars_read, c, b) \<leftarrow> chars_loop B out False c b;
        Some (out, end_extract c chars_read (s\<lparr>ibuf := b\<rparr>)) })"

text \<open>\<^verbatim>\<open>getline\<close>; the delimiter is an ASCII character.\<close>

partial_function (option) getline_loop ::
  "'b source \<Rightarrow> char \<Rightarrow> String \<Rightarrow> 'b IStream \<Rightarrow> (bool \<times> String \<times> 'b IStream) option"
where
  "getline_loop B delim out s = do {
     v \<leftarrow> view B (ibuf s);
     if v = []
     then do {
       (c, b) \<leftarrow> sbumpc B (ibuf s);
       case c of
         None \<Rightarrow> Some (if String_empty out then (False, out, set_eof (set_fail (s\<lparr>ibuf := b\<rparr>)))
                       else (True, out, set_eof (s\<lparr>ibuf := b\<rparr>)))
       | Some ch \<Rightarrow>
           if ch = delim then Some (True, out, s\<lparr>ibuf := b\<rparr>)
           else do { out \<leftarrow> String_push_back ch out; getline_loop B delim out (s\<lparr>ibuf := b\<rparr>) } }
     else if delim \<in> set v
     then do {
       let n = length (takeWhile (\<lambda>c. c \<noteq> delim) v);
       out \<leftarrow> String_append_chars (take n v) out;
       Some (True, out, s\<lparr>ibuf := gbump B (n + 1) (ibuf s)\<rparr>) }
     else do {
       out \<leftarrow> String_append_chars v out;
       getline_loop B delim out (s\<lparr>ibuf := gbump B (length v) (ibuf s)\<rparr>) } }"

definition IStream_getline :: "'b source \<Rightarrow> char \<Rightarrow> String \<Rightarrow> 'b IStream \<Rightarrow> (bool \<times> String \<times> 'b IStream) option" where
  "IStream_getline B delim out s =
     (if IStream_fail s then Some (False, out, s)
      else do { out \<leftarrow> String_clear out; getline_loop B delim out s })"

text \<open>\<open>seek\<close> is \<^verbatim>\<open>seekoff\<close> of the buffer, which returns whether it worked.\<close>

definition IStream_seekoff :: "('b \<Rightarrow> (bool \<times> 'b) option) \<Rightarrow> 'b IStream \<Rightarrow> 'b IStream option" where
  "IStream_seekoff seek s =
     (if IStream_fail s then Some s
      else do {
        (ok, b) \<leftarrow> seek (ibuf s);
        let s = s\<lparr>ibuf := b\<rparr>;
        Some (if ok then s\<lparr>istate := (istate s)\<lparr>eofbit := False\<rparr>\<rparr> else set_fail s) })"

section \<open>Formatted output\<close>

record 'b OStream =
  obuf :: 'b
  owidth :: int
  oleft :: bool

definition OStream_new :: "'b \<Rightarrow> 'b OStream" where
  "OStream_new b = \<lparr>obuf = b, owidth = 0, oleft = False\<rparr>"

definition put_setw :: "int \<Rightarrow> 'b OStream \<Rightarrow> 'b OStream" where
  "put_setw w s = s\<lparr>owidth := w\<rparr>"

definition put_left :: "'b OStream \<Rightarrow> 'b OStream" where
  "put_left s = s\<lparr>oleft := True\<rparr>"

definition put_right :: "'b OStream \<Rightarrow> 'b OStream" where
  "put_right s = s\<lparr>oleft := False\<rparr>"

text \<open>What \<^verbatim>\<open>printf\<close> does with a field width; a negative one in the format is the flag for the left side.\<close>

definition pad :: "int \<Rightarrow> bool \<Rightarrow> string \<Rightarrow> string" where
  "pad w left txt =
     (let fill = replicate (nat \<bar>w\<bar> - length txt) (CHR '' '')
      in if left \<or> w < 0 then txt @ fill else fill @ txt)"

definition fmt :: "'b sink \<Rightarrow> string \<Rightarrow> 'b OStream \<Rightarrow> 'b OStream option" where
  "fmt K txt s = do {
     let tmp = fst (snprintf 128 (if owidth s \<noteq> 0 then pad (owidth s) (oleft s) txt else txt));
     (_, b) \<leftarrow> sputn K tmp (obuf s);
     Some (s\<lparr>obuf := b, owidth := 0, oleft := False\<rparr>) }"

definition put_int :: "'b sink \<Rightarrow> int \<Rightarrow> 'b OStream \<Rightarrow> 'b OStream option" where
  "put_int K v s = fmt K (dec_int v) s"

definition put_uint :: "'b sink \<Rightarrow> nat \<Rightarrow> 'b OStream \<Rightarrow> 'b OStream option" where
  "put_uint K v s = fmt K (dec_nat v) s"

fun put_cstr_loop :: "'b sink \<Rightarrow> char list \<Rightarrow> 'b \<Rightarrow> 'b option" where
  "put_cstr_loop K [] b = Some b"
| "put_cstr_loop K (c # cs) b = do { b \<leftarrow> sputc K c b; put_cstr_loop K cs b }"

definition put_cstr :: "'b sink \<Rightarrow> char list \<Rightarrow> 'b OStream \<Rightarrow> 'b OStream option" where
  "put_cstr K p s = do { b \<leftarrow> put_cstr_loop K (takeWhile (\<lambda>c. c \<noteq> NUL) p) (obuf s); Some (s\<lparr>obuf := b\<rparr>) }"

definition put_string :: "'b sink \<Rightarrow> String \<Rightarrow> 'b OStream \<Rightarrow> 'b OStream option" where
  "put_string K str s = do {
     xs \<leftarrow> Vector_elems str;
     (_, b) \<leftarrow> sputn K (take (String_size str) xs) (obuf s);
     Some (s\<lparr>obuf := b\<rparr>) }"

definition put_endl :: "'b sink \<Rightarrow> 'b OStream \<Rightarrow> 'b OStream option" where
  "put_endl K s = do { b \<leftarrow> sputc K (CHR 0x0A) (obuf s); b \<leftarrow> flush_buf K b; Some (s\<lparr>obuf := b\<rparr>) }"

section \<open>Lemmas on input\<close>

lemma scan_sign_cases:
  "scan_sign ys = (neg, body) \<Longrightarrow>
     (neg \<longleftrightarrow> ys \<noteq> [] \<and> hd ys = CHR ''-'') \<and> body = (if ys \<noteq> [] \<and> (hd ys = CHR ''-'' \<or> hd ys = CHR ''+'') then tl ys else ys)"
  by (cases ys) (auto split: if_splits)

lemma digits_value_ge: "n \<le> digits_value n ds"
  by (induction n ds rule: digits_value.induct) auto

lemma int_digits:
  assumes "n < 2 ^ 31"
  shows "foldl (\<lambda>v ch. Option.bind v (\<lambda>v. int_digit v ch)) (Some (int n)) ds =
           (if digits_value n ds < 2 ^ 31 then Some (int (digits_value n ds)) else None)"
  using assms
proof (induction ds arbitrary: n)
  case (Cons c ds)
  have N: "foldl (\<lambda>v ch. Option.bind v (\<lambda>v. int_digit v ch)) None ds = None" by (induction ds) auto
  have e: "int_digit (int n) c = (if n * 10 + digit_value c < 2 ^ 31 then Some (int (n * 10 + digit_value c)) else None)"
    by (simp add: int_digit_def)
  show ?case
  proof (cases "n * 10 + digit_value c < 2 ^ 31")
    case True
    then show ?thesis using Cons.IH [OF True] e by simp
  next
    case False
    moreover have "n * 10 + digit_value c \<le> digits_value (n * 10 + digit_value c) ds" by (rule digits_value_ge)
    ultimately show ?thesis using e N by simp
  qed
qed simp

text \<open>A line that begins in the middle of a chunk: its first characters are appended to an empty string.\<close>

lemma getline_in_chunk:
  assumes "view B (ibuf s) = Some v" and "v \<noteq> []" and "\<not> IStream_fail s" and "str_rep out zs"
  shows "IStream_getline B delim out s = None"
proof -
  obtain out' where o: "String_clear out = Some out'" "str_rep out' []" using clear_str [OF assms(4)] by blast
  then have "String_append_chars cs out' = None" for cs by (simp add: String_append_chars_def str_rep_size)
  with assms o show ?thesis by (subst IStream_getline_def, subst getline_loop.simps) (simp add: Let_def)
qed

section \<open>What a source promises\<close>

text \<open>
  The contract of a buffer that holds a text: \<open>rep b xs\<close> says that \<open>xs\<close> is what is still to be read.
\<close>

locale text_source =
  fixes B :: "'b source" and rep :: "'b \<Rightarrow> char list \<Rightarrow> bool"
  assumes view_rep: "rep b xs \<Longrightarrow> \<exists>v ys. view B b = Some v \<and> xs = v @ ys"
    and gbump_rep: "rep b xs \<Longrightarrow> view B b = Some v \<Longrightarrow> n \<le> length v \<Longrightarrow>
                      rep (gbump B n b) (drop n xs) \<and> view B (gbump B n b) = Some (drop n v)"
    and underflow_end: "rep b [] \<Longrightarrow> view B b = Some [] \<Longrightarrow> \<exists>b'. underflow B b = Some (None, b') \<and> rep b' []"
    and underflow_more: "rep b (x # xs) \<Longrightarrow> view B b = Some [] \<Longrightarrow>
                           \<exists>b' v. underflow B b = Some (Some x, b') \<and> rep b' (x # xs) \<and> view B b' = Some (x # v)"
begin

lemma sgetc_end:
  assumes "rep b []"
  shows "\<exists>b'. sgetc B b = Some (None, b') \<and> rep b' []"
proof -
  have "view B b = Some []" using view_rep [OF assms] by auto
  with underflow_end [OF assms] show ?thesis by (auto simp: sgetc_def)
qed

lemma sgetc_more:
  assumes "rep b (x # xs)"
  shows "\<exists>b'. sgetc B b = Some (Some x, b') \<and> rep (gbump B 1 b') xs \<and> rep b' (x # xs)"
proof -
  obtain v ys where v: "view B b = Some v" "x # xs = v @ ys" using view_rep [OF assms] by blast
  have bump: "rep (gbump B 1 b') xs" if "rep b' (x # xs)" "view B b' = Some (x # w)" for b' w
    using gbump_rep [OF that, of 1] by simp
  show ?thesis
  proof (cases v)
    case Nil
    with underflow_more [OF assms] v bump show ?thesis by (fastforce simp: sgetc_def)
  next
    case (Cons y w)
    with v assms bump [OF assms] show ?thesis by (auto simp: sgetc_def)
  qed
qed

text \<open>Reading the same character again.\<close>

lemma sgetc_cases:
  assumes "rep b xs"
  shows "\<exists>b'. sgetc B b = Some (if xs = [] then None else Some (hd xs), b') \<and> rep b' xs \<and>
            (xs \<noteq> [] \<longrightarrow> rep (gbump B 1 b') (tl xs))"
  using assms sgetc_end sgetc_more by (cases xs) fastforce+

lemma sbumpc_cases:
  assumes "rep b xs"
  shows "\<exists>b'. sbumpc B b = Some (if xs = [] then None else Some (hd xs), b') \<and> rep b' (tl xs)"
  using sgetc_cases [OF assms] by (cases xs) (auto simp: sbumpc_def)

lemma skip_ws_rep:
  assumes "rep b xs"
  shows "\<exists>b'. skip_ws B b = Some b' \<and> rep b' (dropWhile isspace xs)"
  using assms
proof (induction xs arbitrary: b)
  case Nil
  then show ?case using sgetc_end [OF Nil] by (subst skip_ws.simps) auto
next
  case (Cons x xs)
  obtain b' where b': "sgetc B b = Some (Some x, b')" "rep (gbump B 1 b') xs" "rep b' (x # xs)"
    using sgetc_more [OF Cons.prems] by blast
  from Cons.IH [OF b'(2)] b' show ?case by (subst skip_ws.simps) auto
qed

lemma digits_loop_rep:
  assumes "rep b xs" and "c = (if xs = [] then None else Some (hd xs))" and "xs \<noteq> [] \<longrightarrow> rep (gbump B 1 b) (tl xs)"
    and "foldl (\<lambda>v ch. Option.bind v (\<lambda>v. digit v ch)) (Some v) (takeWhile is_digit xs) = r"
  shows "case r of
           None \<Rightarrow> digits_loop digit B v d c b = None
         | Some w \<Rightarrow> \<exists>b'. digits_loop digit B v d c b =
              Some (w, d \<or> takeWhile is_digit xs \<noteq> [], if dropWhile is_digit xs = [] then None else Some (hd (dropWhile is_digit xs)), b') \<and>
              rep b' (dropWhile is_digit xs)"
  using assms
proof (induction xs arbitrary: b c v d)
  case Nil
  then show ?case by (subst digits_loop.simps) auto
next
  case (Cons x xs)
  show ?case
  proof (cases "is_digit x")
    case False
    with Cons.prems show ?thesis by (subst digits_loop.simps) auto
  next
    case True
    have N: "foldl (\<lambda>v ch. Option.bind v (\<lambda>v. digit v ch)) None ys = None" for ys by (induction ys) auto
    show ?thesis
    proof (cases "digit v x")
      case None
      with True Cons.prems have "r = None" by (auto simp: N)
      with None True Cons.prems show ?thesis by (subst digits_loop.simps) auto
    next
      case (Some w)
      obtain b1 where b1: "sgetc B (gbump B 1 b) = Some (if xs = [] then None else Some (hd xs), b1)" "rep b1 xs"
          "xs \<noteq> [] \<longrightarrow> rep (gbump B 1 b1) (tl xs)"
        using sgetc_cases [of "gbump B 1 b" xs] Cons.prems by auto
      have e: "digits_loop digit B v d c b = digits_loop digit B w True (if xs = [] then None else Some (hd xs)) b1"
        using True Some b1(1) Cons.prems(2) by (subst digits_loop.simps) simp
      have f: "foldl (\<lambda>v ch. Option.bind v (\<lambda>v. digit v ch)) (Some w) (takeWhile is_digit xs) = r"
        using True Some Cons.prems(4) by simp
      from Cons.IH [OF b1(2) refl b1(3) f, of True] True show ?thesis unfolding e by (auto split: option.splits)
    qed
  qed
qed

lemma extract_int_rep:
  assumes "rep (ibuf s) xs" and "\<not> IStream_fail s" and "scan_sign (dropWhile isspace xs) = (neg, body)"
  shows "if digits_value 0 (takeWhile is_digit body) < 2 ^ 31
         then \<exists>b'. extract_int B v s = Some ((if neg then - 1 else 1) * int (digits_value 0 (takeWhile is_digit body)),
                end_extract (if dropWhile is_digit body = [] then None else Some (hd (dropWhile is_digit body)))
                  (takeWhile is_digit body \<noteq> []) (s\<lparr>ibuf := b'\<rparr>)) \<and> rep b' (dropWhile is_digit body)
         else extract_int B v s = None"
proof -
  obtain b1 where b1: "skip_ws B (ibuf s) = Some b1" "rep b1 (dropWhile isspace xs)" using skip_ws_rep [OF assms(1)] by blast
  let ?ys = "dropWhile isspace xs"
  let ?c = "if ?ys = [] then None else Some (hd ?ys)"
  obtain b2 where b2: "sgetc B b1 = Some (?c, b2)" "rep b2 ?ys" "?ys \<noteq> [] \<longrightarrow> rep (gbump B 1 b2) (tl ?ys)"
    using sgetc_cases [OF b1(2)] by blast
  have "\<exists>b3. (if ?c = Some (CHR ''-'') \<or> ?c = Some (CHR ''+'') then sgetc B (gbump B 1 b2) else Some (?c, b2)) =
               Some (if body = [] then None else Some (hd body), b3) \<and> rep b3 body \<and> (body \<noteq> [] \<longrightarrow> rep (gbump B 1 b3) (tl body))"
  proof (cases "?c = Some (CHR ''-'') \<or> ?c = Some (CHR ''+'')")
    case True
    then obtain y ys where y: "?ys = y # ys" by (cases ?ys) auto
    with True assms(3) have "body = ys" by auto
    with True y b2 sgetc_cases [of "gbump B 1 b2" ys] show ?thesis by auto
  next
    case False
    then have "body = ?ys" using scan_sign_cases [OF assms(3)] by (auto split: if_splits)
    with False b2 show ?thesis by auto
  qed
  then obtain b3 where b3: "(if ?c = Some (CHR ''-'') \<or> ?c = Some (CHR ''+'') then sgetc B (gbump B 1 b2) else Some (?c, b2)) =
      Some (if body = [] then None else Some (hd body), b3)" "rep b3 body" "body \<noteq> [] \<longrightarrow> rep (gbump B 1 b3) (tl body)"
    by blast
  have neg: "(if ?c = Some (CHR ''-'') then - 1 else 1 :: int) = (if neg then - 1 else 1)"
    using scan_sign_cases [OF assms(3)] by (auto split: if_splits)
  note d = digits_loop_rep [OF b3(2) refl b3(3) int_digits [of 0, simplified], of False]
  show ?thesis
    using d assms(2) b1(1) b2(1) b3(1) neg by (auto simp: extract_int_def Let_def split: if_splits)
qed

lemma getline_loop_rep:
  assumes "rep (ibuf s) xs" and "str_rep out zs" and "NUL \<notin> set xs" and "zs \<noteq> [] \<or> view B (ibuf s) = Some []"
  shows "\<exists>out' s'. getline_loop B delim out s = Some (delim \<in> set xs \<or> zs @ xs \<noteq> [], out', s') \<and>
           str_rep out' (zs @ takeWhile (\<lambda>c. c \<noteq> delim) xs) \<and> rep (ibuf s') (tl (dropWhile (\<lambda>c. c \<noteq> delim) xs)) \<and>
           istate s' = (if delim \<in> set xs then istate s
                        else if zs @ xs = [] then (istate s)\<lparr>eofbit := True, failbit := True\<rparr> else (istate s)\<lparr>eofbit := True\<rparr>)"
  using assms
proof (induction "length xs" arbitrary: xs zs out s rule: less_induct)
  case less
  obtain v ys where v: "view B (ibuf s) = Some v" "xs = v @ ys" using view_rep [OF less.prems(1)] by blast
  show ?case
  proof (cases "v = []")
    case True
    obtain b where b: "sbumpc B (ibuf s) = Some (if xs = [] then None else Some (hd xs), b)" "rep b (tl xs)"
      using sbumpc_cases [OF less.prems(1)] by blast
    show ?thesis
    proof (cases xs)
      case Nil
      then show ?thesis using b v True str_rep_size(2) [OF less.prems(2)] less.prems(2)
        by (subst getline_loop.simps) (auto simp: set_eof_def set_fail_def)
    next
      case (Cons x ws)
      show ?thesis
      proof (cases "x = delim")
        case True
        with Cons b v \<open>v = []\<close> less.prems(2) show ?thesis by (subst getline_loop.simps) simp
      next
        case False
        obtain out1 where o: "String_push_back x out = Some out1" "str_rep out1 (zs @ [x])"
          using push_back_str [OF less.prems(2), of x] less.prems(3) Cons by auto
        have r: "rep (ibuf (s\<lparr>ibuf := b\<rparr>)) ws" using b(2) Cons by simp
        have e: "getline_loop B delim out s = getline_loop B delim out1 (s\<lparr>ibuf := b\<rparr>)"
          using False Cons b(1) v \<open>v = []\<close> o(1) by (subst getline_loop.simps) simp
        show ?thesis unfolding e using less.hyps [OF _ r o(2)] less.prems(3) False Cons by auto
      qed
    qed
  next
    case False
    with v less.prems(4) have z: "zs \<noteq> []" by auto
    have n: "NUL \<notin> set v" using less.prems(3) v(2) by auto
    show ?thesis
    proof (cases "delim \<in> set v")
      case True
      let ?n = "length (takeWhile (\<lambda>c. c \<noteq> delim) v)"
      have t: "takeWhile (\<lambda>c. c \<noteq> delim) (v @ ys) = takeWhile (\<lambda>c. c \<noteq> delim) v"
        "dropWhile (\<lambda>c. c \<noteq> delim) (v @ ys) = dropWhile (\<lambda>c. c \<noteq> delim) v @ ys"
        using True by (auto simp: takeWhile_append dropWhile_append)
      have tk: "take ?n v = takeWhile (\<lambda>c. c \<noteq> delim) v" by (rule takeWhile_eq_take [symmetric])
      have "dropWhile (\<lambda>c. c \<noteq> delim) v \<noteq> []" using True by (simp add: dropWhile_eq_Nil_conv)
      moreover have "length v = ?n + length (dropWhile (\<lambda>c. c \<noteq> delim) v)" by (metis length_append takeWhile_dropWhile_id)
      ultimately have "?n < length v" by simp
      then have g: "rep (gbump B (?n + 1) (ibuf s)) (drop (?n + 1) xs)" using gbump_rep [OF less.prems(1) v(1), of "?n + 1"] by simp
      have dr: "drop (?n + 1) xs = tl (dropWhile (\<lambda>c. c \<noteq> delim) xs)"
        unfolding dropWhile_eq_drop [of "\<lambda>c. c \<noteq> delim" xs] using t(1) by (simp add: v(2) drop_Suc tl_drop del: drop_append)
      obtain out1 where "String_append_chars (take ?n v) out = Some out1" "str_rep out1 (zs @ take ?n v)"
        using append_chars_str [OF less.prems(2) z, of "take ?n v"] n in_set_takeD [of NUL ?n v] by blast
      with True False v(1) g dr show ?thesis
        by (subst getline_loop.simps) (auto simp: Let_def v(2) t tk)
    next
      case d: False
      obtain out1 where o: "String_append_chars v out = Some out1" "str_rep out1 (zs @ v)"
        using append_chars_str [OF less.prems(2) z n] by blast
      have r: "rep (ibuf (s\<lparr>ibuf := gbump B (length v) (ibuf s)\<rparr>)) ys"
        using gbump_rep [OF less.prems(1) v(1), of "length v"] v(2) by simp
      have e: "getline_loop B delim out s = getline_loop B delim out1 (s\<lparr>ibuf := gbump B (length v) (ibuf s)\<rparr>)"
        using d False v(1) o(1) by (subst getline_loop.simps) simp
      have t: "takeWhile (\<lambda>c. c \<noteq> delim) (v @ ys) = v @ takeWhile (\<lambda>c. c \<noteq> delim) ys"
        "dropWhile (\<lambda>c. c \<noteq> delim) (v @ ys) = dropWhile (\<lambda>c. c \<noteq> delim) ys"
        using d by (auto simp: takeWhile_append dropWhile_append)
      show ?thesis unfolding e using less.hyps [OF _ r o(2)] less.prems(3) False d z by (auto simp: v(2) t)
    qed
  qed
qed

end

section \<open>What a sink promises\<close>

text \<open>\<open>wrep b xs\<close>: \<open>xs\<close> has been written so far.\<close>

locale char_sink =
  fixes K :: "'b sink" and wrep :: "'b \<Rightarrow> char list \<Rightarrow> bool"
  assumes sputc_rep: "wrep b xs \<Longrightarrow> c \<noteq> NUL \<Longrightarrow> \<exists>b'. sputc K c b = Some b' \<and> wrep b' (xs @ [c])"
begin

lemma put_cstr_loop_rep:
  "wrep b xs \<Longrightarrow> NUL \<notin> set cs \<Longrightarrow> \<exists>b'. put_cstr_loop K cs b = Some b' \<and> wrep b' (xs @ cs)"
proof (induction cs arbitrary: b xs)
  case (Cons c cs)
  obtain b1 where "sputc K c b = Some b1" "wrep b1 (xs @ [c])" using sputc_rep [OF Cons.prems(1), of c] Cons.prems(2) by auto
  with Cons.IH [of b1 "xs @ [c]"] Cons.prems(2) show ?case by auto
qed simp

lemma put_cstr_rep:
  assumes "wrep (obuf s) xs" and "NUL \<notin> set cs"
  shows "\<exists>b'. put_cstr K (cs @ NUL # junk) s = Some (s\<lparr>obuf := b'\<rparr>) \<and> wrep b' (xs @ cs)"
proof -
  have "takeWhile (\<lambda>c. c \<noteq> NUL) (cs @ NUL # junk) = cs" using assms(2) by (induction cs) auto
  with put_cstr_loop_rep [OF assms] show ?thesis by (auto simp: put_cstr_def)
qed

end

locale text_sink = char_sink +
  assumes sputn_rep: "wrep b xs \<Longrightarrow> NUL \<notin> set ys \<Longrightarrow> \<exists>b'. sputn K ys b = Some (length ys, b') \<and> wrep b' (xs @ ys)"
begin

text \<open>A formatted text that fits the buffer of 128 characters is written out in full.\<close>

lemma fmt_rep:
  assumes "wrep (obuf s) xs" and "NUL \<notin> set txt" and "length txt < 128" and "\<bar>owidth s\<bar> < 128"
  shows "\<exists>s'. fmt K txt s = Some s' \<and> owidth s' = 0 \<and> \<not> oleft s' \<and>
           wrep (obuf s') (xs @ pad (owidth s) (oleft s) txt)"
proof -
  let ?t = "pad (owidth s) (oleft s) txt"
  have n: "NUL \<notin> set ?t" using assms(2) by (auto simp: pad_def Let_def NUL_def)
  have "length ?t < 128" using assms(3,4) by (auto simp: pad_def Let_def)
  then have f: "fst (snprintf 128 (if owidth s \<noteq> 0 then ?t else txt)) = ?t"
    using assms(3) by (cases "owidth s = 0") (simp_all add: snprintf_def, simp add: pad_def)
  obtain b where "sputn K ?t (obuf s) = Some (length ?t, b)" "wrep b (xs @ ?t)" using sputn_rep [OF assms(1) n] by blast
  then show ?thesis by (simp add: fmt_def Let_def f)
qed

lemma put_string_rep:
  assumes "wrep (obuf s) xs" and "str_rep str ys"
  shows "\<exists>b'. put_string K str s = Some (s\<lparr>obuf := b'\<rparr>) \<and> wrep b' (xs @ ys)"
proof -
  have "NUL \<notin> set ys" using assms(2) by (simp add: str_rep_def)
  from sputn_rep [OF assms(1) this] show ?thesis by (auto simp: put_string_def str_rep_size [OF assms(2)])
qed

end

end
