(* ===== verification/Cpt_Buffers.thy ===== *)
theory Cpt_Buffers
  imports Cpt_Stream
begin

text \<open>
  \<^verbatim>\<open>containers/StringBuf.h\<close>, \<^verbatim>\<open>containers/FileBuf.h\<close> and \<^verbatim>\<open>containers/IFStream.h\<close>: the two stream buffers of the
  tool and the input stream on a file.

  The pointers of a string buffer point into the memory of the string.  The memory is replaced exactly
  when the capacity of the string changes, so that a pointer carries the capacity at the time it was
  taken; reading through it later is defined only while that is still the capacity.

  A \<^verbatim>\<open>FILE\<close> of the C library is its text, the position of the next read, and whether and how much can be
  written to it.
\<close>

section \<open>A buffer on a string\<close>

text \<open>\<open>sview\<close>: capacity, \<^verbatim>\<open>readPtr_\<close> and \<^verbatim>\<open>readEnd_\<close> as indices; \<^const>\<open>None\<close> for null pointers.\<close>

record StringBuf =
  str :: String
  readPos :: nat
  sview :: "(nat \<times> nat \<times> nat) option"

definition StringBuf_new :: "String \<Rightarrow> StringBuf" where
  "StringBuf_new storage = \<lparr>str = storage, readPos = 0, sview = None\<rparr>"

definition sb_view :: "StringBuf \<Rightarrow> char list option" where
  "sb_view b =
     (case sview b of
        None \<Rightarrow> Some []
      | Some (cap, p, e) \<Rightarrow>
          if e \<le> p then Some []
          else if cap = Vector_capacity (str b) \<and> e \<le> Vector_size (str b)
          then do { xs \<leftarrow> Vector_elems (str b); Some (take (e - p) (drop p xs)) } else None)"

definition sb_gbump :: "nat \<Rightarrow> StringBuf \<Rightarrow> StringBuf" where
  "sb_gbump n b = b\<lparr>sview := map_option (\<lambda>(cap, p, e). (cap, p + n, e)) (sview b)\<rparr>"

definition sb_underflow :: "StringBuf \<Rightarrow> (char option \<times> StringBuf) option" where
  "sb_underflow b =
     (if readPos b \<ge> String_size (str b) then Some (None, b)
      else do {
        let b = b\<lparr>sview := Some (Vector_capacity (str b), readPos b, String_size (str b))\<rparr>;
        c \<leftarrow> String_at (readPos b) (str b);
        Some (Some c, b) })"

definition sb_overflow :: "char \<Rightarrow> StringBuf \<Rightarrow> StringBuf option" where
  "sb_overflow c b = do { s \<leftarrow> String_push_back c (str b); Some (b\<lparr>str := s\<rparr>) }"

definition sb_xsputn :: "char list \<Rightarrow> StringBuf \<Rightarrow> (nat \<times> StringBuf) option" where
  "sb_xsputn cs b = do { s \<leftarrow> String_append_chars cs (str b); Some (length cs, b\<lparr>str := s\<rparr>) }"

datatype whence = SEEK_SET | SEEK_CUR | SEEK_END

definition sb_do_seek :: "int \<Rightarrow> whence \<Rightarrow> StringBuf \<Rightarrow> bool \<times> StringBuf" where
  "sb_do_seek off wh b =
     (if wh \<noteq> SEEK_SET then (False, b)
      else if off < 0 \<or> nat off > String_size (str b) then (False, b)
      else (True, b\<lparr>readPos := nat off, sview := None\<rparr>))"

text \<open>\<^verbatim>\<open>StreamBuf::seekoff\<close> for this buffer, whose \<^verbatim>\<open>sync\<close> does nothing.\<close>

definition sb_seekoff :: "int \<Rightarrow> whence \<Rightarrow> StringBuf \<Rightarrow> bool \<times> StringBuf" where
  "sb_seekoff off wh b = sb_do_seek off wh (b\<lparr>sview := None\<rparr>)"

definition sb_do_tell :: "StringBuf \<Rightarrow> int" where
  "sb_do_tell b = int (readPos b)"

text \<open>The put area is always empty: every character goes through \<^verbatim>\<open>overflow\<close>.\<close>

definition sb_source :: "StringBuf source" where
  "sb_source = \<lparr>view = sb_view, gbump = sb_gbump, underflow = sb_underflow\<rparr>"

definition sb_sink :: "StringBuf sink" where
  "sb_sink = \<lparr>sputc = sb_overflow, sputn = sb_xsputn, flush_buf = Some\<rparr>"

section \<open>A buffer on a file\<close>

record FILE =
  ftext :: "char list"
  fpos :: nat
  froom :: "nat option"
  flush_ok :: bool
  close_ok :: bool

definition fread :: "nat \<Rightarrow> FILE \<Rightarrow> char list \<times> FILE" where
  "fread n f = (take n (drop (fpos f) (ftext f)), f\<lparr>fpos := min (fpos f + n) (max (fpos f) (length (ftext f)))\<rparr>)"

definition fwrite :: "char list \<Rightarrow> FILE \<Rightarrow> nat \<times> FILE" where
  "fwrite cs f =
     (let n = (case froom f of None \<Rightarrow> length cs | Some r \<Rightarrow> min r (length cs))
      in (n, f\<lparr>ftext := ftext f @ take n cs, froom := map_option (\<lambda>r. r - n) (froom f)\<rparr>))"

definition readSize :: nat where "readSize = 4096"
definition writeSize :: nat where "writeSize = 4096"

text \<open>
  \<open>readBuf\<close> and \<open>writeBase\<close> say whether these pointers are not null.  \<open>rview\<close> is the text between \<^verbatim>\<open>readPtr_\<close> and
  \<^verbatim>\<open>readEnd_\<close>.  \<open>put\<close> is the text between the begin of \<^verbatim>\<open>writeBuf_\<close> and \<^verbatim>\<open>writePtr_\<close>, \<^const>\<open>None\<close> when \<^verbatim>\<open>writePtr_\<close> and
  \<^verbatim>\<open>writeEnd_\<close> are null.
\<close>

record FileBuf =
  fp :: "FILE option"
  readBuf :: bool
  rview :: "char list"
  writeBase :: bool
  put :: "char list option"

definition FileBuf_new :: FileBuf where
  "FileBuf_new = \<lparr>fp = None, readBuf = False, rview = [], writeBase = False, put = None\<rparr>"

record openmode =
  o_in :: bool
  o_out :: bool
  o_app :: bool
  o_trunc :: bool

definition mode_to_c_mode :: "openmode \<Rightarrow> string option" where
  "mode_to_c_mode m =
     (if o_in m \<and> o_out m then Some (if o_app m then ''a+'' else if o_trunc m then ''w+'' else ''r+'')
      else if o_in m then Some ''r''
      else if o_out m then Some (if o_app m then ''a'' else ''w'')
      else None)"

definition setp :: "FileBuf \<Rightarrow> FileBuf" where
  "setp b = b\<lparr>writeBase := True, put := Some []\<rparr>"

definition setp_null :: "FileBuf \<Rightarrow> FileBuf" where
  "setp_null b = b\<lparr>writeBase := False, put := None\<rparr>"

definition setg_null :: "FileBuf \<Rightarrow> FileBuf" where
  "setg_null b = b\<lparr>readBuf := False, rview := []\<rparr>"

definition initialise_buffers :: "FileBuf \<Rightarrow> FileBuf" where
  "initialise_buffers b = setp (b\<lparr>readBuf := True, rview := []\<rparr>)"

definition invalidate_buffers :: "FileBuf \<Rightarrow> FileBuf" where
  "invalidate_buffers b = setp_null (setg_null b)"

text \<open>The result says whether the buffer was opened.\<close>

definition FileBuf_open :: "(string \<Rightarrow> string \<Rightarrow> FILE option) \<Rightarrow> string \<Rightarrow> openmode \<Rightarrow> FileBuf \<Rightarrow> bool \<times> FileBuf" where
  "FileBuf_open fopen pathname m b =
     (if fp b \<noteq> None then (False, b)
      else case mode_to_c_mode m of
        None \<Rightarrow> (False, b)
      | Some fm \<Rightarrow> (case fopen pathname fm of
            None \<Rightarrow> (False, b)
          | Some f \<Rightarrow> (True, initialise_buffers (b\<lparr>fp := Some f\<rparr>))))"

text \<open>\<^verbatim>\<open>writePtr_ - writeBase_\<close>, the number of bytes to write, as the bytes themselves.\<close>

definition pending :: "FileBuf \<Rightarrow> char list option" where
  "pending b = (case put b of None \<Rightarrow> (if writeBase b then None else Some [])
                | Some w \<Rightarrow> (if writeBase b then Some w else None))"

definition fb_sync :: "FileBuf \<Rightarrow> (bool \<times> FileBuf) option" where
  "fb_sync b = do {
     w \<leftarrow> pending b;
     case fp b of
       None \<Rightarrow> (if w = [] then Some (True, b) else None)
     | Some f \<Rightarrow>
         (if w = [] then Some (flush_ok f, b)
          else let (n, f) = fwrite w f; b = b\<lparr>fp := Some f\<rparr>
               in Some (if n \<noteq> length w then (False, b) else (flush_ok f, b))) }"

text \<open>The result is the file as it was closed, and whether there was no error.\<close>

definition FileBuf_close :: "FileBuf \<Rightarrow> (bool \<times> FILE option \<times> FileBuf) option" where
  "FileBuf_close b =
     (if fp b = None then Some (False, None, b)
      else do {
        (ok, b) \<leftarrow> fb_sync b;
        f \<leftarrow> fp b;
        let b = invalidate_buffers (b\<lparr>fp := None\<rparr>);
        Some (ok \<and> close_ok f, Some f, b) })"

definition fb_underflow :: "FileBuf \<Rightarrow> (char option \<times> FileBuf) option" where
  "fb_underflow b =
     (case fp b of
        None \<Rightarrow> Some (None, b)
      | Some f \<Rightarrow>
          if readBuf b
          then let (cs, f) = fread readSize f; b = b\<lparr>fp := Some f\<rparr>
               in Some (if cs = [] then (None, b) else (Some (hd cs), b\<lparr>rview := cs\<rparr>))
          else None)"

definition fb_gbump :: "nat \<Rightarrow> FileBuf \<Rightarrow> FileBuf" where
  "fb_gbump n b = b\<lparr>rview := drop n (rview b)\<rparr>"

definition fb_overflow :: "char \<Rightarrow> FileBuf \<Rightarrow> FileBuf option" where
  "fb_overflow c b = do {
     (ok, b) \<leftarrow> fb_sync b;
     f \<leftarrow> (if ok then fp b else None);
     let (n, f) = fwrite [c] f;
     if n = 0 then None else Some (setp_null (b\<lparr>fp := Some f\<rparr>)) }"

definition put_full :: "FileBuf \<Rightarrow> bool" where
  "put_full b \<longleftrightarrow> (case put b of None \<Rightarrow> True | Some w \<Rightarrow> length w \<ge> writeSize)"

definition fb_sputc :: "char \<Rightarrow> FileBuf \<Rightarrow> FileBuf option" where
  "fb_sputc c b = (if put_full b then fb_overflow c b else Some (b\<lparr>put := map_option (\<lambda>w. w @ [c]) (put b)\<rparr>))"

definition make_room :: "FileBuf \<Rightarrow> (bool \<times> FileBuf) option" where
  "make_room b =
     (if put_full b then do { (ok, b) \<leftarrow> fb_sync b; Some (ok, if ok then setp b else b) } else Some (True, b))"

definition put_space :: "FileBuf \<Rightarrow> nat" where
  "put_space b = (case put b of None \<Rightarrow> 0 | Some w \<Rightarrow> writeSize - length w)"

lemma make_room_space: "make_room b = Some (True, b') \<Longrightarrow> 0 < put_space b'"
  by (auto simp: make_room_def put_full_def put_space_def setp_def writeSize_def
      split: if_splits Option.bind_splits option.splits)

function fb_xsputn :: "char list \<Rightarrow> FileBuf \<Rightarrow> (nat \<times> FileBuf) option" where
  "fb_xsputn s b =
     (if s = [] then Some (0, b)
      else case make_room b of
        None \<Rightarrow> None
      | Some (False, b) \<Rightarrow> Some (0, b)
      | Some (True, b) \<Rightarrow>
          (let to_copy = min (length s) (put_space b);
               b = b\<lparr>put := map_option (\<lambda>w. w @ take to_copy s) (put b)\<rparr>
           in do { (n, b) \<leftarrow> fb_xsputn (drop to_copy s) b; Some (to_copy + n, b) }))"
  by pat_completeness auto
termination
  by (relation "measure (\<lambda>(s, b). length s)") (auto dest: make_room_space)

declare fb_xsputn.simps [simp del]

definition fb_flush :: "FileBuf \<Rightarrow> FileBuf option" where
  "fb_flush b = do { (_, b) \<leftarrow> fb_sync b; Some b }"

text \<open>\<^verbatim>\<open>fseek\<close> is a parameter: the new position, or an error.\<close>

definition fb_do_seek :: "(FILE \<Rightarrow> nat option) \<Rightarrow> FileBuf \<Rightarrow> (bool \<times> FileBuf) option" where
  "fb_do_seek fseek b = do {
     (ok, b) \<leftarrow> fb_sync b;
     if \<not> ok then Some (False, b)
     else do {
       f \<leftarrow> fp b;
       case fseek f of
         None \<Rightarrow> Some (False, b)
       | Some p \<Rightarrow> Some (True, setg_null (b\<lparr>fp := Some (f\<lparr>fpos := p\<rparr>)\<rparr>)) } }"

definition fb_seekoff :: "(FILE \<Rightarrow> nat option) \<Rightarrow> FileBuf \<Rightarrow> (bool \<times> FileBuf) option" where
  "fb_seekoff fseek b = do {
     (ok, b) \<leftarrow> fb_sync b;
     if \<not> ok then Some (False, b) else fb_do_seek fseek (b\<lparr>rview := [], put := None\<rparr>) }"

definition fb_source :: "FileBuf source" where
  "fb_source = \<lparr>view = (\<lambda>b. Some (rview b)), gbump = fb_gbump, underflow = fb_underflow\<rparr>"

definition fb_sink :: "FileBuf sink" where
  "fb_sink = \<lparr>sputc = fb_sputc, sputn = fb_xsputn, flush_buf = fb_flush\<rparr>"

section \<open>Input from a file\<close>

definition IFStream_open :: "(string \<Rightarrow> string \<Rightarrow> FILE option) \<Rightarrow> string \<Rightarrow> openmode \<Rightarrow> FileBuf IStream \<Rightarrow> bool \<times> FileBuf IStream" where
  "IFStream_open fopen filename m s =
     (case FileBuf_open fopen filename m (ibuf s) of
        (ok, b) \<Rightarrow> if ok then (True, s\<lparr>ibuf := b, istate := goodbit\<rparr>) else (False, set_fail (s\<lparr>ibuf := b\<rparr>)))"

definition IFStream_close :: "FileBuf IStream \<Rightarrow> FileBuf IStream option" where
  "IFStream_close s =
     (if fp (ibuf s) \<noteq> None
      then do {
        (ok, _, b) \<leftarrow> FileBuf_close (ibuf s);
        Some (if ok then s\<lparr>ibuf := b, istate := goodbit\<rparr> else set_fail (s\<lparr>ibuf := b\<rparr>)) }
      else Some s)"

definition IFStream_seekg :: "(FILE \<Rightarrow> nat option) \<Rightarrow> FileBuf IStream \<Rightarrow> FileBuf IStream option" where
  "IFStream_seekg fseek s =
     (if fp (ibuf s) = None \<or> IStream_fail s then Some s
      else do {
        s \<leftarrow> IStream_seekoff (fb_seekoff fseek) s;
        Some (if IStream_fail s then set_fail s else s\<lparr>istate := (istate s)\<lparr>eofbit := False\<rparr>\<rparr>) })"

definition IFStream_tellg :: "FileBuf IStream \<Rightarrow> int" where
  "IFStream_tellg s =
     (case fp (ibuf s) of None \<Rightarrow> - 1 | Some f \<Rightarrow> if IStream_fail s then - 1 else int (fpos f))"

section \<open>The contracts\<close>

lemma fb_source_simps [simp]:
  "view fb_source b = Some (rview b)" "gbump fb_source = fb_gbump" "underflow fb_source = fb_underflow"
  by (simp_all add: fb_source_def)

lemma fb_sink_simps [simp]: "sputc fb_sink = fb_sputc" "sputn fb_sink = fb_xsputn" "flush_buf fb_sink = fb_flush"
  by (simp_all add: fb_sink_def)

lemma sb_simps [simp]:
  "view sb_source = sb_view" "gbump sb_source = sb_gbump" "underflow sb_source = sb_underflow"
  "sputc sb_sink = sb_overflow" "sputn sb_sink = sb_xsputn"
  by (simp_all add: sb_source_def sb_sink_def)

text \<open>A file that is open for reading; what is still to be read is partly in the buffer.\<close>

definition fb_rep :: "FileBuf \<Rightarrow> char list \<Rightarrow> bool" where
  "fb_rep b xs \<longleftrightarrow> (case fp b of None \<Rightarrow> False | Some f \<Rightarrow> readBuf b \<and> xs = rview b @ drop (fpos f) (ftext f))"

interpretation fs: text_source fb_source fb_rep
proof
  fix b xs v n
  assume "fb_rep b xs" "view fb_source b = Some v" "n \<le> length v"
  then show "fb_rep (gbump fb_source n b) (drop n xs) \<and> view fb_source (gbump fb_source n b) = Some (drop n v)"
    by (auto simp: fb_rep_def fb_gbump_def split: option.splits)
next
  fix b
  assume "fb_rep b []" "view fb_source b = Some []"
  then show "\<exists>b'. underflow fb_source b = Some (None, b') \<and> fb_rep b' []"
    by (auto simp: fb_rep_def fb_underflow_def fread_def split: option.splits)
next
  fix b x xs
  assume "fb_rep b (x # xs)" "view fb_source b = Some []"
  then obtain f where f: "fp b = Some f" "readBuf b" "x # xs = drop (fpos f) (ftext f)" "rview b = []"
    by (auto simp: fb_rep_def split: option.splits)
  have p: "fpos f < length (ftext f)" using f(3) by (metis drop_all leI list.discI)
  have t: "take readSize (x # xs) = x # take (readSize - 1) xs" by (simp add: readSize_def take_Cons')
  have d: "drop (min (fpos f + readSize) (max (fpos f) (length (ftext f)))) (ftext f) = drop readSize (x # xs)"
    using p by (simp add: f(3) min_def max_def add.commute)
  have "take readSize (x # xs) @ drop readSize (x # xs) = x # xs" by (rule append_take_drop_id)
  then show "\<exists>b' v. underflow fb_source b = Some (Some x, b') \<and> fb_rep b' (x # xs) \<and> view fb_source b' = Some (x # v)"
    using f t d by (simp add: fb_underflow_def fread_def fb_rep_def Let_def)
qed (auto simp: fb_rep_def split: option.splits)

text \<open>A file that is open for writing, with room for everything that will be written.\<close>

definition fb_wrep :: "FileBuf \<Rightarrow> char list \<Rightarrow> bool" where
  "fb_wrep b xs \<longleftrightarrow>
     (case fp b of None \<Rightarrow> False
      | Some f \<Rightarrow> froom f = None \<and> flush_ok f \<and> close_ok f \<and> (case pending b of None \<Rightarrow> False | Some w \<Rightarrow> xs = ftext f @ w))"

lemma fb_wrepE:
  assumes "fb_wrep b xs"
  obtains f w where "fp b = Some f" "froom f = None" "flush_ok f" "close_ok f" "pending b = Some w" "xs = ftext f @ w"
  using assms by (auto simp: fb_wrep_def split: option.splits)

lemma fwrite_all: "froom f = None \<Longrightarrow> fwrite cs f = (length cs, f\<lparr>ftext := ftext f @ cs\<rparr>)"
  by (simp add: fwrite_def)

lemma fb_sync_wrep:
  assumes "fb_wrep b xs"
  shows "\<exists>f. fb_sync b = Some (True, b\<lparr>fp := Some f\<rparr>) \<and> ftext f = xs \<and> froom f = None \<and> flush_ok f \<and> close_ok f"
  using assms
proof (rule fb_wrepE)
  fix f w
  assume f: "fp b = Some f" "froom f = None" "flush_ok f" "close_ok f" "pending b = Some w" "xs = ftext f @ w"
  have "b = b\<lparr>fp := Some f\<rparr>" using f(1) by simp
  with f show ?thesis by (cases "w = []") (auto simp: fb_sync_def fwrite_all intro: exI [of _ f])
qed

lemma make_room_wrep:
  assumes "fb_wrep b xs"
  shows "\<exists>b' w. make_room b = Some (True, b') \<and> fb_wrep b' xs \<and> put b' = Some w \<and> writeBase b'"
proof (cases "put_full b")
  case True
  with fb_sync_wrep [OF assms] show ?thesis by (auto simp: make_room_def setp_def fb_wrep_def pending_def)
next
  case False
  with assms show ?thesis
    by (auto simp: make_room_def put_full_def pending_def elim!: fb_wrepE split: option.splits if_splits)
qed

lemma put_chars_wrep: "fb_wrep b xs \<Longrightarrow> put b = Some w \<Longrightarrow> fb_wrep (b\<lparr>put := Some (w @ cs)\<rparr>) (xs @ cs)"
  by (auto simp: fb_wrep_def pending_def split: option.splits if_splits)

lemma fb_xsputn_wrep:
  "fb_wrep b xs \<Longrightarrow> \<exists>b'. fb_xsputn ys b = Some (length ys, b') \<and> fb_wrep b' (xs @ ys)"
proof (induction "length ys" arbitrary: ys b xs rule: less_induct)
  case less
  show ?case
  proof (cases "ys = []")
    case True
    with less.prems show ?thesis by (subst fb_xsputn.simps) simp
  next
    case False
    obtain b1 w where b1: "make_room b = Some (True, b1)" "fb_wrep b1 xs" "put b1 = Some w"
      using make_room_wrep [OF less.prems] by blast
    let ?k = "min (length ys) (put_space b1)" and ?b = "b1\<lparr>put := Some (w @ take (min (length ys) (put_space b1)) ys)\<rparr>"
    have k: "0 < ?k" using False make_room_space [OF b1(1)] by simp
    have "length (drop ?k ys) < length ys" using k False by (simp add: less_imp_diff_less)
    from less.hyps [OF this put_chars_wrep [OF b1(2,3), of "take ?k ys"]] obtain b2 where
      "fb_xsputn (drop ?k ys) ?b = Some (length (drop ?k ys), b2)" "fb_wrep b2 (xs @ take ?k ys @ drop ?k ys)" by auto
    with False b1 show ?thesis by (subst fb_xsputn.simps) (simp add: Let_def)
  qed
qed

interpretation fk: text_sink fb_sink fb_wrep
proof
  fix b xs c
  assume b: "fb_wrep b xs"
  show "\<exists>b'. sputc fb_sink c b = Some b' \<and> fb_wrep b' (xs @ [c])"
  proof (cases "put_full b")
    case True
    with fb_sync_wrep [OF b] show ?thesis
      by (auto simp: fb_sputc_def fb_overflow_def fwrite_all setp_null_def fb_wrep_def pending_def)
  next
    case False
    then obtain w where "put b = Some w" by (auto simp: put_full_def split: option.splits)
    with False put_chars_wrep [OF b this, of "[c]"] show ?thesis by (simp add: fb_sputc_def)
  qed
qed (simp add: fb_xsputn_wrep)

interpretation ss: char_sink sb_sink "\<lambda>b xs. str_rep (str b) xs"
  by unfold_locales (auto simp: sb_overflow_def dest: push_back_str)

section \<open>Files\<close>

definition mode_out :: openmode where "mode_out = \<lparr>o_in = False, o_out = True, o_app = False, o_trunc = False\<rparr>"
definition mode_in :: openmode where "mode_in = \<lparr>o_in = True, o_out = False, o_app = False, o_trunc = False\<rparr>"

definition empty_file :: FILE where
  "empty_file = \<lparr>ftext = [], fpos = 0, froom = None, flush_ok = True, close_ok = True\<rparr>"

text \<open>A stream that reads the file \<open>f\<close> from its beginning.\<close>

definition reading :: "string \<Rightarrow> FILE \<Rightarrow> FileBuf IStream" where
  "reading path f = snd (IFStream_open (\<lambda>_ _. Some (f\<lparr>fpos := 0\<rparr>)) path mode_in (IStream_new FileBuf_new))"

lemma reading_rep: "fb_rep (ibuf (reading path f)) (ftext f)" "istate (reading path f) = goodbit"
  "ibuf (reading path f) = \<lparr>fp = Some (f\<lparr>fpos := 0\<rparr>), readBuf = True, rview = [], writeBase = True, put = Some []\<rparr>"
  by (simp_all add: reading_def IFStream_open_def FileBuf_open_def FileBuf_new_def mode_in_def mode_to_c_mode_def
      initialise_buffers_def setp_def IStream_new_def fb_rep_def)

lemma open_wrep: "fb_wrep (snd (FileBuf_open (\<lambda>_ _. Some empty_file) path mode_out FileBuf_new)) []"
  by (simp add: FileBuf_open_def FileBuf_new_def mode_out_def mode_to_c_mode_def initialise_buffers_def setp_def
      fb_wrep_def pending_def empty_file_def)

lemma close_wrep: "fb_wrep b xs \<Longrightarrow> \<exists>f b'. FileBuf_close b = Some (True, Some f, b') \<and> ftext f = xs"
  using fb_sync_wrep [of b xs] by (auto simp: FileBuf_close_def elim!: fb_wrepE)

lemma dec_int_scan:
  "\<exists>fill. scan_sign (dropWhile isspace (pad w l (dec_int v))) = (v < 0, dec_nat (nat \<bar>v\<bar>) @ fill) \<and> set fill \<subseteq> {CHR '' ''}"
proof -
  have sp: "isspace (CHR '' '')" by (simp add: isspace_def)
  have skip: "dropWhile isspace (replicate k (CHR '' '') @ xs) = dropWhile isspace xs" for k xs
    using sp by (induction k) auto
  obtain c cs where c: "dec_nat (nat \<bar>v\<bar>) = c # cs" using dec_nat_nonempty by (metis list.exhaust)
  then obtain d where d: "d < 10" "c = digit_char d" using dec_nat_digits [of c "nat \<bar>v\<bar>"] by auto
  have m: "\<not> isspace (CHR ''-'')" by (simp add: isspace_def)
  have "scan_sign (dropWhile isspace (dec_int v @ fill)) = (v < 0, dec_nat (nat \<bar>v\<bar>) @ fill)" for fill
    using d m c by (cases "v < 0") (simp_all add: dec_int_def)
  from this [of "[]"] this [of "replicate (nat \<bar>w\<bar> - length (dec_int v)) (CHR '' '')"] show ?thesis
    by (auto simp: pad_def Let_def skip intro: exI [of _ "[]"] split: if_splits)
qed

lemma length_dec_int: "- (2 ^ 31) \<le> v \<Longrightarrow> v < 2 ^ 31 \<Longrightarrow> length (dec_int v) < 128"
proof -
  assume "- (2 ^ 31) \<le> v" "v < 2 ^ 31"
  then have "length (dec_nat (nat \<bar>v\<bar>)) \<le> 10" by (subst length_dec_nat_bound) auto
  then show ?thesis by (auto simp: dec_int_def)
qed

text \<open>
  C29: An \<^verbatim>\<open>int\<close> written to a file, with any field width of up to 127 on either side, is read back from the
  file: the width does not matter and the stream does not fail.  The exception is the least \<^verbatim>\<open>int\<close>, at
  which the reader overflows before it applies the sign.
\<close>

theorem int_file_round_trip:
  assumes "- (2 ^ 31) \<le> v" and "v < 2 ^ 31" and "\<bar>w\<bar> < 128"
  shows "\<exists>s1 f b. put_int fb_sink v ((if l then put_left else put_right) (put_setw w
             (OStream_new (snd (FileBuf_open (\<lambda>_ _. Some empty_file) path mode_out FileBuf_new))))) = Some s1 \<and>
           FileBuf_close (obuf s1) = Some (True, Some f, b) \<and>
           (if v = - (2 ^ 31) then extract_int fb_source u (reading path f) = None
            else \<exists>s2. extract_int fb_source u (reading path f) = Some (v, s2) \<and> \<not> IStream_fail s2)"
proof -
  define s0 where "s0 = (if l then put_left else put_right) (put_setw w
      (OStream_new (snd (FileBuf_open (\<lambda>_ _. Some empty_file) path mode_out FileBuf_new))))"
  have s0: "fb_wrep (obuf s0) []" "owidth s0 = w" "oleft s0 = l"
    using open_wrep by (simp_all add: s0_def put_left_def put_right_def put_setw_def OStream_new_def)
  have n: "NUL \<notin> set (dec_int v)"
  proof
    assume "NUL \<in> set (dec_int v)"
    then have "NUL \<in> set (dec_nat (nat \<bar>v\<bar>))" by (auto simp: dec_int_def NUL_def split: if_splits)
    then obtain d where "d < 10" "NUL = digit_char d" using dec_nat_digits by blast
    then have "(of_char (CHR 0x00) :: nat) = 48 + d" using of_char_digit [of d] by (metis NUL_def)
    then show False by simp
  qed
  obtain s1 where s1: "fmt fb_sink (dec_int v) s0 = Some s1" "fb_wrep (obuf s1) (pad w l (dec_int v))"
    using fk.fmt_rep [OF s0(1) n length_dec_int [OF assms(1,2)]] assms(3) s0 by auto
  obtain f b where f: "FileBuf_close (obuf s1) = Some (True, Some f, b)" "ftext f = pad w l (dec_int v)"
    using close_wrep [OF s1(2)] by blast
  obtain fill where fill: "scan_sign (dropWhile isspace (ftext f)) = (v < 0, dec_nat (nat \<bar>v\<bar>) @ fill)" "set fill \<subseteq> {CHR '' ''}"
    using dec_int_scan [of w l v] f(2) by auto
  have "\<not> is_digit (CHR '' '')" by (simp add: is_digit_def)
  then have t: "takeWhile is_digit fill = []" using fill(2) by (cases fill) auto
  have g: "\<not> IStream_fail (reading path f)" by (simp add: IStream_fail_def reading_rep(2) goodbit_def)
  note e = fs.extract_int_rep [OF reading_rep(1) g fill(1), of u]
  have "v = - (2 ^ 31) \<longleftrightarrow> \<not> nat \<bar>v\<bar> < 2 ^ 31" using assms(1,2) by auto
  with e have "if v = - (2 ^ 31) then extract_int fb_source u (reading path f) = None
      else \<exists>s2. extract_int fb_source u (reading path f) = Some (v, s2) \<and> \<not> IStream_fail s2"
    using g by (auto simp: takeWhile_dec_nat digits_value_dec_nat t dec_nat_nonempty end_extract_def Let_def set_eof_def
        IStream_fail_def split: if_splits)
  with s1(1) f(1) show ?thesis unfolding put_int_def s0_def [symmetric] by blast
qed

theorem int_file_round_trip_witness:
  "\<exists>s1 f b s2. put_int fb_sink (- 42) ((if True then put_left else put_right) (put_setw 6
             (OStream_new (snd (FileBuf_open (\<lambda>_ _. Some empty_file) ''out'' mode_out FileBuf_new))))) = Some s1 \<and>
     FileBuf_close (obuf s1) = Some (True, Some f, b) \<and> extract_int fb_source 0 (reading ''out'' f) = Some (- 42, s2)"
  using int_file_round_trip [of "- 42" 6 True "''out''" 0] by auto

text \<open>
  \<^verbatim>\<open>sync\<close> leaves the write pointer where it is: what has been flushed once is written again by the next \<^verbatim>\<open>sync\<close>,
  at the latest when the file is closed.
\<close>

theorem flush_writes_twice:
  assumes "fb_wrep b xs" and "fp b = Some f" and "pending b = Some w"
  shows "\<exists>f' b'. FileBuf_close b = Some (True, Some f', b') \<and> ftext f' = ftext f @ w"
    and "\<exists>b1 f' b'. fb_flush b = Some b1 \<and> FileBuf_close b1 = Some (True, Some f', b') \<and> ftext f' = ftext f @ w @ w"
proof -
  have xs: "xs = ftext f @ w" using assms by (auto elim!: fb_wrepE)
  then show "\<exists>f' b'. FileBuf_close b = Some (True, Some f', b') \<and> ftext f' = ftext f @ w" using close_wrep [OF assms(1)] by blast
  obtain g where g: "fb_sync b = Some (True, b\<lparr>fp := Some g\<rparr>)" "ftext g = xs" "froom g = None" "flush_ok g" "close_ok g"
    using fb_sync_wrep [OF assms(1)] by blast
  have "pending (b\<lparr>fp := Some g\<rparr>) = Some w" using assms(3) by (simp add: pending_def cong: option.case_cong)
  then have "fb_wrep (b\<lparr>fp := Some g\<rparr>) (xs @ w)" using g by (simp add: fb_wrep_def)
  from close_wrep [OF this] g(1) xs
  show "\<exists>b1 f' b'. fb_flush b = Some b1 \<and> FileBuf_close b1 = Some (True, Some f', b') \<and> ftext f' = ftext f @ w @ w"
    by (auto simp: fb_flush_def)
qed

lemma reading_chunk:
  assumes "ftext f = x # xs" and "length xs < readSize"
  shows "sbumpc fb_source (ibuf (reading path f)) =
           Some (Some x, \<lparr>fp = Some (f\<lparr>fpos := length (ftext f)\<rparr>), readBuf = True, rview = xs, writeBase = True, put = Some []\<rparr>)"
proof -
  have "take readSize (x # xs) = x # xs" using assms(2) by simp
  moreover have "min readSize (Suc (length xs)) = Suc (length xs)" using assms(2) by simp
  ultimately show ?thesis
    using assms(1) by (simp add: sbumpc_def sgetc_def reading_rep(3) fb_underflow_def fread_def fb_gbump_def Let_def)
qed

text \<open>
  A file of several lines that fits into the read buffer: the first \<^verbatim>\<open>getline\<close> returns the first line,
  the second one begins in the middle of the buffer and appends to an empty string, which is undefined.
  The position cannot be changed either: \<^verbatim>\<open>seekg\<close> on a file that has been opened computes a length from a
  null pointer.
\<close>

theorem second_getline_undefined:
  assumes "ftext f = l1 @ delim # rest" and "rest \<noteq> []" and "delim \<notin> set l1" and "NUL \<notin> set l1" and "str_rep out zs"
    and "length (ftext f) \<le> readSize" and "flush_ok f"
  shows "\<exists>out1 s1. IStream_getline fb_source delim out (reading path f) = Some (True, out1, s1) \<and> String_c_str out1 = Some l1 \<and>
           IStream_getline fb_source delim out1 s1 = None \<and> IFStream_seekg fseek (reading path f) = None"
proof -
  let ?s = "reading path f"
  obtain o0 where o0: "String_clear out = Some o0" "str_rep o0 []" using clear_str [OF assms(5)] by blast
  have ok: "\<not> IStream_fail ?s" by (simp add: IStream_fail_def reading_rep(2) goodbit_def)
  have r: "rview (ibuf ?s) = []" by (simp add: reading_rep(3))
  have "\<exists>out1 s1. getline_loop fb_source delim o0 ?s = Some (True, out1, s1) \<and> str_rep out1 l1 \<and> rview (ibuf s1) = rest \<and> istate s1 = goodbit"
  proof (cases l1)
    case Nil
    then have "sbumpc fb_source (ibuf ?s) = Some (Some delim,
        \<lparr>fp = Some (f\<lparr>fpos := length (ftext f)\<rparr>), readBuf = True, rview = rest, writeBase = True, put = Some []\<rparr>)"
      using reading_chunk [of f delim rest path] assms(1,6) by simp
    with Nil r o0(2) show ?thesis by (subst getline_loop.simps) (simp add: reading_rep(2))
  next
    case (Cons x xs)
    let ?b = "\<lparr>fp = Some (f\<lparr>fpos := length (ftext f)\<rparr>), readBuf = True, rview = xs @ delim # rest, writeBase = True, put = Some []\<rparr>"
    have b: "sbumpc fb_source (ibuf ?s) = Some (Some x, ?b)"
      using reading_chunk [of f x "xs @ delim # rest" path] assms(1,6) Cons by simp
    obtain o1 where o1: "String_push_back x o0 = Some o1" "str_rep o1 [x]" using push_back_str [OF o0(2), of x] assms(4) Cons by auto
    obtain o2 where o2: "String_append_chars xs o1 = Some o2" "str_rep o2 (x # xs)"
      using append_chars_str [OF o1(2), of xs] assms(4) Cons by auto
    have d: "x \<noteq> delim" "delim \<notin> set xs" using assms(3) Cons by auto
    have tw: "takeWhile (\<lambda>c. c \<noteq> delim) (xs @ delim # rest) = xs" using d(2) by (auto simp: takeWhile_append)
    have "getline_loop fb_source delim o0 ?s = getline_loop fb_source delim o1 (?s\<lparr>ibuf := ?b\<rparr>)"
      using b r o1(1) d(1) by (subst getline_loop.simps) simp
    also have "\<dots> = Some (True, o2, ?s\<lparr>ibuf := fb_gbump (length xs + 1) ?b\<rparr>)"
      using o2(1) by (subst getline_loop.simps) (simp add: tw Let_def)
    finally show ?thesis using o2(2) Cons by (simp add: fb_gbump_def reading_rep(2))
  qed
  then obtain out1 s1 where g: "getline_loop fb_source delim o0 ?s = Some (True, out1, s1)" "str_rep out1 l1" "rview (ibuf s1) = rest"
      "istate s1 = goodbit" by blast
  have "IStream_getline fb_source delim out1 s1 = None"
    by (rule getline_in_chunk [OF _ assms(2) _ g(2)]) (simp_all add: g(3,4) IStream_fail_def goodbit_def)
  moreover have "IFStream_seekg fseek ?s = None"
    using ok assms(7) by (simp add: IFStream_seekg_def IStream_seekoff_def fb_seekoff_def fb_sync_def fb_do_seek_def
        reading_rep(3) pending_def)
  moreover have "IStream_getline fb_source delim out ?s = Some (True, out1, s1)" using ok o0(1) g(1) by (simp add: IStream_getline_def)
  ultimately show ?thesis using str_rep_size(5) [OF g(2)] by blast
qed

theorem second_getline_undefined_witness:
  "\<exists>out1 s1. IStream_getline fb_source (CHR 0x0A) String_new (reading ''maps'' (empty_file\<lparr>ftext := ''ab'' @ CHR 0x0A # ''c''\<rparr>))
       = Some (True, out1, s1) \<and> String_c_str out1 = Some ''ab'' \<and> IStream_getline fb_source (CHR 0x0A) out1 s1 = None"
  using second_getline_undefined [of "empty_file\<lparr>ftext := ''ab'' @ CHR 0x0A # ''c''\<rparr>" "''ab''" "CHR 0x0A" "''c''" String_new "[]" "''maps''"]
    str_rep_new by (simp add: NUL_def readSize_def empty_file_def) blast

section \<open>Reading from a string\<close>

fun read_chars :: "'b source \<Rightarrow> nat \<Rightarrow> 'b \<Rightarrow> (char option list \<times> 'b) option" where
  "read_chars B 0 b = Some ([], b)"
| "read_chars B (Suc n) b = do { (cs, b) \<leftarrow> read_chars B n b; (c, b) \<leftarrow> sbumpc B b; Some (cs @ [c], b) }"

lemma sb_sbumpc:
  assumes "str_rep st xs" and "xs \<noteq> []" and "p \<le> length xs"
    and "sview b = (if p = 0 then None else Some (Vector_capacity st, p, length xs)) \<or> p = length xs \<and> sview b = Some (Vector_capacity st, p, length xs)"
    and "str b = st" and "readPos b = 0"
  shows "sbumpc sb_source b =
           Some (Some (xs ! (if p = length xs then 0 else p)),
                 b\<lparr>sview := Some (Vector_capacity st, Suc (if p = length xs then 0 else p), length xs)\<rparr>)"
proof -
  have e: "Vector_elems st = Some (xs @ [NUL])" "String_size st = length xs" "Vector_size st = Suc (length xs)"
    using assms(1,2) str_rep_size [OF assms(1)] vec_rep_size(1) [of st "xs @ [NUL]"] by (simp_all add: str_rep_def)
  have at: "String_at 0 st = Some (xs ! 0)" using str_rep_at [OF assms(1), of 0] assms(2) by simp
  have h: "hd (take (length xs - p) (drop p xs)) = xs ! p" if "p < length xs" using that by (simp add: hd_drop_conv_nth)
  have z: "hd xs = xs ! 0" using assms(2) by (simp add: hd_conv_nth)
  show ?thesis
  proof (cases "p = 0 \<or> p = length xs")
    case True
    then have "sb_view b = Some []" using assms(2,4) by (auto simp: sb_view_def)
    then show ?thesis
      using True assms(2,5,6) e at z
      by (auto simp: sbumpc_def sgetc_def sb_underflow_def sb_view_def sb_gbump_def Let_def hd_append)
  next
    case False
    then have "sb_view b = Some (drop p xs)" using assms(3-5) e by (auto simp: sb_view_def)
    with False assms(3-5) h show ?thesis by (auto simp: sbumpc_def sgetc_def sb_gbump_def hd_drop_conv_nth)
  qed
qed

text \<open>
  A string buffer does not end: when its text has been read, the next read starts at the beginning of
  the text again.  However often a character is read, the end is never reported, so that the loops of
  \<^verbatim>\<open>getline\<close> and of the extraction of a string run on.
\<close>

theorem stringbuf_reads_again:
  assumes "str_rep st xs" and "xs \<noteq> []"
  shows "\<exists>b. read_chars sb_source n (StringBuf_new st) = Some (map (\<lambda>k. Some (xs ! (k mod length xs))) [0..<n], b)"
proof -
  let ?v = "\<lambda>n. if n = 0 then None else Some (Vector_capacity st, Suc ((n - 1) mod length xs), length xs)"
  have "read_chars sb_source n (StringBuf_new st) =
          Some (map (\<lambda>k. Some (xs ! (k mod length xs))) [0..<n], (StringBuf_new st)\<lparr>sview := ?v n\<rparr>)"
  proof (induction n)
    case 0
    show ?case by (simp add: StringBuf_new_def)
  next
    case (Suc n)
    define p where "p = (if n = 0 then 0 else Suc ((n - 1) mod length xs))"
    have p: "p \<le> length xs" using assms(2) by (simp add: p_def Suc_leI)
    have m: "(if p = length xs then 0 else p) = n mod length xs"
      using assms(2) mod_Suc [of "n - 1" "length xs"] by (cases n) (auto simp: p_def)
    have v: "?v n = (if p = 0 then None else Some (Vector_capacity st, p, length xs))" by (simp add: p_def)
    have "sbumpc sb_source ((StringBuf_new st)\<lparr>sview := ?v n\<rparr>) =
        Some (Some (xs ! (n mod length xs)), (StringBuf_new st)\<lparr>sview := Some (Vector_capacity st, Suc (n mod length xs), length xs)\<rparr>)"
      using sb_sbumpc [OF assms p, of "(StringBuf_new st)\<lparr>sview := ?v n\<rparr>"] v m by (simp add: StringBuf_new_def)
    with Suc.IH show ?case by simp
  qed
  then show ?thesis by blast
qed

theorem stringbuf_reads_again_witness:
  "\<exists>st b. String_of_cstr (Some (''ab'' @ [NUL])) = Some st \<and>
     read_chars sb_source 5 (StringBuf_new st) = Some (map Some ''ababa'', b)"
proof -
  obtain st where st: "String_of_cstr (Some (''ab'' @ [NUL])) = Some st" "str_rep st ''ab''"
    using of_cstr_str [of "''ab''" "[]"] by (auto simp: NUL_def)
  have "map (\<lambda>k. Some (''ab'' ! (k mod length ''ab''))) [0..<5] = map Some ''ababa''" by (simp add: upt_rec numeral_eq_Suc mod_Suc)
  with stringbuf_reads_again [OF st(2), of 5] st(1) show ?thesis by auto
qed

end
