(* ===== verification/Cpt_Mprobe.thy ===== *)
theory Cpt_Mprobe
  imports Cpt_Completion
begin

text \<open>
  Matched probes: \<^verbatim>\<open>mpiMprobePB\<close> of \<^verbatim>\<open>include/mpi-critical.h\<close> and the constructors of \<^verbatim>\<open>mpiRecvPB\<close> and \<^verbatim>\<open>mpiIrecvPB\<close>
  that take a message.  The probe posts the receive of the piggyback message into an object of the
  request factory and enters the object into the table of the message factory; the matched receive
  takes it from there.

  The state is the tool and the message factory.  The objects are those of the request factory, also
  when the message factory has their address.  \<open>arrived\<close> says whether the piggyback message has arrived
  at the moment at which the object is copied.
\<close>

section \<open>The message factory\<close>

type_synonym messages = "RequestData factory"

definition mf_newHandle :: "mpi_lib \<Rightarrow> nat \<Rightarrow> nat \<Rightarrow> mpi_tool \<Rightarrow> messages \<Rightarrow> (nat \<times> mpi_tool \<times> messages) option" where
  "mf_newHandle lib msg p s m = do {
     (h, m) \<leftarrow> takeHandle p m;
     Some (if ptr_handles s then (p, upd_req p (RequestData_init lib msg (Some h) False) s, m)
           else (h, upd_req p (RequestData_init lib msg None False) s, m)) }"

definition mf_detachHandle :: "nat \<Rightarrow> mpi_tool \<Rightarrow> messages \<Rightarrow> (nat \<times> messages) option" where
  "mf_detachHandle a s m =
     (if ptr_handles s then Some (a, releaseHandle (req_fHandle (req_obj a s)) m)
      else do { d \<leftarrow> table_at a m; Some (d, releaseHandle a m) })"

section \<open>Probe and receive\<close>

text \<open>The constructor only decides where the status is written to; \<open>has_status\<close> is false for \<^verbatim>\<open>MPI_STATUS_IGNORE\<close>.\<close>

definition mpiMprobePB_begin :: "mpi_lib \<Rightarrow> int \<Rightarrow> int \<Rightarrow> bool \<Rightarrow> mpi_tool \<Rightarrow> bool" where
  "mpiMprobePB_begin lib src tg has_status s \<longleftrightarrow>
     (if \<not> active s \<or> src = MPI_PROC_NULL lib then has_status else has_status \<or> wildcard lib src tg)"

text \<open>\<open>flag\<close>: whether there is a message; \<open>msg\<close> its handle.\<close>

definition mpiMprobePB_end ::
  "mpi_lib \<Rightarrow> int \<Rightarrow> int \<Rightarrow> nat \<Rightarrow> bool \<Rightarrow> MPI_Status \<Rightarrow> bool \<Rightarrow> nat \<Rightarrow> mpi_tool \<Rightarrow> messages \<Rightarrow> (nat \<times> mpi_tool \<times> messages) option"
where
  "mpiMprobePB_end lib src tg comm flag st has_status msg s m =
     (if \<not> flag then Some (msg, s, m)
      else case rf_newData lib s of (p, s) \<Rightarrow>
        do {
          c \<leftarrow> findComm comm s;
          (src, tg) \<leftarrow> (if wildcard lib src tg then (if has_status then Some (MPI_SOURCE st, MPI_TAG st) else None) else Some (src, tg));
          let s = upd_req p (\<lambda>d. RequestData_init_kind (req_handle d) MPROBE src tg c (- 1) False d) s;
          (a, s, m) \<leftarrow> mf_newHandle lib msg p s m;
          Some (a, if active s then on_req p (\<lambda>d s. post Pb_once (PMPI_Irecv src tg (getDupComm (comm_obj c s))) d s) s else s, m) })"

text \<open>
  \<^verbatim>\<open>mpiRecvPB(message, status)\<close>: the object is copied to the stack, finished and returned to the pool of the
  message factory.  The copy has the piggyback requests, but MPI writes to the buffer of the original.
\<close>

definition mpiMrecvPB_begin ::
  "mpi_lib \<Rightarrow> bool \<Rightarrow> nat \<Rightarrow> bool \<Rightarrow> mpi_tool \<Rightarrow> messages \<Rightarrow> (pb_local \<times> nat \<times> mpi_tool \<times> messages) option"
where
  "mpiMrecvPB_begin lib arrived a has_status s m = do {
     (p, m) \<leftarrow> mf_detachHandle a s m;
     let s = (if arrived then upd_req p (\<lambda>d. d\<lparr>pb_values := arriving lib p (pb_values d)\<rparr>) s else s);
     let l = pb_local_new lib has_status;
     let l = (if active s then l\<lparr>l_req := RequestData_assign (l_req l) (req_obj p s)\<rparr> else l);
     let msg = req_handle (req_obj p s);
     Some (l, msg, upd_req p (RequestData_fini lib) s, returnObj p m) }"

text \<open>The destructor on such an object: after the wait it reads the copy.\<close>

definition mpiMrecvPB_end :: "mpi_lib \<Rightarrow> pb_local \<Rightarrow> mpi_tool \<Rightarrow> mpi_tool option" where
  "mpiMrecvPB_end lib l s =
     (let src = remote_rank (l_req l); tg = req_tag (l_req l)
      in if \<not> active s then Some s
         else if src = MPI_PROC_NULL lib then Some s
         else if wildcard lib src tg then None
         else Some (MpiHappensAfter (pb_values (l_req l)) (pmpi (PMPI_Waitall 0) s)))"

text \<open>
  \<^verbatim>\<open>mpiIrecvPB(message, request)\<close> keeps the object.  This constructor does not initialise the member \<^verbatim>\<open>tag\<close>, and the
  destructor compares it with \<^verbatim>\<open>MPI_ANY_TAG\<close> while the tool is measuring: \<^const>\<open>None\<close>.
\<close>

definition mpiImrecvPB_begin :: "nat \<Rightarrow> mpi_tool \<Rightarrow> messages \<Rightarrow> (nat \<times> nat \<times> messages) option" where
  "mpiImrecvPB_begin a s m = do {
     (p, m) \<leftarrow> mf_detachHandle a s m;
     Some (p, req_handle (req_obj p s), m) }"

definition mpiImrecvPB_end :: "mpi_lib \<Rightarrow> nat \<Rightarrow> nat \<Rightarrow> mpi_tool \<Rightarrow> (nat \<times> mpi_tool) option" where
  "mpiImrecvPB_end lib p r s =
     (let src = remote_rank (req_obj p s); tag = (None :: int option)
      in if active s \<and> src \<noteq> MPI_PROC_NULL lib
         then do {
           tg \<leftarrow> tag;
           if wildcard lib src tg then None
           else rf_newRequest lib r p False
                  (upd_req p (setCancelCallback cancelPB_f) (upd_req p (setCompletionCallback completePBHB_f) s)) }
         else rf_newRequest lib r p False s)"

section \<open>What the receiver gets\<close>

lemma active_simps [simp]: "active (upd_req p g s) = active s" "active (pmpi c s) = active s"
  by (simp_all add: active_def upd_req_def pmpi_def)

lemma ptr_simps [simp]: "ptr_handles (upd_req p g s) = ptr_handles s" "ptr_handles (pmpi c s) = ptr_handles s"
  by (simp_all add: upd_req_def pmpi_def)

lemma dpool_simps [simp]:
  "dpool (rf (upd_req p g s)) = dpool (rf s)" "dpool (rf (pmpi c s)) = dpool (rf s)" "dpool (rf (upd_my_clock f s)) = dpool (rf s)"
  by (simp_all add: upd_req_def upd_obj_def pmpi_def upd_my_clock_def)

text \<open>
  The source and tag of the message that a probe has found: with a wildcard those of its status, to which the
  constructor has made room.
\<close>

definition matched :: "mpi_lib \<Rightarrow> int \<Rightarrow> int \<Rightarrow> MPI_Status \<Rightarrow> int \<times> int" where
  "matched lib src tg st = (if wildcard lib src tg then (MPI_SOURCE st, MPI_TAG st) else (src, tg))"

lemma mprobe_posted:
  assumes "active s" and "findComm comm s = Some c" and "src \<noteq> MPI_PROC_NULL lib" and "0 < block (rf s)"
    and "sp_ok U (dpool (rf s))" and "table_ok m" and "table_ok (rf s)" and "hs' = mpiMprobePB_begin lib src tg hs s"
    and "matched lib src tg st = (src', tg')"
  shows "\<exists>a p s' m'. mpiMprobePB_end lib src tg comm True st hs' msg s m = Some (a, s', m') \<and>
           (\<exists>m''. mf_detachHandle a s' m' = Some (p, m'') \<and> dpool m'' = dpool m) \<and> p \<notin> U \<and>
           p = fst (rf_newData lib s) \<and> sp_ok (insert p U) (dpool (rf s')) \<and> active s' \<and> my_clock s' = my_clock s \<and>
           req_handle (req_obj p s') = msg \<and> remote_rank (req_obj p s') = src' \<and> req_tag (req_obj p s') = tg' \<and>
           pb_values (req_obj p s') = pb_values (req_obj p (snd (rf_newData lib s)))"
proof -
  obtain p s0 where p: "rf_newData lib s = (p, s0)" "p \<notin> U" "sp_ok (insert p U) (dpool (rf s0))" "same_tool s s0"
      "my_clock s0 = my_clock s" "active s0"
    using rf_newData_ok [OF assms(5,4), of lib] assms(1,7) by fastforce
  obtain h m1 where m1: "takeHandle p m = Some (h, m1)" "h < length (dataTable m1)" "dataTable m1 ! h = p" "dpool m1 = dpool m"
    using takeHandle_ok [OF assms(6), of p] by blast
  have c: "findComm comm s0 = Some c" using assms(2) same_tool_findComm [OF p(4), of comm] by simp
  have w: "(if wildcard lib src tg then if hs' then Some (MPI_SOURCE st, MPI_TAG st) else None else Some (src, tg)) = Some (src', tg')"
    using assms(1,3,8,9) by (auto simp: mpiMprobePB_begin_def matched_def)
  show ?thesis
    using p c m1
    by (cases "ptr_handles s0")
       (simp_all add: mpiMprobePB_end_def w mf_newHandle_def mf_detachHandle_def on_req_def post_def table_at_def releaseHandle_def
          RequestData_init_kind_def RequestData_init_def my_clock_rf Let_def upd_req_def upd_obj_def pmpi_def
          req_obj_def active_def my_clock_def)
qed

lemma mrecv_call:
  assumes "active s" and "mf_detachHandle a s m = Some (p, m')" and "remote_rank (req_obj p s) = src" and "req_tag (req_obj p s) = tg"
    and "src \<noteq> MPI_PROC_NULL lib" and "\<not> wildcard lib src tg" and "arriving lib = (\<lambda>_ _. v)"
  shows "\<exists>l s1 s2. mpiMrecvPB_begin lib arrived a hs s m = Some (l, req_handle (req_obj p s), s1, returnObj p m') \<and>
           mpiMrecvPB_end lib l s1 = Some s2 \<and> dpool (rf s2) = dpool (rf s) \<and>
           my_clock s2 = take_values (if arrived then v else pb_values (req_obj p s)) (my_clock s)"
  using assms by (auto simp: mpiMrecvPB_begin_def mpiMrecvPB_end_def RequestData_assign_def pb_local_new_def Let_def
      MpiHappensAfter_active)

text \<open>
  C22: A message found by a matched probe, with or without wildcards, and then received while the tool is
  measuring.  The blocking receive gives the clock what was in the buffer when the object was copied: the
  values of the sender only if they had arrived by then, and otherwise those the buffer held before; and the
  object goes to the pool of the message factory, from which no probe takes one.  The non-blocking receive
  reads an uninitialised member.  With a wildcard the status of the probe has to name the source and the tag.
\<close>

theorem matched_receive_reads_copy:
  assumes "active s" and "findComm comm s = Some c" and "src \<noteq> MPI_PROC_NULL lib"
    and "matched lib src tg st = (src', tg')" and "src' \<noteq> MPI_PROC_NULL lib" and "\<not> wildcard lib src' tg'"
    and "arriving lib = (\<lambda>_ _. v)" and "0 < block (rf s)" and "sp_ok U (dpool (rf s))" and "table_ok m" and "table_ok (rf s)"
  shows "\<exists>a s1 m1 p. mpiMprobePB_end lib src tg comm True st (mpiMprobePB_begin lib src tg hs s) msg s m = Some (a, s1, m1) \<and>
           p = fst (rf_newData lib s) \<and>
           (\<exists>l s2 m2 s3. mpiMrecvPB_begin lib arrived a hs' s1 m1 = Some (l, msg, s2, m2) \<and> mpiMrecvPB_end lib l s2 = Some s3 \<and>
              my_clock s3 = take_values (if arrived then v else pb_values (req_obj p (snd (rf_newData lib s)))) (my_clock s) \<and>
              sp_ok (insert p U) (dpool (rf s3)) \<and> dpool m2 = sp_returnData p (dpool m)) \<and>
           (\<exists>m2. mpiImrecvPB_begin a s1 m1 = Some (p, msg, m2) \<and> mpiImrecvPB_end lib p r s1 = None)"
proof -
  obtain a p s1 m1 m2 where p: "mpiMprobePB_end lib src tg comm True st (mpiMprobePB_begin lib src tg hs s) msg s m = Some (a, s1, m1)"
      "mf_detachHandle a s1 m1 = Some (p, m2)" "dpool m2 = dpool m" "p = fst (rf_newData lib s)"
      "sp_ok (insert p U) (dpool (rf s1))" "active s1" "my_clock s1 = my_clock s" "req_handle (req_obj p s1) = msg"
      "remote_rank (req_obj p s1) = src'" "req_tag (req_obj p s1) = tg'"
      "pb_values (req_obj p s1) = pb_values (req_obj p (snd (rf_newData lib s)))"
    using mprobe_posted [OF assms(1-3,8-11) refl assms(4), of hs msg] by blast
  have "mpiImrecvPB_begin a s1 m1 = Some (p, msg, m2)" "mpiImrecvPB_end lib p r s1 = None"
    using p assms(5) by (simp_all add: mpiImrecvPB_begin_def mpiImrecvPB_end_def)
  moreover obtain l s4 s5 where "mpiMrecvPB_begin lib arrived a hs' s1 m1 = Some (l, msg, s4, returnObj p m2)"
      "mpiMrecvPB_end lib l s4 = Some s5" "dpool (rf s5) = dpool (rf s1)"
      "my_clock s5 = take_values (if arrived then v else pb_values (req_obj p (snd (rf_newData lib s)))) (my_clock s)"
    using mrecv_call [OF p(6,2,9,10) assms(5-7), of arrived hs'] p(7,8,11) by auto
  moreover have "dpool (returnObj p m2) = sp_returnData p (dpool m)" using p(3) by (simp add: returnObj_def)
  ultimately show ?thesis using p(1,4,5) by metis
qed

text \<open>A message whose sender had the clocks 3, 5 and 7; they had not arrived when the object was copied.\<close>

theorem matched_receive_reads_copy_witness:
  "let lib = with_arriving [3, 5, 7, 0] example_lib; st = \<lparr>MPI_SOURCE = 0, MPI_TAG = 7\<rparr>;
       m = factory_new [1000] 1000 4 (RequestData_new lib); hs = mpiMprobePB_begin lib (- 1) 7 False example_mpi_tool
   in wildcard lib (- 1) 7 \<and>
      (\<exists>a s1 m1 l s2 m2 s3. mpiMprobePB_end lib (- 1) 7 4 True st hs 2500 example_mpi_tool m = Some (a, s1, m1) \<and>
        mpiMrecvPB_begin lib False a False s1 m1 = Some (l, 2500, s2, m2) \<and> mpiMrecvPB_end lib l s2 = Some s3 \<and>
        my_clock s3 = take_values (pb_values (req_obj (fst (rf_newData lib example_mpi_tool)) (snd (rf_newData lib example_mpi_tool))))
          (my_clock example_mpi_tool))"
proof -
  let ?lib = "with_arriving [3, 5, 7, 0] example_lib" and ?st = "\<lparr>MPI_SOURCE = 0, MPI_TAG = 7\<rparr>"
  let ?m = "factory_new [1000] 1000 4 (RequestData_new ?lib)"
  have l: "arriving ?lib = (\<lambda>_ _. [3, 5, 7, 0])" "MPI_PROC_NULL ?lib = - 2" "\<not> wildcard ?lib 0 7" "wildcard ?lib (- 1) 7"
    "matched ?lib (- 1) 7 ?st = (0, 7)"
    by (simp_all add: with_arriving_def example_lib_def wildcard_def matched_def)
  have r: "table_ok (rf example_mpi_tool)" "0 < block (rf example_mpi_tool)" "sp_ok {} (dpool (rf example_mpi_tool))" "table_ok ?m"
    by (simp_all add: example_mpi_tool_def factory_new_def table_ok_def sp_ok_def shared_pool_new_def)
  have a: "active example_mpi_tool" using example_fresh by (simp add: fresh_tool_def)
  show ?thesis
    using matched_receive_reads_copy [OF a example_findComm _ l(5) _ l(3,1) r(2,3,4,1), of False 2500 False False 2000] l
    unfolding Let_def by auto
qed

end
