(* ===== verification/Cpt_Omp_Arcs.thy ===== *)
theory Cpt_Omp_Arcs
  imports Cpt_Barrier
begin

text \<open>
  What the OMPT callbacks of \<^verbatim>\<open>src/ompt-critical.cpp\<close> mean for the clocks.  The specification is a
  table: for every callback the sequence of its acts on the clocks of the threads and of the
  synchronisation objects, in terms of the data of the tasks involved.  The callbacks, with
  their pools, reference counts, hash tables and timers, refine it exactly.
\<close>

section \<open>Acts\<close>

datatype omp_act =
    Begins nat i32                  \<comment> \<open>a thread gets its clock\<close>
  | Enters nat time ClockState
  | Leaves nat time bool
  | Releases nat sync_loc           \<comment> \<open>\<^verbatim>\<open>OmpHappensBefore\<close>\<close>
  | Acquires nat sync_loc           \<comment> \<open>\<^verbatim>\<open>OmpHappensAfter\<close>\<close>
  | Resets sync_loc                 \<comment> \<open>\<^verbatim>\<open>OmpClockReset\<close>\<close>
  | Constructs "sync_loc set"       \<comment> \<open>clocks of new objects\<close>

record clock_view =
  vthr :: "nat \<Rightarrow> threadClock"
  vsyn :: "sync_loc \<Rightarrow> syncClock"

fun act_step :: "omp_act \<Rightarrow> clock_view \<Rightarrow> clock_view" where
  "act_step (Begins th n) v = v\<lparr>vthr := (vthr v)(th := threadClock_new n 0 True)\<rparr>"
| "act_step (Enters th t cs) v = v\<lparr>vthr := (vthr v)(th := enterState True t 0 cs (vthr v th))\<rparr>"
| "act_step (Leaves th t r) v = v\<lparr>vthr := (vthr v)(th := exitState True t 0 r (vthr v th))\<rparr>"
| "act_step (Releases th l) v = v\<lparr>vsyn := (vsyn v)(l := OmpHBefore True (vsyn v l) (vthr v th))\<rparr>"
| "act_step (Acquires th l) v =
     v\<lparr>vthr := (vthr v)(th := snd (OmpHAfter True (vsyn v l) (vthr v th))),
       vsyn := (vsyn v)(l := fst (OmpHAfter True (vsyn v l) (vthr v th)))\<rparr>"
| "act_step (Resets l) v = v\<lparr>vsyn := (vsyn v)(l := OmpCReset True (vsyn v l))\<rparr>"
| "act_step (Constructs L) v = v\<lparr>vsyn := (\<lambda>l. if l \<in> L then syncClock_init else vsyn v l)\<rparr>"

section \<open>Callbacks\<close>

text \<open>One call of the OpenMP runtime; the first argument is the calling thread.\<close>

datatype callback =
    Thread_begin nat bool time
  | Thread_end nat
  | Parallel_begin nat nat time
  | Parallel_end nat nat time
  | Implicit_task_begin nat nat int "task_flag set" time
  | Implicit_task_end nat nat nat "task_flag set" time
  | Sync_region nat sync_region_kind scope_endpoint bool nat time time
  | Sync_region_wait nat sync_region_kind scope_endpoint nat time
  | Task_create nat nat "task_flag set" time time
  | Task_creation nat scope_endpoint time
  | Task_schedule nat nat task_status nat time time
  | Dependences nat nat "(u64 \<times> dependence_type) list" time time
  | Mutex_acquire nat time
  | Mutex_acquired nat u64 time
  | Mutex_released nat u64 time time

fun cb_thread :: "callback \<Rightarrow> nat" where
  "cb_thread (Thread_begin th _ _) = th"
| "cb_thread (Thread_end th) = th"
| "cb_thread (Parallel_begin th _ _) = th"
| "cb_thread (Parallel_end th _ _) = th"
| "cb_thread (Implicit_task_begin th _ _ _ _) = th"
| "cb_thread (Implicit_task_end th _ _ _ _) = th"
| "cb_thread (Sync_region th _ _ _ _ _ _) = th"
| "cb_thread (Sync_region_wait th _ _ _ _) = th"
| "cb_thread (Task_create th _ _ _ _) = th"
| "cb_thread (Task_creation th _ _) = th"
| "cb_thread (Task_schedule th _ _ _ _ _) = th"
| "cb_thread (Dependences th _ _ _ _) = th"
| "cb_thread (Mutex_acquire th _) = th"
| "cb_thread (Mutex_acquired th _ _) = th"
| "cb_thread (Mutex_released th _ _ _) = th"

text \<open>\<^const>\<open>None\<close>: the thread would wait for a lock the tool holds, the process has ended, or the call is undefined.\<close>

fun run_callback :: "callback \<Rightarrow> ompt \<Rightarrow> ompt option" where
  "run_callback (Thread_begin th initial now) s = Some (ompt_tsan_thread_begin th initial now s)"
| "run_callback (Thread_end th) s = (case ompt_tsan_thread_end th s of Inl _ \<Rightarrow> None | Inr s \<Rightarrow> Some s)"
| "run_callback (Parallel_begin th c now) s = Some (snd (ompt_tsan_parallel_begin th c now s))"
| "run_callback (Parallel_end th team now) s = Some (ompt_tsan_parallel_end th team now s)"
| "run_callback (Implicit_task_begin th team num type now) s =
     Some (snd (snd (implicit_task_begin th team num type now s)))"
| "run_callback (Implicit_task_end th team t type now) s = Some (implicit_task_end th team t type now s)"
| "run_callback (Sync_region th kind endpoint hp t now now') s =
     Some (ompt_tsan_sync_region th kind endpoint hp t now now' s)"
| "run_callback (Sync_region_wait th kind endpoint t now) s =
     Some (ompt_tsan_sync_region_wait th kind endpoint t now s)"
| "run_callback (Task_create th par type now now') s =
     Some (snd (snd (ompt_tsan_task_create th par type now now' s)))"
| "run_callback (Task_creation th endpoint now) s = Some (ompt_tsan_task_creation th endpoint now s)"
| "run_callback (Task_schedule th from status to now now') s =
     ompt_tsan_task_schedule th from status to now now' s"
| "run_callback (Dependences th t deps now now') s = ompt_tsan_dependences th t deps now now' s"
| "run_callback (Mutex_acquire th now) s = Some (ompt_tsan_mutex_acquire th now s)"
| "run_callback (Mutex_acquired th w now) s = ompt_tsan_mutex_acquired th w now s"
| "run_callback (Mutex_released th w now now') s = ompt_tsan_mutex_released th w now now' s"

section \<open>The specification\<close>

definition timed :: "nat \<Rightarrow> time \<Rightarrow> time \<Rightarrow> omp_act list \<Rightarrow> omp_act list" where
  "timed th now now' as = Enters th now STATE_OMP # as @ [Leaves th now' True]"

text \<open>The clocks of the objects that are new in \<open>s'\<close>.\<close>

definition new_teams :: "ompt \<Rightarrow> ompt \<Rightarrow> sync_loc set" where
  "new_teams s s' = {Barrier_clock t i |t i. t \<in> fresh_objs (team_pools s) (team_pools s')}"

definition new_groups :: "ompt \<Rightarrow> ompt \<Rightarrow> sync_loc set" where
  "new_groups s s' = {Taskgroup_clock g |g. g \<in> fresh_objs (group_pools s) (group_pools s')}"

definition new_tasks :: "ompt \<Rightarrow> ompt \<Rightarrow> sync_loc set" where
  "new_tasks s s' = (\<Union>t \<in> fresh_objs (task_pools s) (task_pools s'). {Task_clock t, Taskwait_clock t})"

definition new_deps :: "ompt \<Rightarrow> ompt \<Rightarrow> sync_loc set" where
  "new_deps s s' = (\<Union>d \<in> fresh_objs (dep_pools s) (dep_pools s'). {In_clock d, Out_clock d, Inoutset_clock d})"

definition new_locks :: "ompt \<Rightarrow> ompt \<Rightarrow> sync_loc set" where
  "new_locks s s' = {Lock_clock p |p. next_lock s \<le> p \<and> p < next_lock s'}"

text \<open>A dependence as the task with it begins and as it ends.\<close>

definition writes :: "dependence_type \<Rightarrow> bool" where
  "writes d \<longleftrightarrow> d \<in> {ompt_dependence_type_out, ompt_dependence_type_inout, ompt_dependence_type_mutexinoutset}"

definition waits_for :: "TaskDependency \<Rightarrow> sync_loc list" where
  "waits_for d =
     (if writes (dep_type d) then [In_clock (depData d), Out_clock (depData d), Inoutset_clock (depData d)]
      else if dep_type d = ompt_dependence_type_in then [Out_clock (depData d), Inoutset_clock (depData d)]
      else if dep_type d = ompt_dependence_type_inoutset then [In_clock (depData d), Out_clock (depData d)]
      else [])"

definition signals :: "TaskDependency \<Rightarrow> sync_loc list" where
  "signals d =
     (if writes (dep_type d) then [Out_clock (depData d)]
      else if dep_type d = ompt_dependence_type_in then [In_clock (depData d)]
      else if dep_type d = ompt_dependence_type_inoutset then [Inoutset_clock (depData d)]
      else [])"

text \<open>What a task that ends is waited for by.\<close>

definition ends_before :: "TaskData \<Rightarrow> sync_loc list" where
  "ends_before d =
     (if isIncluded d then [Task_clock (Parent d)]
      else [Barrier_clock (Team d) (BarrierIndex d), Taskwait_clock (Parent d)]
           @ (if TaskGroup d \<noteq> 0 then [Taskgroup_clock (TaskGroup d)] else []))
     @ concat (map signals (Dependencies d))"

definition complete_acts :: "nat \<Rightarrow> nat \<Rightarrow> TaskData \<Rightarrow> omp_act list" where
  "complete_acts th t d =
     (if t = 0 then []
      else (if isFulfilled d then [Acquires th (Task_clock t)] else []) @ map (Releases th) (ends_before d))"

definition begin_acts :: "nat \<Rightarrow> TaskData \<Rightarrow> omp_act list" where
  "begin_acts th d = map (Acquires th) (concat (map waits_for (Dependencies d)))"

definition start_acts :: "nat \<Rightarrow> nat \<Rightarrow> time \<Rightarrow> TaskData \<Rightarrow> omp_act list" where
  "start_acts th t now d =
     (if t = 0 then []
      else if execution d = 0
      then begin_acts th d @ [Acquires th (Task_clock t), Enters th now STATE_USEFUL]
      else if isUntied d \<and> \<not> InBarrier d then [Acquires th (Task_clock t), Enters th now STATE_USEFUL]
      else [Leaves th now (isRunning d)])"

definition suspend_acts :: "nat \<Rightarrow> nat \<Rightarrow> time \<Rightarrow> TaskData \<Rightarrow> omp_act list" where
  "suspend_acts th t now d =
     (if t = 0 then []
      else if isUntied d \<and> \<not> InBarrier d then [Leaves th now (isRunning d), Releases th (Task_clock t)]
      else [Enters th now STATE_OMP])"

definition end_acts :: "nat \<Rightarrow> nat \<Rightarrow> time \<Rightarrow> TaskData \<Rightarrow> omp_act list" where
  "end_acts th t now d = (if t = 0 then [] else [Leaves th now (isRunning d)])"

text \<open>The task data once \<open>t\<close> has been given back, with those of its ancestors nothing refers to.\<close>

definition given_back :: "nat \<Rightarrow> nat \<Rightarrow> ompt \<Rightarrow> nat \<Rightarrow> TaskData" where
  "given_back th t s = (case freeTask (next_obj (task_pools s)) th t s of None \<Rightarrow> tasks s | Some s' \<Rightarrow> tasks s')"

fun schedule_acts ::
  "nat \<Rightarrow> nat \<Rightarrow> task_status \<Rightarrow> nat \<Rightarrow> time \<Rightarrow> time \<Rightarrow> ompt \<Rightarrow> omp_act list"
where
  "schedule_acts th from ompt_task_early_fulfill to now now' s = timed th now now' [Releases th (Task_clock from)]"
| "schedule_acts th from ompt_task_late_fulfill to now now' s =
     timed th now now' (Acquires th (Task_clock from) # complete_acts th from (tasks s from))"
| "schedule_acts th from ompt_taskwait_complete to now now' s = timed th now now' (begin_acts th (tasks s from))"
| "schedule_acts th from ompt_task_detach to now now' s =
     end_acts th from now (tasks s from) @ start_acts th to now (tasks s to)"
| "schedule_acts th from ompt_task_yield to now now' s =
     suspend_acts th from now (tasks s from) @ start_acts th to now (tasks s to)"
| "schedule_acts th from ompt_task_switch to now now' s =
     suspend_acts th from now (tasks s from) @ start_acts th to now (tasks s to)"
| "schedule_acts th from ompt_task_complete to now now' s =
     end_acts th from now (tasks s from) @ complete_acts th from (tasks s from)
     @ start_acts th to now (given_back th from s to)"
| "schedule_acts th from ompt_task_cancel to now now' s =
     end_acts th from now (tasks s from) @ complete_acts th from (tasks s from)
     @ start_acts th to now (given_back th from s to)"

text \<open>A synchronisation region of a task with data \<open>d\<close>; \<open>L\<close> are the clocks of the new task groups.\<close>

fun region_begin_acts :: "nat \<Rightarrow> sync_region_kind \<Rightarrow> time \<Rightarrow> sync_loc set \<Rightarrow> TaskData \<Rightarrow> omp_act list" where
  "region_begin_acts th region_barrier now L d =
     [Enters th now STATE_OMP, Releases th (Barrier_clock (Team d) (BarrierIndex d))]
     @ (if ThreadNum d = 0 then [Resets (Barrier_clock (Team d) ((BarrierIndex d + 1) mod 3))] else [])"
| "region_begin_acts th region_taskwait now L d = [Enters th now STATE_OMP]"
| "region_begin_acts th region_taskgroup now L d = [Constructs L]"
| "region_begin_acts th region_reduction now L d = []"

fun region_end_acts ::
  "nat \<Rightarrow> sync_region_kind \<Rightarrow> bool \<Rightarrow> nat \<Rightarrow> time \<Rightarrow> time \<Rightarrow> TaskData \<Rightarrow> omp_act list"
where
  "region_end_acts th region_barrier hp t now now' d =
     (if hp \<or> ThreadNum d = 0 then [Acquires th (Barrier_clock (Team d) (BarrierIndex d))] else [])
     @ [Leaves th now (isRunning d)]"
| "region_end_acts th region_taskwait hp t now now' d =
     (if execution d > 1 then [Acquires th (Taskwait_clock t)] else []) @ [Leaves th now (isRunning d)]"
| "region_end_acts th region_taskgroup hp t now now' d =
     timed th now now' [Acquires th (Taskgroup_clock (TaskGroup d))]"
| "region_end_acts th region_reduction hp t now now' d = []"

text \<open>The data of a task inside the region it begins.\<close>

definition inside :: "nat \<Rightarrow> sync_region_kind \<Rightarrow> nat \<Rightarrow> ompt \<Rightarrow> TaskData" where
  "inside th kind t s =
     (if kind = region_taskgroup
      then (tasks s t)\<lparr>TaskGroup := fst (Taskgroup_New th (TaskGroup (tasks s t)) s)\<rparr> else tasks s t)"

definition region_acts ::
  "nat \<Rightarrow> sync_region_kind \<Rightarrow> scope_endpoint \<Rightarrow> bool \<Rightarrow> nat \<Rightarrow> time \<Rightarrow> time \<Rightarrow> ompt \<Rightarrow> ompt \<Rightarrow> omp_act list"
where
  "region_acts th kind endpoint hp t now now' s s' =
     (case endpoint of
        ompt_scope_begin \<Rightarrow> region_begin_acts th kind now (new_groups s s') (tasks s t)
      | ompt_scope_end \<Rightarrow> region_end_acts th kind hp t now now' (tasks s t)
      | ompt_scope_beginend \<Rightarrow> region_begin_acts th kind now (new_groups s s') (tasks s t)
          @ region_end_acts th kind hp t now now' (inside th kind t s))"

definition lock_of :: "ompt \<Rightarrow> u64 \<Rightarrow> sync_loc" where
  "lock_of s w = Lock_clock (case hm_map (Locks s) w of None \<Rightarrow> 0 | Some p \<Rightarrow> p)"

text \<open>
  The specification: the acts of a callback in state \<open>s\<close>, which leads to \<open>s'\<close>.  The state after the
  callback is only used for the addresses of new objects.
\<close>

fun acts :: "callback \<Rightarrow> ompt \<Rightarrow> ompt \<Rightarrow> omp_act list" where
  "acts (Thread_begin th initial now) s s' =
     (if thread_local_clock s th = 0 then [Begins th (ucast (ID (core s)))] else [])
     @ [Enters th (if initial \<or> startProgrammTime (core s) = 0 then now else startProgrammTime (core s)) STATE_OMP]"
| "acts (Thread_end th) s s' = []"
| "acts (Parallel_begin th c now) s s' =
     [Constructs (new_teams s s'), Enters th now STATE_OMP,
      Releases th (GetParallelPtr (fst (ParallelData_New th c s)))]"
| "acts (Parallel_end th team now) s s' = [Leaves th now True]"
| "acts (Implicit_task_begin th team num type now) s s' =
     (if ompt_task_initial \<in> type then [Constructs (new_teams s s')]
      else (if GetState (cur_clock th s) = STATE_INIT then [Enters th now STATE_OMP] else [])
           @ [Acquires th (GetParallelPtr team)])
     @ [Constructs (new_tasks s s'), Enters th now STATE_USEFUL]"
| "acts (Implicit_task_end th team t type now) s s' = [Leaves th now (isRunning (tasks s t))]"
| "acts (Sync_region th kind endpoint hp t now now') s s' = region_acts th kind endpoint hp t now now' s s'"
| "acts (Sync_region_wait th kind endpoint t now) s s' =
     (if kind = region_taskgroup
      then (if endpoint \<noteq> ompt_scope_end then [Enters th now STATE_OMP] else [])
           @ (if endpoint \<noteq> ompt_scope_begin then [Leaves th now (isRunning (tasks s t))] else [])
      else [])"
| "acts (Task_create th par type now now') s s' =
     (if ompt_task_initial \<in> type then [Constructs (new_teams s s'), Constructs (new_tasks s s')]
      else if ompt_task_undeferred \<in> type then [Constructs (new_tasks s s')]
      else if ompt_task_explicit \<in> type \<or> ompt_task_target \<in> type
      then Constructs (new_tasks s s')
           # timed th now now' [Releases th (Task_clock (fst (TaskData_New_child th par type s)))]
      else [])"
| "acts (Task_creation th endpoint now) s s' =
     (case endpoint of ompt_scope_begin \<Rightarrow> [Enters th now STATE_OMP] | ompt_scope_end \<Rightarrow> [Leaves th now True]
      | ompt_scope_beginend \<Rightarrow> [])"
| "acts (Task_schedule th from status to now now') s s' = schedule_acts th from status to now now' s"
| "acts (Dependences th t deps now now') s s' =
     (if deps = [] then [] else timed th now now' [Constructs (new_deps s s'), Releases th (Task_clock t)])"
| "acts (Mutex_acquire th now) s s' = [Enters th now STATE_OMP]"
| "acts (Mutex_acquired th w now) s s' =
     [Constructs (new_locks s s'), Acquires th (lock_of s' w), Leaves th now True]"
| "acts (Mutex_released th w now now') s s' = timed th now now' [Releases th (lock_of s w)]"

section \<open>States in which a thread can call back\<close>

text \<open>
  Threads have clocks of their own, and the lock table is a map to the pairs that have been
  made.
\<close>

definition own_clocks :: "ompt \<Rightarrow> bool" where
  "own_clocks s \<longleftrightarrow>
     inj_on (thread_local_clock s) {th. thread_local_clock s th \<noteq> 0} \<and>
     (\<forall>th. thread_local_clock s th < next_clock (core s))"

definition locks_ok :: "ompt \<Rightarrow> bool" where
  "locks_ok s \<longleftrightarrow> hm_ok Hash (Locks s) \<and> inj_on (hm_map (Locks s)) (dom (hm_map (Locks s))) \<and>
     (\<forall>w p. hm_map (Locks s) w = Some p \<longrightarrow> 0 < p \<and> p < next_lock s) \<and> 0 < next_lock s"

definition measuring :: "ompt \<Rightarrow> bool" where
  "measuring s \<longleftrightarrow> is_running s \<and> own_clocks s \<and> locks_ok s"

definition ready :: "nat \<Rightarrow> ompt \<Rightarrow> bool" where
  "ready th s \<longleftrightarrow> measuring s \<and> thread_local_clock s th \<noteq> 0"

definition thread_clock :: "nat \<Rightarrow> ompt \<Rightarrow> threadClock" where
  "thread_clock th s = (if thread_local_clock s th = 0 then threadClock_new 0 0 False else cur_clock th s)"

definition view :: "ompt \<Rightarrow> clock_view" where
  "view s = \<lparr>vthr = (\<lambda>th. thread_clock th s), vsyn = sync s\<rparr>"

text \<open>Operations that touch neither clocks nor locks.\<close>

definition clock_part ::
  "ompt \<Rightarrow> bool \<times> (nat \<Rightarrow> threadClock) \<times> nat \<times> (nat \<Rightarrow> nat) \<times> (sync_loc \<Rightarrow> syncClock)"
where
  "clock_part s = (is_running s, store (core s), next_clock (core s), thread_local_clock s, sync s)"

definition lock_part :: "ompt \<Rightarrow> (u64, nat) CompactHashMap \<times> nat" where
  "lock_part s = (Locks s, next_lock s)"

lemma view_same: "clock_part s' = clock_part s \<Longrightarrow> view s' = view s"
  by (simp add: clock_part_def view_def thread_clock_def cur_clock_def fun_eq_iff)

lemma ready_same: "clock_part s' = clock_part s \<Longrightarrow> lock_part s' = lock_part s \<Longrightarrow> ready th s' = ready th s"
  by (auto simp: clock_part_def lock_part_def ready_def measuring_def own_clocks_def locks_ok_def)

lemma lock_part_simps [simp]:
  "lock_part (upd_cur th f s) = lock_part s" "lock_part (upd_task t g s) = lock_part s"
  "lock_part (enter th now cs s) = lock_part s" "lock_part (leave th now r s) = lock_part s"
  "lock_part (OmpHappensBefore th l s) = lock_part s" "lock_part (OmpHappensAfter th l s) = lock_part s"
  "lock_part (OmpClockReset l s) = lock_part s" "lock_part (count th cf s) = lock_part s"
  by (simp_all add: lock_part_def upd_cur_def upd_task_def enter_def leave_def OmpHappensBefore_def
      OmpHappensAfter_def OmpClockReset_def count_def split: prod.split option.split)

lemma clock_part_simps [simp]:
  "clock_part (upd_task t g s) = clock_part s" "clock_part (count th cf s) = clock_part s"
  by (simp_all add: clock_part_def upd_task_def count_def is_running_def split: option.split)

lemma ready_upd_cur [simp]: "ready th (upd_cur th' f s) = ready th s"
  by (simp add: ready_def measuring_def own_clocks_def locks_ok_def upd_cur_def upd_clock_def is_running_def)

lemma ready_simps [simp]:
  "ready th (upd_task t g s) = ready th s" "ready th (count th' cf s) = ready th s"
  "ready th (enter th' now cs s) = ready th s" "ready th (leave th' now r s) = ready th s"
  "ready th (OmpHappensBefore th' l s) = ready th s" "ready th (OmpHappensAfter th' l s) = ready th s"
  "ready th (OmpClockReset l s) = ready th s"
  using ready_same [of "upd_task t g s" s] ready_same [of "count th' cf s" s]
  by (simp_all add: enter_def leave_def OmpHappensAfter_def split: prod.split)
     (simp_all add: ready_def measuring_def own_clocks_def locks_ok_def OmpHappensBefore_def OmpClockReset_def is_running_def
       upd_cur_def upd_clock_def)

lemma view_upd_cur:
  assumes "ready th s"
  shows "view (upd_cur th f s) = (view s)\<lparr>vthr := (vthr (view s))(th := f (vthr (view s) th))\<rparr>"
proof -
  have "thread_clock th' (upd_cur th f s) = (if th' = th then f (thread_clock th s) else thread_clock th' s)" for th'
    using assms
    by (auto simp: ready_def measuring_def own_clocks_def thread_clock_def cur_clock_def upd_cur_def upd_clock_def inj_on_def)
  then show ?thesis by (simp add: view_def fun_eq_iff)
qed

lemma ready_running: "ready th s \<Longrightarrow> is_running s"
  by (simp add: ready_def measuring_def)

lemma ready_clock: "ready th s \<Longrightarrow> cur_clock th s = vthr (view s) th"
  by (simp add: ready_def view_def thread_clock_def)

lemma view_ops [simp]:
  "view (upd_task t g s) = view s" "view (count th cf s) = view s"
  "ready th s \<Longrightarrow> view (enter th now cs s) = act_step (Enters th now cs) (view s)"
  "ready th s \<Longrightarrow> view (leave th now r s) = act_step (Leaves th now r) (view s)"
  "ready th s \<Longrightarrow> view (OmpHappensBefore th l s) = act_step (Releases th l) (view s)"
  "ready th s \<Longrightarrow> view (OmpClockReset l s) = act_step (Resets l) (view s)"
proof -
  show "view (upd_task t g s) = view s" "view (count th cf s) = view s" by (rule view_same, simp)+
  assume r: "ready th s"
  show "view (enter th now cs s) = act_step (Enters th now cs) (view s)"
    "view (leave th now r s) = act_step (Leaves th now r) (view s)" for r
    using ready_running [OF r] by (simp_all add: enter_def leave_def view_upd_cur [OF r])
  show "view (OmpHappensBefore th l s) = act_step (Releases th l) (view s)"
    "view (OmpClockReset l s) = act_step (Resets l) (view s)"
    using ready_running [OF r] ready_clock [OF r]
    by (simp_all add: OmpHappensBefore_def OmpClockReset_def view_def thread_clock_def cur_clock_def fun_eq_iff)
qed

lemma view_after [simp]:
  assumes "ready th s"
  shows "view (OmpHappensAfter th l s) = act_step (Acquires th l) (view s)"
proof -
  obtain sc tc where e: "OmpHAfter True (sync s l) (cur_clock th s) = (sc, tc)" by fastforce
  let ?s = "s\<lparr>sync := (sync s)(l := sc)\<rparr>"
  have r: "ready th ?s"
    using assms by (simp add: ready_def measuring_def own_clocks_def locks_ok_def is_running_def)
  have v: "view ?s = (view s)\<lparr>vsyn := (vsyn (view s))(l := sc)\<rparr>"
    by (simp add: view_def thread_clock_def cur_clock_def fun_eq_iff)
  have "OmpHappensAfter th l s = upd_cur th (\<lambda>_. tc) ?s"
    using ready_running [OF assms] e by (simp add: OmpHappensAfter_def)
  then show ?thesis
    using e ready_clock [OF assms] by (simp add: view_upd_cur [OF r] v) (simp add: view_def)
qed

section \<open>Objects from the pools\<close>

text \<open>\<^const>\<open>new_clock\<close> is only needed before a thread is ready.\<close>

lemma new_clock_ready: "ready th s \<Longrightarrow> new_clock th b s = s"
  by (simp add: new_clock_def ready_def)

lemma ready_timer [simp]:
  "ready th s \<Longrightarrow> ready th (ompTimer_begin th now s)" "ready th (ompTimer_end th now s) = ready th s"
  "ready th s \<Longrightarrow> view (ompTimer_begin th now s) = act_step (Enters th now STATE_OMP) (view s)"
  "ready th s \<Longrightarrow> view (ompTimer_end th now s) = act_step (Leaves th now True) (view s)"
  "ready th s \<Longrightarrow> tasks (ompTimer_begin th now s) = tasks s"
  by (simp_all add: ompTimer_begin_def ompTimer_end_def new_clock_ready)

lemma view_constructs:
  assumes "clock_part s' = (is_running s, store (core s), next_clock (core s), thread_local_clock s,
             \<lambda>l. if l \<in> L then syncClock_init else sync s l)"
  shows "view s' = act_step (Constructs L) (view s)"
  using assms by (simp add: clock_part_def view_def thread_clock_def cur_clock_def fun_eq_iff)

lemma ready_constructs:
  assumes "clock_part s' = (is_running s, store (core s), next_clock (core s), thread_local_clock s,
             \<lambda>l. if l \<in> L then syncClock_init else sync s l)" and "lock_part s' = lock_part s"
  shows "ready th s' = ready th s"
  using assms by (auto simp: clock_part_def lock_part_def ready_def measuring_def own_clocks_def locks_ok_def)

lemmas new_obj_sets = new_teams_def new_groups_def new_tasks_def new_deps_def

lemma new_object_parts:
  "ParallelData_New th c s = (d, s1) \<Longrightarrow> clock_part s1 = (is_running s, store (core s), next_clock (core s),
     thread_local_clock s, \<lambda>l. if l \<in> new_teams s s1 then syncClock_init else sync s l)"
  "Taskgroup_New th g s = (d, s2) \<Longrightarrow> clock_part s2 = (is_running s, store (core s), next_clock (core s),
     thread_local_clock s, \<lambda>l. if l \<in> new_groups s s2 then syncClock_init else sync s l)"
  "TaskData_alloc th s = (d, s3) \<Longrightarrow> clock_part s3 = (is_running s, store (core s), next_clock (core s),
     thread_local_clock s, \<lambda>l. if l \<in> new_tasks s s3 then syncClock_init else sync s l)"
  "DependencyData_New th s = (d, s4) \<Longrightarrow> clock_part s4 = (is_running s, store (core s), next_clock (core s),
     thread_local_clock s, \<lambda>l. if l \<in> new_deps s s4 then syncClock_init else sync s l)"
  by (auto simp: ParallelData_New_def Taskgroup_New_def TaskData_alloc_def DependencyData_New_def clock_part_def
      is_running_def new_obj_sets fun_eq_iff split: prod.splits sync_loc.splits)

lemma new_object_locks:
  "ParallelData_New th c s = (d, s1) \<Longrightarrow> lock_part s1 = lock_part s"
  "Taskgroup_New th g s = (d, s2) \<Longrightarrow> lock_part s2 = lock_part s"
  "TaskData_alloc th s = (d, s3) \<Longrightarrow> lock_part s3 = lock_part s"
  "DependencyData_New th s = (d, s4) \<Longrightarrow> lock_part s4 = lock_part s"
  by (auto simp: ParallelData_New_def Taskgroup_New_def TaskData_alloc_def DependencyData_New_def lock_part_def
      split: prod.splits)

lemma Init_parts [simp]:
  "clock_part (Init_child t par type s) = clock_part s" "lock_part (Init_child t par type s) = lock_part s"
  "clock_part (Init_initial t team type s) = clock_part s" "lock_part (Init_initial t team type s) = lock_part s"
  "clock_part (Init_implicit t team num type s) = clock_part s" "lock_part (Init_implicit t team num type s) = lock_part s"
  by (simp_all add: Init_child_def Init_initial_def Init_implicit_def Let_def)

lemma Delete_parts [simp]:
  "clock_part (ParallelData_Delete th d s) = clock_part s" "lock_part (ParallelData_Delete th d s) = lock_part s"
  "clock_part (Taskgroup_Delete th d s) = clock_part s" "lock_part (Taskgroup_Delete th d s) = lock_part s"
  "clock_part (DependencyData_Delete th d s) = clock_part s" "lock_part (DependencyData_Delete th d s) = lock_part s"
  by (simp_all add: ParallelData_Delete_def Taskgroup_Delete_def DependencyData_Delete_def clock_part_def lock_part_def
      is_running_def)

lemma fold_parts:
  "(\<And>x s. clock_part (f x s) = clock_part s) \<Longrightarrow> clock_part (fold f xs s) = clock_part s"
  "(\<And>x s. lock_part (f x s) = lock_part s) \<Longrightarrow> lock_part (fold f xs s) = lock_part s"
  by (induction xs arbitrary: s) simp_all

lemma TaskData_Delete_parts [simp]:
  "clock_part (TaskData_Delete th t s) = clock_part s" "lock_part (TaskData_Delete th t s) = lock_part s"
proof -
  define s1 where "s1 = (case DependencyMap (tasks s t) of None \<Rightarrow> s
      | Some m \<Rightarrow> fold (\<lambda>(k, d). DependencyData_Delete th d) (hm_entries m) s)"
  have "clock_part s1 = clock_part s" "lock_part s1 = lock_part s"
    unfolding s1_def by (auto split: option.split intro!: fold_parts)
  then show "clock_part (TaskData_Delete th t s) = clock_part s" "lock_part (TaskData_Delete th t s) = lock_part s"
    by (simp_all add: TaskData_Delete_def TaskData_Reset_def s1_def [symmetric] Let_def clock_part_def lock_part_def
        upd_task_def is_running_def)
qed

lemma freeTask_parts:
  "freeTask fuel th t s = Some s' \<Longrightarrow> clock_part s' = clock_part s \<and> lock_part s' = lock_part s"
proof (induction fuel arbitrary: t s)
  case (Suc fuel)
  show ?case
    using Suc.prems by (subst (asm) freeTask.simps) (auto simp: Let_def split: if_splits dest!: Suc.IH)
qed (auto simp: freeTask.simps [of 0] Let_def split: if_splits)

lemmas view_freeTask = freeTask_parts [THEN conjunct1, THEN view_same]

lemma ready_freeTask: "freeTask fuel th t s = Some s' \<Longrightarrow> ready th' s' = ready th' s"
  using freeTask_parts ready_same by blast

text \<open>The task data after \<^const>\<open>freeTask\<close> depend on the task data only.\<close>

lemma tasks_Delete:
  "tasks (TaskData_Delete th t s) = (tasks s)(t := (tasks s t)\<lparr>isRunning := False, InBarrier := False, TaskType := {},
     execution := 0, BarrierIndex := 0, RefCount := 1, Parent := 0, ImplicitTask := 0, Team := 0, ThreadNum := - 1,
     TaskGroup := 0, DependencyMap := None, Dependencies := []\<rparr>)"
proof -
  have "tasks (fold (\<lambda>(k, d). DependencyData_Delete th d) xs s) = tasks s" for xs :: "(u64 \<times> nat) list" and s
    by (induction xs arbitrary: s) (auto simp: DependencyData_Delete_def)
  then show ?thesis
    by (auto simp: TaskData_Delete_def TaskData_Reset_def Let_def split: option.split)
qed

lemma freeTask_tasks:
  "tasks s1 = tasks s2 \<Longrightarrow> map_option tasks (freeTask fuel th t s1) = map_option tasks (freeTask fuel th t s2)"
proof (induction fuel arbitrary: t s1 s2)
  case 0
  then show ?case by (simp add: freeTask.simps [of 0] Let_def)
next
  case (Suc fuel)
  let ?dec = "\<lambda>s. upd_task t (\<lambda>d. d\<lparr>RefCount := RefCount d - 1\<rparr>) s"
  have "tasks (TaskData_Delete th t (?dec s1)) = tasks (TaskData_Delete th t (?dec s2))"
    using Suc.prems by (simp add: tasks_Delete)
  from Suc.IH [OF this, of "Parent (tasks s2 t)"] show ?case
    using Suc.prems by (simp add: freeTask.simps [of "Suc fuel"] Let_def)
qed

lemma given_back_eq:
  assumes "freeTask (next_obj (task_pools s)) th t s1 = Some s2" and "tasks s1 = tasks s"
  shows "given_back th t s = tasks s2"
  using freeTask_tasks [OF assms(2), of "next_obj (task_pools s)" th t] assms(1)
  by (auto simp: given_back_def split: option.splits)

section \<open>Callbacks refine their acts\<close>

declare act_step.simps [simp del]

abbreviation acts_run :: "omp_act list \<Rightarrow> clock_view \<Rightarrow> clock_view" where
  "acts_run \<equiv> fold act_step"

lemma acts_run_timed [simp]:
  "acts_run (timed th now now' as) v = act_step (Leaves th now' True) (acts_run as (act_step (Enters th now STATE_OMP) v))"
  by (simp add: timed_def)

lemma no_constructs: "act_step (Constructs {}) v = v"
  by (simp add: act_step.simps)

lemma dependency_acts:
  assumes "ready th s"
  shows "view (fold (AnnotateBegin th) ds s) = acts_run (map (Acquires th) (concat (map waits_for ds))) (view s) \<and>
         ready th (fold (AnnotateBegin th) ds s)" (is "?begin s")
    and "view (fold (AnnotateEnd th) ds s) = acts_run (map (Releases th) (concat (map signals ds))) (view s) \<and>
         ready th (fold (AnnotateEnd th) ds s)" (is "?end s")
proof -
  show "?begin s" using assms
    by (induction ds arbitrary: s) (simp_all add: AnnotateBegin_def waits_for_def writes_def)
  show "?end s" using assms
    by (induction ds arbitrary: s) (simp_all add: AnnotateEnd_def signals_def writes_def)
qed

lemma tasks_annotate [simp]:
  "tasks (acquireDependencies th t s) = tasks s" "tasks (releaseDependencies th t s) = tasks s"
proof -
  have "tasks (fold (AnnotateBegin th) ds s) = tasks s" "tasks (fold (AnnotateEnd th) ds s) = tasks s" for ds
    by (induction ds arbitrary: s) (simp_all add: AnnotateBegin_def AnnotateEnd_def)
  then show "tasks (acquireDependencies th t s) = tasks s" "tasks (releaseDependencies th t s) = tasks s"
    by (simp_all add: acquireDependencies_def releaseDependencies_def)
qed

lemma view_dependencies [simp]:
  assumes "ready th s"
  shows "view (acquireDependencies th t s) = acts_run (begin_acts th (tasks s t)) (view s)"
    "ready th (acquireDependencies th t s)"
    "view (releaseDependencies th t s) =
       acts_run (map (Releases th) (concat (map signals (Dependencies (tasks s t))))) (view s)"
    "ready th (releaseDependencies th t s)"
  using dependency_acts [OF assms]
  by (simp_all add: acquireDependencies_def releaseDependencies_def begin_acts_def)

lemma view_complete [simp]:
  assumes "ready th s"
  shows "view (completeTask_arcs th t s) = acts_run (complete_acts th t (tasks s t)) (view s)"
    "ready th (completeTask_arcs th t s)" "tasks (completeTask_arcs th t s) = tasks s"
  using assms by (simp_all add: completeTask_arcs_def complete_acts_def ends_before_def GetBarrierPtr_def Let_def)

lemma view_startTask [simp]:
  assumes "ready th s"
  shows "view (startTask th t now s) = acts_run (start_acts th t now (tasks s t)) (view s)" "ready th (startTask th t now s)"
  using assms by (simp_all add: startTask_def start_acts_def begin_acts_def Let_def)

lemma view_suspend [simp]:
  assumes "ready th s"
  shows "view (suspendTask_to th t t' now s) = acts_run (suspend_acts th t now (tasks s t)) (view s)"
    "ready th (suspendTask_to th t t' now s)"
    "view (suspendTaskEnd th t now s) = acts_run (end_acts th t now (tasks s t)) (view s)"
    "ready th (suspendTaskEnd th t now s)" "tasks (suspendTaskEnd th t now s) = tasks s"
  using assms by (simp_all add: suspendTask_to_def suspend_acts_def suspendTaskEnd_def end_acts_def Let_def)

text \<open>\<^const>\<open>suspendTask_to\<close> passes the implicit task on, which no act depends on.\<close>

lemma start_acts_suspended:
  "start_acts th t now (tasks (suspendTask_to th u t now s) t) = start_acts th t now (tasks s t)"
  by (simp add: suspendTask_to_def start_acts_def begin_acts_def isUntied_def Let_def)

lemma count_frame [simp]: "tasks (count th f s) = tasks s" "task_pools (count th f s) = task_pools s"
  by (simp_all add: count_def split: option.split)

lemma schedule_refines:
  assumes "ready th s" and "ompt_tsan_task_schedule th from status to now now' s = Some s'"
  shows "view s' = acts_run (schedule_acts th from status to now now' s) (view s) \<and> ready th s'"
proof -
  define s0 where "s0 = count th (\<lambda>c. c\<lparr>taskSchedule := taskSchedule c + 1\<rparr>) s"
  have s0: "ready th s0" "view s0 = view s" "tasks s0 = tasks s" "task_pools s0 = task_pools s"
    using assms(1) by (simp_all add: s0_def)
  have finish: ?thesis if st: "status = ompt_task_complete \<or> status = ompt_task_cancel"
  proof -
    obtain s2 where s2: "freeTask (next_obj (task_pools s0)) th from (completeTask_arcs th from (suspendTaskEnd th from now s0)) = Some s2"
      and s': "s' = startTask th to now s2"
      using assms(2) st
      by (auto simp: ompt_tsan_task_schedule_def Let_def s0_def [symmetric] bind_eq_Some_conv completeTask_def split: if_splits)
    have "given_back th from s = tasks s2"
      using given_back_eq [of s th "from" "completeTask_arcs th from (suspendTaskEnd th from now s0)" s2] s2 s0 by simp
    then show ?thesis
      using st s0 view_freeTask [OF s2] ready_freeTask [OF s2, of th] by (auto simp: s')
  qed
  show ?thesis
  proof (cases status)
    case ompt_task_late_fulfill
    then obtain s2 where s2: "freeTask (next_obj (task_pools s0)) th from
        (completeTask_arcs th from (OmpHappensAfter th (Task_clock from) (ompTimer_begin th now s0))) = Some s2"
      and s': "s' = ompTimer_end th now' s2"
      using assms(2) by (auto simp: ompt_tsan_task_schedule_def Let_def s0_def [symmetric] bind_eq_Some_conv completeTask_def split: if_splits)
    show ?thesis using ompt_task_late_fulfill s0 view_freeTask [OF s2] ready_freeTask [OF s2, of th] by (simp add: s')
  next
    case ompt_taskwait_complete
    then obtain s2 where s2: "freeTask (next_obj (task_pools s0)) th from
        (acquireDependencies th from (ompTimer_begin th now s0)) = Some s2"
      and s': "s' = ompTimer_end th now' s2"
      using assms(2) by (auto simp: ompt_tsan_task_schedule_def Let_def s0_def [symmetric] bind_eq_Some_conv completeTask_def split: if_splits)
    show ?thesis using ompt_taskwait_complete s0 view_freeTask [OF s2] ready_freeTask [OF s2, of th] by (simp add: s')
  qed (use assms(2) s0 finish in \<open>auto simp: ompt_tsan_task_schedule_def Let_def s0_def [symmetric] start_acts_suspended suspendTask_def split: if_splits\<close>)
qed

definition pool_part :: "ompt \<Rightarrow> nat list \<times> nat list" where
  "pool_part s = ([next_obj (task_pools s), next_obj (team_pools s), next_obj (group_pools s), next_obj (dep_pools s)],
     [task_block s, team_block s, group_block s, dep_block s])"

lemma pool_part_simps [simp]:
  "pool_part (upd_cur th f s) = pool_part s" "pool_part (upd_task t g s) = pool_part s"
  "pool_part (enter th now cs s) = pool_part s" "pool_part (leave th now r s) = pool_part s"
  "pool_part (OmpHappensBefore th l s) = pool_part s" "pool_part (OmpHappensAfter th l s) = pool_part s"
  "pool_part (OmpClockReset l s) = pool_part s" "pool_part (count th cf s) = pool_part s"
  "pool_part (new_clock th b s) = pool_part s" "pool_part (ompTimer_begin th now s) = pool_part s"
  "pool_part (ompTimer_end th now s) = pool_part s" "pool_part (Taskgroup_Delete th d s) = pool_part s"
  by (simp_all add: pool_part_def upd_cur_def upd_task_def enter_def leave_def OmpHappensBefore_def new_clock_def
      OmpHappensAfter_def OmpClockReset_def count_def ompTimer_begin_def ompTimer_end_def Taskgroup_Delete_def
      split: prod.split option.split)

lemma pool_part_frame [simp]:
  "pool_part (s\<lparr>core := c\<rparr>) = pool_part s" "pool_part (s\<lparr>omptThreadCount := n\<rparr>) = pool_part s"
  "pool_part (s\<lparr>Locks := m\<rparr>) = pool_part s" "pool_part (s\<lparr>lock_held := h\<rparr>) = pool_part s"
  "pool_part (new_pools th s) = pool_part s"
  by (simp_all add: pool_part_def new_pools_def upd_pool_def)

lemma lock_part_frame [simp]:
  "lock_part (s\<lparr>core := c\<rparr>) = lock_part s" "lock_part (s\<lparr>omptThreadCount := n\<rparr>) = lock_part s"
  "lock_part (new_clock th b s) = lock_part s" "lock_part (ompTimer_begin th now s) = lock_part s"
  "lock_part (ompTimer_end th now s) = lock_part s" "lock_part (s\<lparr>lock_held := h\<rparr>) = lock_part s"
  by (simp_all add: lock_part_def new_clock_def ompTimer_begin_def ompTimer_end_def enter_def leave_def upd_cur_def
      split: prod.split)

lemma new_sets_same:
  assumes "pool_part s' = pool_part s"
  shows "new_tasks s0 s' = new_tasks s0 s" "new_teams s0 s' = new_teams s0 s" "new_groups s0 s' = new_groups s0 s"
    "new_deps s0 s' = new_deps s0 s" "new_tasks s' s0 = new_tasks s s0" "new_teams s' s0 = new_teams s s0"
    "new_groups s' s0 = new_groups s s0" "new_deps s' s0 = new_deps s s0"
  using assms by (simp_all add: pool_part_def new_obj_sets fresh_objs_def)

lemma sync_region_begin_refines:
  assumes "ready th s" and "s' = sync_region_begin th kind t now s"
  shows "view s' = acts_run (region_begin_acts th kind now (new_groups s s') (tasks s t)) (view s) \<and> ready th s' \<and>
         (isRunning (tasks s' t) = isRunning (tasks s t) \<and> ThreadNum (tasks s' t) = ThreadNum (tasks s t) \<and>
          Team (tasks s' t) = Team (tasks s t) \<and> BarrierIndex (tasks s' t) = BarrierIndex (tasks s t) \<and>
          execution (tasks s' t) = execution (tasks s t) \<and>
          TaskGroup (tasks s' t) = TaskGroup (inside th kind t s))"
proof (cases kind)
  case region_taskgroup
  define s0 where "s0 = count th (\<lambda>c. c\<lparr>syncRegionBegin := syncRegionBegin c + 1\<rparr>) s"
  obtain g s1 where n: "Taskgroup_New th (TaskGroup (tasks s t)) s0 = (g, s1)" by fastforce
  have s0: "clock_part s0 = clock_part s" "lock_part s0 = lock_part s" "group_pools s0 = group_pools s" "group_block s0 = group_block s"
    by (simp_all add: s0_def) (simp_all add: count_def split: option.split)
  have s': "s' = upd_task t (\<lambda>d. d\<lparr>TaskGroup := g\<rparr>) s1"
    using n region_taskgroup by (simp add: assms(2) sync_region_begin_def Let_def s0_def)
  have g: "g = fst (Taskgroup_New th (TaskGroup (tasks s t)) s)"
    using n s0 by (auto simp: Taskgroup_New_def split: prod.splits)
  have "new_groups s0 s1 = new_groups s s'" using s0(3) by (simp add: new_groups_def s' upd_task_def)
  moreover have clock_same: "clock_part s' = clock_part s1" by (simp add: s')
  ultimately have c: "clock_part s' = (is_running s, store (core s), next_clock (core s), thread_local_clock s,
      \<lambda>l. if l \<in> new_groups s s' then syncClock_init else sync s l)"
    using new_object_parts(2) [OF n] s0(1) clock_same by (auto simp: clock_part_def)
  have l: "lock_part s' = lock_part s" using new_object_locks(2) [OF n] s0(2) by (simp add: s')
  have "tasks s1 = tasks s" using n by (auto simp: s0_def Taskgroup_New_def split: prod.splits)
  then show ?thesis
    using region_taskgroup view_constructs [OF c] ready_constructs [OF c l] assms(1) g by (simp add: s' inside_def)
qed (use assms in \<open>auto simp: sync_region_begin_def barrier_begin_def Let_def GetBarrierPtr_def inside_def\<close>)

lemma sync_region_end_refines:
  assumes "ready th s"
  shows "view (sync_region_end th kind t hp now now' s) =
           acts_run (region_end_acts th kind hp t now now' (tasks s t)) (view s) \<and>
         ready th (sync_region_end th kind t hp now now' s)"
proof -
  have del: "view (Taskgroup_Delete th g s) = view s" "ready th (Taskgroup_Delete th g s) = ready th s" for g s
    by (rule view_same, simp) (rule ready_same, simp_all)
  show ?thesis
    using assms
    by (cases kind) (auto simp: sync_region_end_def barrier_end_def Let_def GetBarrierPtr_def del)
qed

lemma sync_region_refines:
  assumes "ready th s" and "s' = ompt_tsan_sync_region th kind endpoint hp t now now' s"
  shows "view s' = acts_run (region_acts th kind endpoint hp t now now' s s') (view s) \<and> ready th s'"
proof -
  define s1 where "s1 = sync_region_begin th kind t now s"
  note B = sync_region_begin_refines [OF assms(1) s1_def]
  have "pool_part (sync_region_end th kind t hp now now' s1) = pool_part s1"
    by (cases kind) (simp_all add: sync_region_end_def barrier_end_def Let_def)
  then have "new_groups s (sync_region_end th kind t hp now now' s1) = new_groups s s1"
    by (rule new_sets_same(3))
  moreover have "region_end_acts th kind hp t now now' (tasks s1 t) =
      region_end_acts th kind hp t now now' (inside th kind t s)"
    using B by (cases kind) (simp_all add: inside_def)
  ultimately show ?thesis
    using assms B sync_region_end_refines [of th s kind t hp now now'] sync_region_end_refines [of th s1 kind t hp now now']
    by (cases endpoint) (simp_all add: region_acts_def ompt_tsan_sync_region_def s1_def [symmetric])
qed

text \<open>A new object constructs the clocks of its block.\<close>

lemma Init_pools [simp]:
  "pool_part (Init_child t par type s) = pool_part s" "pool_part (Init_initial t team type s) = pool_part s"
  "pool_part (Init_implicit t team num type s) = pool_part s"
  by (simp_all add: Init_child_def Init_initial_def Init_implicit_def Let_def)

lemma New_task_acts:
  assumes "TaskData_New_child th par type s = (t, s1) \<or> TaskData_New_initial th team type s = (t, s1) \<or>
           TaskData_New_implicit th team num type s = (t, s1)"
  shows "view s1 = act_step (Constructs (new_tasks s s1)) (view s)" "ready th' s1 = ready th' s" "team_pools s1 = team_pools s"
proof -
  obtain s0 where a: "TaskData_alloc th s = (t, s0)"
    and s1: "clock_part s1 = clock_part s0" "lock_part s1 = lock_part s0" "pool_part s1 = pool_part s0" "team_pools s1 = team_pools s0"
    using assms
    by (auto simp: TaskData_New_child_def TaskData_New_initial_def TaskData_New_implicit_def split: prod.splits)
       (simp_all add: Init_child_def Init_initial_def Init_implicit_def upd_task_def Let_def)
  have c: "clock_part s1 = (is_running s, store (core s), next_clock (core s), thread_local_clock s,
      \<lambda>l. if l \<in> new_tasks s s1 then syncClock_init else sync s l)"
    using new_object_parts(3) [OF a] s1(1) new_sets_same(1) [OF s1(3)] by simp
  show "view s1 = act_step (Constructs (new_tasks s s1)) (view s)" by (rule view_constructs [OF c])
  show "ready th' s1 = ready th' s" using ready_constructs [OF c] new_object_locks(3) [OF a] s1(2) by simp
  show "team_pools s1 = team_pools s" using a s1(4) by (auto simp: TaskData_alloc_def split: prod.splits)
qed

lemma New_team_acts:
  assumes "ParallelData_New th c s = (d, s1)"
  shows "view s1 = act_step (Constructs (new_teams s s1)) (view s)" "ready th' s1 = ready th' s"
    "task_pools s1 = task_pools s" "tasks s1 = tasks s"
  using view_constructs [OF new_object_parts(1) [OF assms]] ready_constructs [OF new_object_parts(1) [OF assms]]
    new_object_locks(1) [OF assms] assms
  by (auto simp: ParallelData_New_def split: prod.splits)

lemma New_depends_on_pool:
  "team_pools s' = team_pools s \<Longrightarrow> team_block s' = team_block s \<Longrightarrow>
     fst (ParallelData_New th c s') = fst (ParallelData_New th c s)"
  "task_pools s' = task_pools s \<Longrightarrow> task_block s' = task_block s \<Longrightarrow>
     fst (TaskData_New_child th par type s') = fst (TaskData_New_child th par type s)"
  by (auto simp: ParallelData_New_def TaskData_New_child_def TaskData_alloc_def split: prod.splits)

lemma count_pools [simp]:
  "task_pools (count th f s) = task_pools s" "team_pools (count th f s) = team_pools s"
  "task_block (count th f s) = task_block s" "team_block (count th f s) = team_block s"
  by (simp_all add: count_def split: option.split)

lemma parallel_begin_refines:
  assumes "ready th s" and "s' = snd (ompt_tsan_parallel_begin th c now s)"
  shows "view s' = acts_run (acts (Parallel_begin th c now) s s') (view s) \<and> ready th s'"
proof -
  obtain d s1 where n: "ParallelData_New th c s = (d, s1)" by fastforce
  then have s': "s' = OmpHappensBefore th (GetParallelPtr d) (enter th now STATE_OMP s1)"
    by (simp add: assms(2) ompt_tsan_parallel_begin_def)
  have "new_teams s s' = new_teams s s1" by (rule new_sets_same) (simp add: s')
  then show ?thesis using assms(1) New_team_acts [OF n] n by (simp add: s')
qed

lemma implicit_begin_refines:
  assumes "ready th s" and "s' = snd (snd (implicit_task_begin th team num type now s))"
  shows "view s' = acts_run (acts (Implicit_task_begin th team num type now) s s') (view s) \<and> ready th s'"
proof -
  define s0 where "s0 = count th (\<lambda>c. c\<lparr>implTaskBegin := implTaskBegin c + 1\<rparr>) s"
  have s0: "ready th s0" "view s0 = view s" "pool_part s0 = pool_part s" using assms(1) by (simp_all add: s0_def)
  then have cur: "cur_clock th s0 = cur_clock th s" using ready_clock assms(1) by metis
  obtain team1 s1 where p: "(if ompt_task_initial \<in> type then ParallelData_New th 0 s0
      else (team, OmpHappensAfter th (GetParallelPtr team)
             (if GetState (cur_clock th s0) = STATE_INIT then enter th now STATE_OMP s0 else s0))) = (team1, s1)"
    by fastforce
  obtain t s2 where n: "TaskData_New_implicit th team1 num type s1 = (t, s2)" by fastforce
  have s': "s' = enter th now STATE_USEFUL s2"
    using p n by (simp add: assms(2) implicit_task_begin_def Let_def s0_def [symmetric] cong: if_cong)
  note N = New_task_acts [OF disjI2 [OF disjI2 [OF n]]]
  have tasks: "new_tasks s s' = new_tasks s1 s2 \<and> (ompt_task_initial \<in> type \<longrightarrow> new_teams s s' = new_teams s0 s1)"
    using p s0(3) N(3) New_team_acts(3)
    by (auto simp: s' new_obj_sets fresh_objs_def pool_part_def enter_def upd_cur_def OmpHappensAfter_def
        split: if_splits prod.splits)
  have "view s1 = acts_run (if ompt_task_initial \<in> type then [Constructs (new_teams s0 s1)]
      else (if GetState (cur_clock th s) = STATE_INIT then [Enters th now STATE_OMP] else []) @ [Acquires th (GetParallelPtr team)])
      (view s) \<and> ready th s1"
    using p s0 cur New_team_acts [of th 0 s0 team1 s1] by (auto split: if_splits)
  then show ?thesis using N tasks by (simp add: s' split: if_splits)
qed

lemma implicit_end_refines:
  assumes "ready th s"
  shows "view (implicit_task_end th team t type now s) = acts_run [Leaves th now (isRunning (tasks s t))] (view s) \<and>
         ready th (implicit_task_end th team t type now s)"
proof -
  have del: "view (ParallelData_Delete th d s) = view s" "ready th (ParallelData_Delete th d s) = ready th s"
    "view (TaskData_Delete th d s) = view s" "ready th (TaskData_Delete th d s) = ready th s" for d s
    by (rule view_same, simp) (rule ready_same, simp_all, rule view_same, simp, rule ready_same, simp_all)
  show ?thesis using assms by (simp add: implicit_task_end_def Let_def del)
qed

lemma task_create_refines:
  assumes "ready th s" and "s' = snd (snd (ompt_tsan_task_create th par type now now' s))"
  shows "view s' = acts_run (acts (Task_create th par type now now') s s') (view s) \<and> ready th s'"
proof -
  define s0 where "s0 = count th (\<lambda>c. c\<lparr>taskCreate := taskCreate c + 1\<rparr>) s"
  have s0: "ready th s0" "view s0 = view s" "pool_part s0 = pool_part s" using assms(1) by (simp_all add: s0_def)
  show ?thesis
  proof (cases "ompt_task_initial \<in> type")
    case True
    obtain team s1 where t: "ParallelData_New th 0 s0 = (team, s1)" by fastforce
    obtain d where n: "TaskData_New_initial th team type s1 = (d, s')"
      using True t by (cases "TaskData_New_initial th team type s1")
        (simp add: assms(2) ompt_tsan_task_create_def Let_def s0_def [symmetric])
    note N = New_task_acts [OF disjI2 [OF disjI1 [OF n]]]
    have "new_teams s0 s1 = new_teams s s'" "new_tasks s1 s' = new_tasks s s'"
      using s0(3) N(3) New_team_acts(3) [OF t] by (simp_all add: new_obj_sets fresh_objs_def pool_part_def)
    then show ?thesis using True New_team_acts [OF t] N s0 by simp
  next
    case False
    obtain d s1 where n: "TaskData_New_child th par type s0 = (d, s1)" by fastforce
    note N = New_task_acts [OF disjI1 [OF n]]
    have d: "fst (TaskData_New_child th par type s) = d"
      using New_depends_on_pool(2) [of s0 s th par type] n by (simp add: s0_def)
    have s': "s' = (if ompt_task_undeferred \<in> type then s1 else if ompt_task_explicit \<in> type \<or> ompt_task_target \<in> type
        then ompTimer_end th now' (upd_task par (\<lambda>d. d\<lparr>execution := execution d + 1\<rparr>)
               (OmpHappensBefore th (Task_clock d) (ompTimer_begin th now s1))) else s0)"
      using False n by (simp add: assms(2) ompt_tsan_task_create_def Let_def s0_def [symmetric])
    have new: "new_tasks s s' = new_tasks s0 s1" if "ompt_task_undeferred \<in> type \<or> ompt_task_explicit \<in> type \<or> ompt_task_target \<in> type"
    proof -
      have "pool_part s' = pool_part s1" using that by (auto simp: s')
      then show ?thesis using new_sets_same(1) [of s' s1 s] new_sets_same(5) [OF s0(3), of s1] by simp
    qed
    have "view s' = acts_run (acts (Task_create th par type now now') s s') (view s)"
    proof (cases "ompt_task_undeferred \<in> type \<or> ompt_task_explicit \<in> type \<or> ompt_task_target \<in> type")
      case True
      then show ?thesis unfolding acts.simps new [OF True] using False N s0 d by (simp add: s')
    qed (use False s0 in \<open>simp add: s'\<close>)
    then show ?thesis using N s0 by (simp add: s')
  qed
qed

lemma constructs_twice: "act_step (Constructs L') (act_step (Constructs L) v) = act_step (Constructs (L \<union> L')) v"
  by (auto simp: act_step.simps fun_eq_iff)

lemma new_deps_none: "dep_pools s' = dep_pools s \<Longrightarrow> new_deps s s' = {}"
  by (simp add: new_deps_def fresh_objs_def)

lemma new_deps_trans:
  "next_obj (dep_pools s) \<le> next_obj (dep_pools s1) \<Longrightarrow> next_obj (dep_pools s1) \<le> next_obj (dep_pools s2) \<Longrightarrow>
     new_deps s s1 \<union> new_deps s1 s2 = new_deps s s2"
  by (auto simp: new_deps_def fresh_objs_def)

lemma add_dependence_acts:
  assumes "ready th s" and "add_dependence th t dep s = Some s'"
  shows "view s' = act_step (Constructs (new_deps s s')) (view s) \<and> ready th s' \<and>
         next_obj (dep_pools s) \<le> next_obj (dep_pools s')"
proof -
  let ?par = "Parent (tasks s t)"
  obtain s1 f g where s1: "s1 = s \<or> (\<exists>d. DependencyData_New th s = (d, s1))"
    and s': "s' = upd_task t f (upd_task ?par g s1)"
    using assms(2) by (auto simp: add_dependence_def Let_def bind_eq_Some_conv split: option.splits if_splits prod.splits)
  have d: "new_deps s s' = new_deps s s1" "dep_pools s' = dep_pools s1" by (simp_all add: new_deps_def s' upd_task_def)
  from s1 show ?thesis
  proof
    assume "s1 = s"
    then show ?thesis using assms(1) d by (simp add: s' no_constructs new_deps_none)
  next
    assume "\<exists>d. DependencyData_New th s = (d, s1)"
    then obtain x where n: "DependencyData_New th s = (x, s1)" by blast
    then have "next_obj (dep_pools s) \<le> next_obj (dep_pools s1)"
      by (auto simp: DependencyData_New_def dest: getData_next split: prod.splits)
    then show ?thesis
      using view_constructs [OF new_object_parts(4) [OF n]] ready_constructs [OF new_object_parts(4) [OF n]]
        new_object_locks(4) [OF n] assms(1) d by (simp add: s')
  qed
qed

lemma add_dependences_acts:
  "ready th s \<Longrightarrow> add_dependences th t deps s = Some s' \<Longrightarrow>
     view s' = act_step (Constructs (new_deps s s')) (view s) \<and> ready th s' \<and>
     next_obj (dep_pools s) \<le> next_obj (dep_pools s')"
proof (induction deps arbitrary: s)
  case Nil
  then show ?case by (simp add: no_constructs new_deps_none)
next
  case (Cons dep deps)
  then obtain s1 where s1: "add_dependence th t dep s = Some s1" "add_dependences th t deps s1 = Some s'"
    by (auto simp: bind_eq_Some_conv)
  note A = add_dependence_acts [OF Cons.prems(1) s1(1)]
  note B = Cons.IH [OF A [THEN conjunct2, THEN conjunct1] s1(2)]
  show ?case using A B new_deps_trans [of s s1 s'] by (simp add: constructs_twice)
qed

text \<open>The state in which the loop over the dependences starts.\<close>

definition dep_prepared :: "nat \<Rightarrow> nat \<Rightarrow> time \<Rightarrow> ompt \<Rightarrow> ompt" where
  "dep_prepared th t now s =
     (let s0 = ompTimer_begin th now s; par = Parent (tasks s0 t)
      in upd_task t (\<lambda>d. d\<lparr>Dependencies := []\<rparr>)
           (if DependencyMap (tasks s0 par) = None then upd_task par (\<lambda>p. p\<lparr>DependencyMap := Some hm_new\<rparr>) s0 else s0))"

lemma dependences_eq:
  "deps \<noteq> [] \<Longrightarrow> ompt_tsan_dependences th t deps now now' s =
     (if Parent (tasks s t) = 0 then None
      else do { s \<leftarrow> add_dependences th t deps (dep_prepared th t now s);
                Some (ompTimer_end th now' (OmpHappensBefore th (Task_clock t) s)) })"
  by (simp add: ompt_tsan_dependences_def dep_prepared_def Let_def)

lemma dep_prepared_parts:
  "ready th s \<Longrightarrow> view (dep_prepared th t now s) = act_step (Enters th now STATE_OMP) (view s)"
  "ready th s \<Longrightarrow> ready th (dep_prepared th t now s)"
  "pool_part (dep_prepared th t now s) = pool_part s"
  by (simp_all add: dep_prepared_def Let_def)

lemma dependences_refines:
  assumes "ready th s" and "ompt_tsan_dependences th t deps now now' s = Some s'"
  shows "view s' = acts_run (acts (Dependences th t deps now now') s s') (view s) \<and> ready th s'"
proof (cases "deps = []")
  case False
  define s1 where "s1 = dep_prepared th t now s"
  note s1 = dep_prepared_parts(1,2) [OF assms(1), of t now, folded s1_def] dep_prepared_parts(3) [of th t now s, folded s1_def]
  obtain s2 where s2: "add_dependences th t deps s1 = Some s2"
    and s': "s' = ompTimer_end th now' (OmpHappensBefore th (Task_clock t) s2)"
    using assms(2) False by (auto simp: dependences_eq s1_def bind_eq_Some_conv split: if_splits)
  have "new_deps s s' = new_deps s1 s2"
    using new_sets_same(8) [OF s1(3), of s2] new_sets_same(4) [of s' s2 s] by (simp add: s')
  then show ?thesis using False s1 add_dependences_acts [OF s1(2) s2] by (simp add: s')
qed (use assms in \<open>simp add: ompt_tsan_dependences_def\<close>)

section \<open>Locks\<close>

lemma lock_pair_acts:
  assumes "ready th s" and "lock_pair w s = Some (p, s1)"
  shows "view s1 = act_step (Constructs (new_locks s s1)) (view s)" "ready th s1" "lock_of s1 w = Lock_clock p"
    and "hm_map (Locks s1) = (hm_map (Locks s))(w \<mapsto> p)" "hm_map (Locks s) w = Some q \<Longrightarrow> p = q"
    and "lock_held s1 = (if hm_map (Locks s) w = None then (lock_held s)(p := False) else lock_held s)"
    and "thread_local_clock s1 = thread_local_clock s"
proof -
  have ok: "hm_ok Hash (Locks s)" "inj_on (hm_map (Locks s)) (dom (hm_map (Locks s)))" "0 < next_lock s"
    and below: "hm_map (Locks s) v = Some q \<Longrightarrow> 0 < q \<and> q < next_lock s" for v q
    using assms(1) by (auto simp: ready_def measuring_def locks_ok_def)
  obtain i b m where m: "hm_insert Hash w 0 (Locks s) = Some ((i, b), m)" "hm_ok Hash m" "i < length (items m)"
      "first (items m ! i) = w" "hm_map m = (hm_map (Locks s))(w \<mapsto> case hm_map (Locks s) w of Some old \<Rightarrow> old | None \<Rightarrow> 0)"
      "b = (hm_map (Locks s) w = None)"
    using hm_insert_map [OF ok(1), of w 0] by blast
  have "view s1 = act_step (Constructs (new_locks s s1)) (view s) \<and> ready th s1 \<and>
      hm_map (Locks s1) = (hm_map (Locks s))(w \<mapsto> p) \<and> (hm_map (Locks s) w = Some q \<longrightarrow> p = q) \<and>
      lock_held s1 = (if hm_map (Locks s) w = None then (lock_held s)(p := False) else lock_held s) \<and>
      thread_local_clock s1 = thread_local_clock s" for q
  proof (cases "hm_map (Locks s) w")
    case None
    obtain m' where m': "hm_store i (next_lock s) m = Some m'" "hm_ok Hash m'" "hm_map m' = (hm_map m)(w \<mapsto> next_lock s)"
      using hm_store_map [OF m(2,3), of "next_lock s"] m(4) by blast
    have s1: "p = next_lock s" "s1 = s\<lparr>Locks := m', next_lock := Suc (next_lock s),
        lock_held := (lock_held s)(next_lock s := False), sync := (sync s)(Lock_clock (next_lock s) := syncClock_init)\<rparr>"
      using assms(2) m(1,6) m'(1) None by (auto simp: lock_pair_def)
    have map: "hm_map m' = (hm_map (Locks s))(w \<mapsto> next_lock s)" using m'(3) m(5) by simp
    have "inj_on (hm_map m') (dom (hm_map m'))"
      using ok(2) below unfolding map by (auto simp: inj_on_def; metis less_irrefl option.inject)
    moreover have "\<forall>v q. hm_map m' v = Some q \<longrightarrow> 0 < q \<and> q < Suc (next_lock s)"
      using below ok(3) unfolding map by (auto simp: less_Suc_eq split: if_splits)
    ultimately have "ready th s1"
      using assms(1) m'(2) by (simp add: ready_def measuring_def own_clocks_def locks_ok_def is_running_def s1)
    moreover have "new_locks s s1 = {Lock_clock (next_lock s)}" by (auto simp: new_locks_def s1)
    then have "view s1 = act_step (Constructs (new_locks s s1)) (view s)"
      by (auto simp: s1 view_def act_step.simps thread_clock_def cur_clock_def fun_eq_iff)
    ultimately show ?thesis using None map s1 by simp
  next
    case (Some old)
    then have map: "hm_map m = hm_map (Locks s)" using m(5) by auto
    have "hm_deref i m = Some old" using hm_map_at [OF m(2,3)] m(3,4) Some map by (simp add: hm_deref_def)
    then have s1: "p = old" "s1 = s\<lparr>Locks := m\<rparr>" using assms(2) m(1,6) Some by (auto simp: lock_pair_def)
    then have "ready th s1"
      using assms(1) m(2) map by (simp add: ready_def measuring_def own_clocks_def locks_ok_def is_running_def)
    moreover have "view s1 = view s" by (simp add: s1 view_def thread_clock_def cur_clock_def fun_eq_iff)
    moreover have "new_locks s s1 = {}" by (simp add: new_locks_def s1)
    ultimately show ?thesis using Some map s1 by (auto simp: no_constructs)
  qed
  then show "view s1 = act_step (Constructs (new_locks s s1)) (view s)" "ready th s1" "lock_of s1 w = Lock_clock p"
    and "hm_map (Locks s1) = (hm_map (Locks s))(w \<mapsto> p)" "hm_map (Locks s) w = Some q \<Longrightarrow> p = q"
    and "lock_held s1 = (if hm_map (Locks s) w = None then (lock_held s)(p := False) else lock_held s)"
    and "thread_local_clock s1 = thread_local_clock s"
    by (auto simp: lock_of_def)
qed

lemma held_frame [simp]:
  "view (s\<lparr>lock_held := h\<rparr>) = view s" "ready th (s\<lparr>lock_held := h\<rparr>) = ready th s"
  by (simp_all add: view_def thread_clock_def cur_clock_def ready_def measuring_def own_clocks_def locks_ok_def is_running_def
      lock_part_def fun_eq_iff)

lemma lock_of_same: "lock_part s' = lock_part s \<Longrightarrow> lock_of s' w = lock_of s w \<and> new_locks s0 s' = new_locks s0 s"
  by (simp add: lock_part_def lock_of_def new_locks_def)

lemma mutex_acquired_refines:
  assumes "ready th s" and "ompt_tsan_mutex_acquired th w now s = Some s'"
  shows "view s' = acts_run (acts (Mutex_acquired th w now) s s') (view s) \<and> ready th s'"
proof -
  obtain p s1 where p: "lock_pair w s = Some (p, s1)"
    and s': "s' = leave th now True (OmpHappensAfter th (Lock_clock p) (s1\<lparr>lock_held := (lock_held s1)(p := True)\<rparr>))"
    using assms(2) by (auto simp: ompt_tsan_mutex_acquired_def Let_def bind_eq_Some_conv split: if_splits)
  have "lock_of s' w = lock_of s1 w \<and> new_locks s s' = new_locks s s1" by (rule lock_of_same) (simp add: s')
  then show ?thesis using assms(1) lock_pair_acts [OF assms(1) p] by (simp add: s')
qed

lemma mutex_released_refines:
  assumes "ready th s" and "ompt_tsan_mutex_released th w now now' s = Some s'"
  shows "view s' = acts_run (acts (Mutex_released th w now now') s s') (view s) \<and> ready th s' \<and>
         hm_map (Locks s') = hm_map (Locks s) \<and> next_lock s' = next_lock s \<and> w \<in> dom (hm_map (Locks s))"
proof -
  let ?s0 = "ompTimer_begin th now s"
  have r0: "ready th ?s0" using assms(1) by simp
  have l0: "Locks ?s0 = Locks s" "next_lock ?s0 = next_lock s"
    using assms(1) by (simp_all add: ompTimer_begin_def new_clock_ready enter_def upd_cur_def)
  have ok: "hm_ok Hash (Locks s)" using assms(1) by (auto simp: ready_def measuring_def locks_ok_def)
  obtain i m where m: "hm_index Hash 0 w (Locks s) = Some (i, m)" "hm_ok Hash m" "i < length (items m)" "first (items m ! i) = w"
      "hm_entries m = (if w \<in> dom (hm_map (Locks s)) then hm_entries (Locks s) else hm_entries (Locks s) @ [(w, 0)])"
    using hm_index_ok [OF ok, of 0 w] by blast
  obtain p where p: "hm_deref i m = Some p" "p \<noteq> 0" and
    s': "s' = ompTimer_end th now' ((OmpHappensBefore th (Lock_clock p) (?s0\<lparr>Locks := m\<rparr>))
          \<lparr>lock_held := (lock_held (OmpHappensBefore th (Lock_clock p) (?s0\<lparr>Locks := m\<rparr>)))(p := False)\<rparr>)"
    using assms(2) m(1) l0 by (auto simp: ompt_tsan_mutex_released_def Let_def bind_eq_Some_conv split: if_splits)
  have wp: "hm_map m w = Some p" using p(1) hm_map_at [OF m(2,3)] m(3,4) by (simp add: hm_deref_def)
  have dom: "w \<in> dom (hm_map (Locks s))"
  proof (rule ccontr)
    assume n: "w \<notin> dom (hm_map (Locks s))"
    then have "hm_map m w = Some 0" using m(5) by (auto simp: hm_map_def map_add_def domIff)
    then show False using wp p(2) by simp
  qed
  then have map: "hm_map m = hm_map (Locks s)" using m(5) by (simp add: hm_map_def)
  have r: "ready th (?s0\<lparr>Locks := m\<rparr>)"
    using r0 m(2) map l0 by (simp add: ready_def measuring_def own_clocks_def locks_ok_def is_running_def)
  have v: "view (?s0\<lparr>Locks := m\<rparr>) = view ?s0" by (simp add: view_def thread_clock_def cur_clock_def fun_eq_iff)
  have "lock_of s w = Lock_clock p" using wp map by (simp add: lock_of_def)
  moreover have "Locks s' = m" "next_lock s' = next_lock s"
    using l0 by (simp_all add: s' ompTimer_end_def leave_def upd_cur_def OmpHappensBefore_def)
  ultimately show ?thesis using assms(1) r v map dom by (simp add: s')
qed

section \<open>Threads\<close>

lemma enterState_at: "enterState r now t cs tc = enterState r (if t = 0 then now else t) 0 cs tc"
  by (simp add: enterState_def SwitchState_def Let_def)

lemma new_pools_parts [simp]: "clock_part (new_pools th s) = clock_part s" "lock_part (new_pools th s) = lock_part s"
  by (simp_all add: new_pools_def clock_part_def lock_part_def is_running_def)

lemma thread_begin_refines:
  assumes "measuring s" and "s' = ompt_tsan_thread_begin th initial now s"
  shows "view s' = acts_run (acts (Thread_begin th initial now) s s') (view s) \<and> ready th s'"
proof -
  define s1 where "s1 = new_clock th True (new_pools th s)"
  define i where "i = (case thread_counts (core s1) of None \<Rightarrow> 0 | Some cs \<Rightarrow> length cs)"
  define s2 where "s2 = s1\<lparr>core := (core s1)\<lparr>
      thread_clocks := map_option (\<lambda>ps. ps @ [thread_local_clock s1 th]) (thread_clocks (core s1)),
      thread_counts := map_option (\<lambda>cs. cs @ [omptCounts_zero]) (thread_counts (core s1))\<rparr>,
      omptThreadCount := (omptThreadCount s1)(th := Some i)\<rparr>"
  define first_acts where "first_acts = (if thread_local_clock s th = 0
      then [Begins th (ucast (ID (core s)))] else [])"
  have own: "thread_local_clock s a < next_clock (core s)" for a using assms(1) by (simp add: measuring_def own_clocks_def)
  have "view s1 = acts_run first_acts (view s) \<and> ready th s1"
  proof (cases "thread_local_clock s th = 0")
    case True
    have s1: "thread_local_clock s1 = (thread_local_clock s)(th := next_clock (core s))"
      "next_clock (core s1) = Suc (next_clock (core s))" "is_running s1 = is_running s" "lock_part s1 = lock_part s"
      using True by (simp_all add: s1_def new_clock_def new_pools_def my_next_id_def is_running_def lock_part_def)
    have "inj_on (thread_local_clock s) {a. thread_local_clock s a \<noteq> 0}"
      using assms(1) by (simp add: measuring_def own_clocks_def)
    moreover have "next_clock (core s) \<noteq> thread_local_clock s a" for a using own [of a] by simp
    ultimately have "inj_on (thread_local_clock s1) {a. thread_local_clock s1 a \<noteq> 0}"
      unfolding s1 inj_on_def by (auto split: if_splits) metis
    then have "own_clocks s1" using own by (simp add: own_clocks_def s1 less_Suc_eq)
    then have "ready th s1"
      using assms(1) own [of th] s1 True by (simp add: ready_def measuring_def locks_ok_def lock_part_def)
    moreover have "store (core s1) = (store (core s))(next_clock (core s) := threadClock_new (ucast (ID (core s))) 0 True)"
      "sync s1 = sync s"
      using True by (simp_all add: s1_def new_clock_def new_pools_def my_next_id_def)
    then have "thread_clock a s1 = (if a = th then threadClock_new (ucast (ID (core s))) 0 True else thread_clock a s)"
        and "sync s1 = sync s" for a
      using own [of a] own [of th] by (auto simp: thread_clock_def cur_clock_def s1)
    then have "view s1 = acts_run first_acts (view s)"
      using True by (simp add: view_def first_acts_def act_step.simps fun_eq_iff)
    ultimately show ?thesis by blast
  next
    case False
    then have s1: "s1 = new_pools th s" by (simp add: s1_def new_clock_def new_pools_def)
    have "ready th s" using False assms(1) by (simp add: ready_def)
    then show ?thesis
      using view_same [of "new_pools th s" s] ready_same [of "new_pools th s" s th] False
      by (simp add: s1 first_acts_def)
  qed
  moreover have "clock_part s2 = clock_part s1" "lock_part s2 = lock_part s1"
    by (simp_all add: s2_def clock_part_def lock_part_def is_running_def)
  ultimately have s2: "view s2 = acts_run first_acts (view s)" "ready th s2"
    using view_same [of s2 s1] ready_same [of s2 s1 th] by simp_all
  have prog: "startProgrammTime (core s2) = startProgrammTime (core s)"
    by (simp add: s2_def s1_def new_clock_def new_pools_def my_next_id_def)
  have "s' = enter th (if initial \<or> startProgrammTime (core s) = 0 then now else startProgrammTime (core s)) STATE_OMP s2"
    using prog enterState_at [of "is_running s2" now "startProgrammTime (core s)" STATE_OMP]
    by (auto simp: assms(2) ompt_tsan_thread_begin_def Let_def s1_def [symmetric] i_def [symmetric] s2_def [symmetric]
        enter_def upd_cur_def upd_clock_def)
  then show ?thesis using s2 by (simp add: first_acts_def)
qed

section \<open>The refinement\<close>

text \<open>
  When a callback may be called: the tool is measuring and, unless it is the first callback of
  a thread, the thread has its clock.
\<close>

definition callable :: "callback \<Rightarrow> ompt \<Rightarrow> bool" where
  "callable cb s \<longleftrightarrow> (case cb of Thread_begin _ _ _ \<Rightarrow> measuring s | _ \<Rightarrow> ready (cb_thread cb) s)"

lemma callback_refines:
  assumes "callable cb s" and "run_callback cb s = Some s'"
  shows "view s' = acts_run (acts cb s s') (view s) \<and> ready (cb_thread cb) s'"
proof (cases cb)
  case (Thread_end th)
  then show ?thesis
    using assms view_same [of "new_pools th s" s] ready_same [of "new_pools th s" s th]
    by (auto simp: callable_def dest!: thread_end_Inr split: sum.splits)
next
  case (Parallel_end th team now)
  have "view (ParallelData_Delete th team s) = view s" "ready th (ParallelData_Delete th team s) = ready th s" for s
    by (rule view_same, simp) (rule ready_same, simp_all)
  then show ?thesis using assms Parallel_end by (auto simp: callable_def ompt_tsan_parallel_end_def)
next
  case (Sync_region_wait th kind endpoint t now)
  then show ?thesis
    using assms
    by (cases endpoint) (auto simp: callable_def ompt_tsan_sync_region_wait_def sync_region_wait_begin_def
        sync_region_wait_end_def Let_def)
next
  case (Task_creation th endpoint now)
  then show ?thesis using assms by (cases endpoint) (auto simp: callable_def ompt_tsan_task_creation_def)
next
  case (Mutex_acquire th now)
  then show ?thesis using assms by (auto simp: callable_def ompt_tsan_mutex_acquire_def)
next
  case (Thread_begin th initial now)
  then show ?thesis using assms thread_begin_refines [of s s' th initial now] by (simp add: callable_def del: acts.simps)
next
  case (Parallel_begin th c now)
  then show ?thesis using assms parallel_begin_refines [of th s s' c now] by (simp add: callable_def del: acts.simps)
next
  case (Implicit_task_begin th team num type now)
  then show ?thesis using assms implicit_begin_refines [of th s s' team num type now] by (simp add: callable_def del: acts.simps)
next
  case (Implicit_task_end th team t type now)
  then show ?thesis using assms implicit_end_refines [of th s team t type now] by (simp add: callable_def)
next
  case (Sync_region th kind endpoint hp t now now')
  then show ?thesis using assms sync_region_refines [of th s s' kind endpoint hp t now now'] by (simp add: callable_def)
next
  case (Task_create th par type now now')
  then show ?thesis using assms task_create_refines [of th s s' par type now now'] by (simp add: callable_def del: acts.simps)
next
  case (Task_schedule th "from" status to now now')
  then show ?thesis using assms schedule_refines [of th s "from" status to now now' s'] by (simp add: callable_def)
next
  case (Dependences th t deps now now')
  then show ?thesis using assms dependences_refines [of th s t deps now now' s'] by (simp add: callable_def del: acts.simps)
next
  case (Mutex_acquired th w now)
  then show ?thesis using assms mutex_acquired_refines [of th s w now s'] by (simp add: callable_def del: acts.simps)
next
  case (Mutex_released th w now now')
  then show ?thesis using assms mutex_released_refines [of th s w now now' s'] by (simp add: callable_def del: acts.simps)
qed

end
