(* ===== verification/Cpt_Omp_Path.thy ===== *)
theory Cpt_Omp_Path
  imports Cpt_Omp_Arcs Cpt_Stopwatch
begin

text \<open>
  The critical path of an OpenMP program.  In a run of OMPT callbacks of any number of threads
  the acts of the callbacks define a graph: phases of useful work in the threads, and arcs from
  a release of a synchronisation object to its later acquires.  The critical and the
  process-local useful-computation clock of a thread hold the length of the longest path in this
  graph that leads to the thread's present point.
\<close>

section \<open>Runs\<close>

text \<open>The callbacks of all threads in the order in which they take effect, with their acts.\<close>

inductive omp_run :: "ompt \<Rightarrow> omp_act list \<Rightarrow> ompt \<Rightarrow> bool" for s0 where
  Run_start: "omp_run s0 [] s0"
| Run_step: "omp_run s0 as s \<Longrightarrow> callable cb s \<Longrightarrow> run_callback cb s = Some s' \<Longrightarrow> omp_run s0 (as @ acts cb s s') s'"

lemma omp_run_view:
  assumes "omp_run s0 as s" and "measuring s0"
  shows "view s = acts_run as (view s0) \<and> measuring s"
  using assms(1)
proof induction
  case Run_start
  show ?case using assms(2) by simp
next
  case (Run_step as s cb s')
  then show ?case using callback_refines [OF Run_step.hyps(2,3)] by (simp add: ready_def)
qed

lemma omp_run_trans:
  assumes "omp_run s as s1" and "omp_run s1 bs s2"
  shows "omp_run s (as @ bs) s2"
  using assms(2)
proof induction
  case Run_start
  show ?case using assms(1) by simp
next
  case (Run_step bs s2 cb s3)
  then show ?case using omp_run.Run_step [of s "as @ bs" s2 cb s3] by simp
qed

section \<open>Work and arcs\<close>

text \<open>
  A trace lists its latest act first; \<open>ini\<close> gives the stacks of the threads at the beginning and
  \<open>t0\<close> the time of the beginning.
\<close>

fun stack_after :: "(nat \<Rightarrow> ClockState list) \<Rightarrow> omp_act list \<Rightarrow> nat \<Rightarrow> ClockState list" where
  "stack_after ini [] t = ini t"
| "stack_after ini (a # as) t =
     (case a of
        Begins th n \<Rightarrow> if t = th then [STATE_INIT] else stack_after ini as t
      | Enters th now cs \<Rightarrow> if t = th then stack_after ini as t @ [cs] else stack_after ini as t
      | Leaves th now r \<Rightarrow>
          if t = th \<and> r \<and> last (stack_after ini as t) \<noteq> STATE_INIT then butlast (stack_after ini as t)
          else stack_after ini as t
      | _ \<Rightarrow> stack_after ini as t)"

definition state_after :: "(nat \<Rightarrow> ClockState list) \<Rightarrow> omp_act list \<Rightarrow> nat \<Rightarrow> ClockState" where
  "state_after ini as t = last (stack_after ini as t)"

definition working :: "(nat \<Rightarrow> ClockState list) \<Rightarrow> omp_act list \<Rightarrow> nat \<Rightarrow> bool" where
  "working ini as t \<longleftrightarrow> State (state_after ini as t) CLOCK_USEFUL"

text \<open>When the present phase of work of a working thread began.\<close>

fun since :: "(nat \<Rightarrow> ClockState list) \<Rightarrow> time \<Rightarrow> omp_act list \<Rightarrow> nat \<Rightarrow> time" where
  "since ini t0 [] t = t0"
| "since ini t0 (a # as) t =
     (if working ini as t then since ini t0 as t
      else case a of
             Enters th now cs \<Rightarrow> if t = th then now else since ini t0 as t
           | Leaves th now r \<Rightarrow> if t = th then now else since ini t0 as t
           | _ \<Rightarrow> since ini t0 as t)"

fun act_time :: "omp_act \<Rightarrow> time" where
  "act_time (Enters th now cs) = now"
| "act_time (Leaves th now r) = now"
| "act_time _ = 0"

datatype work_node = At_thread nat | At_object sync_loc

text \<open>Paths into a node end where its thread begins and where its object is renewed.\<close>

fun renews :: "omp_act \<Rightarrow> work_node \<Rightarrow> bool" where
  "renews (Begins th n) (At_thread t) = (t = th)"
| "renews (Resets l) (At_object l') = (l' = l)"
| "renews (Constructs L) (At_object l) = (l \<in> L)"
| "renews _ _ = False"

text \<open>The act with which a thread stops working.\<close>

definition stops :: "(nat \<Rightarrow> ClockState list) \<Rightarrow> omp_act \<Rightarrow> omp_act list \<Rightarrow> work_node \<Rightarrow> bool" where
  "stops ini a as n \<longleftrightarrow> (\<exists>t. n = At_thread t \<and> working ini as t \<and> \<not> working ini (a # as) t)"

text \<open>
  \<open>work_path ini t0 as n w\<close>: a chain of complete phases of work, each after the one before it in its
  thread or through a release and a later acquire of the same object, leads to \<open>n\<close> and has the
  total length \<open>w\<close>.
\<close>

inductive work_path :: "(nat \<Rightarrow> ClockState list) \<Rightarrow> time \<Rightarrow> omp_act list \<Rightarrow> work_node \<Rightarrow> time \<Rightarrow> bool" for ini t0 where
  Path_begin: "work_path ini t0 [] (At_thread t) 0"
| Path_new: "work_path ini t0 (Begins t n # as) (At_thread t) 0"
| Path_work: "work_path ini t0 as (At_thread t) w \<Longrightarrow> stops ini a as (At_thread t) \<Longrightarrow> \<not> renews a (At_thread t) \<Longrightarrow>
    work_path ini t0 (a # as) (At_thread t) (w + (act_time a - since ini t0 as t))"
| Path_keep: "work_path ini t0 as n w \<Longrightarrow> \<not> stops ini a as n \<Longrightarrow> \<not> renews a n \<Longrightarrow> work_path ini t0 (a # as) n w"
| Path_release: "work_path ini t0 as (At_thread t) w \<Longrightarrow> work_path ini t0 (Releases t l # as) (At_object l) w"
| Path_acquire: "work_path ini t0 as (At_object l) w \<Longrightarrow> work_path ini t0 (Acquires t l # as) (At_thread t) w"

definition longest_work :: "(nat \<Rightarrow> ClockState list) \<Rightarrow> time \<Rightarrow> omp_act list \<Rightarrow> work_node \<Rightarrow> time \<Rightarrow> bool" where
  "longest_work ini t0 as n v \<longleftrightarrow> work_path ini t0 as n v \<and> (\<forall>w. work_path ini t0 as n w \<longrightarrow> w \<le> v)"

text \<open>
  What the trace of a program satisfies: a thread draws an arc while it is inside the OpenMP
  runtime, and no phase of work ends before it began.
\<close>

fun proper :: "(nat \<Rightarrow> ClockState list) \<Rightarrow> time \<Rightarrow> omp_act list \<Rightarrow> bool" where
  "proper ini t0 [] = True"
| "proper ini t0 (a # as) =
     (proper ini t0 as \<and>
      (case a of
         Releases t l \<Rightarrow> state_after ini as t = STATE_OMP
       | Acquires t l \<Rightarrow> state_after ini as t = STATE_OMP
       | Enters t now cs \<Rightarrow> working ini as t \<longrightarrow> since ini t0 as t \<le> now
       | Leaves t now r \<Rightarrow> working ini as t \<longrightarrow> since ini t0 as t \<le> now
       | _ \<Rightarrow> True))"

inductive_cases work_path_NilE: "work_path ini t0 [] n w"
inductive_cases work_path_BeginsE: "work_path ini t0 (Begins th m # as) n w"
inductive_cases work_path_EntersE: "work_path ini t0 (Enters th now cs # as) n w"
inductive_cases work_path_LeavesE: "work_path ini t0 (Leaves th now r # as) n w"
inductive_cases work_path_ReleasesE: "work_path ini t0 (Releases th l # as) n w"
inductive_cases work_path_AcquiresE: "work_path ini t0 (Acquires th l # as) n w"
inductive_cases work_path_ResetsE: "work_path ini t0 (Resets l # as) n w"
inductive_cases work_path_ConstructsE: "work_path ini t0 (Constructs L # as) n w"

lemma not_stops [simp]:
  "\<not> stops ini (Releases t l) as n" "\<not> stops ini (Acquires t l) as n" "\<not> stops ini (Resets l) as n"
  "\<not> stops ini (Constructs L) as n" "\<not> stops ini a as (At_object l)"
  by (auto simp: stops_def working_def state_after_def)

lemma work_path_simps [simp]:
  "work_path ini t0 [] n w \<longleftrightarrow> (\<exists>t. n = At_thread t) \<and> w = 0"
  "work_path ini t0 (Releases t l # as) n w \<longleftrightarrow>
     work_path ini t0 as n w \<or> n = At_object l \<and> work_path ini t0 as (At_thread t) w"
  "work_path ini t0 (Acquires t l # as) n w \<longleftrightarrow>
     work_path ini t0 as n w \<or> n = At_thread t \<and> work_path ini t0 as (At_object l) w"
  "work_path ini t0 (Resets l # as) n w \<longleftrightarrow> n \<noteq> At_object l \<and> work_path ini t0 as n w"
  "work_path ini t0 (Constructs L # as) n w \<longleftrightarrow> \<not> renews (Constructs L) n \<and> work_path ini t0 as n w"
  by (auto elim!: work_path_NilE work_path_ReleasesE work_path_AcquiresE work_path_ResetsE work_path_ConstructsE
      intro: work_path.intros)
     (cases n; auto intro: work_path.intros)+

lemma work_path_Begins [simp]:
  "work_path ini t0 (Begins th m # as) n w \<longleftrightarrow> (if n = At_thread th then w = 0 else work_path ini t0 as n w)"
proof -
  have "\<not> stops ini (Begins th m) as n" if "n \<noteq> At_thread th"
    using that by (auto simp: stops_def working_def state_after_def)
  moreover have "renews (Begins th m) n \<longleftrightarrow> n = At_thread th" by (cases n) auto
  ultimately show ?thesis by (auto elim!: work_path_BeginsE intro: work_path.intros)
qed

lemma work_path_timed:
  assumes "a = Enters th now cs \<or> a = Leaves th now r"
  shows "work_path ini t0 (a # as) n w \<longleftrightarrow>
     (if stops ini a as n then work_path ini t0 as n (w - (now - since ini t0 as th)) else work_path ini t0 as n w)"
proof -
  have th: "n = At_thread th" if "stops ini a as n"
    using that assms by (auto simp: stops_def working_def state_after_def split: if_splits)
  have r: "\<not> renews a n" and t: "act_time a = now" using assms by auto
  have "work_path ini t0 as n (w - (now - since ini t0 as th)) \<Longrightarrow> stops ini a as n \<Longrightarrow> work_path ini t0 (a # as) n w"
    using Path_work [of ini t0 as th "w - (now - since ini t0 as th)" a] th r t by auto
  then show ?thesis
    using assms th r by (auto elim!: work_path_EntersE work_path_LeavesE intro: Path_keep)
qed

section \<open>The clocks hold the longest paths\<close>

text \<open>What a clock shows without the phase of work that is going on.\<close>

definition banked :: "(cpClocks \<Rightarrow> BaseMetric) \<Rightarrow> bool \<Rightarrow> time \<Rightarrow> threadClock \<Rightarrow> time" where
  "banked sel on t tc = cval sel tc CLOCK_USEFUL + (if on then t else 0)"

definition path_inv ::
  "(cpClocks \<Rightarrow> BaseMetric) \<Rightarrow> (nat \<Rightarrow> ClockState list) \<Rightarrow> time \<Rightarrow> omp_act list \<Rightarrow> clock_view \<Rightarrow> bool"
where
  "path_inv sel ini t0 as v \<longleftrightarrow>
     (\<forall>t. clock_state_stack (vthr v t) = stack_after ini as t \<and>
          0 \<le> banked sel (working ini as t) (since ini t0 as t) (vthr v t) \<and>
          longest_work ini t0 as (At_thread t) (banked sel (working ini as t) (since ini t0 as t) (vthr v t))) \<and>
     (\<forall>l. if \<exists>w. work_path ini t0 as (At_object l) w
          then sync_state (vsyn v l) \<noteq> STATE_INIT \<and> 0 \<le> cval sel (vsyn v l) CLOCK_USEFUL \<and>
               longest_work ini t0 as (At_object l) (cval sel (vsyn v l) CLOCK_USEFUL)
          else cval sel (vsyn v l) CLOCK_USEFUL = 0)"

lemma path_inv_thread:
  assumes "path_inv sel ini t0 as v"
  shows "GetState (vthr v t) = state_after ini as t" "clock_state_stack (vthr v t) = stack_after ini as t"
    and "0 \<le> banked sel (working ini as t) (since ini t0 as t) (vthr v t)"
    and "longest_work ini t0 as (At_thread t) (banked sel (working ini as t) (since ini t0 as t) (vthr v t))"
  using assms by (simp_all add: path_inv_def GetState_def state_after_def)

lemma path_inv_object:
  assumes "path_inv sel ini t0 as v"
  shows "work_path ini t0 as (At_object l) w \<Longrightarrow> sync_state (vsyn v l) \<noteq> STATE_INIT"
    and "work_path ini t0 as (At_object l) w \<Longrightarrow> longest_work ini t0 as (At_object l) (cval sel (vsyn v l) CLOCK_USEFUL)"
    and "\<forall>w. \<not> work_path ini t0 as (At_object l) w \<Longrightarrow> cval sel (vsyn v l) CLOCK_USEFUL = 0"
    and "0 \<le> cval sel (vsyn v l) CLOCK_USEFUL"
  using assms unfolding path_inv_def by (auto simp: path_inv_def) (metis order_refl)+

lemma path_invI:
  assumes "\<And>t. clock_state_stack (vthr v t) = stack_after ini as t"
    and "\<And>t. 0 \<le> banked sel (working ini as t) (since ini t0 as t) (vthr v t) \<and>
             longest_work ini t0 as (At_thread t) (banked sel (working ini as t) (since ini t0 as t) (vthr v t))"
    and "\<And>l w. work_path ini t0 as (At_object l) w \<Longrightarrow> sync_state (vsyn v l) \<noteq> STATE_INIT \<and>
             0 \<le> cval sel (vsyn v l) CLOCK_USEFUL \<and> longest_work ini t0 as (At_object l) (cval sel (vsyn v l) CLOCK_USEFUL)"
    and "\<And>l. \<forall>w. \<not> work_path ini t0 as (At_object l) w \<Longrightarrow> cval sel (vsyn v l) CLOCK_USEFUL = 0"
  shows "path_inv sel ini t0 as v"
  using assms unfolding path_inv_def by presburger

lemma runtime_not_working: "state_after ini as t = STATE_OMP \<Longrightarrow> \<not> working ini as t"
  by (simp add: working_def)

lemma inv_timed:
  assumes inv: "path_inv sel ini t0 as v" and sel: "is_sel sel"
    and a: "a = Enters th now cs \<or> a = Leaves th now r" and fwd: "working ini as th \<Longrightarrow> since ini t0 as th \<le> now"
  shows "path_inv sel ini t0 (a # as) (act_step a v)"
proof (rule path_invI)
  note T = path_inv_thread [OF inv]
  let ?v = "act_step a v" and ?on = "working ini as" and ?on' = "working ini (a # as)"
  have stack: "clock_state_stack (vthr ?v t) = stack_after ini (a # as) t" for t
    using a T(1,2) [of t] by (auto simp: act_step.simps clock_simps state_after_def)
  then show "clock_state_stack (vthr ?v t) = stack_after ini (a # as) t" for t .
  have other: "vthr ?v t = vthr v t" "?on' t = ?on t" "since ini t0 (a # as) t = since ini t0 as t" if "t \<noteq> th" for t
    using a that by (auto simp: act_step.simps working_def state_after_def)
  have val: "cval sel (vthr ?v th) CLOCK_USEFUL = cval sel (vthr v th) CLOCK_USEFUL + (of_bool (?on th) - of_bool (?on' th)) * now"
    using a T(1,2) [of th] sel
    by (auto simp: act_step.simps working_def state_after_def enterState_def exitState_def Let_def clock_simps GetState_def)
  have bank: "banked sel (?on' t) (since ini t0 (a # as) t) (vthr ?v t) =
      banked sel (?on t) (since ini t0 as t) (vthr v t) + (if stops ini a as (At_thread t) then now - since ini t0 as th else 0)" for t
    using val a other [of t] by (cases "t = th") (auto simp: banked_def stops_def)
  have path: "work_path ini t0 (a # as) (At_thread t) w \<longleftrightarrow> work_path ini t0 as (At_thread t)
      (w - (if stops ini a as (At_thread t) then now - since ini t0 as th else 0))" for t w
    using work_path_timed [OF a, of ini t0 as "At_thread t" w] by simp
  have gain: "0 \<le> (if stops ini a as (At_thread t) then now - since ini t0 as th else 0)" for t
    using other [of t] fwd by (auto simp: stops_def)
  show "0 \<le> banked sel (?on' t) (since ini t0 (a # as) t) (vthr ?v t) \<and>
      longest_work ini t0 (a # as) (At_thread t) (banked sel (?on' t) (since ini t0 (a # as) t) (vthr ?v t))" for t
    using T(3,4) [of t] gain [of t] unfolding bank longest_work_def path by (auto simp: algebra_simps)
  have syn: "vsyn ?v = vsyn v" using a by (auto simp: act_step.simps)
  have obj: "work_path ini t0 (a # as) (At_object l) w \<longleftrightarrow> work_path ini t0 as (At_object l) w" for l w
    using work_path_timed [OF a] by simp
  show "sync_state (vsyn ?v l) \<noteq> STATE_INIT \<and> 0 \<le> cval sel (vsyn ?v l) CLOCK_USEFUL \<and>
      longest_work ini t0 (a # as) (At_object l) (cval sel (vsyn ?v l) CLOCK_USEFUL)"
    if "work_path ini t0 (a # as) (At_object l) w" for l w
    using path_inv_object [OF inv, of l] that unfolding syn obj longest_work_def by blast
  show "cval sel (vsyn ?v l) CLOCK_USEFUL = 0" if "\<forall>w. \<not> work_path ini t0 (a # as) (At_object l) w" for l
    using path_inv_object(3) [OF inv, of l] that unfolding syn obj by blast
qed

text \<open>The frame of an act on the objects, and the maximum of two nodes.\<close>

lemma longest_work_max:
  assumes "longest_work ini t0 as n v" and "longest_work ini t0 as m v'"
    and "\<And>w. work_path ini t0 (a # as) n w \<longleftrightarrow> work_path ini t0 as n w \<or> work_path ini t0 as m w"
  shows "longest_work ini t0 (a # as) n (max v v')"
  using assms by (auto simp: longest_work_def max_def intro: order_trans)

lemma frame_thread:
  assumes "path_inv sel ini t0 as v" and "vthr v' t = vthr v t" and "\<not> stops ini a as (At_thread t)"
    and "stack_after ini (a # as) t = stack_after ini as t" and "since ini t0 (a # as) t = since ini t0 as t"
    and "\<And>w. work_path ini t0 (a # as) (At_thread t) w = work_path ini t0 as (At_thread t) w"
  shows "0 \<le> banked sel (working ini (a # as) t) (since ini t0 (a # as) t) (vthr v' t) \<and>
      longest_work ini t0 (a # as) (At_thread t) (banked sel (working ini (a # as) t) (since ini t0 (a # as) t) (vthr v' t))"
  using path_inv_thread(3,4) [OF assms(1), of t] assms(2-6)
  by (simp add: longest_work_def working_def state_after_def)

lemma quiet_act [simp]:
  "stack_after ini (Releases th l # as) t = stack_after ini as t" "stack_after ini (Acquires th l # as) t = stack_after ini as t"
  "stack_after ini (Resets l # as) t = stack_after ini as t" "stack_after ini (Constructs L # as) t = stack_after ini as t"
  "working ini (Releases th l # as) t = working ini as t" "working ini (Acquires th l # as) t = working ini as t"
  "since ini t0 (Releases th l # as) t = since ini t0 as t" "since ini t0 (Acquires th l # as) t = since ini t0 as t"
  "since ini t0 (Resets l # as) t = since ini t0 as t" "since ini t0 (Constructs L # as) t = since ini t0 as t"
  by (simp_all add: working_def state_after_def)

lemma inv_release:
  assumes inv: "path_inv sel ini t0 as v" and sel: "joined sel CLOCK_USEFUL" and run: "state_after ini as th = STATE_OMP"
  shows "path_inv sel ini t0 (Releases th l # as) (act_step (Releases th l) v)"
proof (rule path_invI)
  note T = path_inv_thread [OF inv]
  let ?v = "act_step (Releases th l) v"
  have bank: "banked sel (working ini as th) (since ini t0 as th) (vthr v th) = cval sel (vthr v th) CLOCK_USEFUL"
    using runtime_not_working [OF run] by (simp add: banked_def)
  show "clock_state_stack (vthr ?v t) = stack_after ini (Releases th l # as) t" for t
    using T(2) by (simp add: act_step.simps)
  show "0 \<le> banked sel (working ini (Releases th l # as) t) (since ini t0 (Releases th l # as) t) (vthr ?v t) \<and>
      longest_work ini t0 (Releases th l # as) (At_thread t)
        (banked sel (working ini (Releases th l # as) t) (since ini t0 (Releases th l # as) t) (vthr ?v t))" for t
    by (rule frame_thread [OF inv]) (simp_all add: act_step.simps)
  have at: "sync_state (vsyn ?v l) \<noteq> STATE_INIT \<and> 0 \<le> cval sel (vsyn ?v l) CLOCK_USEFUL \<and>
      longest_work ini t0 (Releases th l # as) (At_object l) (cval sel (vsyn ?v l) CLOCK_USEFUL)"
  proof (cases "\<exists>w. work_path ini t0 as (At_object l) w")
    case True
    then obtain w where w: "work_path ini t0 as (At_object l) w" by blast
    have "longest_work ini t0 (Releases th l # as) (At_object l) (max (cval sel (vsyn v l) CLOCK_USEFUL) (cval sel (vthr v th) CLOCK_USEFUL))"
      by (rule longest_work_max [OF path_inv_object(2) [OF inv w] T(4) [of th, unfolded bank]]) simp
    then show ?thesis
      using path_inv_object(1) [OF inv w] path_inv_object(4) [OF inv, of l] sel by (simp add: act_step.simps sync_simps)
  next
    case False
    then have "cval sel (vsyn ?v l) CLOCK_USEFUL = cval sel (vthr v th) CLOCK_USEFUL"
      using path_inv_object(3) [OF inv, of l] T(3) [of th] sel unfolding bank by (simp add: act_step.simps sync_simps)
    then show ?thesis
      using False T(3,4) [of th] run T(1) [of th] unfolding bank
      by (auto simp: longest_work_def act_step.simps sync_simps)
  qed
  show "sync_state (vsyn ?v k) \<noteq> STATE_INIT \<and> 0 \<le> cval sel (vsyn ?v k) CLOCK_USEFUL \<and>
      longest_work ini t0 (Releases th l # as) (At_object k) (cval sel (vsyn ?v k) CLOCK_USEFUL)"
    if "work_path ini t0 (Releases th l # as) (At_object k) w" for k w
    using at path_inv_object [OF inv, of k] that
    by (cases "k = l") (auto simp: longest_work_def act_step.simps)
  show "cval sel (vsyn ?v k) CLOCK_USEFUL = 0" if "\<forall>w. \<not> work_path ini t0 (Releases th l # as) (At_object k) w" for k
    using path_inv_object(3) [OF inv, of k] T(4) [of th] that
    by (cases "k = l") (auto simp: longest_work_def act_step.simps)
qed

lemma inv_acquire:
  assumes inv: "path_inv sel ini t0 as v" and sel: "joined sel CLOCK_USEFUL" and run: "state_after ini as th = STATE_OMP"
  shows "path_inv sel ini t0 (Acquires th l # as) (act_step (Acquires th l) v)"
proof (rule path_invI)
  note T = path_inv_thread [OF inv]
  let ?v = "act_step (Acquires th l) v"
  have off: "\<not> working ini as th" by (rule runtime_not_working [OF run])
  show "clock_state_stack (vthr ?v t) = stack_after ini (Acquires th l # as) t" for t
    using T(2) by (simp add: act_step.simps sync_simps)
  have at: "0 \<le> cval sel (vthr ?v th) CLOCK_USEFUL \<and>
      longest_work ini t0 (Acquires th l # as) (At_thread th) (cval sel (vthr ?v th) CLOCK_USEFUL)"
  proof (cases "\<exists>w. work_path ini t0 as (At_object l) w")
    case True
    then obtain w where w: "work_path ini t0 as (At_object l) w" by blast
    have "longest_work ini t0 (Acquires th l # as) (At_thread th) (max (cval sel (vthr v th) CLOCK_USEFUL) (cval sel (vsyn v l) CLOCK_USEFUL))"
      by (rule longest_work_max [OF _ path_inv_object(2) [OF inv w]]) (use T(4) [of th] off in \<open>simp_all add: banked_def\<close>)
    then show ?thesis using T(3) [of th] sel off by (simp add: banked_def act_step.simps sync_simps)
  next
    case False
    then have "cval sel (vthr ?v th) CLOCK_USEFUL = cval sel (vthr v th) CLOCK_USEFUL"
      using path_inv_object(3) [OF inv, of l] T(3) [of th] sel off by (simp add: banked_def act_step.simps sync_simps)
    then show ?thesis using False T(3,4) [of th] off by (auto simp: banked_def longest_work_def)
  qed
  show "0 \<le> banked sel (working ini (Acquires th l # as) t) (since ini t0 (Acquires th l # as) t) (vthr ?v t) \<and>
      longest_work ini t0 (Acquires th l # as) (At_thread t)
        (banked sel (working ini (Acquires th l # as) t) (since ini t0 (Acquires th l # as) t) (vthr ?v t))" for t
  proof (cases "t = th")
    case True
    then show ?thesis using at off by (simp add: banked_def)
  next
    case False
    then show ?thesis by (intro frame_thread [OF inv]) (simp_all add: act_step.simps)
  qed
  have obj: "work_path ini t0 (Acquires th l # as) (At_object k) w \<longleftrightarrow> work_path ini t0 as (At_object k) w" for k w by simp
  show "sync_state (vsyn ?v k) \<noteq> STATE_INIT \<and> 0 \<le> cval sel (vsyn ?v k) CLOCK_USEFUL \<and>
      longest_work ini t0 (Acquires th l # as) (At_object k) (cval sel (vsyn ?v k) CLOCK_USEFUL)"
    if "work_path ini t0 (Acquires th l # as) (At_object k) w" for k w
    using path_inv_object [OF inv, of k] that unfolding obj longest_work_def by (auto simp: act_step.simps sync_simps)
  show "cval sel (vsyn ?v k) CLOCK_USEFUL = 0" if "\<forall>w. \<not> work_path ini t0 (Acquires th l # as) (At_object k) w" for k
    using path_inv_object(3) [OF inv, of k] that unfolding obj by (auto simp: act_step.simps sync_simps)
qed

lemma inv_renew:
  assumes inv: "path_inv sel ini t0 as v" and sel: "joined sel CLOCK_USEFUL" and a: "a = Resets l \<or> a = Constructs L"
  shows "path_inv sel ini t0 (a # as) (act_step a v)"
proof (rule path_invI)
  note T = path_inv_thread [OF inv]
  let ?v = "act_step a v"
  show "clock_state_stack (vthr ?v t) = stack_after ini (a # as) t" for t
    using a T(2) by (auto simp: act_step.simps)
  show "0 \<le> banked sel (working ini (a # as) t) (since ini t0 (a # as) t) (vthr ?v t) \<and>
      longest_work ini t0 (a # as) (At_thread t) (banked sel (working ini (a # as) t) (since ini t0 (a # as) t) (vthr ?v t))" for t
    by (rule frame_thread [OF inv]) (use a in \<open>auto simp: act_step.simps\<close>)
  have obj: "work_path ini t0 (a # as) (At_object k) w \<longleftrightarrow> \<not> renews a (At_object k) \<and> work_path ini t0 as (At_object k) w" for k w
    using a by auto
  have keep: "vsyn ?v k = vsyn v k" if "\<not> renews a (At_object k)" for k
    using a that by (auto simp: act_step.simps)
  have zero: "cval sel (vsyn ?v k) CLOCK_USEFUL = 0" if "renews a (At_object k)" for k
    using a that sel joined_is_sel [OF sel] by (auto simp: act_step.simps sync_simps)
  show "sync_state (vsyn ?v k) \<noteq> STATE_INIT \<and> 0 \<le> cval sel (vsyn ?v k) CLOCK_USEFUL \<and>
      longest_work ini t0 (a # as) (At_object k) (cval sel (vsyn ?v k) CLOCK_USEFUL)"
    if "work_path ini t0 (a # as) (At_object k) w" for k w
    using path_inv_object [OF inv, of k] that keep [of k] unfolding obj longest_work_def by auto
  show "cval sel (vsyn ?v k) CLOCK_USEFUL = 0" if "\<forall>w. \<not> work_path ini t0 (a # as) (At_object k) w" for k
    using path_inv_object(3) [OF inv, of k] that keep [of k] zero [of k] unfolding obj by (cases "renews a (At_object k)") auto
qed

lemma inv_begin:
  assumes inv: "path_inv sel ini t0 as v" and sel: "is_sel sel"
  shows "path_inv sel ini t0 (Begins th n # as) (act_step (Begins th n) v)"
proof (rule path_invI)
  note T = path_inv_thread [OF inv]
  let ?a = "Begins th n" let ?v = "act_step ?a v"
  show "clock_state_stack (vthr ?v t) = stack_after ini (?a # as) t" for t
    using T(2) by (simp add: act_step.simps)
  show "0 \<le> banked sel (working ini (?a # as) t) (since ini t0 (?a # as) t) (vthr ?v t) \<and>
      longest_work ini t0 (?a # as) (At_thread t) (banked sel (working ini (?a # as) t) (since ini t0 (?a # as) t) (vthr ?v t))" for t
  proof (cases "t = th")
    case True
    then have "\<not> working ini (?a # as) t" by (simp add: working_def state_after_def)
    then show ?thesis
      using True cval_threadClock_new [OF sel, of n True CLOCK_USEFUL]
      by (simp add: banked_def act_step.simps longest_work_def)
  next
    case False
    then have "\<not> stops ini ?a as (At_thread t)" by (simp add: stops_def working_def state_after_def)
    then show ?thesis using False by (intro frame_thread [OF inv]) (simp_all add: act_step.simps)
  qed
  show "sync_state (vsyn ?v k) \<noteq> STATE_INIT \<and> 0 \<le> cval sel (vsyn ?v k) CLOCK_USEFUL \<and>
      longest_work ini t0 (?a # as) (At_object k) (cval sel (vsyn ?v k) CLOCK_USEFUL)"
    if "work_path ini t0 (?a # as) (At_object k) w" for k w
    using path_inv_object [OF inv, of k] that by (auto simp: longest_work_def act_step.simps)
  show "cval sel (vsyn ?v k) CLOCK_USEFUL = 0" if "\<forall>w. \<not> work_path ini t0 (?a # as) (At_object k) w" for k
    using path_inv_object(3) [OF inv, of k] that by (simp add: act_step.simps)
qed

lemma path_inv_run:
  assumes "path_inv sel ini t0 [] v" and sel: "joined sel CLOCK_USEFUL" and "proper ini t0 as"
  shows "path_inv sel ini t0 as (acts_run (rev as) v)"
  using assms(3)
proof (induction as)
  case Nil
  show ?case using assms(1) by simp
next
  case (Cons a as)
  then have inv: "path_inv sel ini t0 as (acts_run (rev as) v)" by simp
  have e: "acts_run (rev (a # as)) v = act_step a (acts_run (rev as) v)" by simp
  show ?case
    unfolding e using Cons.prems inv_timed [OF inv joined_is_sel [OF sel]] inv_release [OF inv sel] inv_acquire [OF inv sel]
      inv_renew [OF inv sel] inv_begin [OF inv joined_is_sel [OF sel]]
    by (cases a) auto
qed

section \<open>The beginning\<close>

text \<open>A measurement that starts at \<open>t0\<close>: nothing has been synchronised and nothing has been worked.\<close>

definition omp_start :: "time \<Rightarrow> ompt \<Rightarrow> bool" where
  "omp_start t0 s \<longleftrightarrow>
     measuring s \<and> (\<forall>l. sync s l = syncClock_init) \<and>
     (\<forall>th. shown proc (thread_clock th s) CLOCK_USEFUL t0 = 0 \<and> shown critical (thread_clock th s) CLOCK_USEFUL t0 = 0)"

definition stacks :: "ompt \<Rightarrow> nat \<Rightarrow> ClockState list" where
  "stacks s th = clock_state_stack (thread_clock th s)"

lemma path_inv_start:
  assumes "omp_start t0 s" and "sel = proc \<or> sel = critical"
  shows "path_inv sel (stacks s) t0 [] (view s)"
proof -
  have "shown sel (thread_clock t s) CLOCK_USEFUL t0 = 0" for t
    using assms by (auto simp: omp_start_def)
  then have "banked sel (working (stacks s) [] t) t0 (thread_clock t s) = 0" for t
    by (simp add: shown_def banked_def working_def state_after_def stacks_def GetState_def)
  moreover have "cval sel syncClock_init CLOCK_USEFUL = 0"
    using assms(2) by (auto simp: cval_syncClock_init)
  ultimately show ?thesis
    using assms(1)
    by (intro path_invI) (simp_all add: view_def stacks_def longest_work_def omp_start_def)
qed

text \<open>\<^verbatim>\<open>ompt_tsan_initialize\<close> starts such a measurement, unless the tool starts stopped.\<close>

definition loaded :: "ompt \<Rightarrow> bool" where
  "loaded s \<longleftrightarrow> \<not> is_running s \<and> \<not> stopped (flags (core s)) \<and> thread_local_clock s = (\<lambda>_. 0) \<and>
     0 < next_clock (core s) \<and> sync s = (\<lambda>_. syncClock_init) \<and> Locks s = hm_new \<and> 0 < next_lock s"

lemma initialize_starts:
  assumes "loaded s"
  shows "omp_start now (first_clock th now s)" "thread_local_clock (first_clock th now s) a \<noteq> 0 \<longleftrightarrow> a = th"
    and "stacks (first_clock th now s) a = (if a = th then [STATE_INIT, STATE_USEFUL] else [STATE_INIT])"
proof -
  let ?s = "first_clock th now s" and ?n = "threadClock_new (ucast (ID (core s))) 0 False"
  have s: "\<not> running (flags (core s))" "\<not> stopped (flags (core s))" "thread_local_clock s = (\<lambda>_. 0)"
      "0 < next_clock (core s)" "sync s = (\<lambda>_. syncClock_init)" "Locks s = hm_new" "0 < next_lock s"
    using assms by (auto simp: loaded_def is_running_def)
  have f: "thread_local_clock ?s = (\<lambda>_. 0)(th := next_clock (core s))" "is_running ?s" "sync ?s = (\<lambda>_. syncClock_init)"
      "Locks ?s = hm_new" "next_lock ?s = next_lock s" "next_clock (core ?s) = Suc (next_clock (core s))"
      "store (core ?s) (next_clock (core s)) = enterState True now now STATE_USEFUL ?n"
    using s by (simp_all add: first_clock_def new_clock_def my_next_id_def Let_def startTool_def startMeasurement_def
        upd_clock_def is_running_def)
  have tc: "thread_clock a ?s = (if a = th then enterState True now now STATE_USEFUL ?n else threadClock_new 0 0 False)" for a
    using f s(4) by (simp add: thread_clock_def cur_clock_def)
  have "measuring ?s"
    using f s(4,7) by (auto simp: measuring_def own_clocks_def locks_ok_def inj_on_def hm_map_def less_Suc_eq)
  moreover have "shown sel (thread_clock a ?s) CLOCK_USEFUL now = 0" if "is_sel sel" for sel a
    using that by (simp add: tc shown_def GetState_def enterState_def Let_def clock_simps)
  ultimately show "omp_start now ?s" using f by (simp add: omp_start_def)
  show "thread_local_clock ?s a \<noteq> 0 \<longleftrightarrow> a = th" using f s(4) by simp
  show "stacks ?s a = (if a = th then [STATE_INIT, STATE_USEFUL] else [STATE_INIT])"
    by (simp add: stacks_def tc clock_simps)
qed

lemma initialize_registers:
  assumes "loaded s" and "lookup ''ompt_set_callback''" and "lookup ''ompt_get_parallel_info''"
  obtains msgs s' where "ompt_tsan_initialize lookup set_callback th now s = Inr (tsan_events, msgs, s')"
    and "omp_start now s'" and "msgs = [] \<longleftrightarrow> (\<forall>e \<in> set tsan_events. ompt_set_always \<le> set_callback e)"
proof
  show "ompt_tsan_initialize lookup set_callback th now s =
      Inr (tsan_events, concat (map (SET_CALLBACK_T set_callback) tsan_events), first_clock th now s)"
    using assms(2,3) by (simp add: ompt_tsan_initialize_def)
  show "omp_start now (first_clock th now s)" by (rule initialize_starts [OF assms(1)])
  have "SET_CALLBACK_T set_callback e = [] \<longleftrightarrow> ompt_set_always \<le> set_callback e" for e
    by (simp add: SET_CALLBACK_T_def Let_def not_less)
  then show "concat (map (SET_CALLBACK_T set_callback) tsan_events) = [] \<longleftrightarrow>
      (\<forall>e \<in> set tsan_events. ompt_set_always \<le> set_callback e)"
    by (simp only: concat_eq_Nil_conv set_map ball_simps)
qed

lemma initialize_needs_runtime:
  "(\<exists>e. ompt_tsan_initialize lookup set_callback th now s = Inl e) \<longleftrightarrow>
     \<not> (lookup ''ompt_set_callback'' \<and> lookup ''ompt_get_parallel_info'')"
  by (auto simp: ompt_tsan_initialize_def)

section \<open>Claims\<close>

text \<open>
  C3: In every run of OMPT callbacks of threads that have begun, in any interleaving, in which arcs are drawn by threads
  in \<^const>\<open>STATE_OMP\<close> and no phase of work ends before it begins: at every moment \<open>T\<close> the
  critical and the process-local useful-computation clock of a thread show the length of the
  longest path of completed work that leads to the thread, along the threads and over the arcs
  of the callbacks, plus the length of the phase of work the thread is in.
\<close>

theorem omp_critical_path:
  assumes "omp_start t0 s0" and "omp_run s0 as s" and "proper (stacks s0) t0 (rev as)"
    and "thread_local_clock s th \<noteq> 0" and "sel = proc \<or> sel = critical"
  shows "\<exists>w. longest_work (stacks s0) t0 (rev as) (At_thread th) w \<and>
           (\<forall>T. shown sel (cur_clock th s) CLOCK_USEFUL T =
                  w + (if working (stacks s0) (rev as) th then T - since (stacks s0) t0 (rev as) th else 0))"
proof -
  have sel: "joined sel CLOCK_USEFUL" using assms(5) by auto
  have v: "view s = acts_run as (view s0)"
    using omp_run_view [OF assms(2)] assms(1) by (simp add: omp_start_def)
  have "path_inv sel (stacks s0) t0 (rev as) (view s)"
    using path_inv_run [OF path_inv_start [OF assms(1,5)] sel assms(3)] by (simp add: v)
  note T = path_inv_thread [OF this, of th]
  have cur: "cur_clock th s = vthr (view s) th" using assms(4) by (simp add: view_def thread_clock_def)
  show ?thesis
    using T(1,4) by (auto simp: shown_def cur banked_def working_def)
qed

section \<open>Witnesses\<close>

text \<open>
  Thread 0 works from 1 to 5 and forks a team; thread 1, which has done nothing before, begins its
  implicit task at 6.
\<close>

definition example_loaded :: ompt where
  "example_loaded = example_ompt\<lparr>thread_local_clock := (\<lambda>_. 0)\<rparr>"

definition fork0 :: ompt where "fork0 = first_clock 0 1 example_loaded"
definition fork1 :: ompt where "fork1 = ompt_tsan_thread_begin 1 False 2 fork0"
definition fork2 :: ompt where "fork2 = snd (ompt_tsan_parallel_begin 0 0 5 fork1)"
definition fork_team :: nat where "fork_team = fst (ParallelData_New 0 0 fork1)"
definition fork3 :: ompt where "fork3 = snd (snd (implicit_task_begin 1 fork_team 1 {ompt_task_implicit} 6 fork2))"

definition fork_acts :: "omp_act list" where
  "fork_acts = [Begins 1 (ucast (ID (core fork0))), Enters 1 1 STATE_OMP,
     Constructs (new_teams fork1 fork2), Enters 0 5 STATE_OMP, Releases 0 (GetParallelPtr fork_team),
     Acquires 1 (GetParallelPtr fork_team), Constructs (new_tasks fork2 fork3), Enters 1 6 STATE_USEFUL]"

lemma example_loaded: "loaded example_loaded"
  by (simp add: loaded_def example_loaded_def example_ompt_def is_running_def example_tool_def SetDefaults_def)

lemmas fork0 = initialize_starts [OF example_loaded, where th = 0 and now = 1, folded fork0_def]

lemma fork_run: "omp_run fork0 fork_acts fork3" "thread_local_clock fork3 1 \<noteq> 0"
proof -
  have m0: "measuring fork0" using fork0(1) by (simp add: omp_start_def)
  have c: "callable (Thread_begin 1 False 2) fork0" using m0 by (simp add: callable_def)
  have e: "run_callback (Thread_begin 1 False 2) fork0 = Some fork1" by (simp add: fork1_def)
  have a1: "acts (Thread_begin 1 False 2) fork0 fork1 = [Begins 1 (ucast (ID (core fork0))), Enters 1 1 STATE_OMP]"
    using fork0(2) [of 1]
    by (simp add: fork0_def example_loaded_def example_ompt_def example_tool_def SetDefaults_def first_clock_def
        new_clock_def my_next_id_def startTool_def startMeasurement_def upd_clock_def Let_def)
  note r1 = Run_step [OF Run_start c e, unfolded a1]
  have m1: "measuring fork1" using callback_refines [OF c e] by (simp add: ready_def)
  have v1: "thread_local_clock fork1 0 \<noteq> 0"
    using fork0(2) [of 0]
    by (simp add: fork1_def ompt_tsan_thread_begin_def new_clock_def new_pools_def my_next_id_def Let_def upd_cur_def)
  have c2: "callable (Parallel_begin 0 0 5) fork1" using m1 v1 by (simp add: callable_def ready_def)
  have e2: "run_callback (Parallel_begin 0 0 5) fork1 = Some fork2" by (simp add: fork2_def)
  note r2 = Run_step [OF r1 c2 e2, unfolded acts.simps fork_team_def [symmetric]]
  have m2: "measuring fork2" using callback_refines [OF c2 e2] by (simp add: ready_def)
  have v2: "thread_local_clock fork2 1 \<noteq> 0"
  proof -
    have "thread_local_clock fork1 1 \<noteq> 0" using callback_refines [OF c e] by (simp add: ready_def)
    then show ?thesis
      by (simp add: fork2_def ompt_tsan_parallel_begin_def ParallelData_New_def OmpHappensBefore_def enter_def upd_cur_def
          split: prod.split)
  qed
  have c3: "callable (Implicit_task_begin 1 fork_team 1 {ompt_task_implicit} 6) fork2"
    using m2 v2 by (simp add: callable_def ready_def)
  have e3: "run_callback (Implicit_task_begin 1 fork_team 1 {ompt_task_implicit} 6) fork2 = Some fork3" by (simp add: fork3_def)
  have "cur_clock 1 fork2 = vthr (view fork2) 1" using v2 by (simp add: view_def thread_clock_def)
  then have "GetState (cur_clock 1 fork2) = STATE_OMP"
    using omp_run_view [OF r2 m0] by (simp add: act_step.simps GetState_def clock_simps)
  then have "acts (Implicit_task_begin 1 fork_team 1 {ompt_task_implicit} 6) fork2 fork3 =
      [Acquires 1 (GetParallelPtr fork_team), Constructs (new_tasks fork2 fork3), Enters 1 6 STATE_USEFUL]" by simp
  then show "omp_run fork0 fork_acts fork3"
    using Run_step [OF r2 c3 e3] by (simp add: fork_acts_def)
  show "thread_local_clock fork3 1 \<noteq> 0" using callback_refines [OF c3 e3] by (simp add: ready_def)
qed

lemmas trace_simps = working_def state_after_def stops_def

theorem omp_critical_path_witness:
  "omp_start 1 fork0 \<and> omp_run fork0 fork_acts fork3 \<and> proper (stacks fork0) 1 (rev fork_acts) \<and>
   shown critical (cur_clock 1 fork3) CLOCK_USEFUL 9 = 7"
proof -
  let ?i = "stacks fork0"
  have p: "proper ?i 1 (rev fork_acts)" by (simp add: fork_acts_def trace_simps fork0(3))
  have w: "work_path ?i 1 (rev fork_acts) (At_thread 1) w \<longleftrightarrow> w = 0 \<or> w = 4" for w
    by (simp add: fork_acts_def work_path_timed [OF disjI1 [OF refl]] trace_simps fork0(3))
  have "working ?i (rev fork_acts) 1" "since ?i 1 (rev fork_acts) 1 = 6"
    by (simp_all add: fork_acts_def trace_simps fork0(3))
  moreover have "longest_work ?i 1 (rev fork_acts) (At_thread 1) v \<longleftrightarrow> v = 4" for v
    unfolding longest_work_def w by auto
  ultimately have "shown critical (cur_clock 1 fork3) CLOCK_USEFUL 9 = 7"
    using omp_critical_path [OF fork0(1) fork_run(1) p fork_run(2), of critical] by auto
  then show ?thesis using fork0(1) fork_run(1) p by blast
qed

end
