(* ===== verification/Cpt_Omp_Order.thy ===== *)
theory Cpt_Omp_Order
  imports Cpt_Omp_Path
begin

text \<open>
  The orders OpenMP guarantees arrive in the clocks: what a thread has recorded in the clock of
  a lock, a task, a task group or a dependence stays there, whatever other callbacks come in
  between, until the thread that waits takes it over.
\<close>

section \<open>Objects are never constructed twice\<close>

definition grows :: "ompt \<Rightarrow> ompt \<Rightarrow> bool" where
  "grows s s' \<longleftrightarrow>
     next_obj (task_pools s) \<le> next_obj (task_pools s') \<and> next_obj (team_pools s) \<le> next_obj (team_pools s') \<and>
     next_obj (group_pools s) \<le> next_obj (group_pools s') \<and> next_obj (dep_pools s) \<le> next_obj (dep_pools s') \<and>
     next_lock s \<le> next_lock s' \<and> hm_map (Locks s) \<subseteq>\<^sub>m hm_map (Locks s')"

lemma grows_refl [simp]: "grows s s"
  by (simp add: grows_def)

lemma grows_trans: "grows s s1 \<Longrightarrow> grows s1 s2 \<Longrightarrow> grows s s2"
  by (auto simp: grows_def intro: order_trans map_le_trans)

lemma grows_same: "pool_part s' = pool_part s \<Longrightarrow> lock_part s' = lock_part s \<Longrightarrow> grows s s'"
  by (simp add: grows_def pool_part_def lock_part_def)

lemma Delete_pools [simp]:
  "pool_part (ParallelData_Delete th d s) = pool_part s" "pool_part (DependencyData_Delete th d s) = pool_part s"
  by (simp_all add: pool_part_def ParallelData_Delete_def DependencyData_Delete_def)

lemma fold_pools: "(\<And>x s. pool_part (f x s) = pool_part s) \<Longrightarrow> pool_part (fold f xs s) = pool_part s"
  by (induction xs arbitrary: s) simp_all

lemma TaskData_Delete_pools [simp]: "pool_part (TaskData_Delete th t s) = pool_part s"
proof -
  define s1 where "s1 = (case DependencyMap (tasks s t) of None \<Rightarrow> s
      | Some m \<Rightarrow> fold (\<lambda>(k, d). DependencyData_Delete th d) (hm_entries m) s)"
  have "pool_part s1 = pool_part s" unfolding s1_def by (auto split: option.split intro!: fold_pools)
  then show ?thesis
    by (simp add: TaskData_Delete_def TaskData_Reset_def s1_def [symmetric] Let_def pool_part_def upd_task_def)
qed

lemma freeTask_pools: "freeTask fuel th t s = Some s' \<Longrightarrow> pool_part s' = pool_part s"
proof (induction fuel arbitrary: t s)
  case (Suc fuel)
  show ?case
    using Suc.prems by (subst (asm) freeTask.simps) (auto simp: Let_def split: if_splits dest!: Suc.IH)
qed (auto simp: freeTask.simps [of 0] Let_def split: if_splits)

lemma annotate_parts [simp]:
  "pool_part (acquireDependencies th t s) = pool_part s" "lock_part (acquireDependencies th t s) = lock_part s"
  "pool_part (releaseDependencies th t s) = pool_part s" "lock_part (releaseDependencies th t s) = lock_part s"
  unfolding acquireDependencies_def releaseDependencies_def
  by (intro fold_pools fold_parts(2), simp add: AnnotateBegin_def AnnotateEnd_def)+

lemma task_op_parts [simp]:
  "pool_part (completeTask_arcs th t s) = pool_part s" "lock_part (completeTask_arcs th t s) = lock_part s"
  "pool_part (startTask th t now s) = pool_part s" "lock_part (startTask th t now s) = lock_part s"
  "pool_part (suspendTask_to th t t' now s) = pool_part s" "lock_part (suspendTask_to th t t' now s) = lock_part s"
  "pool_part (suspendTaskEnd th t now s) = pool_part s" "lock_part (suspendTaskEnd th t now s) = lock_part s"
  by (simp_all add: completeTask_arcs_def startTask_def suspendTask_to_def suspendTaskEnd_def Let_def)

lemma New_grows:
  "ParallelData_New th c s = (d, s1) \<Longrightarrow> grows s s1" "Taskgroup_New th g s = (d, s1) \<Longrightarrow> grows s s1"
  "TaskData_alloc th s = (d, s1) \<Longrightarrow> grows s s1" "DependencyData_New th s = (d, s1) \<Longrightarrow> grows s s1"
  by (auto simp: ParallelData_New_def Taskgroup_New_def TaskData_alloc_def DependencyData_New_def grows_def
      dest: getData_next split: prod.splits)

lemma New_task_grows:
  "TaskData_New_child th par type s = (t, s1) \<or> TaskData_New_initial th team type s = (t, s1) \<or>
   TaskData_New_implicit th team num type s = (t, s1) \<Longrightarrow> grows s s1"
  by (auto simp: TaskData_New_child_def TaskData_New_initial_def TaskData_New_implicit_def split: prod.splits
      intro: grows_trans [OF New_grows(3) grows_same])

lemma freeTask_keeps: "freeTask fuel th t s = Some s' \<Longrightarrow> pool_part s' = pool_part s \<and> lock_part s' = lock_part s"
  using freeTask_pools freeTask_parts by blast

text \<open>A step of the proofs below: the rest of a callback leaves the pools and the locks alone.\<close>

lemma grows_step: "grows s s1 \<Longrightarrow> pool_part s' = pool_part s1 \<Longrightarrow> lock_part s' = lock_part s1 \<Longrightarrow> grows s s'"
  using grows_trans grows_same by blast

lemma region_grows: "grows s (ompt_tsan_sync_region th kind endpoint hp t now now' s)"
proof -
  have b: "grows s (sync_region_begin th kind t now s)" for s
  proof (cases kind)
    case region_taskgroup
    define s0 where "s0 = count th (\<lambda>c. c\<lparr>syncRegionBegin := syncRegionBegin c + 1\<rparr>) s"
    obtain g s1 where n: "Taskgroup_New th (TaskGroup (tasks s0 t)) s0 = (g, s1)" by fastforce
    have "grows s s1" by (rule grows_trans [OF grows_same New_grows(2) [OF n]]) (simp_all add: s0_def)
    then show ?thesis
      using n region_taskgroup grows_step [of s s1] by (simp add: sync_region_begin_def Let_def s0_def [symmetric])
  qed (simp_all add: sync_region_begin_def barrier_begin_def Let_def grows_same)
  have "grows s (sync_region_end th kind t hp now now' s)" for s
    by (cases kind) (simp_all add: sync_region_end_def barrier_end_def Let_def grows_same)
  then show ?thesis using b by (cases endpoint) (auto simp: ompt_tsan_sync_region_def intro: grows_trans)
qed

lemma schedule_grows: "ompt_tsan_task_schedule th from status to now now' s = Some s' \<Longrightarrow> grows s s'"
  by (rule grows_same; cases status)
     (auto simp: ompt_tsan_task_schedule_def completeTask_def suspendTask_def Let_def bind_eq_Some_conv
       split: if_splits dest!: freeTask_keeps)

lemma create_grows: "grows s (snd (snd (ompt_tsan_task_create th par type now now' s)))"
proof -
  define s0 where "s0 = count th (\<lambda>c. c\<lparr>taskCreate := taskCreate c + 1\<rparr>) s"
  have s0: "grows s s0" by (rule grows_same) (simp_all add: s0_def)
  obtain team s1 t1 s2 t3 s3 where n: "ParallelData_New th 0 s0 = (team, s1)" "TaskData_New_initial th team type s1 = (t1, s2)"
      "TaskData_New_child th par type s0 = (t3, s3)" by (metis surj_pair)
  have "grows s s2" "grows s s3"
    using grows_trans [OF s0 grows_trans [OF New_grows(1) [OF n(1)] New_task_grows]] grows_trans [OF s0 New_task_grows] n by blast+
  then show ?thesis
    using n s0 grows_step [of s s3] by (simp add: ompt_tsan_task_create_def Let_def s0_def [symmetric])
qed

lemma implicit_grows: "grows s (snd (snd (implicit_task_begin th team num type now s)))"
proof -
  define s0 where "s0 = count th (\<lambda>c. c\<lparr>implTaskBegin := implTaskBegin c + 1\<rparr>) s"
  obtain team1 s1 where p: "(if ompt_task_initial \<in> type then ParallelData_New th 0 s0
      else (team, OmpHappensAfter th (GetParallelPtr team)
             (if GetState (cur_clock th s0) = STATE_INIT then enter th now STATE_OMP s0 else s0))) = (team1, s1)"
    by fastforce
  obtain t s2 where n: "TaskData_New_implicit th team1 num type s1 = (t, s2)" by fastforce
  have s': "snd (snd (implicit_task_begin th team num type now s)) = enter th now STATE_USEFUL s2"
    using p n by (simp add: implicit_task_begin_def Let_def s0_def [symmetric] cong: if_cong)
  have "grows s0 s1" using p New_grows(1) by (auto split: if_splits intro!: grows_same)
  moreover have "grows s s0" by (rule grows_same) (simp_all add: s0_def)
  ultimately have "grows s s2" using grows_trans New_task_grows n by blast
  then show ?thesis unfolding s' by (rule grows_step) simp_all
qed

lemma add_dependences_grows: "add_dependences th t deps s = Some s' \<Longrightarrow> grows s s'"
proof (induction deps arbitrary: s)
  case (Cons dep deps)
  then obtain s1 where s1: "add_dependence th t dep s = Some s1" "add_dependences th t deps s1 = Some s'"
    by (auto simp: bind_eq_Some_conv)
  obtain s0 f g where "s0 = s \<or> (\<exists>d. DependencyData_New th s = (d, s0))" "s1 = upd_task t f (upd_task (Parent (tasks s t)) g s0)"
    using s1(1) by (auto simp: add_dependence_def Let_def bind_eq_Some_conv split: option.splits if_splits prod.splits)
  then have "grows s s1" using New_grows(4) grows_step [of s s0 s1] by auto
  then show ?case using Cons.IH [OF s1(2)] grows_trans by blast
qed simp

lemma dependences_grows: "ompt_tsan_dependences th t deps now now' s = Some s' \<Longrightarrow> grows s s'"
proof -
  assume d: "ompt_tsan_dependences th t deps now now' s = Some s'"
  show ?thesis
  proof (cases "deps = []")
    case False
    then obtain s2 where s2: "add_dependences th t deps (dep_prepared th t now s) = Some s2"
        and s': "s' = ompTimer_end th now' (OmpHappensBefore th (Task_clock t) s2)"
      using d by (auto simp: dependences_eq bind_eq_Some_conv split: if_splits)
    have "grows s (dep_prepared th t now s)"
      by (rule grows_same) (rule dep_prepared_parts(3), simp add: dep_prepared_def Let_def)
    then have "grows s s2" using add_dependences_grows [OF s2] grows_trans by blast
    then show ?thesis by (rule grows_step) (simp_all add: s')
  qed (use d in \<open>simp add: ompt_tsan_dependences_def\<close>)
qed

lemma acquired_grows:
  assumes "ready th s" and "ompt_tsan_mutex_acquired th w now s = Some s'"
  shows "grows s s'"
proof -
  obtain p s1 where p: "lock_pair w s = Some (p, s1)"
    and s': "s' = leave th now True (OmpHappensAfter th (Lock_clock p) (s1\<lparr>lock_held := (lock_held s1)(p := True)\<rparr>))"
    using assms(2) by (auto simp: ompt_tsan_mutex_acquired_def Let_def bind_eq_Some_conv split: if_splits)
  have "pool_part s1 = pool_part s" "next_lock s \<le> next_lock s1"
    using p by (auto simp: lock_pair_def bind_eq_Some_conv pool_part_def split: if_splits)
  moreover have "hm_map (Locks s) \<subseteq>\<^sub>m hm_map (Locks s1)"
    using lock_pair_acts(4,5) [OF assms(1) p] by (auto simp: map_le_def)
  ultimately have "grows s s1" by (simp add: grows_def pool_part_def)
  then show ?thesis by (rule grows_step) (simp_all add: s')
qed

lemma released_grows:
  assumes "ready th s" and "ompt_tsan_mutex_released th w now now' s = Some s'"
  shows "grows s s'"
proof -
  have "pool_part s' = pool_part s"
    using assms(2) by (auto simp: ompt_tsan_mutex_released_def Let_def bind_eq_Some_conv split: if_splits)
  then show ?thesis using mutex_released_refines [OF assms] by (simp add: grows_def pool_part_def)
qed

lemma callback_grows:
  assumes "callable cb s" and "run_callback cb s = Some s'"
  shows "grows s s'"
proof (cases cb)
  case (Thread_begin th initial now)
  then show ?thesis
    using assms by (intro grows_same) (auto simp: ompt_tsan_thread_begin_def Let_def)
next
  case (Thread_end th)
  then show ?thesis using assms by (intro grows_same) (auto dest!: thread_end_Inr split: sum.splits)
next
  case (Parallel_begin th c now)
  then show ?thesis
    using assms New_grows(1) [of th c s] grows_step [of s _ s']
    by (auto simp: ompt_tsan_parallel_begin_def split: prod.splits)
next
  case (Sync_region_wait th kind endpoint t now)
  then show ?thesis
    using assms by (intro grows_same; cases endpoint)
      (auto simp: ompt_tsan_sync_region_wait_def sync_region_wait_begin_def sync_region_wait_end_def Let_def)
next
  case (Task_creation th endpoint now)
  then show ?thesis using assms by (intro grows_same; cases endpoint) (auto simp: ompt_tsan_task_creation_def)
qed (use assms create_grows implicit_grows region_grows schedule_grows dependences_grows acquired_grows released_grows in
      \<open>auto simp: callable_def ompt_tsan_parallel_end_def implicit_task_end_def ompt_tsan_mutex_acquire_def Let_def
         intro: grows_same\<close>)

section \<open>Threads keep their clocks\<close>

lemma tls_simps [simp]:
  "thread_local_clock (upd_cur th f s) = thread_local_clock s" "thread_local_clock (upd_task t g s) = thread_local_clock s"
  "thread_local_clock (enter th now cs s) = thread_local_clock s" "thread_local_clock (leave th now r s) = thread_local_clock s"
  "thread_local_clock (OmpHappensBefore th l s) = thread_local_clock s"
  "thread_local_clock (OmpHappensAfter th l s) = thread_local_clock s"
  "thread_local_clock (OmpClockReset l s) = thread_local_clock s" "thread_local_clock (count th cf s) = thread_local_clock s"
  "thread_local_clock (ompTimer_end th now s) = thread_local_clock s"
  "thread_local_clock s th \<noteq> 0 \<Longrightarrow> thread_local_clock (ompTimer_begin th now s) = thread_local_clock s"
  by (simp_all add: upd_cur_def upd_task_def enter_def leave_def OmpHappensBefore_def OmpHappensAfter_def OmpClockReset_def
      count_def ompTimer_begin_def ompTimer_end_def new_clock_def split: prod.split option.split)

lemma tls_same: "clock_part s' = clock_part s \<Longrightarrow> thread_local_clock s' = thread_local_clock s"
  by (simp add: clock_part_def)

lemmas tls_Delete [simp] = Delete_parts(1,3,5) [THEN tls_same] TaskData_Delete_parts(1) [THEN tls_same] Init_parts(1,3,5) [THEN tls_same]
  new_pools_parts(1) [THEN tls_same]

lemma tls_New:
  "ParallelData_New th c s = (d, s1) \<Longrightarrow> thread_local_clock s1 = thread_local_clock s"
  "Taskgroup_New th g s = (d, s1) \<Longrightarrow> thread_local_clock s1 = thread_local_clock s"
  "DependencyData_New th s = (d, s1) \<Longrightarrow> thread_local_clock s1 = thread_local_clock s"
  "TaskData_New_child th par type s = (d, s1) \<Longrightarrow> thread_local_clock s1 = thread_local_clock s"
  "TaskData_New_initial th team type s = (d, s1) \<Longrightarrow> thread_local_clock s1 = thread_local_clock s"
  "TaskData_New_implicit th team num type s = (d, s1) \<Longrightarrow> thread_local_clock s1 = thread_local_clock s"
  by (auto simp: ParallelData_New_def Taskgroup_New_def DependencyData_New_def TaskData_New_child_def TaskData_New_initial_def
      TaskData_New_implicit_def TaskData_alloc_def split: prod.splits)

lemma tls_fold: "(\<And>x s. thread_local_clock (f x s) = thread_local_clock s) \<Longrightarrow> thread_local_clock (fold f xs s) = thread_local_clock s"
  by (induction xs arbitrary: s) simp_all

lemma tls_tasks [simp]:
  "thread_local_clock (acquireDependencies th t s) = thread_local_clock s"
  "thread_local_clock (releaseDependencies th t s) = thread_local_clock s"
  "thread_local_clock (completeTask_arcs th t s) = thread_local_clock s"
  "thread_local_clock (startTask th t now s) = thread_local_clock s"
  "thread_local_clock (suspendTask_to th t t' now s) = thread_local_clock s"
  "thread_local_clock (suspendTaskEnd th t now s) = thread_local_clock s"
proof -
  show d: "thread_local_clock (acquireDependencies th t s) = thread_local_clock s"
    "thread_local_clock (releaseDependencies th t s) = thread_local_clock s" for s
    unfolding acquireDependencies_def releaseDependencies_def
    by (intro tls_fold, simp add: AnnotateBegin_def AnnotateEnd_def)+
  show "thread_local_clock (completeTask_arcs th t s) = thread_local_clock s"
    "thread_local_clock (startTask th t now s) = thread_local_clock s"
    "thread_local_clock (suspendTask_to th t t' now s) = thread_local_clock s"
    "thread_local_clock (suspendTaskEnd th t now s) = thread_local_clock s"
    by (simp_all add: completeTask_arcs_def startTask_def suspendTask_to_def suspendTaskEnd_def Let_def d)
qed

lemma tls_dependences:
  assumes "ompt_tsan_dependences th t deps now now' s = Some s'" and "thread_local_clock s th \<noteq> 0"
  shows "thread_local_clock s' = thread_local_clock s"
proof -
  have one: "thread_local_clock s' = thread_local_clock s" if "add_dependence th t dep s = Some s'" for dep s s'
    using that tls_New(3) [of th s]
    by (auto simp: add_dependence_def Let_def bind_eq_Some_conv split: option.splits if_splits prod.splits)
  have "thread_local_clock s' = thread_local_clock s" if "add_dependences th t deps s = Some s'" for deps s s'
    using that by (induction deps arbitrary: s) (auto simp: bind_eq_Some_conv dest!: one)
  then show ?thesis
    using assms by (cases "deps = []") (auto simp: dependences_eq bind_eq_Some_conv dep_prepared_def Let_def ompt_tsan_dependences_def split: if_splits)
qed

lemma threads_stay:
  assumes "callable cb s" and "run_callback cb s = Some s'" and "ready th s"
  shows "ready th s'"
proof -
  have m: "measuring s'" using callback_refines [OF assms(1,2)] by (simp add: ready_def)
  have c: "thread_local_clock s (cb_thread cb) \<noteq> 0" if "\<forall>t i now. cb \<noteq> Thread_begin t i now"
    using assms(1) that by (cases cb) (auto simp: callable_def ready_def)
  have "thread_local_clock s' th \<noteq> 0"
  proof (cases cb)
    case (Thread_begin t i now)
    then show ?thesis
      using assms(2,3)
      by (auto simp: ompt_tsan_thread_begin_def Let_def new_clock_def new_pools_def my_next_id_def ready_def measuring_def own_clocks_def)
  next
    case (Parallel_begin t c now)
    then show ?thesis
      using assms(2,3) by (auto simp: ompt_tsan_parallel_begin_def ready_def dest: tls_New(1) split: prod.splits)
  next
    case (Implicit_task_begin t team num type now)
    define s0 where "s0 = count t (\<lambda>c. c\<lparr>implTaskBegin := implTaskBegin c + 1\<rparr>) s"
    obtain team1 s1 where p: "(if ompt_task_initial \<in> type then ParallelData_New t 0 s0
        else (team, OmpHappensAfter t (GetParallelPtr team)
               (if GetState (cur_clock t s0) = STATE_INIT then enter t now STATE_OMP s0 else s0))) = (team1, s1)"
      by fastforce
    obtain x s2 where n: "TaskData_New_implicit t team1 num type s1 = (x, s2)" by fastforce
    have "s' = enter t now STATE_USEFUL s2"
      using assms(2) Implicit_task_begin p n by (simp add: implicit_task_begin_def Let_def s0_def [symmetric] cong: if_cong)
    moreover have "thread_local_clock s1 = thread_local_clock s"
      using p tls_New(1) by (fastforce simp: s0_def split: if_splits)
    ultimately show ?thesis using assms(3) tls_New(6) [OF n] by (simp add: ready_def)
  next
    case (Sync_region t kind endpoint hp u now now')
    have b: "thread_local_clock (sync_region_begin t kind u now s) = thread_local_clock s" for s
      by (cases kind) (auto simp: sync_region_begin_def barrier_begin_def Let_def dest: tls_New(2) split: prod.splits)
    have e: "thread_local_clock (sync_region_end t kind u hp now now' s) = thread_local_clock s" if "thread_local_clock s t \<noteq> 0" for s
      using that by (cases kind) (simp_all add: sync_region_end_def barrier_end_def Let_def)
    show ?thesis
      using assms(2,3) c Sync_region by (cases endpoint) (auto simp: ompt_tsan_sync_region_def ready_def b e)
  next
    case (Sync_region_wait t kind endpoint u now)
    then show ?thesis
      using assms(2,3) by (cases endpoint)
        (auto simp: ompt_tsan_sync_region_wait_def sync_region_wait_begin_def sync_region_wait_end_def Let_def ready_def)
  next
    case (Task_create t par type now now')
    then show ?thesis
      using assms(2,3) c
      by (auto simp: ompt_tsan_task_create_def Let_def ready_def dest!: tls_New split: prod.splits if_splits)
  next
    case (Task_creation t endpoint now)
    then show ?thesis using assms(2,3) by (cases endpoint) (auto simp: ompt_tsan_task_creation_def ready_def)
  next
    case (Task_schedule t "from" status to now now')
    then show ?thesis
      using assms(2,3) c
      by (cases status)
         (auto simp: ompt_tsan_task_schedule_def completeTask_def suspendTask_def Let_def bind_eq_Some_conv ready_def
           split: if_splits dest!: freeTask_parts [THEN conjunct1, THEN tls_same])
  next
    case (Dependences t u deps now now')
    then show ?thesis using assms(2,3) c tls_dependences [of t u deps now now' s s'] by (simp add: ready_def)
  next
    case (Mutex_acquired t w now)
    then have r: "ready t s" using assms(1) by (simp add: callable_def)
    show ?thesis
      using assms(2,3) Mutex_acquired lock_pair_acts(7) [OF r]
      by (auto simp: ompt_tsan_mutex_acquired_def Let_def bind_eq_Some_conv ready_def split: if_splits)
  next
    case (Mutex_released t w now now')
    then show ?thesis
      using assms(2,3) c by (auto simp: ompt_tsan_mutex_released_def Let_def bind_eq_Some_conv ready_def split: if_splits)
  qed (use assms(2,3) in \<open>auto simp: ompt_tsan_parallel_end_def implicit_task_end_def
        ompt_tsan_mutex_acquire_def Let_def ready_def dest!: thread_end_Inr split: sum.splits\<close>)
  then show ?thesis using m by (simp add: ready_def)
qed

section \<open>What is recorded stays\<close>

text \<open>The object of a clock has been made; the clocks of barriers are left out because they are reset.\<close>

fun made :: "sync_loc \<Rightarrow> ompt \<Rightarrow> bool" where
  "made (Task_clock t) s = (t < next_obj (task_pools s))"
| "made (Taskwait_clock t) s = (t < next_obj (task_pools s))"
| "made (Taskgroup_clock g) s = (g < next_obj (group_pools s))"
| "made (In_clock d) s = (d < next_obj (dep_pools s))"
| "made (Out_clock d) s = (d < next_obj (dep_pools s))"
| "made (Inoutset_clock d) s = (d < next_obj (dep_pools s))"
| "made (Lock_clock p) s = (p < next_lock s)"
| "made (Barrier_clock t i) s = False"

lemma made_grows: "grows s s' \<Longrightarrow> made l s \<Longrightarrow> made l s'"
  by (cases l) (auto simp: grows_def)

lemma new_not_made:
  "made l s \<Longrightarrow> l \<notin> new_teams s s' \<and> l \<notin> new_groups s s' \<and> l \<notin> new_tasks s s' \<and> l \<notin> new_deps s s' \<and> l \<notin> new_locks s s'"
  by (cases l) (auto simp: new_obj_sets new_locks_def fresh_objs_def)

definition spares :: "omp_act list \<Rightarrow> sync_loc \<Rightarrow> bool" where
  "spares as l \<longleftrightarrow> (\<forall>a \<in> set as. \<not> renews a (At_object l))"

lemma spares_simps [simp]:
  "spares [] l" "spares (a # as) l \<longleftrightarrow> \<not> renews a (At_object l) \<and> spares as l"
  "spares (as @ bs) l \<longleftrightarrow> spares as l \<and> spares bs l" "spares (map (Releases th) ls) l" "spares (map (Acquires th) ls) l"
  by (auto simp: spares_def)

lemma acts_spare:
  assumes "made l s"
  shows "spares (acts cb s s') l"
proof -
  have task: "spares (complete_acts th t d) l" "spares (begin_acts th d) l" "spares (start_acts th t now d) l"
    "spares (suspend_acts th t now d) l" "spares (end_acts th t now d) l" for th t d now
    by (simp_all add: complete_acts_def begin_acts_def start_acts_def suspend_acts_def end_acts_def)
  have schedule: "spares (schedule_acts th from status to now now' s) l" for th "from" status to now now'
    by (cases status) (simp_all add: timed_def task)
  have bar: "l \<noteq> Barrier_clock t i" for t i using assms by auto
  have region: "spares (region_acts th kind endpoint hp t now now' s s') l" for th kind endpoint hp t now now'
    using new_not_made [OF assms] bar
    by (cases endpoint; cases kind) (auto simp: region_acts_def timed_def)
  show ?thesis
    using new_not_made [OF assms] bar schedule region
    by (cases cb) (auto simp: timed_def split: scope_endpoint.split)
qed

lemma run_spares:
  assumes "omp_run s as s'" and "made l s"
  shows "spares as l \<and> made l s' \<and> grows s s'"
  using assms(1)
proof induction
  case Run_start
  then show ?case using assms(2) by simp
next
  case (Run_step as s' cb s'')
  then show ?case
    using acts_spare [of l s' cb s''] made_grows [OF callback_grows [OF Run_step.hyps(2,3)]]
      grows_trans [OF _ callback_grows [OF Run_step.hyps(2,3)]] by simp
qed

lemma recorded_stays:
  assumes "spares as l" and "sync_state (vsyn v l) \<noteq> STATE_INIT" and "joined sel c"
  shows "sync_state (vsyn (acts_run as v) l) \<noteq> STATE_INIT \<and> cval sel (vsyn v l) c \<le> cval sel (vsyn (acts_run as v) l) c"
  using assms(1,2)
proof (induction as arbitrary: v)
  case (Cons a as)
  have "sync_state (vsyn (act_step a v) l) \<noteq> STATE_INIT \<and> cval sel (vsyn v l) c \<le> cval sel (vsyn (act_step a v) l) c"
    using Cons.prems assms(3) by (cases a) (auto simp: act_step.simps sync_simps)
  then show ?case using Cons.IH [of "act_step a v"] Cons.prems by (auto intro: order_trans)
qed simp

text \<open>
  The arc from a release to an acquire: between the two callbacks, and the callbacks that come
  between them, the recorded value does not get lost.
\<close>

lemma arc_between:
  assumes "callable cb1 s" and "run_callback cb1 s = Some s1" and "acts cb1 s s1 = xs @ Releases th1 l # ys" and "made l s"
    and "GetState (vthr (acts_run xs (view s)) th1) \<noteq> STATE_INIT" and "omp_run s1 as s2" and "measuring s1"
    and "acts_run us (view s2) = v" and "spares us l" and "joined sel c"
  shows "cval sel (vthr (acts_run xs (view s)) th1) c \<le> cval sel (vthr (act_step (Acquires th2 l) v) th2) c"
proof -
  let ?v = "acts_run xs (view s)"
  let ?r = "act_step (Releases th1 l) ?v"
  have r: "sync_state (vsyn ?r l) \<noteq> STATE_INIT" "cval sel (vthr ?v th1) c \<le> cval sel (vsyn ?r l) c"
    using assms(5,10) by (auto simp: act_step.simps sync_simps)
  have "spares ys l" using acts_spare [OF assms(4), of cb1 s1] assms(3) by simp
  moreover have "spares as l"
    using run_spares [OF assms(6)] made_grows [OF callback_grows [OF assms(1,2)] assms(4)] by simp
  ultimately have sp: "spares (ys @ as @ us) l" using assms(9) by simp
  have "v = acts_run (ys @ as @ us) ?r"
    using callback_refines [OF assms(1,2)] omp_run_view [OF assms(6,7)] assms(3,8) by simp
  then have "cval sel (vsyn ?r l) c \<le> cval sel (vsyn v l) c" using recorded_stays [OF sp r(1) assms(10)] by simp
  then show ?thesis using r(2) assms(10) by (auto simp: act_step.simps sync_simps)
qed

text \<open>What a clock shows at a time is not changed by entering and leaving states at that time.\<close>

definition acts_at :: "nat \<Rightarrow> time \<Rightarrow> omp_act list \<Rightarrow> bool" where
  "acts_at th t as \<longleftrightarrow>
     (\<forall>a \<in> set as. (\<exists>l. a = Acquires th l \<or> a = Releases th l) \<or> (\<exists>cs. a = Enters th t cs) \<or> (\<exists>r. a = Leaves th t r))"

lemma acts_at_simps [simp]:
  "acts_at th t []" "acts_at th t (Acquires th l # as) = acts_at th t as" "acts_at th t (Enters th t cs # as) = acts_at th t as"
  "acts_at th t (Leaves th t r # as) = acts_at th t as" "acts_at th t (as @ bs) = (acts_at th t as \<and> acts_at th t bs)"
  "acts_at th t (map (Acquires th) ls)" "acts_at th t (map (Releases th) ls)"
  by (auto simp: acts_at_def)

lemma shown_acts_at:
  assumes "acts_at th t as" and "joined sel c"
  shows "shown sel (vthr v th) c t \<le> shown sel (vthr (acts_run as v) th) c t"
  using assms(1)
proof (induction as arbitrary: v)
  case (Cons a as)
  have sel: "is_sel sel" by (rule joined_is_sel [OF assms(2)])
  have after: "shown sel tc c t \<le> shown sel (snd (OmpHAfter True sc tc)) c t" for sc tc
    using assms(2) by (simp add: shown_def sync_simps)
  from Cons.prems consider (acq) l where "a = Acquires th l" | (rel) l where "a = Releases th l" | (ent) cs where "a = Enters th t cs" | (lv) r where "a = Leaves th t r"
    by (auto simp: acts_at_def)
  then have "shown sel (vthr v th) c t \<le> shown sel (vthr (act_step a v) th) c t"
    by cases (simp_all add: act_step.simps after shown_switch [OF sel])
  then show ?case using Cons.IH [of "act_step a v"] Cons.prems by (auto simp: acts_at_def intro: order_trans)
qed simp

lemma shown_later: "t \<le> T \<Longrightarrow> shown sel tc c t \<le> shown sel tc c T"
  by (simp add: shown_def)

text \<open>
  The common form of the claims: the first callback releases after acts of its thread at time
  \<open>t1\<close>, the second acquires and then acts at time \<open>t2\<close>.
\<close>

lemma arc_shown:
  assumes "callable cb1 s" and "run_callback cb1 s = Some s1" and "acts cb1 s s1 = xs @ Releases th1 l # ys" and "made l s"
    and "acts_at th1 t1 xs" and "GetState (vthr (acts_run xs (view s)) th1) = STATE_OMP" and "thread_local_clock s th1 \<noteq> 0"
    and "omp_run s1 as s2" and "callable cb2 s2" and "run_callback cb2 s2 = Some s3"
    and "acts cb2 s2 s3 = us @ Acquires th2 l # vs" and "GetState (vthr (acts_run us (view s2)) th2) = STATE_OMP"
    and "acts_at th2 t2 vs" and "cb_thread cb2 = th2" and "t2 \<le> T" and "sel = proc \<or> sel = critical"
  shows "shown sel (cur_clock th1 s) CLOCK_USEFUL t1 \<le> shown sel (cur_clock th2 s3) CLOCK_USEFUL T"
proof -
  let ?x = "acts_run xs (view s)" and ?u = "acts_run us (view s2)"
  let ?a = "act_step (Acquires th2 l) ?u"
  have sel: "joined sel CLOCK_USEFUL" using assms(16) by auto
  have m1: "measuring s1" using callback_refines [OF assms(1,2)] by (simp add: ready_def)
  have "spares us l"
    using acts_spare [of l s2 cb2 s3] run_spares [OF assms(8) made_grows [OF callback_grows [OF assms(1,2)] assms(4)]]
      assms(11) by simp
  then have arc: "cval sel (vthr ?x th1) CLOCK_USEFUL \<le> cval sel (vthr ?a th2) CLOCK_USEFUL"
    using arc_between [OF assms(1-4) _ assms(8) m1 refl, of us sel CLOCK_USEFUL th2] assms(6) sel by simp
  have st: "GetState (vthr ?a th2) = STATE_OMP" using assms(12) by (simp add: act_step.simps sync_simps)
  have "cur_clock th1 s = vthr (view s) th1" using assms(7) by (simp add: view_def thread_clock_def)
  then have "shown sel (cur_clock th1 s) CLOCK_USEFUL t1 \<le> cval sel (vthr ?x th1) CLOCK_USEFUL"
    using shown_acts_at [OF assms(5) sel, of "view s"] assms(6) by (simp add: shown_def)
  also note arc
  also have "cval sel (vthr ?a th2) CLOCK_USEFUL = shown sel (vthr ?a th2) CLOCK_USEFUL t2"
    using st by (simp add: shown_def)
  also have "\<dots> \<le> shown sel (vthr (acts_run vs ?a) th2) CLOCK_USEFUL t2" by (rule shown_acts_at [OF assms(13) sel])
  also have "acts_run vs ?a = view s3" using callback_refines [OF assms(9,10)] assms(11) by simp
  also have "vthr (view s3) th2 = cur_clock th2 s3"
    using callback_refines [OF assms(9,10)] ready_clock [of th2 s3] assms(14) by simp
  also have "shown sel (cur_clock th2 s3) CLOCK_USEFUL t2 \<le> shown sel (cur_clock th2 s3) CLOCK_USEFUL T"
    by (rule shown_later [OF assms(15)])
  finally show ?thesis .
qed

section \<open>The lock callbacks return\<close>

lemma acquire_returns:
  assumes "ready th s" and "\<And>p. hm_map (Locks s) w = Some p \<Longrightarrow> \<not> lock_held s p"
  shows "\<exists>s' p. ompt_tsan_mutex_acquired th w now s = Some s' \<and> hm_map (Locks s') w = Some p \<and> lock_held s' = (lock_held s)(p := True)"
proof -
  have ok: "hm_ok Hash (Locks s)" using assms(1) by (simp add: ready_def measuring_def locks_ok_def)
  obtain i b m where m: "hm_insert Hash w 0 (Locks s) = Some ((i, b), m)" "hm_ok Hash m" "i < length (items m)"
      "b = (hm_map (Locks s) w = None)"
    using hm_insert_map [OF ok, of w 0] by blast
  obtain p s1 where p: "lock_pair w s = Some (p, s1)"
    using m hm_store_map [OF m(2,3), of "next_lock s"] by (cases b) (auto simp: lock_pair_def hm_deref_def)
  have l: "hm_map (Locks s1) w = Some p" using lock_pair_acts(4) [OF assms(1) p] by simp
  have h: "\<not> lock_held s1 p \<and> (lock_held s1)(p := True) = (lock_held s)(p := True)"
    using lock_pair_acts(5,6) [OF assms(1) p] assms(2) by (cases "hm_map (Locks s) w") auto
  let ?s2 = "OmpHappensAfter th (Lock_clock p) (s1\<lparr>lock_held := (lock_held s1)(p := True)\<rparr>)"
  have "Locks (leave th now True ?s2) = Locks s1" "lock_held (leave th now True ?s2) = (lock_held s1)(p := True)"
    by (simp_all add: leave_def upd_cur_def OmpHappensAfter_def split: prod.split)
  then show ?thesis using p l h by (auto simp: ompt_tsan_mutex_acquired_def Let_def)
qed

lemma release_returns:
  assumes "ready th s" and "hm_map (Locks s) w = Some p"
  shows "\<exists>s'. ompt_tsan_mutex_released th w now now' s = Some s' \<and> lock_held s' = (lock_held s)(p := False)"
proof -
  let ?s0 = "ompTimer_begin th now s"
  have ok: "hm_ok Hash (Locks s)" "p \<noteq> 0" using assms by (auto simp: ready_def measuring_def locks_ok_def)
  obtain i m where m: "hm_index Hash 0 w (Locks s) = Some (i, m)" "hm_deref i m = Some p"
    using hm_index_map [OF ok(1) assms(2), of 0] by blast
  have "Locks ?s0 = Locks s" "lock_held ?s0 = lock_held s"
    using assms(1) by (simp_all add: ompTimer_begin_def new_clock_ready enter_def upd_cur_def)
  then show ?thesis
    using m ok(2) by (auto simp: ompt_tsan_mutex_released_def Let_def ompTimer_end_def leave_def upd_cur_def OmpHappensBefore_def)
qed

section \<open>Claims\<close>

text \<open>
  C10: Locks order the critical sections in the clocks: from the moment a thread has got a lock, its
  critical and process-local useful-computation clocks show at least what those of a thread
  that released the lock before showed at its release, whatever all threads did in between.
\<close>

theorem lock_orders_sections:
  assumes "ready th1 s" and "run_callback (Mutex_released th1 w now1 now1') s = Some s1" and "omp_run s1 as s2"
    and "ready th2 s2" and "run_callback (Mutex_acquired th2 w now2) s2 = Some s3"
    and "GetState (cur_clock th2 s2) = STATE_OMP" and "now2 \<le> T" and "sel = proc \<or> sel = critical"
  shows "shown sel (cur_clock th1 s) CLOCK_USEFUL now1 \<le> shown sel (cur_clock th2 s3) CLOCK_USEFUL T"
proof -
  let ?c1 = "Mutex_released th1 w now1 now1'" and ?c2 = "Mutex_acquired th2 w now2"
  have c: "callable ?c1 s" "callable ?c2 s2" using assms(1,4) by (simp_all add: callable_def)
  note R = mutex_released_refines [OF assms(1) assms(2) [unfolded run_callback.simps]] callback_grows [OF c(1) assms(2)]
  obtain p where p: "hm_map (Locks s) w = Some p" using R(1) by auto
  then have m: "made (lock_of s w) s" using assms(1) by (auto simp: ready_def measuring_def locks_ok_def lock_of_def)
  have "grows s s3"
    using R(2) run_spares [OF assms(3) made_grows [OF R(2) m]] callback_grows [OF c(2) assms(5)] grows_trans by blast
  then have "hm_map (Locks s3) w = Some p" using p by (auto simp: grows_def map_le_def dom_def)
  then have l: "lock_of s3 w = lock_of s w" using p by (simp add: lock_of_def)
  have st: "GetState (vthr (act_step (Constructs L) (view s2)) th2) = STATE_OMP" for L
    using ready_clock [OF assms(4)] assms(6) by (simp add: act_step.simps)
  have "acts ?c1 s s1 = [Enters th1 now1 STATE_OMP] @ Releases th1 (lock_of s w) # [Leaves th1 now1' True]"
    "acts ?c2 s2 s3 = [Constructs (new_locks s2 s3)] @ Acquires th2 (lock_of s w) # [Leaves th2 now2 True]"
    by (simp_all add: timed_def l)
  from arc_shown [OF c(1) assms(2) this(1) m _ _ _ assms(3) c(2) assms(5) this(2) _ _ _ assms(7,8), of now1]
  show ?thesis
    using st assms(1) by (simp add: ready_def) (simp add: act_step.simps GetState_def clock_simps)
qed

text \<open>
  A region that waits for a task with data \<open>d\<close>: the taskwait of its parent, once the parent has made
  a deferred task, and the end of the task group it belongs to.
\<close>

definition waits_for_task :: "sync_region_kind \<Rightarrow> nat \<Rightarrow> TaskData \<Rightarrow> TaskData \<Rightarrow> ClockState \<Rightarrow> bool" where
  "waits_for_task kind t e d cs \<longleftrightarrow>
     kind = region_taskwait \<and> t = Parent d \<and> execution e > 1 \<and> cs = STATE_OMP \<or>
     kind = region_taskgroup \<and> TaskGroup d \<noteq> 0 \<and> TaskGroup e = TaskGroup d"

definition task_done_at :: "sync_region_kind \<Rightarrow> TaskData \<Rightarrow> sync_loc" where
  "task_done_at kind d = (if kind = region_taskwait then Taskwait_clock (Parent d) else Taskgroup_clock (TaskGroup d))"

text \<open>A thread about to finish a task it works on, in the runtime.\<close>

definition works_in_runtime :: "nat \<Rightarrow> ompt \<Rightarrow> TaskData \<Rightarrow> bool" where
  "works_in_runtime th s d \<longleftrightarrow>
     isRunning d \<and> (\<exists>st. clock_state_stack (cur_clock th s) = st @ [STATE_OMP, STATE_USEFUL])"

text \<open>The acts of a task's end up to a release of one of the objects that wait for it.\<close>

lemma arcs_keep_state:
  "GetState (vthr (acts_run (map (Acquires th) ls) v) t) = GetState (vthr v t)"
  "vthr (acts_run (map (Releases th) ls) v) = vthr v"
  by (induction ls arbitrary: v) (simp_all add: act_step.simps sync_simps)

lemma complete_until:
  assumes "ready th s" and "t \<noteq> 0" and "works_in_runtime th s (tasks s t)" and "l \<in> set (ends_before (tasks s t))"
  obtains xs ys where
    "schedule_acts th t ompt_task_complete to now now' s = xs @ Releases th l # ys" and
    "acts_at th now xs" and "GetState (vthr (acts_run xs (view s)) th) = STATE_OMP"
proof -
  obtain us vs where l: "ends_before (tasks s t) = us @ l # vs" using split_list [OF assms(4)] by blast
  let ?f = "map (Acquires th) (if isFulfilled (tasks s t) then [Task_clock t] else [])"
  let ?xs = "Leaves th now True # ?f @ map (Releases th) us"
  have eq: "schedule_acts th t ompt_task_complete to now now' s =
      ?xs @ Releases th l # (map (Releases th) vs @ start_acts th to now (given_back th t s to))"
    using assms(2,3) by (simp add: end_acts_def complete_acts_def l works_in_runtime_def)
  have "GetState (vthr (act_step (Leaves th now True) (view s)) th) = STATE_OMP"
    using assms(3) ready_clock [OF assms(1)] by (auto simp: works_in_runtime_def act_step.simps GetState_def clock_simps butlast_append)
  then have "GetState (vthr (acts_run ?xs (view s)) th) = STATE_OMP" by (simp add: arcs_keep_state)
  then show ?thesis by (rule that [OF eq, rotated]) simp
qed

lemma waiting_shown:
  assumes "ready th1 s" and "from \<noteq> 0" and "\<not> isIncluded d" and "d = tasks s from" and "works_in_runtime th1 s d"
    and "run_callback (Task_schedule th1 from ompt_task_complete to now1 now1') s = Some s1" and "omp_run s1 as s2"
    and "ready th2 s2" and "waits_for_task kind t (tasks s2 t) d (GetState (cur_clock th2 s2))" and "made (task_done_at kind d) s"
    and "run_callback (Sync_region th2 kind ompt_scope_end hp t now2 now2') s2 = Some s3"
    and "now2 \<le> T" and "now2' \<le> T" and "sel = proc \<or> sel = critical"
  shows "shown sel (cur_clock th1 s) CLOCK_USEFUL now1 \<le> shown sel (cur_clock th2 s3) CLOCK_USEFUL T"
proof -
  let ?c1 = "Task_schedule th1 from ompt_task_complete to now1 now1'" and ?c2 = "Sync_region th2 kind ompt_scope_end hp t now2 now2'"
  let ?l = "task_done_at kind d"
  have c: "callable ?c1 s" "callable ?c2 s2" using assms(1,8) by (simp_all add: callable_def)
  have "?l \<in> set (ends_before d)"
    using assms(3,9) by (auto simp: waits_for_task_def task_done_at_def ends_before_def)
  then obtain xs ys where x: "acts ?c1 s s1 = xs @ Releases th1 ?l # ys" "acts_at th1 now1 xs"
      "GetState (vthr (acts_run xs (view s)) th1) = STATE_OMP"
    using complete_until [of th1 s "from" ?l to now1 now1'] assms(1,2,4,5) by auto
  have st: "kind = region_taskwait \<Longrightarrow> GetState (vthr (view s2) th2) = STATE_OMP"
    using assms(9) ready_clock [OF assms(8)] by (auto simp: waits_for_task_def)
  have "\<exists>us vs t2. acts ?c2 s2 s3 = us @ Acquires th2 ?l # vs \<and> GetState (vthr (acts_run us (view s2)) th2) = STATE_OMP \<and>
      acts_at th2 t2 vs \<and> t2 \<le> T"
  proof (cases kind)
    case region_taskwait
    then have "acts ?c2 s2 s3 = [] @ Acquires th2 ?l # [Leaves th2 now2 (isRunning (tasks s2 t))]"
      using assms(9) by (auto simp: waits_for_task_def task_done_at_def region_acts_def)
    moreover have "acts_at th2 now2 [Leaves th2 now2 (isRunning (tasks s2 t))]" by simp
    ultimately show ?thesis using st region_taskwait assms(12) by (metis fold_simps(1))
  next
    case region_taskgroup
    then have "acts ?c2 s2 s3 = [Enters th2 now2 STATE_OMP] @ Acquires th2 ?l # [Leaves th2 now2' True]"
      using assms(9) by (auto simp: waits_for_task_def task_done_at_def region_acts_def timed_def)
    moreover have "acts_at th2 now2' [Leaves th2 now2' True]" by simp
    moreover have "GetState (vthr (acts_run [Enters th2 now2 STATE_OMP] (view s2)) th2) = STATE_OMP"
      by (simp add: act_step.simps GetState_def clock_simps)
    ultimately show ?thesis using assms(13) by blast
  qed (use assms(9) in \<open>simp_all add: waits_for_task_def\<close>)
  then obtain us vs t2 where u: "acts ?c2 s2 s3 = us @ Acquires th2 ?l # vs"
      "GetState (vthr (acts_run us (view s2)) th2) = STATE_OMP" "acts_at th2 t2 vs" "t2 \<le> T" by blast
  show ?thesis
    using arc_shown [OF c(1) assms(6) x(1) assms(10) x(2,3) _ assms(7) c(2) assms(11) u(1-3) _ u(4) assms(14)] assms(1)
    by (simp add: ready_def)
qed

text \<open>
  C11: The end of a deferred task reaches whoever waits for it: once a taskwait of its parent or the
  end of its task group is over, the clocks of the waiting thread show at least what those of the
  thread that executed the task showed when the task completed.
\<close>

theorem waiting_covers_task:
  assumes "ready th1 s" and "from \<noteq> 0" and "\<not> isIncluded d" and "d = tasks s from" and "works_in_runtime th1 s d"
    and "run_callback (Task_schedule th1 from ompt_task_complete to now1 now1') s = Some s1" and "omp_run s1 as s2"
    and "ready th2 s2" and "waits_for_task kind t (tasks s2 t) d (GetState (cur_clock th2 s2))" and "made (task_done_at kind d) s"
    and "run_callback (Sync_region th2 kind ompt_scope_end hp t now2 now2') s2 = Some s3"
    and "now2 \<le> T" and "now2' \<le> T" and "sel = proc \<or> sel = critical"
  shows "shown sel (cur_clock th1 s) CLOCK_USEFUL now1 \<le> shown sel (cur_clock th2 s3) CLOCK_USEFUL T"
  by (rule waiting_shown [OF assms])

text \<open>
  Which dependences on one variable order two tasks in OpenMP: all but two reads, and but two
  members of one \<^verbatim>\<open>inoutset\<close>.
\<close>

definition data_dependence :: "dependence_type \<Rightarrow> bool" where
  "data_dependence a \<longleftrightarrow> a \<noteq> ompt_dependence_type_source \<and> a \<noteq> ompt_dependence_type_sink"

definition orders :: "dependence_type \<Rightarrow> dependence_type \<Rightarrow> bool" where
  "orders a b \<longleftrightarrow> data_dependence a \<and> data_dependence b \<and>
     \<not> (a = ompt_dependence_type_in \<and> b = ompt_dependence_type_in) \<and>
     \<not> (a = ompt_dependence_type_inoutset \<and> b = ompt_dependence_type_inoutset)"

lemma arcs_iff_ordered:
  "(\<exists>l. l \<in> set (signals e) \<and> l \<in> set (waits_for f)) \<longleftrightarrow> depData e = depData f \<and> orders (dep_type e) (dep_type f)"
  by (cases "dep_type e"; cases "dep_type f") (auto simp: signals_def waits_for_def writes_def orders_def data_dependence_def)

text \<open>
  The arcs of task dependences are exactly those of OpenMP: what a task signals at its end is
  waited for at the begin of another task if and only if the two dependences are on the same
  variable and order the two tasks.
\<close>

theorem dependence_arcs_exact:
  "(\<exists>l. Releases th l \<in> set (complete_acts th t d) \<and> l \<in> set (concat (map signals (Dependencies d))) \<and>
        Acquires th' l \<in> set (begin_acts th' d')) \<longleftrightarrow>
   t \<noteq> 0 \<and> (\<exists>e \<in> set (Dependencies d). \<exists>f \<in> set (Dependencies d').
              depData e = depData f \<and> orders (dep_type e) (dep_type f))"
  unfolding arcs_iff_ordered [symmetric]
  by (auto simp: complete_acts_def begin_acts_def ends_before_def)

text \<open>
  C12: Dependences order tasks in the clocks: when a task begins, its thread's clocks show at least
  what those of the thread that executed an earlier task showed at its end, if a dependence of
  the earlier task orders the two.
\<close>

theorem dependence_covers_task:
  assumes "ready th1 s" and "from \<noteq> 0" and "works_in_runtime th1 s (tasks s from)" and "e \<in> set (Dependencies (tasks s from))"
    and "depData e < next_obj (dep_pools s)"
    and "run_callback (Task_schedule th1 from ompt_task_complete to now1 now1') s = Some s1" and "omp_run s1 as s2"
    and "ready th2 s2" and "u \<noteq> 0" and "execution (tasks s2 u) = 0" and "f \<in> set (Dependencies (tasks s2 u))"
    and "depData f = depData e" and "orders (dep_type e) (dep_type f)" and "v \<noteq> 0" and "\<not> isUntied (tasks s2 v)"
    and "run_callback (Task_schedule th2 v ompt_task_switch u now2 now2') s2 = Some s3"
    and "now2 \<le> T" and "sel = proc \<or> sel = critical"
  shows "shown sel (cur_clock th1 s) CLOCK_USEFUL now1 \<le> shown sel (cur_clock th2 s3) CLOCK_USEFUL T"
proof -
  let ?c1 = "Task_schedule th1 from ompt_task_complete to now1 now1'" and ?c2 = "Task_schedule th2 v ompt_task_switch u now2 now2'"
  have c: "callable ?c1 s" "callable ?c2 s2" using assms(1,8) by (simp_all add: callable_def)
  obtain l where l: "l \<in> set (signals e)" "l \<in> set (waits_for f)" using arcs_iff_ordered [of e f] assms(12,13) by auto
  have m: "made l s" using l(1) assms(5) by (auto simp: signals_def split: if_splits)
  have "l \<in> set (ends_before (tasks s from))" using l(1) assms(4) by (auto simp: ends_before_def)
  then obtain xs ys where x: "acts ?c1 s s1 = xs @ Releases th1 l # ys" "acts_at th1 now1 xs"
      "GetState (vthr (acts_run xs (view s)) th1) = STATE_OMP"
    using complete_until [of th1 s "from" l to now1 now1'] assms(1,2,3) by auto
  have "l \<in> set (concat (map waits_for (Dependencies (tasks s2 u))))" using l(2) assms(11) by auto
  then obtain us vs where w: "concat (map waits_for (Dependencies (tasks s2 u))) = us @ l # vs" by (meson split_list)
  let ?us = "Enters th2 now2 STATE_OMP # map (Acquires th2) us"
  have u: "acts ?c2 s2 s3 = ?us @ Acquires th2 l # (map (Acquires th2) vs @ [Acquires th2 (Task_clock u), Enters th2 now2 STATE_USEFUL])"
    using assms(9,10,14,15) by (simp add: suspend_acts_def start_acts_def begin_acts_def w)
  have "GetState (vthr (act_step (Enters th2 now2 STATE_OMP) (view s2)) th2) = STATE_OMP"
    by (simp add: act_step.simps GetState_def clock_simps)
  then have st: "GetState (vthr (acts_run ?us (view s2)) th2) = STATE_OMP" by (simp add: arcs_keep_state)
  show ?thesis
    using arc_shown [OF c(1) assms(6) x(1) m x(2,3) _ assms(7) c(2) assms(16) u st _ _ assms(17,18)] assms(1)
    by (simp add: ready_def)
qed

section \<open>Well-formed states\<close>

lemma run_ready: "omp_run s0 as s \<Longrightarrow> ready th s0 \<Longrightarrow> ready th s"
  by (induction rule: omp_run.induct) (auto intro: threads_stay)

text \<open>
  C13: Every state the callbacks lead to is well-formed: the measurement runs, every thread that has begun has an
  allocated clock of its own and keeps it, and the lock table is a hash table with distinct, allocated lock objects.  In such
  a state the lock callbacks return, into a well-formed state, when a free lock is acquired or a known one released.
\<close>

theorem omp_states_well_formed:
  assumes "omp_start t0 s0" and "omp_run s0 as s"
  shows "is_running s \<and>
         (\<forall>th th'. thread_local_clock s th \<noteq> 0 \<longrightarrow> thread_local_clock s th < next_clock (core s) \<and>
                     (thread_local_clock s th = thread_local_clock s th' \<longrightarrow> th = th')) \<and>
         (\<forall>th. thread_local_clock s0 th \<noteq> 0 \<longrightarrow> thread_local_clock s th \<noteq> 0) \<and>
         locks_ok s \<and>
         (\<forall>th w now. thread_local_clock s th \<noteq> 0 \<longrightarrow> (\<forall>p. hm_map (Locks s) w = Some p \<longrightarrow> \<not> lock_held s p) \<longrightarrow>
            (\<exists>s'. run_callback (Mutex_acquired th w now) s = Some s' \<and> ready th s')) \<and>
         (\<forall>th w p now now'. thread_local_clock s th \<noteq> 0 \<longrightarrow> hm_map (Locks s) w = Some p \<longrightarrow>
            (\<exists>s'. run_callback (Mutex_released th w now now') s = Some s' \<and> ready th s'))"
proof -
  have m: "measuring s" using omp_run_view [OF assms(2)] assms(1) by (simp add: omp_start_def)
  have r: "ready th s" if "thread_local_clock s th \<noteq> 0" for th using m that by (simp add: ready_def)
  have "thread_local_clock s th \<noteq> 0" if "thread_local_clock s0 th \<noteq> 0" for th
    using run_ready [OF assms(2), of th] that assms(1) by (simp add: ready_def omp_start_def)
  moreover have "thread_local_clock s th < next_clock (core s)" "thread_local_clock s th = thread_local_clock s th' \<longrightarrow> th = th'"
    if "thread_local_clock s th \<noteq> 0" for th th'
    using m that by (auto simp: measuring_def own_clocks_def inj_on_def)
  moreover have "\<exists>s'. run_callback (Mutex_acquired th w now) s = Some s' \<and> ready th s'"
    if "thread_local_clock s th \<noteq> 0" "\<forall>p. hm_map (Locks s) w = Some p \<longrightarrow> \<not> lock_held s p" for th w now
    using acquire_returns [OF r [OF that(1)], of w now] that(2) callback_refines [of "Mutex_acquired th w now" s] r [OF that(1)]
    by (auto simp: callable_def)
  moreover have "\<exists>s'. run_callback (Mutex_released th w now now') s = Some s' \<and> ready th s'"
    if "thread_local_clock s th \<noteq> 0" "hm_map (Locks s) w = Some p" for th w p now now'
    using release_returns [OF r [OF that(1)] that(2), of now now'] callback_refines [of "Mutex_released th w now now'" s] r [OF that(1)]
    by (auto simp: callable_def)
  ultimately show ?thesis using m unfolding measuring_def by blast
qed

section \<open>Recycled objects\<close>

lemma omp_run_append: "omp_run s bs s' \<Longrightarrow> omp_run s0 as s \<Longrightarrow> \<exists>cs. omp_run s0 cs s'"
  by (induction rule: omp_run.induct) (auto intro: Run_step)

lemma getData_returned:
  assumes "owner ps t = th"
  shows "fst (getData n th (entry_Delete th t ps)) = t"
  using assms by (simp add: entry_Delete_def returnOwnData_def getData_def upd_pool_def Let_def)

text \<open>The end of the last reference to a task gives its object back, and its parent stays.\<close>

lemma completed_object_free:
  assumes "ompt_tsan_task_schedule th t ompt_task_complete to now now' s = Some s'" and "t \<noteq> 0"
    and "RefCount (tasks s t) = 1" and "RefCount (tasks s (Parent (tasks s t))) \<noteq> 1"
  shows "task_pools s' = entry_Delete th t (task_pools s)"
proof -
  let ?dec = "\<lambda>t. upd_task t (\<lambda>d. d\<lparr>RefCount := RefCount d - 1\<rparr>)"
  define s0 where "s0 = count th (\<lambda>c. c\<lparr>taskSchedule := taskSchedule c + 1\<rparr>) s"
  define x where "x = completeTask_arcs th t (suspendTaskEnd th t now s0)"
  obtain y where y: "freeTask (next_obj (task_pools s0)) th t x = Some y" "s' = startTask th to now y"
    using assms(1) by (auto simp: ompt_tsan_task_schedule_def Let_def s0_def [symmetric] x_def bind_eq_Some_conv
        completeTask_def split: if_splits)
  have v: "task_view x = task_view s" by (simp add: x_def s0_def)
  then have x: "RefCount (tasks x t) = 1" "Parent (tasks x t) = Parent (tasks s t)"
      "RefCount (tasks x (Parent (tasks s t))) \<noteq> 1" "Parent (tasks s t) \<noteq> t" "task_pools x = task_pools s"
    using assms(3,4) by (auto simp: task_view_def fun_eq_iff)
  define z where "z = TaskData_Delete th t (?dec t x)"
  have z: "task_pools z = entry_Delete th t (task_pools s)" "RefCount (tasks z (Parent (tasks s t))) \<noteq> 1"
    using view_Delete [of th t "?dec t x"] x by (simp_all add: z_def task_view_def tasks_Delete) (simp add: upd_task_def)
  obtain fuel where f: "freeTask fuel th (Parent (tasks s t)) z = Some y"
    using y(1) assms(2) x by (subst (asm) freeTask.simps) (auto simp: Let_def z_def split: nat.splits)
  have "task_pools y = task_pools z"
    using f z(2) by (subst (asm) freeTask.simps) (auto simp: Let_def upd_task_def split: if_splits)
  moreover have "task_pools s' = task_pools y" using task_view_start [of th to now y] by (simp add: y(2) task_view_def)
  ultimately show ?thesis using z(1) by simp
qed

lemma created_object:
  assumes "ompt_tsan_task_create th par type now now' s = (team, t, s')" and "t \<noteq> 0" and "ompt_task_initial \<notin> type"
  shows "t = fst (getData (task_block s) th (task_pools s))"
proof -
  let ?s = "count th (\<lambda>c. c\<lparr>taskCreate := taskCreate c + 1\<rparr>) s"
  have "task_block ?s = task_block s" using task_view_count [of th _ s] by (simp add: task_view_def)
  moreover have "t = fst (TaskData_New_child th par type ?s)"
    using assms by (auto simp: ompt_tsan_task_create_def Let_def split: prod.splits if_splits)
  ultimately show ?thesis by (simp add: TaskData_New_child_def TaskData_alloc_def split: prod.split)
qed

text \<open>
  C40: An object that comes from a pool again brings the clocks of its former use along.  A child of task \<open>t\<close>
  completes; then \<open>t\<close> completes, its object goes back to the pool of its thread, and the next task made there, which
  gets the object, does a taskwait of its own: the clocks of the thread that leaves it show at least what those
  of the thread that executed the child of the former task showed, although nothing orders the two.
\<close>

theorem recycled_task_waits_for_strangers:
  assumes "ready th1 s" and "from \<noteq> 0" and "\<not> isIncluded (tasks s from)" and "works_in_runtime th1 s (tasks s from)"
    and "Parent (tasks s from) = t" and "t < next_obj (task_pools s)"
    and "run_callback (Task_schedule th1 from ompt_task_complete to now1 now1') s = Some s1" and "omp_run s1 as s2"
    and "ready th s2" and "RefCount (tasks s2 t) = 1" and "RefCount (tasks s2 (Parent (tasks s2 t))) \<noteq> 1"
    and "owner (task_pools s2) t = th" and "run_callback (Task_schedule th t ompt_task_complete to' n2 n2') s2 = Some s3"
    and "ompt_tsan_task_create th par type n3 n3' s3 = (team, t', s4)" and "ompt_task_initial \<notin> type" and "t' \<noteq> 0"
    and "omp_run s4 bs s5" and "ready th2 s5" and "execution (tasks s5 t') > 1" and "GetState (cur_clock th2 s5) = STATE_OMP"
    and "run_callback (Sync_region th2 region_taskwait ompt_scope_end hp t' now2 now2') s5 = Some s6"
    and "now2 \<le> T" and "now2' \<le> T" and "sel = proc \<or> sel = critical"
  shows "t' = t \<and> shown sel (cur_clock th1 s) CLOCK_USEFUL now1 \<le> shown sel (cur_clock th2 s6) CLOCK_USEFUL T"
proof -
  let ?c2 = "Task_schedule th t ompt_task_complete to' n2 n2'" and ?c3 = "Task_create th par type n3 n3'"
  have c2: "callable ?c2 s2" using assms(9) by (simp add: callable_def)
  have t0: "t \<noteq> 0"
  proof
    assume "t = 0"
    moreover have "can_complete from (tasks s from)"
      using assms(7) by (auto simp: ompt_tsan_task_schedule_def Let_def completeTask_def tasks_scheduled bind_eq_Some_conv
          split: if_splits)
    ultimately show False using assms(2,5) by (simp add: can_complete_def)
  qed
  have "task_pools s3 = entry_Delete th t (task_pools s2)"
    using completed_object_free [OF _ t0 assms(10,11)] assms(13) by simp
  then have t': "t' = t" using created_object [OF assms(14,16,15)] getData_returned [OF assms(12)] by simp
  have "callable ?c3 s3" using threads_stay [OF c2 assms(13,9)] by (simp add: callable_def)
  then have "omp_run s3 (acts ?c3 s3 s4) s4" using Run_step [OF Run_start, of ?c3 s3 s4] assms(14) by simp
  moreover obtain cs where "omp_run s1 cs s3" using Run_step [OF assms(8) c2 assms(13)] by blast
  ultimately obtain ds where run: "omp_run s1 ds s5" using omp_run_append assms(17) by metis
  have "waits_for_task region_taskwait t (tasks s5 t) (tasks s from) (GetState (cur_clock th2 s5))"
    using assms(5,19,20) t' by (simp add: waits_for_task_def)
  moreover have "made (task_done_at region_taskwait (tasks s from)) s" using assms(5,6) t0 by (simp add: task_done_at_def)
  ultimately show ?thesis
    using waiting_shown [OF assms(1-3) refl assms(4,7) run assms(18) _ _ _ assms(22-24), of region_taskwait t hp s6]
      assms(21) t' by simp
qed

section \<open>Witnesses\<close>

text \<open>
  Thread 0 works from 1 to 2, gets the lock at 3, works and releases it at 5; then thread 1 begins
  and gets the lock at 7.
\<close>

lemma fork0_ready: "measuring fork0" "ready 0 fork0" "hm_map (Locks fork0) = Map.empty"
proof -
  show m: "measuring fork0" using fork0(1) by (simp add: omp_start_def)
  show "ready 0 fork0" using m fork0(2) [of 0] by (simp add: ready_def)
  show "hm_map (Locks fork0) = Map.empty"
    by (simp add: fork0_def first_clock_def new_clock_def example_loaded_def example_ompt_def my_next_id_def Let_def hm_map_def)
qed

theorem lock_orders_sections_witness:
  "\<exists>s s1 as s2 s3. ready 0 s \<and> run_callback (Mutex_released 0 7 5 5) s = Some s1 \<and> omp_run s1 as s2 \<and> ready 1 s2 \<and>
     run_callback (Mutex_acquired 1 7 7) s2 = Some s3 \<and> GetState (cur_clock 1 s2) = STATE_OMP \<and>
     shown critical (cur_clock 0 s) CLOCK_USEFUL 5 \<le> shown critical (cur_clock 1 s3) CLOCK_USEFUL 8"
proof -
  let ?a = "ompt_tsan_mutex_acquire 0 2 fork0"
  have a: "ready 0 ?a" "Locks ?a = Locks fork0"
    using fork0_ready(2) by (simp_all add: ompt_tsan_mutex_acquire_def) (simp add: enter_def upd_cur_def count_def split: option.split)
  obtain s p where s: "ompt_tsan_mutex_acquired 0 7 3 ?a = Some s" "hm_map (Locks s) 7 = Some p"
    using acquire_returns [OF a(1), of 7 3] a(2) fork0_ready(3) by auto
  have rs: "ready 0 s" using mutex_acquired_refines [OF a(1) s(1)] by simp
  obtain s1 where s1: "ompt_tsan_mutex_released 0 7 5 5 s = Some s1" "lock_held s1 = (lock_held s)(p := False)"
    using release_returns [OF rs s(2)] by blast
  have r1: "ready 0 s1" "hm_map (Locks s1) 7 = Some p" using mutex_released_refines [OF rs s1(1)] s(2) by simp_all
  let ?b = "Thread_begin 1 False 6" and ?s2 = "ompt_tsan_thread_begin 1 False 6 s1"
  have b: "callable ?b s1" "run_callback ?b s1 = Some ?s2" using r1(1) by (simp_all add: callable_def ready_def)
  have run: "omp_run s1 (acts ?b s1 ?s2) ?s2" using Run_step [OF Run_start b] by simp
  have r2: "ready 1 ?s2" using callback_refines [OF b] by simp
  have "vthr (view ?s2) 1 = vthr (acts_run (acts ?b s1 ?s2) (view s1)) 1" using callback_refines [OF b] by simp
  then have st: "GetState (cur_clock 1 ?s2) = STATE_OMP"
    unfolding ready_clock [OF r2] by (simp add: act_step.simps GetState_def clock_simps)
  have "Locks ?s2 = Locks s1" "lock_held ?s2 = lock_held s1"
    by (simp_all add: ompt_tsan_thread_begin_def new_clock_def new_pools_def my_next_id_def Let_def upd_cur_def enter_def)
  then obtain s3 where s3: "ompt_tsan_mutex_acquired 1 7 7 ?s2 = Some s3"
    using acquire_returns [OF r2, of 7 7] s1(2) r1(2) by auto
  have "shown critical (cur_clock 0 s) CLOCK_USEFUL 5 \<le> shown critical (cur_clock 1 s3) CLOCK_USEFUL 8"
    using lock_orders_sections [OF rs _ run r2 _ st, of 7 5 5 7 s3 8 critical] s1(1) s3 by simp
  then show ?thesis using rs s1(1) run r2 s3 st by (metis run_callback.simps(14,15))
qed

text \<open>
  Thread 1 executes task 3, a child of task 2, from 6 to 9; then thread 0 leaves a taskwait of task
  2, or switches to task 4, which reads what task 3 has written.
\<close>

definition example_tasks :: "nat \<Rightarrow> TaskData" where
  "example_tasks t =
     (if t = 3 then TaskData_new\<lparr>isRunning := True, TaskType := {ompt_task_explicit}, execution := 1, Parent := 2, Team := 1,
        Dependencies := [\<lparr>depData = 1, dep_type = ompt_dependence_type_out\<rparr>]\<rparr>
      else if t = 4 then TaskData_new\<lparr>Dependencies := [\<lparr>depData = 1, dep_type = ompt_dependence_type_in\<rparr>]\<rparr>
      else TaskData_new\<lparr>execution := 2, RefCount := 5\<rparr>)"

definition task_state :: ompt where
  "task_state = fork3\<lparr>tasks := example_tasks, task_pools := (task_pools fork3)\<lparr>next_obj := 10\<rparr>,
     dep_pools := (dep_pools fork3)\<lparr>next_obj := 5\<rparr>\<rparr>"

lemma task_state:
  "ready th task_state = ready th fork3" "view task_state = view fork3" "tasks task_state = example_tasks"
proof -
  have c: "clock_part task_state = clock_part fork3" "lock_part task_state = lock_part fork3"
    by (simp_all add: task_state_def clock_part_def lock_part_def is_running_def)
  show "ready th task_state = ready th fork3" by (rule ready_same [OF c])
  show "view task_state = view fork3" by (rule view_same [OF c(1)])
  show "tasks task_state = example_tasks" by (simp add: task_state_def)
qed

lemma fork3_ready: "ready 0 fork3" "ready 1 fork3"
proof -
  show "ready 0 fork3" by (rule run_ready [OF fork_run(1) fork0_ready(2)])
  then show "ready 1 fork3" using fork_run(2) by (simp add: ready_def)
qed

theorem omp_states_well_formed_witness:
  "omp_run fork0 fork_acts fork3 \<and> is_running fork3 \<and> thread_local_clock fork3 0 \<noteq> thread_local_clock fork3 1"
proof -
  have "thread_local_clock fork3 0 \<noteq> 0" using fork3_ready(1) by (simp add: ready_def)
  then show ?thesis using omp_states_well_formed [OF fork0(1) fork_run(1)] fork_run(1) by (metis zero_neq_one)
qed

lemma fork3_clocks:
  "clock_state_stack (vthr (view fork3) 1) = [STATE_INIT, STATE_OMP, STATE_USEFUL]"
  "GetState (vthr (view fork3) 0) = STATE_OMP"
  using omp_run_view [OF fork_run(1) fork0_ready(1)] fork0(3) [of 0]
  by (simp_all add: fork_acts_def act_step.simps clock_simps sync_simps GetState_def)

text \<open>Thread 1 completes task 3.\<close>

lemma task_done:
  obtains s1 where "run_callback (Task_schedule 1 3 ompt_task_complete 0 9 9) task_state = Some s1" "ready 0 s1"
    "GetState (cur_clock 0 s1) = STATE_OMP" "\<And>t. t \<noteq> 3 \<Longrightarrow> (tasks s1 t)\<lparr>RefCount := 0\<rparr> = (example_tasks t)\<lparr>RefCount := 0\<rparr>"
proof -
  let ?cb = "Task_schedule 1 3 ompt_task_complete 0 9 9"
  have r: "ready 1 task_state" "ready 0 task_state" using fork3_ready by (simp_all add: task_state)
  define s0 where "s0 = count 1 (\<lambda>c. c\<lparr>taskSchedule := taskSchedule c + 1\<rparr>) task_state"
  define x where "x = completeTask_arcs 1 3 (suspendTaskEnd 1 3 9 s0)"
  have x: "tasks x = example_tasks" "next_obj (task_pools s0) = 10"
    using r(1) by (simp_all add: x_def s0_def task_state(3)) (simp add: task_state_def)
  define y where "y = upd_task 2 (\<lambda>d. d\<lparr>RefCount := RefCount d - 1\<rparr>) (TaskData_Delete 1 3 (upd_task 3 (\<lambda>d. d\<lparr>RefCount := RefCount d - 1\<rparr>) x))"
  have up: "freeTask 9 1 2 z = Some (upd_task 2 (\<lambda>d. d\<lparr>RefCount := RefCount d - 1\<rparr>) z)" if "RefCount (tasks z 2) = 5" for z
    using that by (subst freeTask.simps) (simp add: Let_def)
  have "RefCount (example_tasks 3) = 1" "Parent (example_tasks 3) = 2" "RefCount (example_tasks 2) = 5"
    by (simp_all add: example_tasks_def TaskData_new_def)
  then have f: "freeTask 10 1 3 x = Some y"
    using x(1) by (subst freeTask.simps) (simp add: y_def Let_def tasks_Delete up del: One_nat_def)
  have tm: "can_complete 3 (tasks (suspendTaskEnd 1 3 9 s0) 3)"
    using tasks_scheduled(1) [of 1 3 9 _ task_state] by (simp add: s0_def task_state(3) can_complete_def example_tasks_def)
  have run: "run_callback ?cb task_state = Some y"
    using f x(2) tm
    by (simp add: ompt_tsan_task_schedule_def completeTask_def Let_def s0_def [symmetric] x_def [symmetric] startTask_def
        del: One_nat_def)
  have c: "callable ?cb task_state" using r(1) by (simp add: callable_def)
  have t: "(tasks y u)\<lparr>RefCount := 0\<rparr> = (example_tasks u)\<lparr>RefCount := 0\<rparr>" if "u \<noteq> 3" for u
    using that x(1) by (simp add: y_def tasks_Delete)
  have ry: "ready 0 y" by (rule threads_stay [OF c run r(2)])
  have "vthr (view y) 0 = vthr (view fork3) 0"
    using callback_refines [OF c run]
    by (simp add: task_state end_acts_def complete_acts_def start_acts_def ends_before_def example_tasks_def TaskData_new_def
        isFulfilled_def isIncluded_def signals_def writes_def act_step.simps)
  then have "GetState (cur_clock 0 y) = STATE_OMP" using fork3_clocks(2) ready_clock [OF ry] by simp
  then show ?thesis using that [OF run ry _ t] by blast
qed

lemma works_example: "works_in_runtime 1 task_state (tasks task_state 3)"
  using fork3_clocks(1) ready_clock [of 1 task_state] fork3_ready(2)
  by (simp add: works_in_runtime_def task_state example_tasks_def)

theorem waiting_covers_task_witness:
  "\<exists>s1 s3. run_callback (Task_schedule 1 3 ompt_task_complete 0 9 9) task_state = Some s1 \<and>
     run_callback (Sync_region 0 region_taskwait ompt_scope_end True 2 10 10) s1 = Some s3 \<and>
     shown critical (cur_clock 1 task_state) CLOCK_USEFUL 9 \<le> shown critical (cur_clock 0 s3) CLOCK_USEFUL 12"
proof -
  obtain s1 where s1: "run_callback (Task_schedule 1 3 ompt_task_complete 0 9 9) task_state = Some s1" "ready 0 s1"
      "GetState (cur_clock 0 s1) = STATE_OMP" "\<And>t. t \<noteq> 3 \<Longrightarrow> (tasks s1 t)\<lparr>RefCount := 0\<rparr> = (example_tasks t)\<lparr>RefCount := 0\<rparr>"
    using task_done by blast
  have "execution (tasks s1 2) = execution (example_tasks 2)" using arg_cong [OF s1(4) [of 2], of execution] by simp
  then have w: "waits_for_task region_taskwait 2 (tasks s1 2) (tasks task_state 3) (GetState (cur_clock 0 s1))"
    using s1(3) by (simp add: waits_for_task_def task_state example_tasks_def)
  have m: "made (task_done_at region_taskwait (tasks task_state 3)) task_state"
    by (simp add: task_done_at_def task_state(3) example_tasks_def) (simp add: task_state_def)
  obtain s3 where s3: "run_callback (Sync_region 0 region_taskwait ompt_scope_end True 2 10 10) s1 = Some s3" by simp
  have r: "ready 1 task_state" using fork3_ready by (simp add: task_state)
  have i: "\<not> isIncluded (tasks task_state 3)" by (simp add: task_state isIncluded_def example_tasks_def)
  have "shown critical (cur_clock 1 task_state) CLOCK_USEFUL 9 \<le> shown critical (cur_clock 0 s3) CLOCK_USEFUL 12"
    by (rule waiting_covers_task [OF r _ i refl works_example s1(1) Run_start s1(2) w m s3]) simp_all
  then show ?thesis using s1(1) s3 by blast
qed

theorem dependence_covers_task_witness:
  "\<exists>s1 s3. run_callback (Task_schedule 1 3 ompt_task_complete 0 9 9) task_state = Some s1 \<and>
     run_callback (Task_schedule 0 2 ompt_task_switch 4 10 10) s1 = Some s3 \<and>
     orders ompt_dependence_type_out ompt_dependence_type_in \<and>
     shown critical (cur_clock 1 task_state) CLOCK_USEFUL 9 \<le> shown critical (cur_clock 0 s3) CLOCK_USEFUL 12"
proof -
  obtain s1 where s1: "run_callback (Task_schedule 1 3 ompt_task_complete 0 9 9) task_state = Some s1" "ready 0 s1"
      "\<And>t. t \<noteq> 3 \<Longrightarrow> (tasks s1 t)\<lparr>RefCount := 0\<rparr> = (example_tasks t)\<lparr>RefCount := 0\<rparr>"
    using task_done by blast
  let ?e = "\<lparr>depData = 1, dep_type = ompt_dependence_type_out\<rparr>" and ?f = "\<lparr>depData = 1, dep_type = ompt_dependence_type_in\<rparr>"
  have "execution (tasks s1 4) = execution (example_tasks 4)" "Dependencies (tasks s1 4) = Dependencies (example_tasks 4)"
    "TaskType (tasks s1 2) = TaskType (example_tasks 2)"
    using arg_cong [OF s1(3) [of 4], of execution] arg_cong [OF s1(3) [of 4], of Dependencies]
      arg_cong [OF s1(3) [of 2], of TaskType] by simp_all
  then have u: "execution (tasks s1 4) = 0" "?f \<in> set (Dependencies (tasks s1 4))" "\<not> isUntied (tasks s1 2)"
    by (simp_all add: example_tasks_def TaskData_new_def isUntied_def)
  have e: "?e \<in> set (Dependencies (tasks task_state 3))" by (simp add: task_state example_tasks_def)
  have m: "depData ?e < next_obj (dep_pools task_state)" by (simp add: task_state_def)
  have o: "orders (dep_type ?e) (dep_type ?f)" by (simp add: orders_def data_dependence_def)
  obtain s3 where s3: "run_callback (Task_schedule 0 2 ompt_task_switch 4 10 10) s1 = Some s3"
    by (simp add: ompt_tsan_task_schedule_def suspendTask_def Let_def)
  have r: "ready 1 task_state" using fork3_ready by (simp add: task_state)
  have "shown critical (cur_clock 1 task_state) CLOCK_USEFUL 9 \<le> shown critical (cur_clock 0 s3) CLOCK_USEFUL 12"
    by (rule dependence_covers_task [OF r _ works_example e m s1(1) Run_start s1(2) _ u(1,2) _ o _ u(3) s3]) simp_all
  then show ?thesis using s1(1) s3 o by auto
qed

text \<open>
  Thread 1 completes task 3, a child of task 2, and then task 2, a child of task 5.  The next child it makes of task 5
  gets the object of task 2; thread 1 begins the new task, which makes a deferred task and leaves a taskwait.
\<close>

definition stale_tasks :: "nat \<Rightarrow> TaskData" where
  "stale_tasks t =
     (if t = 3 then TaskData_new\<lparr>isRunning := True, execution := 1, Parent := 2, Team := 1\<rparr>
      else if t = 2 then TaskData_new\<lparr>isRunning := True, execution := 2, Parent := 5, Team := 1, RefCount := 2\<rparr>
      else TaskData_new\<lparr>isRunning := True, execution := 2, Team := 1, RefCount := 5\<rparr>)"

definition stale_state :: ompt where
  "stale_state = fork3\<lparr>tasks := stale_tasks, task_pools := \<lparr>pool_of = (\<lambda>_. pool_new), owner = (\<lambda>_. 1), next_obj = 10\<rparr>\<rparr>"

lemma stale_state:
  "ready th stale_state = ready th fork3" "view stale_state = view fork3" "tasks stale_state = stale_tasks"
proof -
  have c: "clock_part stale_state = clock_part fork3" "lock_part stale_state = lock_part fork3"
    by (simp_all add: stale_state_def clock_part_def lock_part_def is_running_def)
  show "ready th stale_state = ready th fork3" by (rule ready_same [OF c])
  show "view stale_state = view fork3" by (rule view_same [OF c(1)])
  show "tasks stale_state = stale_tasks" by (simp add: stale_state_def)
qed

text \<open>What the callbacks of the example do to the task data.\<close>

lemma completes:
  assumes "ready th s" and "t \<noteq> 0" and "RefCount (tasks s t) = 1" and "p = Parent (tasks s t)" and "p \<noteq> 0"
    and "RefCount (tasks s p) \<noteq> 1" and "Team (tasks s t) \<noteq> 0" and "next_obj (task_pools s) \<noteq> 0"
  obtains s' where "run_callback (Task_schedule th t ompt_task_complete 0 now now) s = Some s'" "ready th s'"
    "tasks s' = (tasks (TaskData_Delete th t s))(p := (tasks s p)\<lparr>RefCount := RefCount (tasks s p) - 1\<rparr>)"
    "task_pools s' = entry_Delete th t (task_pools s)"
proof -
  let ?cb = "Task_schedule th t ompt_task_complete 0 now now" and ?dec = "\<lambda>t. upd_task t (\<lambda>d. d\<lparr>RefCount := RefCount d - 1\<rparr>)"
  define s0 where "s0 = count th (\<lambda>c. c\<lparr>taskSchedule := taskSchedule c + 1\<rparr>) s"
  define x where "x = completeTask_arcs th t (suspendTaskEnd th t now s0)"
  have x: "tasks x = tasks s" "task_pools s0 = task_pools s" "tasks (suspendTaskEnd th t now s0) = tasks s"
    using assms(1) by (simp_all add: x_def s0_def)
  have pt: "p \<noteq> t" using assms(3,6) by auto
  define y where "y = ?dec p (TaskData_Delete th t (?dec t x))"
  have up: "freeTask n th p z = Some (?dec p z)" if "RefCount (tasks z p) \<noteq> 1" for z n
    using that assms(5) by (subst freeTask.simps) (simp add: Let_def)
  obtain n where n: "next_obj (task_pools s) = Suc n" using assms(8) not0_implies_Suc by blast
  have "freeTask (Suc n) th t x = Some y"
    using assms(2,3,5,6) assms(4) [symmetric] x(1) pt by (subst freeTask.simps) (simp add: y_def Let_def tasks_Delete up)
  then have run: "run_callback ?cb s = Some y"
    using assms(2,4,5,7) n x
    by (simp add: ompt_tsan_task_schedule_def completeTask_def can_complete_def Let_def s0_def [symmetric] x_def [symmetric] startTask_def)
  have c: "callable ?cb s" using assms(1) by (simp add: callable_def)
  have "tasks y = (tasks (TaskData_Delete th t s))(p := (tasks s p)\<lparr>RefCount := RefCount (tasks s p) - 1\<rparr>)"
    using pt x(1) by (simp add: y_def tasks_Delete fun_eq_iff)
  moreover have "task_pools y = entry_Delete th t (task_pools s)"
    using completed_object_free [OF _ assms(2,3)] assms(4,6) run by simp
  ultimately show ?thesis using that [OF run] callback_refines [OF c run] by simp
qed

lemma creates:
  assumes "ready th s" and "DataPointer (pool_of (task_pools s) th) = xs @ [t]" and "par \<noteq> 0"
  obtains s' where "ompt_tsan_task_create th par {ompt_task_explicit} now now s = (0, t, s')" "ready th s'"
    "DataPointer (pool_of (task_pools s') th) = xs" "execution (tasks s' par) = execution (tasks s par) + 1"
    "\<And>u. u \<noteq> par \<Longrightarrow> execution (tasks s' u) = execution (tasks s u)"
proof -
  let ?cb = "Task_create th par {ompt_task_explicit} now now"
  define s0 where "s0 = count th (\<lambda>c. c\<lparr>taskCreate := taskCreate c + 1\<rparr>) s"
  define ps where "ps = upd_pool th (\<lambda>p. p\<lparr>DataPointer := xs\<rparr>) (task_pools s)"
  have s0: "task_pools s0 = task_pools s" "task_block s0 = task_block s" "tasks s0 = tasks s"
    using task_view_count [of th _ s] by (simp_all add: s0_def task_view_def)
  have g: "getData (task_block s0) th (task_pools s0) = (t, ps)" "fresh_objs (task_pools s0) ps = {}"
    using assms(2) by (simp_all add: s0 getData_def ps_def upd_pool_def Let_def fresh_objs_def)
  obtain s1 where a: "TaskData_alloc th s0 = (t, s1)" "tasks s1 = tasks s" "task_pools s1 = ps"
    using g by (simp add: TaskData_alloc_def s0(3))
  define s2 where "s2 = Init_child t par {ompt_task_explicit} s1"
  have s2: "TaskData_New_child th par {ompt_task_explicit} s0 = (t, s2)" "task_pools s2 = ps"
    "execution (tasks s2 u) = execution (tasks s u)" for u
    using a by (auto simp: TaskData_New_child_def s2_def Init_child_def Let_def) (simp_all add: upd_task_def)
  define s3 where "s3 = ompTimer_end th now (upd_task par (\<lambda>d. d\<lparr>execution := execution d + 1\<rparr>)
    (OmpHappensBefore th (Task_clock t) (ompTimer_begin th now s2)))"
  have cr: "ompt_tsan_task_create th par {ompt_task_explicit} now now s = (0, t, s3)"
    using s2(1) by (simp add: ompt_tsan_task_create_def s0_def [symmetric] s3_def Let_def)
  have tm: "tasks (ompTimer_begin th now s2) = tasks s2" "tasks (ompTimer_end th now z) = tasks z" for z
    by (simp_all add: ompTimer_begin_def ompTimer_end_def) (simp add: new_clock_def split: prod.split)
  have e: "execution (tasks s3 par) = execution (tasks s par) + 1" "u \<noteq> par \<Longrightarrow> execution (tasks s3 u) = execution (tasks s u)" for u
    using s2(3) by (simp_all add: s3_def tm)
  have "task_view s3 = task_view s2" by (simp add: s3_def task_view_upd_task)
  then have p: "DataPointer (pool_of (task_pools s3) th) = xs" using s2(2) by (simp add: task_view_def ps_def upd_pool_def)
  have "callable ?cb s" "run_callback ?cb s = Some s3" using assms(1) cr by (simp_all add: callable_def)
  then have "ready th s3" using callback_refines [of ?cb s s3] by simp
  then show ?thesis using that cr p e by blast
qed

lemma begins:
  assumes "ready th s" and "t \<noteq> 0" and "execution (tasks s t) = 0"
  obtains s' where "run_callback (Task_schedule th 5 ompt_task_switch t now now) s = Some s'" "ready th s'"
    "task_pools s' = task_pools s" "execution (tasks s' t) = 1"
proof -
  let ?cb = "Task_schedule th 5 ompt_task_switch t now now"
  obtain s' where s': "run_callback ?cb s = Some s'" using assms(2) by (simp add: ompt_tsan_task_schedule_def suspendTask_def Let_def)
  have "\<not> finishes ompt_task_switch" by (simp add: finishes_def)
  then have "task_view s' = task_view s" using switch_ok s' by simp
  moreover have "execution (tasks s' t) = 1"
    using s' assms by (auto simp: ompt_tsan_task_schedule_def suspendTask_def suspendTask_to_def startTask_def Let_def split: if_splits)
  moreover have "callable ?cb s" using assms(1) by (simp add: callable_def)
  then have "ready th s'" using callback_refines [OF _ s'] by simp
  ultimately show ?thesis using that s' by (simp add: task_view_def)
qed

theorem recycled_task_waits_for_strangers_witness:
  "\<exists>s1 s3 s4 as s5 s6.
     run_callback (Task_schedule 1 3 ompt_task_complete 0 9 9) stale_state = Some s1 \<and>
     run_callback (Task_schedule 1 2 ompt_task_complete 0 10 10) s1 = Some s3 \<and>
     ompt_tsan_task_create 1 5 {ompt_task_explicit} 11 11 s3 = (0, 2, s4) \<and> omp_run s4 as s5 \<and>
     run_callback (Sync_region 1 region_taskwait ompt_scope_end True 2 15 15) s5 = Some s6 \<and>
     shown critical (cur_clock 1 stale_state) CLOCK_USEFUL 9 \<le> shown critical (cur_clock 1 s6) CLOCK_USEFUL 16"
proof -
  have r: "ready 1 stale_state" using fork3_ready by (simp add: stale_state)
  have p: "task_pools stale_state = \<lparr>pool_of = (\<lambda>_. pool_new), owner = (\<lambda>_. 1), next_obj = 10\<rparr>" by (simp add: stale_state_def)
  have t: "RefCount (stale_tasks 3) = 1" "Parent (stale_tasks 3) = 2" "Team (stale_tasks 3) = 1" "RefCount (stale_tasks 2) = 2"
      "Parent (stale_tasks 2) = 5" "Team (stale_tasks 2) = 1" "RefCount (stale_tasks 5) = 5" "\<not> isIncluded (stale_tasks 3)"
      "isRunning (stale_tasks 3)"
    by (simp_all add: stale_tasks_def TaskData_new_def isIncluded_def)
  obtain s1 where s1: "run_callback (Task_schedule 1 3 ompt_task_complete 0 9 9) stale_state = Some s1" "ready 1 s1"
      "tasks s1 = (tasks (TaskData_Delete 1 3 stale_state))(2 := (stale_tasks 2)\<lparr>RefCount := 1\<rparr>)"
      "task_pools s1 = entry_Delete 1 3 (task_pools stale_state)"
    using completes [OF r, of 3 2 9] t p by (auto simp: stale_state(3))
  have t1: "RefCount (tasks s1 2) = 1" "Parent (tasks s1 2) = 5" "Team (tasks s1 2) = 1" "RefCount (tasks s1 5) = 5"
    using t by (simp_all add: s1(3) tasks_Delete stale_state(3))
  have p1: "owner (task_pools s1) = (\<lambda>_. 1)" "next_obj (task_pools s1) = 10" "DataPointer (pool_of (task_pools s1) 1) = [3]"
    by (simp_all add: s1(4) p entry_Delete_def returnOwnData_def upd_pool_def pool_new_def)
  obtain s3 where s3: "run_callback (Task_schedule 1 2 ompt_task_complete 0 10 10) s1 = Some s3" "ready 1 s3"
      "tasks s3 = (tasks (TaskData_Delete 1 2 s1))(5 := (tasks s1 5)\<lparr>RefCount := 4\<rparr>)"
      "task_pools s3 = entry_Delete 1 2 (task_pools s1)"
    using completes [OF s1(2), of 2 5 10] t1 p1(2) by auto
  have p3: "DataPointer (pool_of (task_pools s3) 1) = [3] @ [2]" "execution (tasks s3 2) = 0"
    using p1 by (simp_all add: s3(3,4) entry_Delete_def returnOwnData_def upd_pool_def tasks_Delete)
  obtain s4 where s4: "ompt_tsan_task_create 1 5 {ompt_task_explicit} 11 11 s3 = (0, 2, s4)" "ready 1 s4"
      "DataPointer (pool_of (task_pools s4) 1) = [] @ [3]" "execution (tasks s4 2) = 0"
    using creates [OF s3(2) p3(1), of 5 11] p3(2) by (metis append_Nil numeral_eq_iff semiring_norm(88,89) zero_neq_numeral)
  let ?b = "Task_schedule 1 5 ompt_task_switch 2 12 12" and ?c = "Task_create 1 2 {ompt_task_explicit} 13 13"
    and ?w = "Sync_region 1 region_taskwait ompt_scope_begin True 2 14 14"
  obtain a where a: "run_callback ?b s4 = Some a" "ready 1 a" "task_pools a = task_pools s4" "execution (tasks a 2) = 1"
    using begins [OF s4(2) _ s4(4), of 12] by auto
  have pa: "DataPointer (pool_of (task_pools a) 1) = [] @ [3]" using s4(3) a(3) by simp
  obtain b where b: "ompt_tsan_task_create 1 2 {ompt_task_explicit} 13 13 a = (0, 3, b)" "ready 1 b" "execution (tasks b 2) = 2"
    using creates [OF a(2) pa, of 2 13] a(4) by auto
  obtain s5 where s5: "run_callback ?w b = Some s5" by simp
  have call: "callable ?b s4" "callable ?c a" "callable ?w b" using s4(2) a(2) b(2) by (simp_all add: callable_def)
  have c: "run_callback ?c a = Some b" using b(1) by simp
  obtain as where run: "omp_run s4 as s5" using Run_step [OF Run_step [OF Run_step [OF Run_start call(1) a(1)] call(2) c] call(3) s5] by blast
  have r5: "ready 1 s5" using callback_refines [OF call(3) s5] by simp
  have e5: "execution (tasks s5 2) > 1" using s5 b(3) by (auto simp: ompt_tsan_sync_region_def sync_region_begin_def Let_def)
  have "view s5 = act_step (Enters 1 14 STATE_OMP) (view b)"
    using callback_refines [OF call(3) s5] by (simp add: region_acts_def)
  then have st: "GetState (cur_clock 1 s5) = STATE_OMP"
    unfolding ready_clock [OF r5] by (simp add: act_step.simps GetState_def clock_simps)
  obtain s6 where s6: "run_callback (Sync_region 1 region_taskwait ompt_scope_end True 2 15 15) s5 = Some s6" by simp
  have w: "works_in_runtime 1 stale_state (tasks stale_state 3)"
    using fork3_clocks(1) ready_clock [OF r] t(9) by (simp add: works_in_runtime_def stale_state)
  have "shown critical (cur_clock 1 stale_state) CLOCK_USEFUL 9 \<le> shown critical (cur_clock 1 s6) CLOCK_USEFUL 16"
    using recycled_task_waits_for_strangers [OF r _ _ w _ _ s1(1) Run_start s1(2) t1(1) _ _ s3(1) s4(1) _ _ run r5 e5 st s6,
        of 16 critical] t t1 p1 p by (simp add: stale_state(3))
  then show ?thesis using s1(1) s3(1) s4(1) run s6 by blast
qed

end
