(* ===== verification/Cpt_Concurrent.thy ===== *)
theory Cpt_Concurrent
  imports Cpt_Handle
begin

text \<open>
  The handle factory for integer handles (\<^verbatim>\<open>HandleFactory<M, T, int, E>\<close> in \<^verbatim>\<open>include/tracking.h\<close>) under
  concurrent calls: the methods of \<^theory_text>\<open>Cpt_Handle\<close> cut into steps at their locks.  \<^verbatim>\<open>AHMutex\<close> guards the
  list of available handles, \<^verbatim>\<open>DTMutex\<close> the table: a resize takes it exclusively, a lookup shared, and the
  stores into the table rely on \<^verbatim>\<open>AHMutex\<close> alone, as the comments in the source explain.  An access to the table while it is
  being resized, or outside its bounds, is a fault.
\<close>

section \<open>Threads\<close>

text \<open>
  Where a thread is: in \<^verbatim>\<open>newHandle\<close> for the MPI handle \<open>h\<close> with the object \<open>d\<close>, in the \<^verbatim>\<open>newAH\<close> it calls, in
  \<^verbatim>\<open>freeHandle\<close>, or in \<^verbatim>\<open>getHandle\<close>.
\<close>

datatype pc =
    Idle
  | New_get nat
  | New_lock nat nat
  | New_test nat nat
  | Grow_lock nat nat
  | Grow_resize nat nat
  | Grow_unlock nat nat nat
  | Grow_fill nat nat nat nat
  | New_take nat nat
  | New_unlock nat nat nat
  | New_init nat nat nat
  | Free_lock nat
  | Free_read nat
  | Free_unlock nat
  | Free_fini nat
  | Free_return nat
  | Find_lock nat
  | Find_read nat
  | Find_unlock nat nat

text \<open>
  The factory with its two mutexes and the threads.  \<open>resizing\<close> is on while the table is being resized.  Two fields
  only record what has happened: \<open>owned\<close> the handles the application holds, with the MPI handles they stand
  for, and \<open>slots\<close> the handles in use with their objects.
\<close>

record 'd conc =
  fac :: "'d factory"
  AHMutex :: "nat option"
  DTMutex :: "nat option"
  DTshared :: "nat set"
  resizing :: bool
  pcs :: "nat \<Rightarrow> pc"
  owned :: "nat \<rightharpoonup> nat"
  slots :: "nat \<rightharpoonup> nat"

definition conc_new :: "nat list \<Rightarrow> nat \<Rightarrow> nat \<Rightarrow> 'd \<Rightarrow> 'd conc" where
  "conc_new pre null blk dflt =
     \<lparr>fac = factory_new pre null blk dflt, AHMutex = None, DTMutex = None, DTshared = {}, resizing = False,
      pcs = (\<lambda>_. Idle), owned = Map.empty, slots = Map.empty\<rparr>"

definition goto :: "nat \<Rightarrow> pc \<Rightarrow> 'd conc \<Rightarrow> 'd conc" where
  "goto t p s = s\<lparr>pcs := (pcs s)(t := p)\<rparr>"

datatype 'd move = Blocked | Fault | Moved "'d conc"

definition lock_AH :: "nat \<Rightarrow> pc \<Rightarrow> 'd conc \<Rightarrow> 'd move" where
  "lock_AH t p s = (if AHMutex s = None then Moved (goto t p (s\<lparr>AHMutex := Some t\<rparr>)) else Blocked)"

definition unlock_AH :: "nat \<Rightarrow> pc \<Rightarrow> 'd conc \<Rightarrow> 'd move" where
  "unlock_AH t p s = Moved (goto t p (s\<lparr>AHMutex := None\<rparr>))"

definition at_table :: "nat \<Rightarrow> 'd conc \<Rightarrow> 'd conc \<Rightarrow> 'd move" where
  "at_table i s s' = (if resizing s \<or> \<not> i < length (dataTable (fac s)) then Fault else Moved s')"

text \<open>One step of a thread, \<open>ini\<close>, \<open>fin\<close>, \<open>mpi_handle\<close> and \<open>dflt\<close> as in the sequential model.\<close>

definition adv :: "(nat \<Rightarrow> 'd \<Rightarrow> 'd) \<Rightarrow> ('d \<Rightarrow> 'd) \<Rightarrow> ('d \<Rightarrow> nat) \<Rightarrow> 'd \<Rightarrow> nat \<Rightarrow> 'd conc \<Rightarrow> 'd move" where
  "adv ini fin mpi_handle dflt t s =
     (let f = fac s; n = length (dataTable f) in
      case pcs s t of
        Idle \<Rightarrow> Blocked
      | New_get h \<Rightarrow> (case newData dflt f of (d, f) \<Rightarrow> Moved (goto t (New_lock h d) (s\<lparr>fac := f\<rparr>)))
      | New_lock h d \<Rightarrow> lock_AH t (New_test h d) s
      | New_test h d \<Rightarrow> Moved (goto t (if availableHandles f = [] then Grow_lock h d else New_take h d) s)
      | Grow_lock h d \<Rightarrow>
          if DTMutex s = None \<and> DTshared s = {}
          then Moved (goto t (Grow_resize h d) (s\<lparr>DTMutex := Some t, resizing := True\<rparr>)) else Blocked
      | Grow_resize h d \<Rightarrow>
          Moved (goto t (Grow_unlock h d n) (s\<lparr>fac := f\<lparr>dataTable := dataTable f @ replicate (4096 div 64) 0\<rparr>, resizing := False\<rparr>))
      | Grow_unlock h d oldSize \<Rightarrow> Moved (goto t (Grow_fill h d oldSize oldSize) (s\<lparr>DTMutex := None\<rparr>))
      | Grow_fill h d oldSize i \<Rightarrow>
          if i < oldSize + 4096 div 64
          then at_table i s (goto t (Grow_fill h d oldSize (i + 1))
                 (s\<lparr>fac := f\<lparr>dataTable := (dataTable f)[i := 0], availableHandles := availableHandles f @ [i]\<rparr>\<rparr>))
          else Moved (goto t (New_take h d) s)
      | New_take h d \<Rightarrow>
          if availableHandles f = [] then Fault
          else let ret = last (availableHandles f)
               in at_table ret s (goto t (New_unlock h d ret)
                    (s\<lparr>fac := f\<lparr>availableHandles := butlast (availableHandles f), dataTable := (dataTable f)[ret := d]\<rparr>,
                       slots := (slots s)(ret \<mapsto> d)\<rparr>))
      | New_unlock h d ret \<Rightarrow> unlock_AH t (New_init h d ret) s
      | New_init h d ret \<Rightarrow> Moved (goto t Idle (s\<lparr>fac := upd_obj d (ini h) f, owned := (owned s)(ret \<mapsto> h)\<rparr>))
      | Free_lock a \<Rightarrow> lock_AH t (Free_read a) s
      | Free_read a \<Rightarrow>
          at_table a s (goto t (Free_unlock (dataTable f ! a)) (s\<lparr>fac := releaseHandle a f, slots := (slots s)(a := None)\<rparr>))
      | Free_unlock d \<Rightarrow> unlock_AH t (Free_fini d) s
      | Free_fini d \<Rightarrow> Moved (goto t (Free_return d) (s\<lparr>fac := upd_obj d fin f\<rparr>))
      | Free_return d \<Rightarrow> Moved (goto t Idle (s\<lparr>fac := returnObj d f\<rparr>))
      | Find_lock a \<Rightarrow>
          if DTMutex s = None then Moved (goto t (Find_read a) (s\<lparr>DTshared := insert t (DTshared s)\<rparr>)) else Blocked
      | Find_read a \<Rightarrow> at_table a s (goto t (Find_unlock a (mpi_handle (objs f (dataTable f ! a)))) s)
      | Find_unlock a m \<Rightarrow> Moved (goto t Idle (s\<lparr>DTshared := DTshared s - {t}\<rparr>)))"

text \<open>A thread calls a method; predefined handles are answered at once.\<close>

datatype call = Call_new nat | Call_free nat | Call_get nat

definition begin_call :: "nat \<Rightarrow> call \<Rightarrow> 'd conc \<Rightarrow> 'd conc" where
  "begin_call t c s =
     (case c of
        Call_new h \<Rightarrow> if isPredefined h (fac s) then s else goto t (New_get h) s
      | Call_free a \<Rightarrow> if isPredefined a (fac s) then s else goto t (Free_lock a) (s\<lparr>owned := (owned s)(a := None)\<rparr>)
      | Call_get a \<Rightarrow> if isPredefined a (fac s) then s else goto t (Find_lock a) s)"

text \<open>
  What MPI asks of the application: it uses the handles it holds, and frees none while another thread uses it.
\<close>

fun finds :: "nat \<Rightarrow> pc \<Rightarrow> bool" where
  "finds a (Find_lock b) \<longleftrightarrow> a = b"
| "finds a (Find_read b) \<longleftrightarrow> a = b"
| "finds a (Find_unlock b m) \<longleftrightarrow> a = b"
| "finds a p \<longleftrightarrow> False"

definition allowed :: "call \<Rightarrow> 'd conc \<Rightarrow> bool" where
  "allowed c s \<longleftrightarrow>
     (case c of
        Call_new h \<Rightarrow> True
      | Call_free a \<Rightarrow> isPredefined a (fac s) \<or> a \<in> dom (owned s) \<and> (\<forall>t. \<not> finds a (pcs s t))
      | Call_get a \<Rightarrow> isPredefined a (fac s) \<or> a \<in> dom (owned s))"

inductive creach :: "(nat \<Rightarrow> 'd \<Rightarrow> 'd) \<Rightarrow> ('d \<Rightarrow> 'd) \<Rightarrow> ('d \<Rightarrow> nat) \<Rightarrow> 'd \<Rightarrow> 'd conc \<Rightarrow> 'd conc \<Rightarrow> bool"
  for ini fin mpi_handle dflt s0 where
  Start: "creach ini fin mpi_handle dflt s0 s0"
| Call: "creach ini fin mpi_handle dflt s0 s \<Longrightarrow> pcs s t = Idle \<Longrightarrow> allowed c s \<Longrightarrow>
    creach ini fin mpi_handle dflt s0 (begin_call t c s)"
| Advance: "creach ini fin mpi_handle dflt s0 s \<Longrightarrow> adv ini fin mpi_handle dflt t s = Moved s' \<Longrightarrow>
    creach ini fin mpi_handle dflt s0 s'"

section \<open>The lock discipline\<close>

fun holds_AH :: "pc \<Rightarrow> bool" where
  "holds_AH (New_test h d) \<longleftrightarrow> True"
| "holds_AH (Grow_lock h d) \<longleftrightarrow> True"
| "holds_AH (Grow_resize h d) \<longleftrightarrow> True"
| "holds_AH (Grow_unlock h d k) \<longleftrightarrow> True"
| "holds_AH (Grow_fill h d k i) \<longleftrightarrow> True"
| "holds_AH (New_take h d) \<longleftrightarrow> True"
| "holds_AH (New_unlock h d a) \<longleftrightarrow> True"
| "holds_AH (Free_read a) \<longleftrightarrow> True"
| "holds_AH (Free_unlock d) \<longleftrightarrow> True"
| "holds_AH p \<longleftrightarrow> False"

fun holds_DT :: "pc \<Rightarrow> bool" where
  "holds_DT (Grow_resize h d) \<longleftrightarrow> True"
| "holds_DT (Grow_unlock h d k) \<longleftrightarrow> True"
| "holds_DT p \<longleftrightarrow> False"

fun reads_DT :: "pc \<Rightarrow> bool" where
  "reads_DT (Find_read a) \<longleftrightarrow> True"
| "reads_DT (Find_unlock a m) \<longleftrightarrow> True"
| "reads_DT p \<longleftrightarrow> False"

definition locks_inv :: "'d conc \<Rightarrow> bool" where
  "locks_inv s \<longleftrightarrow>
     (\<forall>t. holds_AH (pcs s t) \<longleftrightarrow> AHMutex s = Some t) \<and> (\<forall>t. holds_DT (pcs s t) \<longleftrightarrow> DTMutex s = Some t) \<and>
     (\<forall>t. reads_DT (pcs s t) \<longleftrightarrow> t \<in> DTshared s) \<and> (DTMutex s \<noteq> None \<longrightarrow> DTshared s = {}) \<and>
     (resizing s \<longrightarrow> (\<exists>t h d. pcs s t = Grow_resize h d))"

lemmas adv_simps = adv_def Let_def goto_def lock_AH_def unlock_AH_def at_table_def

lemma holds_DT_AH: "holds_DT p \<Longrightarrow> holds_AH p"
  by (cases p) auto

text \<open>What a step does to the thread and to the locks.\<close>

lemma adv_locks:
  assumes "adv ini fin mpi_handle dflt t s = Moved s'"
    and "holds_AH (pcs s t) \<longleftrightarrow> AHMutex s = Some t" and "holds_DT (pcs s t) \<longleftrightarrow> DTMutex s = Some t"
    and "reads_DT (pcs s t) \<longleftrightarrow> t \<in> DTshared s"
  shows "pcs s' = (pcs s)(t := pcs s' t)"
    and "AHMutex s' = (if holds_AH (pcs s' t) then Some t else if holds_AH (pcs s t) then None else AHMutex s)"
    and "holds_AH (pcs s' t) \<longrightarrow> AHMutex s = None \<or> AHMutex s = Some t"
    and "DTMutex s' = (if holds_DT (pcs s' t) then Some t else if holds_DT (pcs s t) then None else DTMutex s)"
    and "holds_DT (pcs s' t) \<longrightarrow> DTMutex s = None \<and> DTshared s = {} \<or> DTMutex s = Some t"
    and "DTshared s' = (if reads_DT (pcs s' t) then insert t (DTshared s) else DTshared s - {t})"
    and "reads_DT (pcs s' t) \<longrightarrow> DTMutex s = None \<or> t \<in> DTshared s"
    and "resizing s' \<longrightarrow> (\<exists>h d. pcs s' t = Grow_resize h d) \<or> resizing s \<and> \<not> (\<exists>h d. pcs s t = Grow_resize h d)"
  using assms by (cases "pcs s t"; auto simp: adv_simps split: if_splits prod.splits)+

lemma holds_not_reads: "holds_DT p \<Longrightarrow> \<not> reads_DT p"
  by (cases p) auto

lemma locks_adv:
  assumes "locks_inv s" and "adv ini fin mpi_handle dflt t s = Moved s'"
  shows "locks_inv s'"
proof -
  note l = assms(1) [unfolded locks_inv_def]
  have lt: "holds_AH (pcs s u) \<longleftrightarrow> AHMutex s = Some u" "holds_DT (pcs s u) \<longleftrightarrow> DTMutex s = Some u"
    "reads_DT (pcs s u) \<longleftrightarrow> u \<in> DTshared s" for u using l by auto
  note a = adv_locks [OF assms(2) lt]
  have pc: "pcs s' u = pcs s u" if "u \<noteq> t" for u using fun_cong [OF a(1), of u] that by simp
  have "(holds_AH (pcs s' u) \<longleftrightarrow> AHMutex s' = Some u) \<and> (holds_DT (pcs s' u) \<longleftrightarrow> DTMutex s' = Some u) \<and>
    (reads_DT (pcs s' u) \<longleftrightarrow> u \<in> DTshared s')" for u
  proof (cases "u = t")
    case True
    then show ?thesis using a(2,4,6) lt [of t] by auto
  next
    case False
    then show ?thesis using a(2-6) lt [of u] lt [of t] pc by auto
  qed
  moreover have "DTMutex s' \<noteq> None \<longrightarrow> DTshared s' = {}"
  proof (cases "holds_DT (pcs s' t)")
    case True
    have "DTshared s = {}" using a(5) True l by auto
    then show ?thesis using a(6) holds_not_reads [OF True] by simp
  next
    case False
    then show ?thesis using a(4,6,7) l by auto
  qed
  moreover have "resizing s' \<longrightarrow> (\<exists>u h d. pcs s' u = Grow_resize h d)"
  proof
    assume "resizing s'"
    then consider h d where "pcs s' t = Grow_resize h d" | u h d where "pcs s u = Grow_resize h d" "u \<noteq> t"
      using a(8) l by metis
    then show "\<exists>u h d. pcs s' u = Grow_resize h d" using pc by cases metis+
  qed
  ultimately show ?thesis unfolding locks_inv_def by blast
qed

lemma locks_call: "locks_inv s \<Longrightarrow> pcs s t = Idle \<Longrightarrow> locks_inv (begin_call t c s)"
proof -
  assume l: "locks_inv s" and t: "pcs s t = Idle"
  have "locks_inv (goto t p (s\<lparr>owned := m\<rparr>))" if "\<not> holds_AH p" "\<not> holds_DT p" "\<not> reads_DT p" for p m
  proof -
    have "\<exists>u h d. (if u = t then p else pcs s u) = Grow_resize h d" if r: "resizing s"
    proof -
      obtain u h d where u: "pcs s u = Grow_resize h d" using l r by (auto simp: locks_inv_def)
      then have "u \<noteq> t" using t by auto
      then show ?thesis using u by auto
    qed
    moreover have "AHMutex s \<noteq> Some t" "DTMutex s \<noteq> Some t" "t \<notin> DTshared s" using l t by (auto simp: locks_inv_def dest!: spec [of _ t])
    ultimately show ?thesis using l that by (auto simp: locks_inv_def goto_def fun_upd_def)
  qed
  from this [of _ "owned s"] this show ?thesis using l by (cases c) (auto simp: begin_call_def)
qed

text \<open>While a thread resizes the table, no other thread is where the table is read or written.\<close>

lemma resizing_alone:
  assumes "locks_inv s" and "resizing s" and "holds_AH (pcs s t) \<or> reads_DT (pcs s t)"
  shows "\<exists>h d. pcs s t = Grow_resize h d"
proof -
  obtain u h d where u: "pcs s u = Grow_resize h d" using assms(1,2) by (auto simp: locks_inv_def)
  then have "AHMutex s = Some u" "DTMutex s = Some u" using assms(1) by (auto simp: locks_inv_def)
  then show ?thesis using assms(1,3) u by (auto simp: locks_inv_def)
qed

section \<open>The table\<close>

text \<open>What the thread that holds \<^verbatim>\<open>AHMutex\<close> has found out about the free handles.\<close>

fun knows :: "pc \<Rightarrow> nat list \<Rightarrow> nat set \<Rightarrow> nat \<Rightarrow> bool" where
  "knows (Grow_lock h d) av us n \<longleftrightarrow> av = []"
| "knows (Grow_resize h d) av us n \<longleftrightarrow> av = []"
| "knows (Grow_unlock h d k) av us n \<longleftrightarrow> av = [] \<and> us \<subseteq> {..<k} \<and> n = k + 64"
| "knows (Grow_fill h d k i) av us n \<longleftrightarrow> av = [k..<i] \<and> us \<subseteq> {..<k} \<and> n = k + 64 \<and> k \<le> i \<and> i \<le> k + 64"
| "knows (New_take h d) av us n \<longleftrightarrow> av \<noteq> []"
| "knows p av us n \<longleftrightarrow> True"

definition table_inv :: "'d conc \<Rightarrow> bool" where
  "table_inv s \<longleftrightarrow>
     (let av = availableHandles (fac s); n = length (dataTable (fac s)) in
      distinct av \<and> set av \<subseteq> {..<n} \<and> dom (slots s) \<subseteq> {..<n} \<and> dom (slots s) \<inter> set av = {} \<and>
      (\<forall>a d. slots s a = Some d \<longrightarrow> dataTable (fac s) ! a = d) \<and> (\<forall>t. knows (pcs s t) av (dom (slots s)) n))"

lemma knows_free: "\<not> holds_AH p \<Longrightarrow> knows p av us n"
  by (cases p) auto

text \<open>A thread without \<^verbatim>\<open>AHMutex\<close> leaves table and free handles alone.\<close>

lemma adv_table_frame:
  assumes "adv ini fin mpi_handle dflt t s = Moved s'" and "\<not> holds_AH (pcs s t)"
  shows "dataTable (fac s') = dataTable (fac s)" "availableHandles (fac s') = availableHandles (fac s)" "slots s' = slots s"
  using assms
  by (cases "pcs s t"; auto simp: adv_simps newData_def upd_obj_def returnObj_def split: if_splits prod.splits)+

lemma table_adv:
  assumes "locks_inv s" and "table_inv s" and "adv ini fin mpi_handle dflt t s = Moved s'"
    and slot: "\<And>a. pcs s t = Free_read a \<Longrightarrow> a \<in> dom (slots s)"
  shows "table_inv s'"
proof -
  have pc: "pcs s' u = pcs s u" if "u \<noteq> t" for u
    using adv_locks(1) [OF assms(3)] assms(1) that fun_upd_other unfolding locks_inv_def by metis
  note T = assms(2) [unfolded table_inv_def Let_def]
  have kt: "knows (pcs s t) (availableHandles (fac s)) (dom (slots s)) (length (dataTable (fac s)))" using T by blast
  have used: "x < length (dataTable (fac s))" "x \<notin> set (availableHandles (fac s))" if "slots s x = Some d" for x d
    using T that by blast+
  show ?thesis
  proof (cases "holds_AH (pcs s t)")
    case False
    note fr = adv_table_frame [OF assms(3) False]
    have "knows (pcs s' t) (availableHandles (fac s)) (dom (slots s)) (length (dataTable (fac s)))"
      using assms(3) False by (cases "pcs s t") (auto simp: adv_simps split: if_splits prod.splits)
    then have "knows (pcs s' u) (availableHandles (fac s)) (dom (slots s)) (length (dataTable (fac s)))" for u
      using T pc by (cases "u = t") auto
    then show ?thesis using T fr by (simp add: table_inv_def Let_def)
  next
    case True
    have other: "knows (pcs s' u) av us n" if "u \<noteq> t" for u av us n
    proof -
      have "\<not> holds_AH (pcs s u)" using assms(1) True that by (auto simp: locks_inv_def)
      then show ?thesis using pc [OF that] knows_free by simp
    qed
    have "let av = availableHandles (fac s'); n = length (dataTable (fac s')) in
      distinct av \<and> set av \<subseteq> {..<n} \<and> dom (slots s') \<subseteq> {..<n} \<and> dom (slots s') \<inter> set av = {} \<and>
      (\<forall>a d. slots s' a = Some d \<longrightarrow> dataTable (fac s') ! a = d) \<and> knows (pcs s' t) av (dom (slots s')) n"
    proof (cases "pcs s t")
      case (New_take h d)
      then have k: "availableHandles (fac s) \<noteq> []" using T by (auto dest: spec [of _ t])
      then obtain xs a where a: "availableHandles (fac s) = xs @ [a]" by (cases "availableHandles (fac s)" rule: rev_cases) auto
      have s': "s' = goto t (New_unlock h d a) (s\<lparr>fac := fac s\<lparr>availableHandles := xs, dataTable := (dataTable (fac s))[a := d]\<rparr>,
          slots := (slots s)(a \<mapsto> d)\<rparr>)"
        using assms(3) New_take a by (simp add: adv_simps split: if_splits)
      show ?thesis using T a by (auto simp: s' goto_def nth_list_update Let_def)
    next
      case (Free_read a)
      have "a < length (dataTable (fac s))" using slot [OF Free_read] T by auto
      then show ?thesis using assms(3) Free_read T used slot [OF Free_read] by (auto simp: adv_simps releaseHandle_def split: if_splits)
    next
      case (Grow_fill h d k i)
      have k: "availableHandles (fac s) = [k..<i]" "dom (slots s) \<subseteq> {..<k}" "length (dataTable (fac s)) = k + 64" "k \<le> i" "i \<le> k + 64"
        using kt by (simp_all add: Grow_fill)
      show ?thesis
      proof (cases "i < k + 64")
        case True
        then have s': "s' = goto t (Grow_fill h d k (i + 1))
            (s\<lparr>fac := fac s\<lparr>dataTable := (dataTable (fac s))[i := 0], availableHandles := availableHandles (fac s) @ [i]\<rparr>\<rparr>)"
          using assms(3) Grow_fill by (simp add: adv_simps split: if_splits)
        have "(dataTable (fac s))[i := 0] ! a = dataTable (fac s) ! a" if "a < k" for a using that k(4) by simp
        then show ?thesis using T k True by (auto simp: s' goto_def Let_def subset_iff)
      next
        case False
        then have "s' = goto t (New_take h d) s" using assms(3) Grow_fill by (simp add: adv_simps)
        then show ?thesis using T k False by (auto simp: goto_def)
      qed
    next
      case (Grow_resize h d)
      have "availableHandles (fac s) = []" using T Grow_resize by (auto dest: spec [of _ t])
      then show ?thesis using assms(3) Grow_resize T used by (auto simp: adv_simps nth_append trans_less_add1)
    qed (use True assms(3) T kt in \<open>clarsimp simp: adv_simps split: if_splits\<close>)+
    then show ?thesis using other by (auto simp: table_inv_def Let_def) (metis other)
  qed
qed

section \<open>Objects and handles\<close>

text \<open>The object a thread has outside the table, and the handle it is making or giving back.\<close>

fun pc_obj :: "pc \<Rightarrow> nat option" where
  "pc_obj (New_lock h d) = Some d"
| "pc_obj (New_test h d) = Some d"
| "pc_obj (Grow_lock h d) = Some d"
| "pc_obj (Grow_resize h d) = Some d"
| "pc_obj (Grow_unlock h d k) = Some d"
| "pc_obj (Grow_fill h d k i) = Some d"
| "pc_obj (New_take h d) = Some d"
| "pc_obj (Free_unlock d) = Some d"
| "pc_obj (Free_fini d) = Some d"
| "pc_obj (Free_return d) = Some d"
| "pc_obj p = None"

fun pc_slot :: "pc \<Rightarrow> nat option" where
  "pc_slot (New_unlock h d a) = Some a"
| "pc_slot (New_init h d a) = Some a"
| "pc_slot (Free_lock a) = Some a"
| "pc_slot (Free_read a) = Some a"
| "pc_slot p = None"

fun made_slot :: "pc \<Rightarrow> (nat \<times> nat) option" where
  "made_slot (New_unlock h d a) = Some (a, d)"
| "made_slot (New_init h d a) = Some (a, d)"
| "made_slot p = None"

text \<open>Who has which object: a handle in use, or a thread; all others are in the pool.\<close>

definition objects_inv :: "'d conc \<Rightarrow> bool" where
  "objects_inv s \<longleftrightarrow>
     0 < block (fac s) \<and>
     (\<exists>U. sp_ok U (dpool (fac s)) \<and> ran (slots s) \<subseteq> U \<and> (\<forall>t d. pc_obj (pcs s t) = Some d \<longrightarrow> d \<in> U)) \<and>
     (\<forall>a b d. slots s a = Some d \<longrightarrow> slots s b = Some d \<longrightarrow> a = b) \<and>
     (\<forall>t d a. pc_obj (pcs s t) = Some d \<longrightarrow> slots s a \<noteq> Some d) \<and>
     (\<forall>t u d. pc_obj (pcs s t) = Some d \<longrightarrow> pc_obj (pcs s u) = Some d \<longrightarrow> t = u)"

text \<open>The handles the application holds stand for their MPI handles; nobody is making or freeing them.\<close>

definition handles_inv :: "('d \<Rightarrow> nat) \<Rightarrow> 'd conc \<Rightarrow> bool" where
  "handles_inv mpi_handle s \<longleftrightarrow>
     (\<forall>t a. pc_slot (pcs s t) = Some a \<longrightarrow> slots s a \<noteq> None \<and> owned s a = None) \<and>
     (\<forall>t u a. pc_slot (pcs s t) = Some a \<longrightarrow> pc_slot (pcs s u) = Some a \<longrightarrow> t = u) \<and>
     (\<forall>t a d. made_slot (pcs s t) = Some (a, d) \<longrightarrow> slots s a = Some d) \<and>
     (\<forall>a h. owned s a = Some h \<longrightarrow> (\<exists>d. slots s a = Some d \<and> mpi_handle (objs (fac s) d) = h)) \<and>
     (\<forall>t a. finds a (pcs s t) \<longrightarrow> owned s a \<noteq> None) \<and>
     (\<forall>t a m. pcs s t = Find_unlock a m \<longrightarrow> owned s a = Some m)"

lemma objects_frame:
  assumes "objects_inv s" and "slots s' = slots s" and "dpool (fac s') = dpool (fac s)" and "block (fac s') = block (fac s)"
    and "\<And>u. pc_obj (pcs s' u) = pc_obj (pcs s u)"
  shows "objects_inv s'"
  using assms by (simp add: objects_inv_def)

lemma objectsI:
  assumes "sp_ok U (dpool (fac s))" and "0 < block (fac s)" and "\<And>a d. slots s a = Some d \<Longrightarrow> d \<in> U"
    and "\<And>t d. pc_obj (pcs s t) = Some d \<Longrightarrow> d \<in> U" and "\<And>a b d. slots s a = Some d \<Longrightarrow> slots s b = Some d \<Longrightarrow> a = b"
    and "\<And>t d a. pc_obj (pcs s t) = Some d \<Longrightarrow> slots s a = Some d \<Longrightarrow> False"
    and "\<And>t u d. pc_obj (pcs s t) = Some d \<Longrightarrow> pc_obj (pcs s u) = Some d \<Longrightarrow> t = u"
  shows "objects_inv s"
  unfolding objects_inv_def using assms by (auto simp: ran_def intro!: exI [of _ U])

lemma objects_adv:
  assumes "objects_inv s" and "table_inv s" and "adv ini fin mpi_handle dflt t s = Moved s'"
    and "\<And>a. pcs s t = Free_read a \<Longrightarrow> slots s a \<noteq> None"
  shows "objects_inv s'"
proof -
  obtain U where U: "sp_ok U (dpool (fac s))" "ran (slots s) \<subseteq> U" "\<And>t d. pc_obj (pcs s t) = Some d \<Longrightarrow> d \<in> U"
    and blk: "0 < block (fac s)" and inj: "\<And>a b d. slots s a = Some d \<Longrightarrow> slots s b = Some d \<Longrightarrow> a = b"
    and out: "\<And>t d a. pc_obj (pcs s t) = Some d \<Longrightarrow> slots s a \<noteq> Some d"
    and one: "\<And>t u d. pc_obj (pcs s t) = Some d \<Longrightarrow> pc_obj (pcs s u) = Some d \<Longrightarrow> t = u"
    using assms(1) unfolding objects_inv_def by blast
  have slotU: "d \<in> U" if "slots s a = Some d" for a d using that U(2) by (auto intro: ranI)
  show ?thesis
  proof (cases "pcs s t")
    case (New_get h)
    obtain d f where n: "newData dflt (fac s) = (d, f)" by fastforce
    note k = newData_ok [OF U(1) blk n]
    have s': "s' = goto t (New_lock h d) (s\<lparr>fac := f\<rparr>)" using assms(3) New_get n by (simp add: adv_simps)
    have "d \<notin> U" "sp_ok (insert d U) (dpool f)" "block f = block (fac s)" using k by auto
    then show ?thesis
      using blk U(3) inj out one slotU by (intro objectsI [of "insert d U"]) (auto simp: s' goto_def split: if_splits)
  next
    case (New_take h d)
    define a where "a = last (availableHandles (fac s))"
    have s': "slots s' = (slots s)(a \<mapsto> d)" "dpool (fac s') = dpool (fac s)" "block (fac s') = block (fac s)"
      "pcs s' = (pcs s)(t := New_unlock h d a)"
      using assms(3) New_take by (auto simp: adv_simps a_def split: if_splits)
    have av: "availableHandles (fac s) \<noteq> []" using assms(3) New_take by (auto simp: adv_simps split: if_splits)
    have d: "d \<in> U" "\<And>b. slots s b \<noteq> Some d" using U(3) [of t] out [of t] New_take by auto
    have "pc_obj (pcs s u) = Some d \<Longrightarrow> u = t" for u using one [of t d u] New_take by auto
    then show ?thesis
      using blk U(1,3) inj out one d slotU by (intro objectsI [of U]) (auto simp: s' split: if_splits)
  next
    case (Free_read a)
    define d where "d = dataTable (fac s) ! a"
    have d: "slots s a = Some d" using assms(2) assms(4) [OF Free_read] by (auto simp: table_inv_def Let_def d_def)
    have s': "slots s' = (slots s)(a := None)" "dpool (fac s') = dpool (fac s)" "block (fac s') = block (fac s)"
      "pcs s' = (pcs s)(t := Free_unlock d)"
      using assms(3) Free_read by (auto simp: adv_simps d_def releaseHandle_def split: if_splits)
    have "slots s b = Some d \<Longrightarrow> b = a" for b using inj d by blast
    then show ?thesis
      using blk U(1,3) inj out one d slotU by (intro objectsI [of U]) (auto simp: s' split: if_splits)
  next
    case (Free_return d)
    have s': "s' = goto t Idle (s\<lparr>fac := returnObj d (fac s)\<rparr>)" using assms(3) Free_return by (simp add: adv_simps)
    have d: "d \<in> U" "\<And>b. slots s b \<noteq> Some d" using U(3) [of t] out [of t] Free_return by auto
    have "pc_obj (pcs s u) = Some x \<Longrightarrow> u \<noteq> t \<Longrightarrow> x \<in> U - {d}" for u x using U(3) one [of t d u] Free_return by auto
    then show ?thesis
      using blk inj out one slotU d(2) sp_returnData_ok [OF U(1) d(1)]
      by (intro objectsI [of "U - {d}"]) (auto simp: s' goto_def returnObj_def split: if_splits)
  qed (rule objects_frame [OF assms(1)]; use assms(3) in \<open>auto simp: adv_simps upd_obj_def split: if_splits\<close>)+
qed

lemma made_pc_slot: "made_slot p = Some (a, d) \<Longrightarrow> pc_slot p = Some a"
  by (cases p) auto

lemma handles_frame:
  assumes "handles_inv mpi_handle s" and "slots s' = slots s" and "owned s' = owned s" and "pcs s' = (pcs s)(t := p)"
    and "\<And>a d. slots s a = Some d \<Longrightarrow> mpi_handle (objs (fac s') d) = mpi_handle (objs (fac s) d)"
    and "pc_slot p = None \<or> pc_slot p = pc_slot (pcs s t)" and "made_slot p = None \<or> made_slot p = made_slot (pcs s t)"
    and "\<And>a. finds a p \<Longrightarrow> finds a (pcs s t)" and "\<And>a m. p = Find_unlock a m \<Longrightarrow> owned s a = Some m"
  shows "handles_inv mpi_handle s'"
proof -
  note H = assms(1) [unfolded handles_inv_def]
  have "pc_slot (pcs s' u) = Some a \<longrightarrow> pc_slot (pcs s u) = Some a" for u a using assms(6) by (auto simp: assms(4))
  moreover have "made_slot (pcs s' u) = Some (a, d) \<longrightarrow> made_slot (pcs s u) = Some (a, d)" for u a d
    using assms(7) by (auto simp: assms(4))
  moreover have "finds a (pcs s' u) \<longrightarrow> finds a (pcs s u)" for u a using assms(8) by (auto simp: assms(4))
  moreover have "pcs s' u = Find_unlock a m \<longrightarrow> owned s a = Some m" for u a m 
  proof (cases "u = t")
    case False
    then show ?thesis using H by (simp add: assms(4))
  qed (use assms(9) in \<open>simp add: assms(4)\<close>)
  moreover have "owned s a = Some h \<longrightarrow> (\<exists>d. slots s a = Some d \<and> mpi_handle (objs (fac s') d) = h)" for a h
  proof
    assume "owned s a = Some h"
    then obtain d where "slots s a = Some d" "mpi_handle (objs (fac s) d) = h" using H by blast
    then show "\<exists>d. slots s a = Some d \<and> mpi_handle (objs (fac s') d) = h" using assms(5) by auto
  qed
  ultimately show ?thesis unfolding handles_inv_def assms(2,3) using H by meson
qed

lemma handles_adv:
  assumes "handles_inv mpi_handle s" and "objects_inv s" and "table_inv s" and "locks_inv s"
    and "adv ini fin mpi_handle dflt t s = Moved s'" and "\<And>h x. mpi_handle (ini h x) = h"
  shows "handles_inv mpi_handle s'"
proof -
  note H = assms(1) [unfolded handles_inv_def]
  have objs_part: "objs (fac s') d = objs (fac s) d" if "slots s a = Some d" "\<forall>h e b. pcs s t \<noteq> New_init h e b" for a d
  proof -
    obtain U where U: "sp_ok U (dpool (fac s))" "ran (slots s) \<subseteq> U" "0 < block (fac s)"
      using assms(2) unfolding objects_inv_def by blast
    have d: "d \<in> U" "pc_obj (pcs s t) \<noteq> Some d"
      using assms(2) that(1) U(2) unfolding objects_inv_def by (auto intro: ranI)
    show ?thesis
    proof (cases "pcs s t")
      case (New_get h)
      obtain e f where n: "newData dflt (fac s) = (e, f)" by fastforce
      then show ?thesis using newData_ok [OF U(1,3) n] d(1) New_get assms(5) by (auto simp: adv_simps)
    qed (use assms(5) that(2) d(2) in \<open>auto simp: adv_simps upd_obj_def returnObj_def releaseHandle_def split: if_splits\<close>)
  qed
  show ?thesis
  proof (cases "pcs s t")
    case (New_take h d)
    define a where "a = last (availableHandles (fac s))"
    have s': "slots s' = (slots s)(a \<mapsto> d)" "owned s' = owned s" "pcs s' = (pcs s)(t := New_unlock h d a)"
      "objs (fac s') = objs (fac s)" and av: "availableHandles (fac s) \<noteq> []"
      using assms(5) New_take by (auto simp: adv_simps a_def split: if_splits)
    have "a \<in> set (availableHandles (fac s))" using av by (simp add: a_def)
    then have "slots s a = None" using assms(3) by (auto simp: table_inv_def Let_def)
    moreover have "owned s a = None" using H calculation by (metis option.exhaust option.simps(3))
    moreover have "pc_slot (pcs s u) \<noteq> Some a" for u using H calculation(1) by metis
    ultimately show ?thesis using H unfolding handles_inv_def s' by (auto simp: New_take split: if_splits)
  next
    case (Free_read a)
    define d where "d = dataTable (fac s) ! a"
    have s': "slots s' = (slots s)(a := None)" "owned s' = owned s" "pcs s' = (pcs s)(t := Free_unlock d)"
      "objs (fac s') = objs (fac s)"
      using assms(5) Free_read by (auto simp: adv_simps d_def releaseHandle_def split: if_splits)
    have "pc_slot (pcs s t) = Some a" using Free_read by simp
    then have "owned s a = None" "\<And>u. pc_slot (pcs s u) = Some a \<Longrightarrow> u = t" "\<And>u e. made_slot (pcs s u) = Some (a, e) \<Longrightarrow> u = t"
      using H made_pc_slot by blast+
    then show ?thesis using H unfolding handles_inv_def s' by (auto split: if_splits)
  next
    case (New_init h d a)
    have s': "slots s' = slots s" "owned s' = (owned s)(a \<mapsto> h)" "pcs s' = (pcs s)(t := Idle)"
      "objs (fac s') = (objs (fac s))(d := ini h (objs (fac s) d))"
      using assms(5) New_init by (auto simp: adv_simps upd_obj_def)
    have "pc_slot (pcs s t) = Some a" "made_slot (pcs s t) = Some (a, d)" using New_init by simp_all
    then have d: "slots s a = Some d" "owned s a = None" "\<And>u. pc_slot (pcs s u) = Some a \<Longrightarrow> u = t" using H by blast+
    have "slots s b = Some d \<Longrightarrow> b = a" for b using assms(2) d(1) unfolding objects_inv_def by blast
    then have other: "e \<noteq> d" if "slots s b = Some e" "b \<noteq> a" for b e using that by blast
    have "\<exists>e. slots s b = Some e \<and> mpi_handle (objs (fac s') e) = m" if own: "owned s' b = Some m" for b m
    proof (cases "b = a")
      case True
      then show ?thesis using d(1) assms(6) own by (simp add: s')
    next
      case False
      then have "owned s b = Some m" using own by (simp add: s')
      then obtain e where "slots s b = Some e" "mpi_handle (objs (fac s) e) = m" using H by blast
      then show ?thesis using other [OF _ False] by (simp add: s')
    qed
    moreover have "pc_slot (pcs s' u) = Some b \<longrightarrow> pc_slot (pcs s u) = Some b \<and> b \<noteq> a" for u b
    proof (cases "u = t")
      case False
      then have "pc_slot (pcs s u) \<noteq> Some a" using d(3) by blast
      then show ?thesis using False by (auto simp: s'(3))
    qed (simp add: s'(3))
    moreover have "made_slot (pcs s' u) = Some (b, e) \<longrightarrow> made_slot (pcs s u) = Some (b, e)" "finds b (pcs s' u) \<longrightarrow> finds b (pcs s u)"
      "pcs s' u = Find_unlock b m \<longrightarrow> pcs s u = Find_unlock b m" for u b e m
      by (simp_all add: s'(3))
    moreover have "owned s' b \<noteq> None" if "owned s b \<noteq> None" for b using that by (simp add: s')
    moreover have "owned s' b = owned s b" if "b \<noteq> a" for b using that by (simp add: s')
    moreover have "b \<noteq> a" if "owned s b = Some m" for b m using that d(2) by auto
    ultimately show ?thesis using H unfolding handles_inv_def s'(1) by (intro conjI allI impI) metis+
  next
    case (Find_read a)
    obtain m e where m: "owned s a = Some m" "slots s a = Some e" "mpi_handle (objs (fac s) e) = m" using H Find_read by (metis finds.simps(2) option.exhaust)
    then have "dataTable (fac s) ! a = e" using assms(3) by (auto simp: table_inv_def Let_def)
    then have "s' = goto t (Find_unlock a m) s" using assms(5) Find_read m by (simp add: adv_simps split: if_splits)
    then show ?thesis by (intro handles_frame [OF assms(1), where t = t and p = "Find_unlock a m"]) (auto simp: goto_def Find_read m)
  qed ((rule handles_frame [OF assms(1), where t = t and p = "pcs s' t"]; use assms(5) objs_part in
        \<open>auto simp: adv_simps split: if_splits prod.splits\<close>)+)
qed

section \<open>Reachable states\<close>

definition factory_inv :: "('d \<Rightarrow> nat) \<Rightarrow> 'd conc \<Rightarrow> bool" where
  "factory_inv mpi_handle s \<longleftrightarrow> locks_inv s \<and> table_inv s \<and> objects_inv s \<and> handles_inv mpi_handle s"

lemma factory_inv_new: "0 < blk \<Longrightarrow> factory_inv mpi_handle (conc_new pre null blk dflt)"
  by (auto simp: factory_inv_def locks_inv_def table_inv_def objects_inv_def handles_inv_def conc_new_def factory_new_def
      sp_ok_def shared_pool_new_def Let_def intro!: exI [of _ "{}"])

lemma freed_in_use: "handles_inv mpi_handle s \<Longrightarrow> pcs s t = Free_read a \<Longrightarrow> slots s a \<noteq> None"
  unfolding handles_inv_def by (metis pc_slot.simps(4))

lemma factory_inv_adv:
  assumes "factory_inv mpi_handle s" and "adv ini fin mpi_handle dflt t s = Moved s'" and "\<And>h x. mpi_handle (ini h x) = h"
  shows "factory_inv mpi_handle s'"
proof -
  have i: "locks_inv s" "table_inv s" "objects_inv s" "handles_inv mpi_handle s" using assms(1) by (simp_all add: factory_inv_def)
  note u = freed_in_use [OF i(4)]
  show ?thesis
    unfolding factory_inv_def
    using locks_adv [OF i(1) assms(2)] table_adv [OF i(1,2) assms(2)] objects_adv [OF i(3,2) assms(2)]
      handles_adv [OF i(4,3,2,1) assms(2,3)] u by blast
qed

lemma factory_inv_call:
  assumes "factory_inv mpi_handle s" and "pcs s t = Idle" and "allowed c s"
  shows "factory_inv mpi_handle (begin_call t c s)"
proof -
  have i: "locks_inv s" "table_inv s" "objects_inv s" "handles_inv mpi_handle s" using assms(1) by (simp_all add: factory_inv_def)
  note H = i(4) [unfolded handles_inv_def]
  have keep: "table_inv (goto t p (s\<lparr>owned := m\<rparr>)) \<and> objects_inv (goto t p (s\<lparr>owned := m\<rparr>))"
    if "\<not> holds_AH p" "pc_obj p = None" for p m
    using i(2,3) that assms(2) knows_free [OF that(1)]
    by (auto simp: table_inv_def objects_inv_def goto_def Let_def)
  have H': "handles_inv mpi_handle (begin_call t c s)"
  proof (cases c)
    case (Call_free a)
    show ?thesis
    proof (cases "isPredefined a (fac s)")
      case False
      then obtain h where a: "owned s a = Some h" "\<And>u. \<not> finds a (pcs s u)" using assms(3) Call_free by (auto simp: allowed_def)
      have "pc_slot (pcs s u) \<noteq> Some a" "\<And>m. pcs s u \<noteq> Find_unlock a m" for u using H a by (auto, metis finds.simps(3))
      moreover have "\<exists>d. slots s a = Some d" using H a(1) by blast
      ultimately show ?thesis
        using H a assms(2) False Call_free unfolding handles_inv_def by (auto simp: begin_call_def goto_def split: if_splits)
    qed (use i(4) Call_free in \<open>simp add: begin_call_def\<close>)
  next
    case (Call_get a)
    then show ?thesis
      using H assms(2,3) i(4) unfolding handles_inv_def by (auto simp: begin_call_def goto_def allowed_def split: if_splits)
  qed (use H assms(2) i(4) in \<open>auto simp: begin_call_def goto_def handles_inv_def split: if_splits\<close>)
  have "table_inv (begin_call t c s) \<and> objects_inv (begin_call t c s)"
    using keep [of _ "owned s"] keep i(2,3) by (cases c) (auto simp: begin_call_def)
  then show ?thesis using H' locks_call [OF i(1) assms(2)] by (simp add: factory_inv_def)
qed

lemma factory_inv_reach:
  assumes "creach ini fin mpi_handle dflt (conc_new pre null blk dflt) s" and "0 < blk" and "\<And>h x. mpi_handle (ini h x) = h"
  shows "factory_inv mpi_handle s"
  using assms(1)
proof induction
  case (Advance s t s')
  then show ?case using factory_inv_adv [of mpi_handle s ini fin dflt t s'] assms(3) by blast
next
  case Start
  show ?case by (rule factory_inv_new [OF assms(2)])
next
  case (Call s t c)
  then show ?case using factory_inv_call by blast
qed

section \<open>Claims\<close>

lemma adv_no_fault:
  assumes "factory_inv mpi_handle s"
  shows "adv ini fin mpi_handle dflt t s \<noteq> Fault"
proof -
  have i: "locks_inv s" "table_inv s" "handles_inv mpi_handle s" using assms by (simp_all add: factory_inv_def)
  note T = i(2) [unfolded table_inv_def Let_def]
  have kt: "knows (pcs s t) (availableHandles (fac s)) (dom (slots s)) (length (dataTable (fac s)))" using T by blast
  have used: "slots s a \<noteq> None \<Longrightarrow> a < length (dataTable (fac s))" for a using T by blast
  have calm: "\<not> resizing s" if "holds_AH (pcs s t) \<or> reads_DT (pcs s t)" "\<forall>h d. pcs s t \<noteq> Grow_resize h d"
    using resizing_alone [OF i(1)] that by blast
  show ?thesis
  proof (cases "pcs s t")
    case (New_take h d)
    have "availableHandles (fac s) \<noteq> []" using kt New_take by simp
    then have "last (availableHandles (fac s)) < length (dataTable (fac s))" using T last_in_set by blast
    then show ?thesis using New_take calm kt by (simp add: adv_simps)
  next
    case (Free_read a)
    then show ?thesis using calm used [OF freed_in_use [OF i(3) Free_read]] by (simp add: adv_simps)
  next
    case (Find_read a)
    have "owned s a \<noteq> None" using i(3) Find_read unfolding handles_inv_def by (metis finds.simps(2))
    then have "slots s a \<noteq> None" using i(3) unfolding handles_inv_def by (metis option.exhaust option.distinct(1))
    then show ?thesis using Find_read calm used by (simp add: adv_simps)
  qed (use kt calm in \<open>auto simp: adv_simps split: prod.splits\<close>)
qed

text \<open>A thread can go on unless it waits for a lock that another thread holds.\<close>

lemma adv_progress:
  assumes "factory_inv mpi_handle s" and "pcs s t \<noteq> Idle"
  shows "\<exists>u s'. adv ini fin mpi_handle dflt u s = Moved s'"
proof -
  have l: "locks_inv s" using assms(1) by (simp add: factory_inv_def)
  note nf = adv_no_fault [OF assms(1), of ini fin dflt]
  have free: "\<exists>s'. adv ini fin mpi_handle dflt u s = Moved s'"
    if "adv ini fin mpi_handle dflt u s \<noteq> Blocked" for u using nf [of u] that by (cases "adv ini fin mpi_handle dflt u s") auto
  have reader: "adv ini fin mpi_handle dflt u s \<noteq> Blocked" if "reads_DT (pcs s u)" for u
    using that by (cases "pcs s u") (auto simp: adv_simps)
  have holder: "adv ini fin mpi_handle dflt u s \<noteq> Blocked" if "holds_AH (pcs s u)" "DTshared s = {}" for u
  proof -
    have "DTMutex s = None \<or> DTMutex s = Some u"
      using l that(1) holds_DT_AH unfolding locks_inv_def by (metis not_None_eq option.inject)
    moreover have "DTMutex s = Some u \<longleftrightarrow> holds_DT (pcs s u)" using l by (simp add: locks_inv_def)
    ultimately show ?thesis using that by (cases "pcs s u") (auto simp: adv_simps)
  qed
  show ?thesis
  proof (cases "AHMutex s")
    case (Some u)
    then have u: "holds_AH (pcs s u)" using l by (simp add: locks_inv_def)
    show ?thesis
    proof (cases "DTshared s = {}")
      case False
      then obtain r where "reads_DT (pcs s r)" using l by (auto simp: locks_inv_def)
      then show ?thesis using free reader by blast
    qed (use free holder u in blast)
  next
    case None
    then have "DTMutex s = None" using l holds_DT_AH unfolding locks_inv_def by (metis option.exhaust option.distinct(1))
    then have "adv ini fin mpi_handle dflt t s \<noteq> Blocked"
      using None assms(2) l unfolding locks_inv_def by (cases "pcs s t") (auto simp: adv_simps split: prod.splits dest!: spec [of _ t])
    then show ?thesis using free by blast
  qed
qed

text \<open>
  C16: The two mutexes of an integer handle factory are enough for any number of threads, although the stores into the table do
  not take the mutex of the table.  Whatever the interleaving: the table is never accessed while it is resized, nor outside its
  bounds; a lookup of a handle the application holds gives the MPI handle it was made for; and a handle that is about
  to be returned is held by nobody.
\<close>

theorem factory_threads_safe:
  assumes "creach ini fin mpi_handle dflt (conc_new pre null blk dflt) s" and "0 < blk" and "\<And>h x. mpi_handle (ini h x) = h"
  shows "adv ini fin mpi_handle dflt t s \<noteq> Fault \<and> (\<forall>a m. pcs s t = Find_unlock a m \<longrightarrow> owned s a = Some m) \<and>
         (\<forall>h d a. pcs s t = New_init h d a \<longrightarrow> owned s a = None)"
proof -
  have i: "factory_inv mpi_handle s" using factory_inv_reach [OF assms(1,2)] assms(3) by blast
  then have H: "handles_inv mpi_handle s" by (simp add: factory_inv_def)
  have "owned s a = None" if "pcs s t = New_init h d a" for h d a
    using H that unfolding handles_inv_def by (metis pc_slot.simps(2))
  moreover have "owned s a = Some m" if "pcs s t = Find_unlock a m" for a m
    using H that unfolding handles_inv_def by blast
  ultimately show ?thesis using adv_no_fault [OF i, of ini fin dflt t] by simp
qed

text \<open>
  C17: The threads of a factory never block each other: as long as a call is going on, some thread can take a step.
\<close>

theorem factory_no_deadlock:
  assumes "creach ini fin mpi_handle dflt (conc_new pre null blk dflt) s" and "0 < blk" and "\<And>h x. mpi_handle (ini h x) = h"
    and "pcs s t \<noteq> Idle"
  shows "\<exists>u s'. adv ini fin mpi_handle dflt u s = Moved s'"
  using adv_progress [OF factory_inv_reach [OF assms(1,2)] assms(4)] assms(3) by blast

section \<open>The sequential model\<close>

text \<open>The threads move in the given order.\<close>

fun moves :: "(nat \<Rightarrow> 'd \<Rightarrow> 'd) \<Rightarrow> ('d \<Rightarrow> 'd) \<Rightarrow> ('d \<Rightarrow> nat) \<Rightarrow> 'd \<Rightarrow> nat list \<Rightarrow> 'd conc \<Rightarrow> 'd conc option" where
  "moves ini fin mpi_handle dflt [] s = Some s"
| "moves ini fin mpi_handle dflt (t # ts) s =
     (case adv ini fin mpi_handle dflt t s of Moved s' \<Rightarrow> moves ini fin mpi_handle dflt ts s' | _ \<Rightarrow> None)"

lemma moves_reach:
  "creach ini fin mpi_handle dflt s0 s \<Longrightarrow> moves ini fin mpi_handle dflt ts s = Some s' \<Longrightarrow> creach ini fin mpi_handle dflt s0 s'"
  by (induction ts arbitrary: s) (auto split: move.splits intro: creach.Advance)

lemma moves_append:
  "moves ini fin mpi_handle dflt (xs @ ys) s =
     (case moves ini fin mpi_handle dflt xs s of None \<Rightarrow> None | Some s' \<Rightarrow> moves ini fin mpi_handle dflt ys s')"
  by (induction xs arbitrary: s) (auto split: move.split)

text \<open>The loop of \<^verbatim>\<open>newAH\<close> that enters the new handles.\<close>

lemma moves_fill:
  assumes "pcs s t = Grow_fill h d k i" and "k \<le> i" and "i \<le> k + 64" and "\<not> resizing s"
    and "dataTable (fac s) = tab @ replicate 64 0" and "length tab = k" and "availableHandles (fac s) = [k..<i]"
  shows "moves ini fin mpi_handle dflt (replicate (k + 64 - i) t) s =
           Some (goto t (Grow_fill h d k (k + 64)) (s\<lparr>fac := fac s\<lparr>availableHandles := [k..<k + 64]\<rparr>\<rparr>))"
  using assms
proof (induction "k + 64 - i" arbitrary: i s)
  case 0
  then have "i = k + 64" by simp
  then show ?case using 0 by (auto simp: goto_def fun_eq_iff intro!: conc.equality factory.equality)
next
  case (Suc n)
  have i: "i < k + 64" "k + 64 - i = Suc (k + 64 - Suc i)" "n = k + 64 - Suc i" using Suc.hyps(2) by simp_all
  define s1 where "s1 = goto t (Grow_fill h d k (Suc i)) (s\<lparr>fac := fac s\<lparr>availableHandles := [k..<Suc i]\<rparr>\<rparr>)"
  have zero: "(tab @ replicate 64 0)[i := 0] = tab @ replicate 64 0"
    using Suc.prems(2,6) i(1) by (simp add: list_update_append list_update_same_conv)
  have a: "adv ini fin mpi_handle dflt t s = Moved s1"
    using Suc.prems i(1) zero by (auto simp: adv_simps s1_def intro!: conc.equality factory.equality)
  have "moves ini fin mpi_handle dflt (replicate (k + 64 - Suc i) t) s1 =
      Some (goto t (Grow_fill h d k (k + 64)) (s1\<lparr>fac := fac s1\<lparr>availableHandles := [k..<k + 64]\<rparr>\<rparr>))"
    using Suc.prems i by (intro Suc.hyps(1)) (simp_all add: s1_def goto_def)
  then show ?case unfolding i(2) using a by (simp add: s1_def goto_def)
qed

text \<open>
  C18: What a thread does under \<^verbatim>\<open>AHMutex\<close> to get a handle, step by step and with the table's mutex taken for the resize
  alone, is what the sequential model of the factory does at once.
\<close>

theorem locked_section_takes_handle:
  assumes "pcs s t = New_test h d" and "DTMutex s = None" and "DTshared s = {}" and "\<not> resizing s" and "table_ok (fac s)"
  shows "\<exists>n a s'. moves ini fin mpi_handle dflt (replicate n t) s = Some s' \<and> pcs s' t = New_unlock h d a \<and>
           takeHandle d (fac s) = Some (a, fac s') \<and> DTMutex s' = None \<and> \<not> resizing s'"
proof -
  let ?m = "moves ini fin mpi_handle dflt"
  have take: "\<exists>a s'. ?m [t] s1 = Some s' \<and> pcs s' t = New_unlock h d a \<and> takeHandle d (fac s1) = Some (a, fac s') \<and>
      DTMutex s' = DTMutex s1 \<and> \<not> resizing s'"
    if "pcs s1 t = New_take h d" "availableHandles (fac s1) \<noteq> []" "\<not> resizing s1" "table_ok (fac s1)" for s1
  proof -
    have "last (availableHandles (fac s1)) < length (dataTable (fac s1))" using that(4) last_in_set [OF that(2)] by (auto simp: table_ok_def)
    then show ?thesis using that by (simp add: adv_simps takeHandle_def)
  qed
  show ?thesis
  proof (cases "availableHandles (fac s) = []")
    case False
    define s1 where "s1 = goto t (New_take h d) s"
    have "?m [t] s = Some s1" using assms(1) False by (simp add: adv_simps s1_def)
    moreover obtain a s' where "?m [t] s1 = Some s'" "pcs s' t = New_unlock h d a" "takeHandle d (fac s1) = Some (a, fac s')"
        "DTMutex s' = DTMutex s1" "\<not> resizing s'"
      using take [of s1] False assms(4,5) by (auto simp: s1_def goto_def)
    ultimately have "?m (replicate 2 t) s = Some s'" "takeHandle d (fac s) = Some (a, fac s')" "DTMutex s' = None"
      using moves_append [of ini fin mpi_handle dflt "[t]" "[t]" s] assms(2) by (simp_all add: numeral_2_eq_2 s1_def goto_def)
    then show ?thesis using \<open>pcs s' t = _\<close> \<open>\<not> resizing s'\<close> by blast
  next
    case True
    let ?k = "length (dataTable (fac s))"
    define s1 where "s1 = goto t (Grow_fill h d ?k ?k) (s\<lparr>fac := fac s\<lparr>dataTable := dataTable (fac s) @ replicate 64 0\<rparr>\<rparr>)"
    have m1: "?m [t, t, t, t] s = Some s1"
      using assms True by (auto simp: adv_simps s1_def intro!: conc.equality)
    define s2 where "s2 = goto t (Grow_fill h d ?k (?k + 64)) (s1\<lparr>fac := newAH (fac s)\<rparr>)"
    have m2: "?m (replicate 64 t) s1 = Some s2"
      using moves_fill [of s1 t h d ?k ?k "dataTable (fac s)" ini fin mpi_handle dflt] assms(4) True
      by (simp add: s1_def s2_def goto_def newAH_def Let_def)
    define s3 where "s3 = goto t (New_take h d) s2"
    have m3: "?m [t] s2 = Some s3" by (simp add: s2_def s3_def adv_simps)
    have "table_ok (newAH (fac s))" using assms(5) by (auto simp: table_ok_def newAH_def Let_def)
    then obtain a s' where s': "?m [t] s3 = Some s'" "pcs s' t = New_unlock h d a" "takeHandle d (newAH (fac s)) = Some (a, fac s')"
        "DTMutex s' = DTMutex s3" "\<not> resizing s'"
      using take [of s3] assms(4) by (auto simp: s3_def s2_def s1_def goto_def newAH_def Let_def)
    have "takeHandle d (fac s) = takeHandle d (newAH (fac s))" using True by (simp add: takeHandle_def newAH_def Let_def)
    moreover have "?m ([t, t, t, t] @ replicate 64 t @ [t] @ [t]) s = Some s'"
      unfolding moves_append using m1 m2 m3 s'(1) by simp
    moreover have "[t, t, t, t] @ replicate 64 t @ [t] @ [t] = replicate 70 t"
      by (simp add: numeral_eq_Suc)
    ultimately have "?m (replicate 70 t) s = Some s'" "takeHandle d (fac s) = Some (a, fac s')" using s'(3) by metis+
    moreover have "DTMutex s' = None" using s'(4) assms(2) by (simp add: s3_def s2_def s1_def goto_def)
    ultimately show ?thesis using s'(2,5) by blast
  qed
qed

section \<open>Witnesses\<close>

text \<open>
  The data is the MPI handle itself.  Thread 0 makes a handle for 500, after which thread 1 looks it up while thread 0
  makes one for 501.
\<close>

abbreviation "ex_moves \<equiv> moves (\<lambda>h _. h) (\<lambda>d. d) (\<lambda>d. d) (0 :: nat)"

definition first_call :: "nat conc" where
  "first_call = begin_call 0 (Call_new 500) (conc_new [1000] 1000 4 0)"

lemma first_call_reach: "creach (\<lambda>h _. h) (\<lambda>d. d) (\<lambda>d. d) 0 (conc_new [1000] 1000 4 0) first_call"
  unfolding first_call_def by (rule creach.Call [OF creach.Start]) (simp_all add: conc_new_def allowed_def)

lemmas example_simps = first_call_def begin_call_def conc_new_def factory_new_def isPredefined_def adv_simps newData_def
  sp_getData_def sp_newDatas_def shared_pool_new_def upt_rec upd_obj_def

lemma grown:
  obtains s where "ex_moves [0, 0, 0, 0, 0, 0] first_call = Some s" "pcs s 0 = Grow_fill 500 4 0 0" "\<not> resizing s"
    "dataTable (fac s) = replicate 64 0" "availableHandles (fac s) = []" "AHMutex s = Some 0" "DTMutex s = None" "DTshared s = {}"
    "predefined (fac s) = [1000]" "pcs s 1 = Idle" "owned s = Map.empty"
  by (simp add: example_simps)

text \<open>Thread 0 has its handle, is in its second call, and thread 1 has read the table.\<close>

lemma found:
  obtains s where "creach (\<lambda>h _. h) (\<lambda>d. d) (\<lambda>d. d) 0 (conc_new [1000] 1000 4 0) s" "pcs s 1 = Find_unlock 63 500" "pcs s 0 = New_get 501"
    "owned s 63 = Some 500"
proof -
  obtain s where s: "ex_moves [0, 0, 0, 0, 0, 0] first_call = Some s" "pcs s 0 = Grow_fill 500 4 0 0" "\<not> resizing s"
    "dataTable (fac s) = replicate 64 0" "availableHandles (fac s) = []" "AHMutex s = Some 0" "DTMutex s = None" "DTshared s = {}"
    "predefined (fac s) = [1000]" "pcs s 1 = Idle" "owned s = Map.empty" by (rule grown)
  define s1 where "s1 = goto 0 (Grow_fill 500 4 0 64) (s\<lparr>fac := fac s\<lparr>availableHandles := [0..<64]\<rparr>\<rparr>)"
  have m1: "ex_moves (replicate 64 0) s = Some s1" using moves_fill [OF s(2) _ _ s(3), of "[]"] s(4,5) by (simp add: s1_def)
  have up: "[0..<64] = [0..<63] @ [63 :: nat]" using upt_Suc_append [of 0 63] by simp
  obtain s2 where m2: "ex_moves [0, 0, 0, 0] s1 = Some s2" "pcs s2 0 = Idle" "pcs s2 1 = Idle" "owned s2 63 = Some 500"
      "dataTable (fac s2) ! 63 = 4" "objs (fac s2) 4 = 500" "length (dataTable (fac s2)) = 64" "predefined (fac s2) = [1000]"
      "DTMutex s2 = None" "\<not> resizing s2"
    using s by (simp add: s1_def adv_simps up butlast_append upd_obj_def)
  have r2: "creach (\<lambda>h _. h) (\<lambda>d. d) (\<lambda>d. d) 0 (conc_new [1000] 1000 4 0) s2"
    using moves_reach [OF moves_reach [OF moves_reach [OF first_call_reach s(1)] m1] m2(1)] .
  define s3 where "s3 = begin_call 1 (Call_get 63) (begin_call 0 (Call_new 501) s2)"
  have r3: "creach (\<lambda>h _. h) (\<lambda>d. d) (\<lambda>d. d) 0 (conc_new [1000] 1000 4 0) s3"
    unfolding s3_def using m2 by (intro creach.Call [OF creach.Call [OF r2]])
      (auto simp: begin_call_def goto_def allowed_def isPredefined_def)
  obtain s4 where s4: "ex_moves [1, 1] s3 = Some s4" "pcs s4 1 = Find_unlock 63 500" "pcs s4 0 = New_get 501" "owned s4 63 = Some 500"
    using m2 by (simp add: s3_def begin_call_def isPredefined_def adv_simps)
  show ?thesis by (rule that [OF moves_reach [OF r3 s4(1)] s4(2-4)])
qed

theorem factory_threads_safe_witness:
  "\<exists>s. creach (\<lambda>h _. h) (\<lambda>d. d) (\<lambda>d. d) 0 (conc_new [1000] 1000 4 0) s \<and> adv (\<lambda>h _. h) (\<lambda>d. d) (\<lambda>d. d) 0 1 s \<noteq> Fault \<and>
     pcs s 1 = Find_unlock 63 500 \<and> owned s 63 = Some 500"
proof -
  obtain s where s: "creach (\<lambda>h _. h) (\<lambda>d. d) (\<lambda>d. d) 0 (conc_new [1000] 1000 4 0) s" "pcs s 1 = Find_unlock 63 500" by (rule found)
  show ?thesis using factory_threads_safe [OF s(1), of 1] s by auto
qed

theorem factory_no_deadlock_witness:
  "\<exists>s u s'. creach (\<lambda>h _. h) (\<lambda>d. d) (\<lambda>d. d) 0 (conc_new [1000] 1000 4 0) s \<and> pcs s 0 = New_get 501 \<and>
     adv (\<lambda>h _. h) (\<lambda>d. d) (\<lambda>d. d) 0 u s = Moved s'"
proof -
  obtain s where s: "creach (\<lambda>h _. h) (\<lambda>d. d) (\<lambda>d. d) 0 (conc_new [1000] 1000 4 0) s" "pcs s 0 = New_get 501" by (rule found)
  show ?thesis using factory_no_deadlock [OF s(1), of 0] s by auto
qed

theorem locked_section_takes_handle_witness:
  "\<exists>s n a s'. ex_moves [0, 0] first_call = Some s \<and> ex_moves (replicate n 0) s = Some s' \<and> pcs s' 0 = New_unlock 500 4 a \<and>
     takeHandle 4 (fac s) = Some (a, fac s')"
proof -
  obtain s where s: "ex_moves [0, 0] first_call = Some s" "pcs s 0 = New_test 500 4" "DTMutex s = None" "DTshared s = {}" "\<not> resizing s"
      "table_ok (fac s)"
    by (simp add: example_simps table_ok_def)
  show ?thesis using locked_section_takes_handle [OF s(2-6), of "\<lambda>h _. h" "\<lambda>d. d" "\<lambda>d. d" 0] s(1) by blast
qed

end
