(* ===== verification/Cpt_Debug.thy ===== *)
theory Cpt_Debug
  imports Cpt_Flags "HOL-Library.Monad_Syntax"
begin

text \<open>
  \<^verbatim>\<open>StackStreamBuffer\<close> (\<^verbatim>\<open>include/containers.h\<close>) and the failing assertions that print through it
  (\<^verbatim>\<open>include/debug.h\<close>, \<^verbatim>\<open>src/debug.cpp\<close>).  The buffer is the memory behind a pointer, which may be null;
  a write outside it is \<^const>\<open>None\<close>.  Capacity and position are \<^verbatim>\<open>size_t\<close> values with their
  wrap-around.  The stack trace the system gives is an argument.
\<close>

section \<open>The buffer\<close>

record StackStreamBuffer =
  ssb_buf :: "string option"
  ssb_cap :: u64
  ssb_pos :: u64

definition StackStreamBuffer_new :: "string option \<Rightarrow> u64 \<Rightarrow> StackStreamBuffer" where
  "StackStreamBuffer_new m c = \<lparr>ssb_buf = m, ssb_cap = c, ssb_pos = 0\<rparr>"

text \<open>
  \<^verbatim>\<open>snprintf(buf + off, n, \<dots>)\<close> on the memory \<open>m\<close>: with a size of 0 nothing is written, otherwise the text
  as far as it fits and a terminating zero.  A text of 2 GB has no length that \<^verbatim>\<open>snprintf\<close> can return.
\<close>

definition snprintf_at :: "string \<Rightarrow> nat \<Rightarrow> nat \<Rightarrow> string \<Rightarrow> string option" where
  "snprintf_at m off n txt =
     (if 2 ^ 31 \<le> length txt then None
      else if n = 0 then Some m
      else let w = fst (snprintf n txt) @ [CHR 0x00]
           in if off + length w \<le> length m then Some (take off m @ w @ drop (off + length w) m) else None)"

definition ssb_put_text :: "string \<Rightarrow> StackStreamBuffer \<Rightarrow> StackStreamBuffer option" where
  "ssb_put_text txt b =
     (case ssb_buf b of
        None \<Rightarrow> Some b
      | Some m \<Rightarrow>
          if ssb_pos b > ssb_cap b - 1 then Some b
          else do {
            m' \<leftarrow> snprintf_at m (unat (ssb_pos b)) (unat (ssb_cap b - ssb_pos b)) txt;
            let p = ssb_pos b + of_nat (length txt);
            Some (b\<lparr>ssb_buf := Some m', ssb_pos := (if p < ssb_cap b - 1 then p else ssb_cap b - 1)\<rparr>)
          })"

text \<open>The three output operators; a null pointer prints nothing.\<close>

definition ssb_put_cstr :: "string option \<Rightarrow> StackStreamBuffer \<Rightarrow> StackStreamBuffer option" where
  "ssb_put_cstr s b = (case s of None \<Rightarrow> Some b | Some txt \<Rightarrow> ssb_put_text txt b)"

definition ssb_put_ull :: "u64 \<Rightarrow> StackStreamBuffer \<Rightarrow> StackStreamBuffer option" where
  "ssb_put_ull n b = ssb_put_text (dec_nat (unat n)) b"

definition ssb_put_i32 :: "i32 \<Rightarrow> StackStreamBuffer \<Rightarrow> StackStreamBuffer option" where
  "ssb_put_i32 n b = ssb_put_text (dec_int (sint n)) b"

text \<open>\<^verbatim>\<open>fwrite\<close> of the first \<^verbatim>\<open>pos\<close> characters: what goes to the stream.\<close>

definition ssb_fflush :: "StackStreamBuffer \<Rightarrow> string option" where
  "ssb_fflush b =
     (case ssb_buf b of
        None \<Rightarrow> Some []
      | Some m \<Rightarrow>
          if ssb_pos b > ssb_cap b - 1 then Some []
          else if unat (ssb_pos b) \<le> length m then Some (take (unat (ssb_pos b)) m) else None)"

definition ssb_reset :: "StackStreamBuffer \<Rightarrow> StackStreamBuffer option" where
  "ssb_reset b =
     (case ssb_buf b of
        None \<Rightarrow> Some b
      | Some m \<Rightarrow>
          let n = unat (ssb_cap b)
          in if n \<le> length m then Some (b\<lparr>ssb_buf := Some (replicate n (CHR 0x00) @ drop n m), ssb_pos := 0\<rparr>) else None)"

section \<open>Failing assertions\<close>

definition DBG_BUFFER_SIZE :: nat where "DBG_BUFFER_SIZE = 12288"
definition CALLSTACK_SIZE :: nat where "CALLSTACK_SIZE = 32"

fun put_lines :: "string list \<Rightarrow> StackStreamBuffer \<Rightarrow> StackStreamBuffer option" where
  "put_lines [] b = Some b"
| "put_lines (l # ls) b = do { b \<leftarrow> ssb_put_cstr (Some l) b; b \<leftarrow> ssb_put_cstr (Some [CHR 0x0A]) b; put_lines ls b }"

text \<open>
  \<open>frames\<close> are the texts of \<^verbatim>\<open>backtrace_symbols\<close>, of which \<^verbatim>\<open>backtrace\<close> has asked for the first
  \<^const>\<open>CALLSTACK_SIZE\<close>; None is its null pointer.
\<close>

definition PrintStackBuffered :: "string list option \<Rightarrow> StackStreamBuffer \<Rightarrow> StackStreamBuffer option" where
  "PrintStackBuffered frames b =
     (case frames of
        None \<Rightarrow> ssb_put_cstr (Some (''Stack trace failed'' @ [CHR 0x0A])) b
      | Some fs \<Rightarrow> put_lines (take CALLSTACK_SIZE fs) b)"

datatype outcome = Continues | Aborted | Exited i32

definition Die :: "CptFlags \<Rightarrow> outcome" where
  "Die f = (if abort_on_error f then Aborted else Exited (exitcode f))"

text \<open>\<^verbatim>\<open>output ? output : stderr\<close>: a log file that could not be opened is a null pointer.\<close>

definition out_or_stderr :: "(string \<Rightarrow> bool) \<Rightarrow> CptFlags \<Rightarrow> out_stream" where
  "out_or_stderr opens f =
     (case log_output f of File path \<Rightarrow> if opens path then File path else Stderr | out \<Rightarrow> out)"

fun put_msgs :: "string option list \<Rightarrow> StackStreamBuffer \<Rightarrow> StackStreamBuffer option" where
  "put_msgs [] b = Some b"
| "put_msgs (m # ms) b = do { b \<leftarrow> ssb_put_cstr m b; put_msgs ms b }"

text \<open>
  \<^verbatim>\<open>CheckFailed\<close>: the stream, what is written to it, and how the process goes on.  \<open>junk\<close> is what the
  uninitialised array holds.
\<close>

definition CheckFailed ::
  "string \<Rightarrow> (string \<Rightarrow> bool) \<Rightarrow> CptFlags \<Rightarrow> string list option \<Rightarrow> string option \<Rightarrow> i32 \<Rightarrow> string option \<Rightarrow> u64 \<Rightarrow> u64 \<Rightarrow>
   string option list \<Rightarrow> (out_stream \<times> string \<times> outcome) option"
where
  "CheckFailed junk opens f frames src_file line cond v1 v2 msgs = do {
     let b = StackStreamBuffer_new (Some junk) (of_nat DBG_BUFFER_SIZE);
     let out = out_or_stderr opens f;
     b \<leftarrow> ssb_put_cstr (Some ([CHR 0x0A] @ ''Check failed in '')) b;
     b \<leftarrow> ssb_put_cstr src_file b;
     b \<leftarrow> ssb_put_cstr (Some '':'') b;
     b \<leftarrow> ssb_put_i32 line b;
     b \<leftarrow> ssb_put_cstr (Some '' '') b;
     b \<leftarrow> ssb_put_ull v1 b;
     b \<leftarrow> ssb_put_cstr (Some '' '') b;
     b \<leftarrow> ssb_put_cstr cond b;
     b \<leftarrow> ssb_put_cstr (Some '' '') b;
     b \<leftarrow> ssb_put_ull v2 b;
     b \<leftarrow> ssb_put_cstr (Some [CHR 0x0A]) b;
     b \<leftarrow> put_msgs msgs b;
     b \<leftarrow> PrintStackBuffered frames b;
     txt \<leftarrow> ssb_fflush b;
     Some (out, txt, if \<not> continue_on_error f then Die f else Continues)
   }"

text \<open>\<^verbatim>\<open>CHECK_IMPL\<close>: both sides are converted to \<^verbatim>\<open>u64\<close>; a check that holds prints nothing.\<close>

definition CHECK_IMPL ::
  "(u64 \<Rightarrow> u64 \<Rightarrow> bool) \<Rightarrow> u64 \<Rightarrow> u64 \<Rightarrow> (u64 \<Rightarrow> u64 \<Rightarrow> (out_stream \<times> string \<times> outcome) option) \<Rightarrow>
   ((out_stream \<times> string) option \<times> outcome) option"
where
  "CHECK_IMPL op c1 c2 check_failed =
     (if \<not> op c1 c2 then do { (out, txt, oc) \<leftarrow> check_failed c1 c2; Some (Some (out, txt), oc) }
      else Some (None, Continues))"

text \<open>The level of the messages: an \<^verbatim>\<open>int\<close> that is compared as \<^verbatim>\<open>uptr\<close>.\<close>

definition VPrintf :: "i32 \<Rightarrow> u64 \<Rightarrow> string \<Rightarrow> string" where
  "VPrintf current_verbosity level txt = (if (scast current_verbosity :: u64) \<ge> level then txt else [])"

section \<open>The buffer holds the beginning of the text\<close>

text \<open>A buffer of capacity \<open>c\<close> whose memory was \<open>m0\<close>, after the output of \<open>txt\<close>.\<close>

definition holds :: "string \<Rightarrow> nat \<Rightarrow> string \<Rightarrow> StackStreamBuffer \<Rightarrow> bool" where
  "holds m0 c txt b \<longleftrightarrow>
     c = unat (ssb_cap b) \<and> 0 < c \<and> c \<le> length m0 \<and> length m0 < 2 ^ 63 \<and>
     (\<exists>m. ssb_buf b = Some m \<and> length m = length m0 \<and> drop c m = drop c m0 \<and>
          unat (ssb_pos b) = min (length txt) (c - 1) \<and> take (unat (ssb_pos b)) m = take (c - 1) txt)"

lemma cap_minus_one: "0 < unat (c :: u64) \<Longrightarrow> unat (c - 1) = unat c - 1"
  using unat_sub [of 1 c] by (simp add: word_le_nat_alt)

lemma take_window:
  assumes "p \<le> length m" and "take p m = take k txt" and "p = min (length txt) k"
  shows "take (min (length (txt @ new)) k) (take p m @ take (k - p) new @ rest) = take k (txt @ new)"
proof (cases "length txt \<le> k")
  case True
  then have "take p m = txt" "p = length txt" using assms by simp_all
  then show ?thesis using True by (auto simp: min_def)
next
  case False
  then have "take p m = take k txt" "p = k" using assms by simp_all
  then show ?thesis using False by simp
qed

lemma drop_window:
  assumes "p + length w \<le> c" and "c \<le> length m"
  shows "drop c (take p m @ w @ drop (p + length w) m) = drop c m"
proof -
  have "length (take p m @ w) = p + length w" using assms by simp
  then have "drop c ((take p m @ w) @ drop (p + length w) m) = drop (c - (p + length w)) (drop (p + length w) m)"
    using assms(1) by (simp only: drop_append) simp
  also have "\<dots> = drop c m" using assms(1) by simp
  finally show ?thesis by (simp only: append_assoc)
qed

lemma ssb_put_text_holds:
  assumes "holds m0 c txt b" and "length new < 2 ^ 31"
  shows "\<exists>b'. ssb_put_text new b = Some b' \<and> holds m0 c (txt @ new) b'"
proof -
  let ?p = "unat (ssb_pos b)"
  obtain m where c: "c = unat (ssb_cap b)" and m: "0 < c" "c \<le> length m0" "length m0 < 2 ^ 63" "ssb_buf b = Some m"
      "length m = length m0" "drop c m = drop c m0" "?p = min (length txt) (c - 1)" "take ?p m = take (c - 1) txt"
    using assms(1) by (auto simp: holds_def)
  have p: "?p \<le> c - 1" using m(7) by simp
  have cap: "unat (ssb_cap b - ssb_pos b) = c - ?p" "unat (ssb_cap b - 1) = c - 1"
    using p m(1) c by (simp_all add: unat_sub word_le_nat_alt cap_minus_one)
  let ?q = "ssb_pos b + of_nat (length new)"
  define w where "w = take (c - 1 - ?p) new @ [CHR 0x00]"
  define m' where "m' = take ?p m @ w @ drop (?p + length w) m"
  define b' where "b' = b\<lparr>ssb_buf := Some m', ssb_pos := if ?q < ssb_cap b - 1 then ?q else ssb_cap b - 1\<rparr>"
  have w: "?p + length w \<le> c" using p m(1) by (simp add: w_def)
  have "snprintf_at m ?p (c - ?p) new = Some m'"
    using assms(2) w m(1,2,5) p by (simp add: snprintf_at_def snprintf_def m'_def w_def Let_def)
  then have put: "ssb_put_text new b = Some b'"
    using m(4) p by (simp add: ssb_put_text_def cap word_less_nat_alt Let_def b'_def)
  have "unat ?q = ?p + length new"
    using assms(2) p m(2,3) by (subst unat_word_ariths) (simp add: unat_of_nat)
  then have pos: "unat (ssb_pos b') = min (length (txt @ new)) (c - 1)"
    using m(1,7) by (auto simp: word_less_nat_alt cap b'_def)
  have t: "take (unat (ssb_pos b')) m' = take (c - 1) (txt @ new)"
    unfolding pos m'_def w_def append_assoc using m(2,5) p by (intro take_window m(7,8)) simp
  have "length m' = length m0" "drop c m' = drop c m0"
    using w m(2,5,6) p drop_window [OF w, of m] by (simp_all add: m'_def)
  moreover have "c = unat (ssb_cap b')" "ssb_buf b' = Some m'" using c by (simp_all add: b'_def)
  ultimately have "holds m0 c (txt @ new) b'"
    unfolding holds_def using m(1-3) pos t by blast
  then show ?thesis using put by blast
qed

text \<open>A chain of outputs.\<close>

definition cstr :: "string option \<Rightarrow> string" where
  "cstr s = (case s of None \<Rightarrow> [] | Some t \<Rightarrow> t)"

lemma ssb_put_cstr_holds: "holds m0 c t b \<Longrightarrow> length (cstr s) < 2 ^ 31 \<Longrightarrow> \<exists>b'. ssb_put_cstr s b = Some b' \<and> holds m0 c (t @ cstr s) b'"
  by (cases s) (auto simp: ssb_put_cstr_def cstr_def dest: ssb_put_text_holds)

lemma dec_short: "length (dec_nat (unat (n :: u64))) < 2 ^ 31" "length (dec_int (sint (i :: i32))) < 2 ^ 31"
proof -
  have "unat n < 2 ^ LENGTH(64)" by (rule unsigned_less)
  then have u: "unat n < 10 ^ 20" by simp
  have "sint i < 2 ^ 31" "- (2 ^ 31) \<le> sint i" using sint_less [of i] sint_ge [of i] by simp_all
  then have "nat (sint i) < 10 ^ 20" "nat (- sint i) < 10 ^ 20" by simp_all
  then have "length (dec_nat (nat (sint i))) \<le> 20" "length (dec_nat (nat (- sint i))) \<le> 20"
    unfolding length_dec_nat_bound by simp_all
  then show "length (dec_int (sint i)) < 2 ^ 31" by (simp add: dec_int_def)
  have "length (dec_nat (unat n)) \<le> 20" unfolding length_dec_nat_bound using u by simp
  then show "length (dec_nat (unat n)) < 2 ^ 31" by simp
qed

lemma put_msgs_holds:
  "holds m0 c t b \<Longrightarrow> \<forall>m \<in> set ms. length (cstr m) < 2 ^ 31 \<Longrightarrow> \<exists>b'. put_msgs ms b = Some b' \<and> holds m0 c (t @ concat (map cstr ms)) b'"
proof (induction ms arbitrary: t b)
  case (Cons m ms)
  obtain b1 where b1: "ssb_put_cstr m b = Some b1" "holds m0 c (t @ cstr m) b1" using ssb_put_cstr_holds [OF Cons.prems(1), of m] Cons.prems(2) by auto
  show ?case using Cons.IH [OF b1(2)] Cons.prems(2) b1(1) by simp
qed simp

lemma put_msgs_append: "put_msgs (xs @ ys) b = put_msgs xs b \<bind> put_msgs ys"
proof (induction xs arbitrary: b)
  case (Cons x xs)
  then show ?case by (cases "ssb_put_cstr x b") simp_all
qed simp

definition stack_msgs :: "string list option \<Rightarrow> string option list" where
  "stack_msgs frames =
     (case frames of
        None \<Rightarrow> [Some (''Stack trace failed'' @ [CHR 0x0A])]
      | Some fs \<Rightarrow> concat (map (\<lambda>l. [Some l, Some [CHR 0x0A]]) (take 32 fs)))"

lemma PrintStackBuffered_msgs: "PrintStackBuffered frames b = put_msgs (stack_msgs frames) b"
proof (cases frames)
  case (Some fs)
  have "put_lines ls b = put_msgs (concat (map (\<lambda>l. [Some l, Some [CHR 0x0A]]) ls)) b" for ls b
  proof (induction ls arbitrary: b)
    case (Cons l ls)
    have "put_lines ls = put_msgs (concat (map (\<lambda>l. [Some l, Some [CHR 0x0A]]) ls))" by (rule ext, rule Cons.IH)
    then show ?case by (cases "ssb_put_cstr (Some l) b") simp_all
  qed simp
  then show ?thesis using Some by (simp add: PrintStackBuffered_def stack_msgs_def CALLSTACK_SIZE_def)
qed (cases "ssb_put_cstr (Some (''Stack trace failed'' @ [CHR 0x0A])) b", simp_all add: PrintStackBuffered_def stack_msgs_def)

lemma put_number: "ssb_put_ull n = ssb_put_cstr (Some (dec_nat (unat n)))" "ssb_put_i32 i = ssb_put_cstr (Some (dec_int (sint i)))"
  by (simp_all add: fun_eq_iff ssb_put_ull_def ssb_put_i32_def ssb_put_cstr_def)

lemma fflush_holds: "holds m0 c t b \<Longrightarrow> ssb_fflush b = Some (take (c - 1) t)"
  by (auto simp: holds_def ssb_fflush_def word_less_nat_alt cap_minus_one)

section \<open>What is reported\<close>

text \<open>The whole message of a failed check, as the texts that are put into the buffer.\<close>

definition report_msgs ::
  "string list option \<Rightarrow> string option \<Rightarrow> i32 \<Rightarrow> string option \<Rightarrow> u64 \<Rightarrow> u64 \<Rightarrow> string option list \<Rightarrow> string option list"
where
  "report_msgs frames src_file line cond v1 v2 msgs =
     [Some ([CHR 0x0A] @ ''Check failed in ''), src_file, Some '':'', Some (dec_int (sint line)), Some '' '',
      Some (dec_nat (unat v1)), Some '' '', cond, Some '' '', Some (dec_nat (unat v2)), Some [CHR 0x0A]] @
     msgs @ stack_msgs frames"

definition report :: "string list option \<Rightarrow> string option \<Rightarrow> i32 \<Rightarrow> string option \<Rightarrow> u64 \<Rightarrow> u64 \<Rightarrow> string option list \<Rightarrow> string" where
  "report frames src_file line cond v1 v2 msgs = concat (map cstr (report_msgs frames src_file line cond v1 v2 msgs))"

lemma new_holds:
  assumes "length m0 = c" and "0 < c" and "c < 2 ^ 63"
  shows "holds m0 c [] (StackStreamBuffer_new (Some m0) (of_nat c))"
proof -
  have "unat (of_nat c :: u64) = c" using assms(3) by (simp add: unat_of_nat)
  then show ?thesis using assms by (simp add: holds_def StackStreamBuffer_new_def)
qed

lemma CheckFailed_msgs:
  "CheckFailed junk opens f frames src_file line cond v1 v2 msgs = do {
     b \<leftarrow> put_msgs (report_msgs frames src_file line cond v1 v2 msgs) (StackStreamBuffer_new (Some junk) (of_nat DBG_BUFFER_SIZE));
     txt \<leftarrow> ssb_fflush b;
     Some (out_or_stderr opens f, txt, if \<not> continue_on_error f then Die f else Continues) }"
  by (simp add: CheckFailed_def report_msgs_def put_msgs_append put_number PrintStackBuffered_msgs Let_def)

text \<open>The operands of a check are compared without sign: a negative one is greater than every other.\<close>

lemma check_less_signed:
  assumes "- (2 ^ 63) \<le> a" and "a < 2 ^ 63" and "- (2 ^ 63) \<le> b" and "b < 2 ^ 63"
  shows "(word_of_int a :: u64) < word_of_int b \<longleftrightarrow> (if (a < 0) = (b < 0) then a < b else b < 0)"
proof -
  have m: "x mod 18446744073709551616 = (if x < 0 then x + 2 ^ 64 else x)" if "- (2 ^ 63) \<le> x" "x < 2 ^ 63" for x :: int
    using that mod_pos_pos_trivial [of "x + 2 ^ 64" "2 ^ 64"] mod_pos_pos_trivial [of x "2 ^ 64"] by auto
  show ?thesis using assms m [of a] m [of b] by (auto simp: word_less_def uint_word_of_int)
qed

text \<open>
  A capacity of 0 is no capacity at all: the guards compare with \<^verbatim>\<open>cap - 1\<close>, which wraps, and the
  second output is written behind the buffer.
\<close>

lemma zero_capacity_overruns:
  assumes "first \<noteq> []" and "length first < 2 ^ 31" and "length second < 2 ^ 31" and "length m \<le> length first + length second"
  shows "ssb_put_text first (StackStreamBuffer_new (Some m) 0) \<bind> ssb_put_text second = None"
proof -
  let ?p = "of_nat (length first) :: u64"
  have p: "unat ?p = length first" using assms(2) by (simp add: unat_of_nat)
  have m1: "\<not> (- 1 :: u64) < x" "x < - 1 \<longleftrightarrow> x \<noteq> - 1" for x :: u64 by (simp_all add: word_order.not_eq_extremum)
  have "?p \<noteq> - 1" using arg_cong [of ?p "- 1" unat] p assms(2) by (auto simp: unsigned_minus_1_eq_mask mask_eq_exp_minus_1)
  then have first: "ssb_put_text first (StackStreamBuffer_new (Some m) 0) = Some \<lparr>ssb_buf = Some m, ssb_cap = 0, ssb_pos = ?p\<rparr>"
    using assms(2) by (simp add: ssb_put_text_def StackStreamBuffer_new_def snprintf_at_def m1 Let_def)
  have n: "unat (- ?p) = 2 ^ 64 - length first" 
    using p assms(1) unat_sub_if_size [of 0 ?p] by (simp add: word_size)
  have "\<not> unat ?p + length (fst (snprintf (unat (- ?p)) second) @ [CHR 0x00]) \<le> length m"
    using assms p n by (simp add: snprintf_def)
  then have "ssb_put_text second \<lparr>ssb_buf = Some m, ssb_cap = 0, ssb_pos = ?p\<rparr> = None"
    using assms(2,3) p n by (simp add: ssb_put_text_def snprintf_at_def m1 Let_def)
  then show ?thesis by (simp add: first)
qed

text \<open>
  C34: An assertion (\<^verbatim>\<open>CHECK\<close> and its variants) that holds does nothing.  One that fails never writes
  outside its buffer of 12288 bytes, however long the message is: what goes to the log, or to the
  standard error when there is none, is the first 12287 characters of the message, and then the process goes on,
  aborts or exits as the options say.
\<close>

theorem check_reports_and_stops:
  assumes "length junk = DBG_BUFFER_SIZE"
    and "\<forall>t \<in> set (report_msgs frames src_file line cond c1 c2 msgs). length (cstr t) < 2 ^ 31"
  shows "CHECK_IMPL op c1 c2 (\<lambda>v1 v2. CheckFailed junk opens f frames src_file line cond v1 v2 msgs) =
           Some (if op c1 c2 then (None, Continues)
                 else (Some (out_or_stderr opens f, take 12287 (report frames src_file line cond c1 c2 msgs)),
                       if continue_on_error f then Continues else if abort_on_error f then Aborted else Exited (exitcode f)))"
proof -
  have "holds junk 12288 [] (StackStreamBuffer_new (Some junk) (of_nat DBG_BUFFER_SIZE))"
    using new_holds [OF assms(1)] by (simp add: DBG_BUFFER_SIZE_def)
  from put_msgs_holds [OF this assms(2)] show ?thesis
    by (auto simp: CHECK_IMPL_def CheckFailed_msgs report_def Die_def fflush_holds)
qed

text \<open>The twenty-first unknown option, with the default options: the check fails, is reported, and the program goes on.\<close>

theorem check_reports_and_stops_witness:
  "CHECK_IMPL (<) 20 20 (\<lambda>v1 v2. CheckFailed (replicate 12288 (CHR ''x'')) (\<lambda>_. True) SetDefaults None (Some ''parse_flags.cpp'') 12
       (Some ''<'') v1 v2 []) =
     Some (Some (Stderr, [CHR 0x0A] @ ''Check failed in parse_flags.cpp:12 20 < 20'' @ [CHR 0x0A] @ ''Stack trace failed'' @ [CHR 0x0A]),
           Continues)"
proof -
  have d: "dec_nat 20 = ''20''" "dec_int 12 = ''12''"
    by code_simp+
  have "\<forall>t \<in> set (report_msgs None (Some ''parse_flags.cpp'') 12 (Some ''<'') 20 20 []). length (cstr t) < 2 ^ 31"
    by (simp add: report_msgs_def cstr_def d stack_msgs_def)
  from check_reports_and_stops [OF _ this, of "replicate 12288 (CHR ''x'')" "(<)" "\<lambda>_. True" SetDefaults] show ?thesis
    by (simp add: DBG_BUFFER_SIZE_def report_def report_msgs_def cstr_def d stack_msgs_def out_or_stderr_def SetDefaults_def)
qed

end
