(* ===== verification/Cpt_Help.thy ===== *)
theory Cpt_Help
  imports Cpt_Debug
begin

text \<open>
  The list of options the tool prints on request (\<^verbatim>\<open>FlagParser::PrintFlagDescriptions\<close> in
  \<^verbatim>\<open>src/parse_flags.cpp\<close>, with the descriptions of \<^verbatim>\<open>include/parse_flags.inc\<close>).  The current value of an option
  goes through one buffer of 128 characters that is used again for every option.
\<close>

section \<open>Current values\<close>

text \<open>\<^verbatim>\<open>%lf\<close>: six decimals, ties to the even neighbour.\<close>

definition round_even :: "real \<Rightarrow> int" where
  "round_even x =
     (let n = \<lfloor>x\<rfloor> in if x - of_int n < 1 / 2 then n else if x - of_int n > 1 / 2 then n + 1 else if even n then n else n + 1)"

definition six_digits :: "nat \<Rightarrow> string" where
  "six_digits n = (let d = dec_nat n in replicate (6 - length d) (CHR ''0'') @ d)"

definition fixed6 :: "real \<Rightarrow> string" where
  "fixed6 x =
     (let n = nat (round_even (\<bar>x\<bar> * 10 ^ 6))
      in (if x < 0 then ''-'' else []) @ dec_nat (n div 10 ^ 6) @ ''.'' @ six_digits (n mod 10 ^ 6))"

text \<open>What the handlers format, with the names and descriptions in the order of registration; None is a null pointer.\<close>

definition show_bool :: "bool \<Rightarrow> string option" where
  "show_bool b = Some (if b then ''true'' else ''false'')"

definition flag_table :: "CptFlags \<Rightarrow> (string \<times> string \<times> string option) list" where
  "flag_table f =
     [(''print_max_rss'', ''Print memory usage information at the end of execution.'', show_bool (print_max_rss f)),
      (''verbose'', ''Provide verbose output.'', show_bool (verbose f)),
      (''enabled'', ''Inject OpenMP synchronization semantics to TSan.'', show_bool (enabled f)),
      (''report_data_leak'', ''Report tool internal data leaks.'', show_bool (report_data_leak f)),
      (''stopped'', ''Delay start of measurement.'', show_bool (stopped f)),
      (''start_with_library_constructor'', ''Start measurement with library constructor.'',
        show_bool (start_with_library_constructor f)),
      (''dump_on_stop'', ''Print output on stop.'', show_bool (dump_on_stop f)),
      (''barrier'', ''Synchronize start of measurement with an MPI_Barrier.'', show_bool (barrier f)),
      (''colorize'', ''Colorize output.'', show_bool (colorize f)),
      (''help'', ''Print the flag descriptions.'', show_bool (help_flag f)),
      (''stacktrace'',
        ''Print stacktraces in case of an error. Implies registering signal handlers and MPI error handlers.'',
        show_bool (stacktrace f)),
      (''abort_on_error'', ''Abort instead of exit on error.'', show_bool (abort_on_error f)),
      (''continue_on_error'', ''Continue after failing an assert.'', show_bool (continue_on_error f)),
      (''metric_factor'', ''Factor for metric output.'', Some (dec_int (sint (metric_factor f)))),
      (''exitcode'', ''Exit code for errors.'', Some (dec_int (sint (exitcode f)))),
      (''runtime'', ''Real runtime from low overhead run.'', Some (fixed6 (runtime f))),
      (''log_path'',
        ''Write logs to '' @ [CHR 0x22] @ ''log_path.pid'' @ [CHR 0x22] @ ''. The special values are '' @
        [CHR 0x22] @ ''stdout'' @ [CHR 0x22] @ '' and '' @ [CHR 0x22] @ ''stderr'' @ [CHR 0x22] @ ''.'',
        log_path f),
      (''data_path'',
        ''Write metric data to '' @ [CHR 0x22] @ ''<data_path>-<#procs>x<#threads>.txt'' @ [CHR 0x22] @
        ''. The special values are '' @
        [CHR 0x22] @ ''stdout'' @ [CHR 0x22] @ '' and '' @ [CHR 0x22] @ ''stderr'' @ [CHR 0x22] @ ''.'',
        data_path f)]"

section \<open>The loop over the options\<close>

definition TAB :: string where "TAB = [CHR 0x09]"
definition NL :: string where "NL = [CHR 0x0A]"

definition flag_entry :: "string \<Rightarrow> string \<Rightarrow> string \<Rightarrow> string \<Rightarrow> string" where
  "flag_entry name desc truncation_str val =
     TAB @ name @ NL @ TAB @ TAB @ ''- '' @ desc @ '' (Current Value'' @ truncation_str @ '': '' @ val @ '')'' @ NL"

text \<open>A C string in memory.\<close>

definition c_text :: "string \<Rightarrow> string" where
  "c_text m = takeWhile (\<lambda>ch. ch \<noteq> CHR 0x00) m"

text \<open>The result: what has been printed, and the first check that has failed, if one has.\<close>

fun print_flags :: "(string \<times> string \<times> string option) list \<Rightarrow> string \<Rightarrow> (string \<times> bool) option" where
  "print_flags [] m = Some ([], True)"
| "print_flags ((name, desc, v) # flags) m = do {
     val \<leftarrow> v;
     m \<leftarrow> snprintf_at m 0 128 val;
     let truncated = \<not> (length val < 128);
     let ok = (m ! 127 = CHR 0x00);
     (out, oks) \<leftarrow> print_flags flags m;
     Some (flag_entry name desc (if truncated then '' Truncated'' else []) (c_text m) @ out, ok \<and> oks)
   }"

definition SanitizerToolName :: string where "SanitizerToolName = ''OFTCPT''"

definition PrintFlagDescriptions :: "string \<Rightarrow> CptFlags \<Rightarrow> (string \<times> bool) option" where
  "PrintFlagDescriptions junk f = do {
     let m = junk[127 := CHR 0x00];
     (out, oks) \<leftarrow> print_flags (flag_table f) m;
     Some (''Available flags for '' @ SanitizerToolName @ '':'' @ NL @ out, oks)
   }"

section \<open>Every option with its value\<close>

lemma c_text_window: "CHR 0x00 \<notin> set t \<Longrightarrow> c_text (t @ CHR 0x00 # rest) = t"
  by (simp add: c_text_def takeWhile_append)

lemma format_in_buffer:
  assumes "length m = 128" and "m ! 127 = CHR 0x00" and "CHR 0x00 \<notin> set val" and "length val < 2 ^ 31"
  shows "\<exists>m'. snprintf_at m 0 128 val = Some m' \<and> length m' = 128 \<and> m' ! 127 = CHR 0x00 \<and> c_text m' = take 127 val"
proof -
  let ?w = "take 127 val @ [CHR 0x00]"
  let ?m = "?w @ drop (length ?w) m"
  have w: "length ?w \<le> 128" by simp
  have "snprintf_at m 0 128 val = Some ?m"
    using assms(1,4) w by (simp add: snprintf_at_def snprintf_def Let_def)
  moreover have "length ?m = 128" using assms(1) by simp
  moreover have "?m ! 127 = CHR 0x00"
    using assms(1,2) by (cases "length val < 127") (auto simp: nth_append)
  moreover have "c_text ?m = take 127 val" using c_text_window [of "take 127 val"] assms(3) by (auto dest: in_set_takeD)
  ultimately show ?thesis by blast
qed

lemma print_flags_all:
  assumes "length m = 128" and "m ! 127 = CHR 0x00"
    and "\<forall>(name, desc, v) \<in> set flags. \<exists>val. v = Some val \<and> CHR 0x00 \<notin> set val \<and> length val < 2 ^ 31"
  shows "print_flags flags m =
           Some (concat (map (\<lambda>(name, desc, v). flag_entry name desc (if length (the v) < 128 then [] else '' Truncated'')
                                (take 127 (the v))) flags), True)"
  using assms
proof (induction flags arbitrary: m)
  case (Cons flag flags)
  obtain name desc val where flag: "flag = (name, desc, Some val)" "CHR 0x00 \<notin> set val" "length val < 2 ^ 31"
    using Cons.prems(3) by auto
  obtain m' where m': "snprintf_at m 0 128 val = Some m'" "length m' = 128" "m' ! 127 = CHR 0x00" "c_text m' = take 127 val"
    using format_in_buffer [OF Cons.prems(1,2) flag(2,3)] by blast
  show ?case using Cons.IH [OF m'(2,3)] Cons.prems(3) m' by (simp add: flag(1) Let_def)
qed simp

lemma digits_no_zero: "CHR 0x00 \<notin> set (dec_nat n)"
proof
  assume "CHR 0x00 \<in> set (dec_nat n)"
  then obtain d where "d < 10" "digit_char d = CHR 0x00" using dec_nat_digits by metis
  then show False using of_char_digit [of d] by simp
qed

lemma numbers_no_zero: "CHR 0x00 \<notin> set (dec_int i)" "CHR 0x00 \<notin> set (fixed6 x)"
  using digits_no_zero by (auto simp: dec_int_def fixed6_def six_digits_def Let_def)

lemma round_even_le: "0 \<le> x \<Longrightarrow> 0 \<le> round_even x \<and> of_int (round_even x) \<le> x + 1"
proof -
  assume x: "0 \<le> x"
  have "of_int \<lfloor>x\<rfloor> \<le> x" "0 \<le> \<lfloor>x\<rfloor>" using x by simp_all
  moreover have "of_int \<lfloor>x\<rfloor> \<le> x + 1" by linarith
  ultimately show ?thesis by (auto simp: round_even_def Let_def)
qed

lemma fixed6_short: "\<bar>x\<bar> < 10 ^ 309 \<Longrightarrow> length (fixed6 x) \<le> 320"
proof -
  assume x: "\<bar>x\<bar> < 10 ^ 309"
  define n where "n = nat (round_even (\<bar>x\<bar> * 10 ^ 6))"
  have "real n \<le> \<bar>x\<bar> * 10 ^ 6 + 1" using round_even_le [of "\<bar>x\<bar> * 10 ^ 6"] by (simp add: n_def)
  also have "\<dots> < 10 ^ 309 * 10 ^ 6 + 1" using x by simp
  also have "\<dots> \<le> 10 ^ 316" by simp
  finally have "n < 10 ^ 316" using of_nat_less_iff [where ?'a = real, of n "10 ^ 316"] by simp
  then have "n div 10 ^ 6 < 10 ^ 310" by (intro less_mult_imp_div_less) (simp add: power_add [symmetric])
  then have "length (dec_nat (n div 10 ^ 6)) \<le> 310" unfolding length_dec_nat_bound by simp
  moreover have "length (dec_nat (n mod 10 ^ 6)) \<le> 6" unfolding length_dec_nat_bound by simp
  moreover have "fixed6 x = (if x < 0 then ''-'' else []) @ dec_nat (n div 10 ^ 6) @ ''.'' @ six_digits (n mod 10 ^ 6)"
    by (simp only: fixed6_def n_def Let_def)
  ultimately show ?thesis by (simp add: six_digits_def Let_def)
qed

text \<open>
  The list of options names every registered option once, in the order of registration, with its
  description and its current value; a value of more than 127 characters is cut and marked as
  truncated.  The check after each value never fails and nothing is written outside the buffer.
\<close>

theorem help_lists_every_flag:
  assumes "length junk = 128" and "log_path f = Some lp" and "data_path f = Some dp" and "CHR 0x00 \<notin> set (lp @ dp)"
    and "length lp < 2 ^ 31" and "length dp < 2 ^ 31" and "\<bar>runtime f\<bar> < 10 ^ 309"
  shows "PrintFlagDescriptions junk f =
           Some (''Available flags for OFTCPT:'' @ NL @
             concat (map (\<lambda>(name, desc, v). flag_entry name desc (if length (the v) < 128 then [] else '' Truncated'')
                            (take 127 (the v))) (flag_table f)), True)
         \<and> map fst (flag_table f) = map fst RegisterCptFlags \<and> distinct (map fst (flag_table f))"
proof -
  have i: "length (dec_int (sint i)) < 2 ^ 31" for i :: i32 by (rule dec_short)
  have r: "length (fixed6 (runtime f)) < 2 ^ 31" using fixed6_short [OF assms(7)] by simp
  have "\<forall>(name, desc, v) \<in> set (flag_table f). \<exists>val. v = Some val \<and> CHR 0x00 \<notin> set val \<and> length val < 2 ^ 31"
    using assms(2-6) i r numbers_no_zero by (simp add: flag_table_def show_bool_def)
  then have "print_flags (flag_table f) (junk[127 := CHR 0x00]) =
      Some (concat (map (\<lambda>(name, desc, v). flag_entry name desc (if length (the v) < 128 then [] else '' Truncated'')
                            (take 127 (the v))) (flag_table f)), True)"
    using assms(1) by (intro print_flags_all) simp_all
  moreover have "map fst (flag_table f) = map fst RegisterCptFlags" by (simp add: flag_table_def RegisterCptFlags_def)
  moreover have "distinct (map fst RegisterCptFlags)" by (simp add: RegisterCptFlags_def)
  ultimately show ?thesis by (simp add: PrintFlagDescriptions_def SanitizerToolName_def)
qed

theorem help_lists_every_flag_witness:
  "PrintFlagDescriptions (replicate 128 (CHR ''x'')) SetDefaults =
     Some (''Available flags for OFTCPT:'' @ NL @
       concat (map (\<lambda>(name, desc, v). flag_entry name desc (if length (the v) < 128 then [] else '' Truncated'')
                      (take 127 (the v))) (flag_table SetDefaults)), True) \<and>
   flag_table SetDefaults ! 14 = (''exitcode'', ''Exit code for errors.'', Some ''23'')"
proof -
  have "dec_int 23 = ''23''" by code_simp
  moreover have "log_path SetDefaults = Some ''stdout''" "data_path SetDefaults = Some ''stdout''" "runtime SetDefaults = -1"
    by (simp_all add: SetDefaults_def)
  ultimately show ?thesis
    using help_lists_every_flag [of "replicate 128 (CHR ''x'')" SetDefaults "''stdout''" "''stdout''"]
    by (simp add: flag_table_def [of SetDefaults]) (simp add: SetDefaults_def)
qed

end
