(* ===== verification/Cpt_Array.thy ===== *)
theory Cpt_Array
  imports Cpt_Prelude "HOL-Library.Monad_Syntax"
begin

unbundle bit_operations_syntax

text \<open>
  Arrays of fixed size (\<^verbatim>\<open>include/containers/Array.h\<close>) and the helpers that move, copy and set
  ranges of elements (\<^verbatim>\<open>include/containers/memMove.h\<close>).  An array is the list of its elements; an access outside
  it is \<^const>\<open>None\<close>, since the checks of the index only report.
\<close>

section \<open>Arrays\<close>

definition Array_new :: "nat \<Rightarrow> 'a \<Rightarrow> 'a list" where
  "Array_new N zero = replicate N zero"

fun Array_copy_init :: "'a list \<Rightarrow> nat \<Rightarrow> 'a list \<Rightarrow> 'a list option" where
  "Array_copy_init [] i a = Some a"
| "Array_copy_init (elem # init) i a = (if i < length a then Array_copy_init init (i + 1) (a[i := elem]) else None)"

definition Array_of_list :: "nat \<Rightarrow> 'a \<Rightarrow> 'a list \<Rightarrow> 'a list option" where
  "Array_of_list N zero init = do {
     a \<leftarrow> Array_copy_init init 0 (Array_new N zero);
     Some (fold (\<lambda>i a. a[i := zero]) [length init..<N] a)
   }"

definition Array_at :: "'a list \<Rightarrow> nat \<Rightarrow> 'a option" where
  "Array_at a i = (if i < length a then Some (a ! i) else None)"

definition Array_set :: "'a list \<Rightarrow> nat \<Rightarrow> 'a \<Rightarrow> 'a list option" where
  "Array_set a i x = (if i < length a then Some (a[i := x]) else None)"

text \<open>
  The compound assignments change the array in place.  The right-hand side is read while the loop
  runs, from another array or from the array itself.
\<close>

datatype 'a rhs = Other "'a list" | Itself

definition rhs_at :: "'a rhs \<Rightarrow> 'a list \<Rightarrow> nat \<Rightarrow> 'a" where
  "rhs_at rhs a i = (case rhs of Other b \<Rightarrow> b ! i | Itself \<Rightarrow> a ! i)"

definition Array_add_assign :: "('a::plus) list \<Rightarrow> 'a rhs \<Rightarrow> 'a list" where
  "Array_add_assign a rhs = fold (\<lambda>i a. a[i := a ! i + rhs_at rhs a i]) [0..<length a] a"

definition Array_sub_assign :: "('a::minus) list \<Rightarrow> 'a rhs \<Rightarrow> 'a list" where
  "Array_sub_assign a rhs = fold (\<lambda>i a. a[i := a ! i - rhs_at rhs a i]) [0..<length a] a"

definition Array_plus :: "('a::plus) list \<Rightarrow> 'a list \<Rightarrow> 'a list" where
  "Array_plus lhs rhs = Array_add_assign lhs (Other rhs)"

definition Array_minus :: "('a::minus) list \<Rightarrow> 'a list \<Rightarrow> 'a list" where
  "Array_minus lhs rhs = Array_sub_assign lhs (Other rhs)"

section \<open>Ranges of elements\<close>

text \<open>
  Memory maps the positions of elements to values.  \<open>trivial\<close> is \<^verbatim>\<open>std::is_trivially_copyable_v<T>\<close>,
  \<open>moved\<close> what a move leaves behind; an element that is moved to itself has no specified value.
\<close>

definition memmove_items :: "nat \<Rightarrow> nat \<Rightarrow> nat \<Rightarrow> (nat \<Rightarrow> 'a) \<Rightarrow> nat \<Rightarrow> 'a" where
  "memmove_items dest src n m = (\<lambda>p. if dest \<le> p \<and> p < dest + n then m (src + (p - dest)) else m p)"

definition move_item :: "('a \<Rightarrow> 'a) \<Rightarrow> nat \<Rightarrow> nat \<Rightarrow> (nat \<Rightarrow> 'a) \<Rightarrow> (nat \<Rightarrow> 'a) option" where
  "move_item moved d s m = (if d = s then None else Some (m(d := m s, s := moved (m s))))"

definition copy_item :: "nat \<Rightarrow> nat \<Rightarrow> (nat \<Rightarrow> 'a) \<Rightarrow> (nat \<Rightarrow> 'a) option" where
  "copy_item d s m = Some (m(d := m s))"

fun items_up :: "(nat \<Rightarrow> nat \<Rightarrow> 'm \<Rightarrow> 'm option) \<Rightarrow> nat \<Rightarrow> nat \<Rightarrow> nat \<Rightarrow> 'm \<Rightarrow> 'm option" where
  "items_up item 0 dest src m = Some m"
| "items_up item (Suc n) dest src m = do { m \<leftarrow> item dest src m; items_up item n (dest + 1) (src + 1) m }"

fun items_down :: "(nat \<Rightarrow> nat \<Rightarrow> 'm \<Rightarrow> 'm option) \<Rightarrow> nat \<Rightarrow> nat \<Rightarrow> nat \<Rightarrow> 'm \<Rightarrow> 'm option" where
  "items_down item 0 dest src m = Some m"
| "items_down item (Suc n) dest src m = do { m \<leftarrow> item (dest + n) (src + n) m; items_down item n dest src m }"

definition moveItems :: "bool \<Rightarrow> ('a \<Rightarrow> 'a) \<Rightarrow> nat \<Rightarrow> nat \<Rightarrow> nat \<Rightarrow> (nat \<Rightarrow> 'a) \<Rightarrow> (nat \<Rightarrow> 'a) option" where
  "moveItems trivial moved dest src n m =
     (if n = 0 then Some m
      else if trivial then Some (memmove_items dest src n m)
      else if dest < src then items_up (move_item moved) n dest src m
      else items_down (move_item moved) n dest src m)"

definition copyItems :: "bool \<Rightarrow> nat \<Rightarrow> nat \<Rightarrow> nat \<Rightarrow> (nat \<Rightarrow> 'a) \<Rightarrow> (nat \<Rightarrow> 'a) option" where
  "copyItems trivial dest src n m =
     (if n = 0 then Some m
      else if trivial then Some (memmove_items dest src n m)
      else if dest < src then items_up copy_item n dest src m
      else items_down copy_item n dest src m)"

fun setItems :: "nat \<Rightarrow> nat \<Rightarrow> 'a \<Rightarrow> (nat \<Rightarrow> 'a) \<Rightarrow> nat \<Rightarrow> 'a" where
  "setItems dest 0 v m = m"
| "setItems dest (Suc n) v m = setItems (dest + 1) n v (m(dest := v))"

text \<open>The overload for \<^verbatim>\<open>int\<close> calls \<^verbatim>\<open>memset\<close>, which stores the lowest byte of its value into every byte.\<close>

definition setItems_int :: "nat \<Rightarrow> nat \<Rightarrow> i32 \<Rightarrow> (nat \<Rightarrow> i32) \<Rightarrow> nat \<Rightarrow> i32" where
  "setItems_int dest n v m =
     (if n = 0 then m
      else let b = v AND 0xFF
           in (\<lambda>p. if dest \<le> p \<and> p < dest + n
                   then b OR push_bit 8 b OR push_bit 16 b OR push_bit 24 b else m p))"

section \<open>Arrays are lists of fixed length\<close>

lemma Array_copy_init_eq:
  "i + length init \<le> length a \<Longrightarrow> Array_copy_init init i a = Some (take i a @ init @ drop (i + length init) a)"
proof (induction init arbitrary: i a)
  case (Cons e init)
  have "take (i + 1) (a[i := e]) = take i a @ [e]" using Cons.prems by (simp add: take_Suc_update)
  then show ?case using Cons.prems Cons.IH [of "i + 1" "a[i := e]"] by (simp add: drop_update_cancel)
qed simp

lemma Array_copy_init_over: "i \<le> length a \<Longrightarrow> length a < i + length init \<Longrightarrow> Array_copy_init init i a = None"
proof (induction init arbitrary: i a)
  case (Cons e init)
  then show ?case using Cons.IH [of "i + 1" "a[i := e]"] by (cases "i < length a") simp_all
qed simp

lemma fill_same: "(\<And>i. i \<in> set is \<Longrightarrow> i < length a \<Longrightarrow> a ! i = x) \<Longrightarrow> fold (\<lambda>i a. a[i := x]) is a = a"
proof (induction "is" arbitrary: a)
  case (Cons i "is")
  have "a[i := x] = a" using Cons.prems [of i] by (cases "i < length a") (auto simp: list_update_same_conv list_update_beyond)
  then show ?case using Cons by simp
qed simp

lemma Array_of_list_eq:
  "Array_of_list N zero init = (if length init \<le> N then Some (init @ replicate (N - length init) zero) else None)"
proof (cases "length init \<le> N")
  case True
  have "Array_copy_init init 0 (Array_new N zero) = Some (init @ replicate (N - length init) zero)"
    using Array_copy_init_eq [of 0 init "Array_new N zero"] True by (simp add: Array_new_def)
  then show ?thesis using True by (auto simp: Array_of_list_def nth_append intro!: fill_same)
qed (use Array_copy_init_over [of 0 "Array_new N zero" init] in \<open>simp add: Array_of_list_def Array_new_def\<close>)

text \<open>A loop that replaces every element by a function of itself and its index.\<close>

lemma update_each:
  assumes "\<And>i a'. i < length a \<Longrightarrow> length a' = length a \<Longrightarrow> (\<forall>j. i \<le> j \<and> j < length a \<longrightarrow> a' ! j = a ! j) \<Longrightarrow> g i a' = h i (a ! i)"
    and "k \<le> length a"
  shows "length (fold (\<lambda>i a. a[i := g i a]) [0..<k] a) = length a \<and>
         (\<forall>j < length a. fold (\<lambda>i a. a[i := g i a]) [0..<k] a ! j = (if j < k then h j (a ! j) else a ! j))"
  using assms(2)
proof (induction k)
  case (Suc k)
  let ?b = "fold (\<lambda>i a. a[i := g i a]) [0..<k] a"
  have b: "length ?b = length a" "\<forall>j < length a. ?b ! j = (if j < k then h j (a ! j) else a ! j)"
    using Suc by simp_all
  have "g k ?b = h k (a ! k)" using assms(1) [of k ?b] b Suc.prems by simp
  then show ?case using b Suc.prems by (auto simp: nth_list_update less_Suc_eq)
qed simp

definition rhs_list :: "'a list \<Rightarrow> 'a rhs \<Rightarrow> 'a list" where
  "rhs_list a rhs = (case rhs of Other b \<Rightarrow> b | Itself \<Rightarrow> a)"

lemma assign_each:
  assumes "length (rhs_list a rhs) = length a"
  shows "fold (\<lambda>i a. a[i := op (a ! i) (rhs_at rhs a i)]) [0..<length a] a = map2 op a (rhs_list a rhs)"
proof (rule nth_equalityI)
  note u = update_each [where a = a and g = "\<lambda>i a. op (a ! i) (rhs_at rhs a i)" and h = "\<lambda>i x. op x (rhs_list a rhs ! i)"
      and k = "length a"]
  show "length (fold (\<lambda>i a. a[i := op (a ! i) (rhs_at rhs a i)]) [0..<length a] a) = length (map2 op a (rhs_list a rhs))"
    using u assms by (auto simp: rhs_at_def rhs_list_def split: rhs.splits)
  show "fold (\<lambda>i a. a[i := op (a ! i) (rhs_at rhs a i)]) [0..<length a] a ! i = map2 op a (rhs_list a rhs) ! i"
    if "i < length (fold (\<lambda>i a. a[i := op (a ! i) (rhs_at rhs a i)]) [0..<length a] a)" for i
    using that u assms by (auto simp: rhs_at_def rhs_list_def split: rhs.splits)
qed

section \<open>Ranges that overlap\<close>

text \<open>
  What is in memory after \<open>n\<close> elements have gone from \<open>src\<close> to \<open>dest\<close>: the source outside the destination
  holds what \<open>left\<close> makes of its values.
\<close>

definition transferred :: "('a \<Rightarrow> 'a) \<Rightarrow> nat \<Rightarrow> nat \<Rightarrow> nat \<Rightarrow> (nat \<Rightarrow> 'a) \<Rightarrow> nat \<Rightarrow> 'a" where
  "transferred left dest src n m =
     (\<lambda>p. if dest \<le> p \<and> p < dest + n then m (src + (p - dest))
          else if src \<le> p \<and> p < src + n then left (m p) else m p)"

lemma transferred_id: "transferred (\<lambda>x. x) dest src n m = memmove_items dest src n m"
  by (auto simp: transferred_def memmove_items_def fun_eq_iff)

text \<open>One element first, then the others behind it (upwards), or in front of it (downwards).\<close>

lemma transferred_up:
  assumes "dest < src"
  shows "transferred left (dest + 1) (src + 1) n (m(dest := m src, src := left (m src))) = transferred left dest src (Suc n) m"
proof
  fix p
  show "transferred left (dest + 1) (src + 1) n (m(dest := m src, src := left (m src))) p = transferred left dest src (Suc n) m p"
  proof (cases "dest + 1 \<le> p \<and> p < dest + 1 + n")
    case True
    then have "src + 1 + (p - (dest + 1)) = src + (p - dest)" "dest < src + (p - dest)" "src < src + (p - dest)" using assms by linarith+
    then show ?thesis using True by (simp add: transferred_def)
  qed (use assms in \<open>cases "p = src"; auto simp: transferred_def\<close>)
qed

lemma transferred_down:
  assumes "src < dest"
  shows "transferred left dest src n (m(dest + n := m (src + n), src + n := left (m (src + n)))) = transferred left dest src (Suc n) m"
proof
  fix p
  show "transferred left dest src n (m(dest + n := m (src + n), src + n := left (m (src + n)))) p = transferred left dest src (Suc n) m p"
  proof (cases "dest \<le> p \<and> p < dest + n")
    case True
    then have "src + (p - dest) < dest + n" "src + (p - dest) < src + n" using assms by linarith+
    then show ?thesis using True by (simp add: transferred_def)
  qed (use assms in \<open>cases "p = src + n"; auto simp: transferred_def\<close>)
qed

lemma items_up_transfer:
  assumes "\<And>d s m. d < s \<Longrightarrow> item d s m = Some (m(d := m s, s := left (m s)))" and "dest < src"
  shows "items_up item n dest src m = Some (transferred left dest src n m)"
  using assms(2)
proof (induction n arbitrary: dest src m)
  case (Suc n)
  have "items_up item n (dest + 1) (src + 1) m' = Some (transferred left (dest + 1) (src + 1) n m')" for m'
    using Suc.IH [of "dest + 1" "src + 1"] Suc.prems by simp
  then show ?case using assms(1) [OF Suc.prems] transferred_up [OF Suc.prems] by (simp del: fun_upd_apply)
qed (auto simp: transferred_def fun_eq_iff)

lemma items_down_transfer:
  assumes "\<And>d s m. s < d \<Longrightarrow> item d s m = Some (m(d := m s, s := left (m s)))" and "src < dest"
  shows "items_down item n dest src m = Some (transferred left dest src n m)"
proof (induction n arbitrary: m)
  case (Suc n)
  show ?case using assms(1) [of "src + n" "dest + n" m] assms(2) Suc transferred_down [OF assms(2)] by (simp del: fun_upd_apply)
qed (auto simp: transferred_def fun_eq_iff)

lemma items_down_same: "items_down copy_item n p p m = Some m"
  by (induction n arbitrary: m) (simp_all add: copy_item_def)

text \<open>
  Copying a range gives the same memory whether the elements are copied as bytes or one by one, in either
  direction and with any overlap; moving a range to another place gives the destination the same values
  and leaves every element of the source that the destination does not cover moved from.
\<close>

theorem copy_and_move_overlap:
  "copyItems trivial dest src n m = Some (memmove_items dest src n m) \<and>
   (dest \<noteq> src \<longrightarrow> moveItems trivial moved dest src n m =
      Some (if trivial then memmove_items dest src n m else transferred moved dest src n m))"
proof
  have z: "transferred left dest src 0 m = m" "memmove_items dest src 0 m = m" for left
    by (auto simp: transferred_def memmove_items_def fun_eq_iff)
  have c: "copy_item d s m = Some (m(d := m s, s := (\<lambda>x. x) (m s)))" if "d \<noteq> s" for d s and m :: "nat \<Rightarrow> 'a"
    using that by (auto simp: copy_item_def fun_eq_iff)
  have same: "memmove_items p p n m = m" for p by (auto simp: memmove_items_def fun_eq_iff)
  show "copyItems trivial dest src n m = Some (memmove_items dest src n m)"
    unfolding transferred_id [symmetric]
    using items_up_transfer [of copy_item "\<lambda>x. x" dest src n m] items_down_transfer [of copy_item "\<lambda>x. x" src dest n m] c z
    by (cases dest src rule: linorder_cases) (auto simp: copyItems_def transferred_id items_down_same same)
  have "move_item moved d s m = Some (m(d := m s, s := moved (m s)))" if "d \<noteq> s" for d s and m :: "nat \<Rightarrow> 'a"
    using that by (simp add: move_item_def)
  then show "dest \<noteq> src \<longrightarrow> moveItems trivial moved dest src n m =
      Some (if trivial then memmove_items dest src n m else transferred moved dest src n m)"
    using items_up_transfer [of "move_item moved" moved dest src n m] items_down_transfer [of "move_item moved" moved src dest n m] z
    by (auto simp: moveItems_def neq_iff)
qed

theorem copy_and_move_overlap_witness:
  "moveItems False (\<lambda>_. 0) 1 0 2 (\<lambda>p. p + 10) = Some (transferred (\<lambda>_. 0) 1 0 2 (\<lambda>p. p + 10)) \<and>
   map (transferred (\<lambda>_. 0) 1 0 2 (\<lambda>p. p + 10 :: nat)) [0, 1, 2, 3] = [0, 10, 11, 13]"
  using copy_and_move_overlap [of False 1 0 2 "\<lambda>p. p + 10 :: nat" "\<lambda>_. 0"] by (simp add: transferred_def)

text \<open>
  Setting a range of \<^verbatim>\<open>int\<close> values stores the value exactly when its four bytes are equal.
\<close>

lemma setItems_eq: "setItems dest n v m = (\<lambda>p. if dest \<le> p \<and> p < dest + n then v else m p)"
proof (induction dest n v m rule: setItems.induct)
  case (2 dest n v m)
  show ?case by (simp only: setItems.simps 2) (auto simp: fun_eq_iff)
qed (simp add: fun_eq_iff, linarith)

lemma set_int_repeats_byte:
  "setItems_int dest n v m = setItems dest n v m \<longleftrightarrow>
     n = 0 \<or> v = (let b = v AND 0xFF in b OR push_bit 8 b OR push_bit 16 b OR push_bit 24 b)"
proof (cases n)
  case (Suc k)
  have "setItems_int dest n v m dest = setItems dest n v m dest \<longleftrightarrow>
      v = (let b = v AND 0xFF in b OR push_bit 8 b OR push_bit 16 b OR push_bit 24 b)"
    using Suc by (auto simp: setItems_int_def setItems_eq Let_def)
  then show ?thesis using Suc by (auto simp: setItems_int_def setItems_eq Let_def fun_eq_iff)
qed (simp add: setItems_int_def)

lemma set_int_one: "setItems_int 0 2 1 (\<lambda>_. 0) 0 = 0x01010101"
  by (simp add: setItems_int_def)

text \<open>
  An array made from a list holds the list and then default values, and a longer list
  is written behind the array; adding and subtracting arrays works element by element, also with the array
  itself on the right, and subtraction undoes addition.
\<close>

theorem array_is_list:
  fixes a b :: "('a::ab_group_add) list"
  shows "Array_of_list N zero init = (if length init \<le> N then Some (init @ replicate (N - length init) zero) else None) \<and>
         (length b = length a \<longrightarrow>
            Array_add_assign a (Other b) = map2 (+) a b \<and> Array_sub_assign a (Other b) = map2 (-) a b \<and>
            Array_add_assign a Itself = map2 (+) a a \<and> Array_sub_assign a Itself = replicate (length a) 0 \<and>
            Array_minus (Array_plus a b) b = a)"
proof (intro conjI impI)
  assume l: "length b = length a"
  have add: "Array_add_assign x rhs = map2 (+) x (rhs_list x rhs)" "Array_sub_assign x rhs = map2 (-) x (rhs_list x rhs)"
    if "length (rhs_list x rhs) = length x" for x :: "'a list" and rhs
    using assign_each [OF that] by (simp_all add: Array_add_assign_def Array_sub_assign_def)
  show "Array_add_assign a (Other b) = map2 (+) a b" "Array_sub_assign a (Other b) = map2 (-) a b"
    "Array_add_assign a Itself = map2 (+) a a"
    using add [of a "Other b"] add [of a Itself] l by (simp_all add: rhs_list_def)
  show "Array_sub_assign a Itself = replicate (length a) 0"
    using add(2) [of a Itself] by (simp add: rhs_list_def) (rule nth_equalityI, simp_all)
  show "Array_minus (Array_plus a b) b = a"
    using add(1) [of a "Other b"] add(2) [of "map2 (+) a b" "Other b"] l
    by (simp add: rhs_list_def Array_minus_def Array_plus_def) (rule nth_equalityI, simp_all)
qed (rule Array_of_list_eq)

theorem array_is_list_witness:
  "Array_of_list 3 0 [5, 6 :: int] = Some [5, 6, 0] \<and> Array_minus (Array_plus [1, 2] [5, 6 :: int]) [5, 6] = [1, 2]"
  using array_is_list [where N = 3 and zero = 0 and init = "[5, 6 :: int]" and a = "[1, 2]" and b = "[5, 6 :: int]"] by simp

end
