(* ===== verification/Cpt_Ipc.thy ===== *)
theory Cpt_Ipc
  imports Cpt_Clock
begin

text \<open>
  The datatype and the reduction operation of the piggyback messages (\<^verbatim>\<open>ipcData\<close> in \<^verbatim>\<open>src/tracking.cpp\<close>,
  \<^verbatim>\<open>include/ipc-data.h\<close>).  In the present configuration they are the predefined \<^verbatim>\<open>MPI_DOUBLE\<close> and \<^verbatim>\<open>MPI_MAX\<close>; with integer
  values beside the times they are created at the start and freed at the end.  The handles MPI makes are
  arguments.
\<close>

section \<open>The reduction\<close>

record depMetric =
  fvalues :: "time list"
  ivalues :: "int list"

text \<open>One entry of the vectors: the first \<open>n\<close> and \<open>k\<close> values are copied.\<close>

definition maxloc_entry :: "nat \<Rightarrow> nat \<Rightarrow> depMetric \<Rightarrow> depMetric \<Rightarrow> depMetric" where
  "maxloc_entry n k inn inout =
     (if fvalues inout ! 0 < fvalues inn ! 0
      then inout\<lparr>fvalues := fold (\<lambda>j v. v[j := fvalues inn ! j]) [0..<n] (fvalues inout),
                 ivalues := fold (\<lambda>j v. v[j := ivalues inn ! j]) [0..<k] (ivalues inout)\<rparr>
      else inout)"

definition maxloc :: "nat \<Rightarrow> nat \<Rightarrow> depMetric list \<Rightarrow> depMetric list \<Rightarrow> nat \<Rightarrow> depMetric list" where
  "maxloc n k invec inoutvec len = fold (\<lambda>i v. v[i := maxloc_entry n k (invec ! i) (v ! i)]) [0..<len] inoutvec"

section \<open>Creation and release\<close>

datatype mpi_type = TYPE_NULL | DOUBLE_TYPE | Made_type nat
datatype mpi_op = OP_NULL | MAX_OP | Made_op nat

text \<open>\<open>live_types\<close> and \<open>live_ops\<close> are what MPI has made and not yet freed.\<close>

record ipcData =
  num_uc_double :: nat
  num_uc_int64 :: nat
  ipcMpiType :: mpi_type
  ipcMpiOp :: mpi_op
  live_types :: "nat set"
  live_ops :: "nat set"

definition ipcData_new :: "nat \<Rightarrow> nat \<Rightarrow> ipcData" where
  "ipcData_new n k =
     \<lparr>num_uc_double = n, num_uc_int64 = k, ipcMpiType = TYPE_NULL, ipcMpiOp = OP_NULL, live_types = {}, live_ops = {}\<rparr>"

text \<open>
  \<open>stru\<close>, \<open>resized\<close> and \<open>op\<close> are the handles MPI returns for the struct type, the resized type and the operation.
\<close>

definition initIpcData :: "nat \<Rightarrow> nat \<Rightarrow> nat \<Rightarrow> ipcData \<Rightarrow> ipcData" where
  "initIpcData stru resized op s =
     (if num_uc_int64 s > 0
      then s\<lparr>ipcMpiType := Made_type resized, ipcMpiOp := Made_op op,
             live_types := insert resized (insert stru (live_types s)) - {stru}, live_ops := insert op (live_ops s)\<rparr>
      else s\<lparr>ipcMpiType := DOUBLE_TYPE, ipcMpiOp := MAX_OP\<rparr>)"

text \<open>Freeing the null operation, or one that is not live, is an error of MPI.\<close>

definition finiIpcData :: "ipcData \<Rightarrow> ipcData option" where
  "finiIpcData s =
     (let s' = (case ipcMpiType s of Made_type t \<Rightarrow> s\<lparr>ipcMpiType := TYPE_NULL, live_types := live_types s - {t}\<rparr> | _ \<Rightarrow> s)
      in case ipcMpiOp s' of
           MAX_OP \<Rightarrow> Some s'
         | OP_NULL \<Rightarrow> None
         | Made_op p \<Rightarrow> if p \<in> live_ops s' then Some (s'\<lparr>ipcMpiOp := OP_NULL, live_ops := live_ops s' - {p}\<rparr>) else None)"

section \<open>What a reduction selects\<close>

definition shaped :: "nat \<Rightarrow> nat \<Rightarrow> depMetric \<Rightarrow> bool" where
  "shaped n k d \<longleftrightarrow> length (fvalues d) = n \<and> length (ivalues d) = k"

lemma copy_all: "length v = length w \<Longrightarrow> fold (\<lambda>j v. v[j := w ! j]) [0..<length w] v = w"
proof -
  assume l: "length v = length w"
  have "k \<le> length w \<Longrightarrow> fold (\<lambda>j v. v[j := w ! j]) [0..<k] v = take k w @ drop k v" for k
  proof (induction k)
    case (Suc k)
    have "(take k w @ drop k v)[k := w ! k] = take (Suc k) w @ drop (Suc k) v"
      using Suc.prems l by (simp add: list_update_append take_Suc_conv_app_nth Cons_nth_drop_Suc [symmetric])
    then show ?case using Suc by simp
  qed simp
  from this [of "length w"] show ?thesis using l by simp
qed

lemma maxloc_entry_eq:
  "shaped n k inn \<Longrightarrow> shaped n k inout \<Longrightarrow>
   maxloc_entry n k inn inout = (if fvalues inout ! 0 < fvalues inn ! 0 then inn else inout)"
  using copy_all [of "fvalues inout" "fvalues inn"] copy_all [of "ivalues inout" "ivalues inn"]
  by (auto simp: maxloc_entry_def shaped_def)

lemma maxloc_entry_shaped: "shaped n k inn \<Longrightarrow> shaped n k inout \<Longrightarrow> shaped n k (maxloc_entry n k inn inout)"
  by (simp add: maxloc_entry_eq)

text \<open>The operation on whole vectors is the operation on every entry.\<close>

lemma maxloc_entries:
  assumes "length invec = length inoutvec"
  shows "maxloc n k invec inoutvec (length inoutvec) = map2 (maxloc_entry n k) invec inoutvec"
proof -
  have "m \<le> length inoutvec \<Longrightarrow>
      fold (\<lambda>i v. v[i := maxloc_entry n k (invec ! i) (v ! i)]) [0..<m] inoutvec =
      map2 (maxloc_entry n k) (take m invec) (take m inoutvec) @ drop m inoutvec" for m
  proof (induction m)
    case (Suc m)
    let ?l = "map2 (maxloc_entry n k) (take m invec) (take m inoutvec)"
    have l: "length ?l = m" using Suc.prems assms by simp
    have "(?l @ drop m inoutvec) ! m = inoutvec ! m" using Suc.prems l by (simp add: nth_append)
    then show ?case
      using Suc assms l by (simp add: list_update_append take_Suc_conv_app_nth Cons_nth_drop_Suc [symmetric])
  qed simp
  from this [of "length inoutvec"] show ?thesis using assms by (simp add: maxloc_def)
qed

text \<open>The receiver of a reduction does what \<^verbatim>\<open>DependentMetric::maxUpdate\<close> does.\<close>

definition to_metric :: "depMetric \<Rightarrow> DependentMetric" where
  "to_metric d = \<lparr>refValue = fvalues d ! 0, depValue = word_of_int (ivalues d ! 0)\<rparr>"

lemma maxloc_is_maxUpdate:
  "shaped 1 1 a \<Longrightarrow> shaped 1 1 b \<Longrightarrow> to_metric (maxloc_entry 1 1 a b) = dm_maxUpdate (to_metric b) (to_metric a)"
  by (simp add: maxloc_entry_eq to_metric_def dm_maxUpdate_def)

text \<open>
  MPI may combine the contributions of the processes in any order and with any brackets, since the operation
  is declared commutative.
\<close>

datatype 'a reduction = Contribution 'a | Combined "'a reduction" "'a reduction"

primrec contributions :: "'a reduction \<Rightarrow> 'a list" where
  "contributions (Contribution x) = [x]"
| "contributions (Combined l r) = contributions l @ contributions r"

primrec reduce :: "nat \<Rightarrow> nat \<Rightarrow> depMetric reduction \<Rightarrow> depMetric" where
  "reduce n k (Contribution x) = x"
| "reduce n k (Combined l r) = maxloc_entry n k (reduce n k l) (reduce n k r)"

lemma reduce_greatest:
  assumes "\<forall>x \<in> set (contributions t). shaped n k x"
  shows "reduce n k t \<in> set (contributions t) \<and> (\<forall>x \<in> set (contributions t). fvalues x ! 0 \<le> fvalues (reduce n k t) ! 0)"
  using assms
proof (induction t)
  case (Combined l r)
  have s: "shaped n k (reduce n k l)" "shaped n k (reduce n k r)" using Combined by auto
  show ?case
    using Combined.IH Combined.prems by (auto simp: maxloc_entry_eq [OF s])
qed simp

text \<open>
  A reduction of the piggyback values with integer values beside the times gives, in whatever
  order MPI combines the processes, the contribution of one of them with the greatest time; the order is without
  effect on the result when only one process has the greatest time.
\<close>

theorem reduction_selects_greatest:
  assumes "\<forall>x \<in> set (contributions t). shaped n k x"
  shows "reduce n k t \<in> set (contributions t) \<and>
         (\<forall>x \<in> set (contributions t). fvalues x ! 0 \<le> fvalues (reduce n k t) ! 0) \<and>
         (\<forall>u. set (contributions u) = set (contributions t) \<longrightarrow>
              (\<forall>x \<in> set (contributions t). \<forall>y \<in> set (contributions t). fvalues x ! 0 = fvalues y ! 0 \<longrightarrow> x = y) \<longrightarrow>
              reduce n k u = reduce n k t)"
proof -
  have "reduce n k u = reduce n k t"
    if "set (contributions u) = set (contributions t)"
      "\<forall>x \<in> set (contributions t). \<forall>y \<in> set (contributions t). fvalues x ! 0 = fvalues y ! 0 \<longrightarrow> x = y" for u
    using reduce_greatest [of u n k] reduce_greatest [of t n k] assms that by (metis order_antisym)
  then show ?thesis using reduce_greatest [OF assms] by blast
qed

theorem reduction_selects_greatest_witness:
  "let a = \<lparr>fvalues = [2], ivalues = [7]\<rparr>; b = \<lparr>fvalues = [3], ivalues = [1]\<rparr> in
     reduce 1 1 (Combined (Contribution a) (Contribution b)) = b \<and> reduce 1 1 (Combined (Contribution b) (Contribution a)) = b"
  using reduction_selects_greatest [of "Combined (Contribution \<lparr>fvalues = [2], ivalues = [7]\<rparr>) (Contribution \<lparr>fvalues = [3], ivalues = [1]\<rparr>)" 1 1]
  by (simp add: shaped_def maxloc_entry_def)

text \<open>With equal times the operation is not commutative, although it is created as commutative.\<close>

lemma maxloc_not_commutative:
  "let a = \<lparr>fvalues = [2], ivalues = [7]\<rparr>; b = \<lparr>fvalues = [2], ivalues = [1]\<rparr> in maxloc_entry 1 1 a b \<noteq> maxloc_entry 1 1 b a"
  by (simp add: maxloc_entry_def)

text \<open>What the start creates the end frees; without a start the end frees the null operation.\<close>

lemma ipc_released:
  "\<exists>s. finiIpcData (initIpcData stru resized op (ipcData_new n k)) = Some s \<and> live_ops s = {} \<and>
       (stru \<noteq> resized \<longrightarrow> live_types s = {})"
  "finiIpcData (ipcData_new n k) = None"
  by (auto simp: initIpcData_def finiIpcData_def ipcData_new_def Let_def)

end
