(* ===== verification/Cpt_Timing.thy ===== *)
theory Cpt_Timing
  imports Cpt_Prelude
begin

text \<open>
  The timer for debugging (\<^verbatim>\<open>include/timing.h\<close>): it times a scope and the iterations inside it, and prints the
  statistics of the iterations when it is destroyed.  The times \<^verbatim>\<open>clock_gettime\<close> returns are arguments; the format
  of the printed line is left out.
\<close>

record timespec =
  tv_sec :: int
  tv_nsec :: int

definition BILLION :: real where "BILLION = 1000000000"

definition seconds :: "timespec \<Rightarrow> real" where
  "seconds ts = of_int (tv_sec ts) + of_int (tv_nsec ts) / BILLION"

record RaiiTimer =
  tm_start :: timespec
  istart :: timespec
  tm_total :: real
  sumsqr :: real
  imin :: real
  imax :: real
  samples :: nat

definition RaiiTimer_new :: "timespec \<Rightarrow> RaiiTimer" where
  "RaiiTimer_new now =
     \<lparr>tm_start = now, istart = \<lparr>tv_sec = 0, tv_nsec = 0\<rparr>, tm_total = 0, sumsqr = 0, imin = 10 ^ 10, imax = 0, samples = 0\<rparr>"

definition startIter :: "timespec \<Rightarrow> RaiiTimer \<Rightarrow> RaiiTimer" where
  "startIter now t = t\<lparr>istart := now\<rparr>"

definition stopIter :: "timespec \<Rightarrow> RaiiTimer \<Rightarrow> RaiiTimer" where
  "stopIter iend t =
     (let startd = seconds (istart t); endd = seconds iend; elapsed = endd - startd
      in t\<lparr>tm_total := tm_total t + elapsed, sumsqr := sumsqr t + elapsed * elapsed,
           imin := (if elapsed < imin t then elapsed else imin t),
           imax := (if elapsed > imax t then elapsed else imax t),
           samples := samples t + 1\<rparr>)"

text \<open>
  \<^verbatim>\<open>iterTimer()\<close>: an object whose constructor starts and whose destructor stops an iteration.
\<close>

definition RaiiIterTimer :: "timespec \<times> timespec \<Rightarrow> RaiiTimer \<Rightarrow> RaiiTimer" where
  "RaiiIterTimer se t = stopIter (snd se) (startIter (fst se) t)"

record timer_report =
  r_total :: real
  r_mean :: real
  r_error :: real
  r_percent :: "real option"
  r_min :: real
  r_max :: real

text \<open>
  The destructor: the numbers of the printed line, in milliseconds except for the first.  Without a sample the
  mean is not a number, and with a mean of 0 the percentage is not.
\<close>

definition RaiiTimer_report :: "RaiiTimer \<Rightarrow> timer_report option" where
  "RaiiTimer_report t =
     (if samples t = 0 then None
      else let mean = tm_total t / of_nat (samples t);
               stddev2 = sumsqr t / of_nat (samples t) - mean * mean;
               error = sqrt stddev2
           in if stddev2 < 0 then None
              else Some \<lparr>r_total = tm_total t, r_mean = mean * 1000, r_error = error * 1000, r_percent = (if mean = 0 then None else Some (error / mean * 100)),
                         r_min = imin t * 1000, r_max = imax t * 1000\<rparr>)"

section \<open>The statistics\<close>

definition elapsed_of :: "timespec \<times> timespec \<Rightarrow> real" where
  "elapsed_of se = seconds (snd se) - seconds (fst se)"

lemma timer_runs:
  "let t = fold RaiiIterTimer ses t0; xs = map elapsed_of ses in
     tm_total t = tm_total t0 + sum_list xs \<and> sumsqr t = sumsqr t0 + (\<Sum>x\<leftarrow>xs. x * x) \<and> samples t = samples t0 + length ses \<and>
     imin t = fold min xs (imin t0) \<and> imax t = fold max xs (imax t0)"
proof (induction ses arbitrary: t0)
  case (Cons se ses)
  show ?case
    using Cons.IH [of "RaiiIterTimer se t0"]
    by (simp add: RaiiIterTimer_def stopIter_def startIter_def elapsed_of_def Let_def min_def max_def not_less)
qed simp

text \<open>The variance of a list is not negative.\<close>

lemma square_of_sum: "(sum_list xs)\<^sup>2 \<le> real (length xs) * (\<Sum>x\<leftarrow>xs. x * x)"
proof (induction xs)
  case (Cons e xs)
  let ?n = "real (length xs)" and ?t = "sum_list xs" and ?q = "\<Sum>x\<leftarrow>xs. x * x"
  have q: "0 \<le> ?q" by (rule sum_list_nonneg) auto
  have "2 * ?t * e \<le> ?q + ?n * (e * e)"
  proof (cases "xs = []")
    case False
    then have n: "0 < ?n" by simp
    have "0 \<le> (?t - ?n * e)\<^sup>2" by simp
    then have "?n * (2 * ?t * e) \<le> ?t\<^sup>2 + ?n * (?n * (e * e))" by (simp add: power2_eq_square algebra_simps)
    also have "\<dots> \<le> ?n * (?q + ?n * (e * e))" using Cons.IH by (simp add: algebra_simps)
    finally show ?thesis using n by simp
  qed simp
  then show ?case using Cons.IH q by (simp add: power2_eq_square algebra_simps)
qed simp

lemma fold_min_le: "fold min xs (a :: real) \<le> a \<and> (\<forall>x \<in> set xs. fold min xs a \<le> x)"
proof (induction xs arbitrary: a)
  case (Cons x xs)
  show ?case using Cons.IH [of "min x a"] by auto
qed simp

lemma fold_max_ge: "a \<le> fold max xs (a :: real) \<and> (\<forall>x \<in> set xs. x \<le> fold max xs a)"
proof (induction xs arbitrary: a)
  case (Cons x xs)
  show ?case using Cons.IH [of "max x a"] by auto
qed simp

lemma sum_bounds: "\<forall>x \<in> set xs. lo \<le> x \<and> x \<le> hi \<Longrightarrow> real (length xs) * lo \<le> sum_list xs \<and> sum_list xs \<le> real (length xs) * hi"
  by (induction xs) (auto simp: algebra_simps)

text \<open>
  After at least one iteration the destructor has numbers to print: the sum of the iterations, a
  mean between the smallest and the largest iteration, and a standard deviation, since the variance is not negative.
\<close>

theorem timer_statistics:
  assumes "ses \<noteq> []" and "t = fold RaiiIterTimer ses (RaiiTimer_new now)"
  shows "\<exists>r. RaiiTimer_report t = Some r \<and> r_total r = sum_list (map elapsed_of ses) \<and>
             r_min r \<le> r_mean r \<and> r_mean r \<le> r_max r \<and> 0 \<le> r_error r"
proof -
  let ?xs = "map elapsed_of ses" and ?n = "real (length ses)"
  note r = timer_runs [of ses "RaiiTimer_new now", unfolded Let_def, folded assms(2)]
  have n: "0 < ?n" using assms(1) by simp
  have t: "tm_total t = sum_list ?xs" "sumsqr t = (\<Sum>x\<leftarrow>?xs. x * x)" "samples t = length ses"
      "imin t = fold min ?xs (10 ^ 10)" "imax t = fold max ?xs 0"
    using r by (simp_all add: RaiiTimer_new_def)
  have "\<forall>x \<in> set ?xs. imin t \<le> x \<and> x \<le> imax t" unfolding t using fold_min_le fold_max_ge by blast
  from sum_bounds [OF this] have m: "imin t \<le> tm_total t / ?n" "tm_total t / ?n \<le> imax t"
    using n by (simp_all add: t(1) field_simps)
  have "(tm_total t)\<^sup>2 \<le> ?n * sumsqr t" using square_of_sum [of ?xs] by (simp add: t)
  then have "0 \<le> sumsqr t / ?n - tm_total t / ?n * (tm_total t / ?n)"
    using n by (simp add: field_simps power2_eq_square)
  then show ?thesis
    using n mult_right_mono [OF m(1), of 1000] mult_right_mono [OF m(2), of 1000] t(1,3)
    by (simp add: RaiiTimer_report_def Let_def not_less)
qed

end
