(* ===== verification/Cpt_Signals.thy ===== *)
theory Cpt_Signals
  imports Cpt_Debug
begin

text \<open>
  How the process ends on a signal and on an MPI error (\<^verbatim>\<open>src/critical-core.cpp\<close>, \<^verbatim>\<open>src/tracking.cpp\<close>): the
  handlers the tool registers when stack traces are wanted, what they print and with which status the
  process ends.  The numbers of the signals are those of Linux.  Output goes to the standard output; the
  stack trace is one entry of the protocol.
\<close>

section \<open>Signals\<close>

type_synonym sig = int

definition SIGHUP :: sig where "SIGHUP = 1"

definition SIGINT :: sig where "SIGINT = 2"

definition SIGQUIT :: sig where "SIGQUIT = 3"

definition SIGABRT :: sig where "SIGABRT = 6"

definition SIGKILL :: sig where "SIGKILL = 9"

definition SIGSEGV :: sig where "SIGSEGV = 11"

definition SIGUSR2 :: sig where "SIGUSR2 = 12"

definition SIGALRM :: sig where "SIGALRM = 14"

definition SIGTERM :: sig where "SIGTERM = 15"

lemmas signal_numbers =
  SIGHUP_def SIGINT_def SIGQUIT_def SIGABRT_def SIGKILL_def SIGSEGV_def SIGUSR2_def SIGALRM_def SIGTERM_def

text \<open>What a signal does: the default action, or the handler of the tool or one of the application.\<close>

datatype sighandler = SIG_DFL | MySignalHandler | App_handler nat

text \<open>What can be seen of a process that ends, and how it ends.\<close>

datatype act = Prints string | Prints_stack | Flushes | Sleeps nat

datatype ending = Exits int | Killed_by sig

definition set_signalhandlers :: "sighandler \<Rightarrow> (sig \<Rightarrow> sighandler) \<Rightarrow> sig \<Rightarrow> sighandler" where
  "set_signalhandlers handler d =
     d(SIGSEGV := handler, SIGINT := handler, SIGHUP := handler, SIGABRT := handler,
       SIGTERM := handler, SIGUSR2 := handler, SIGQUIT := handler, SIGALRM := handler)"

definition disable_signalhandlers :: "(sig \<Rightarrow> sighandler) \<Rightarrow> sig \<Rightarrow> sighandler" where
  "disable_signalhandlers = set_signalhandlers SIG_DFL"

text \<open>\<^verbatim>\<open>mySignalHandler\<close> never returns: the protocol, the dispositions it leaves and the exit status.\<close>

definition mySignalHandler :: "int \<Rightarrow> sig \<Rightarrow> (sig \<Rightarrow> sighandler) \<Rightarrow> act list \<times> (sig \<Rightarrow> sighandler) \<times> ending" where
  "mySignalHandler pid signum d =
     (let d = disable_signalhandlers d;
          out = [Prints (''pid '' @ dec_int pid @ '' caught signal nr '' @ dec_int signum @ [CHR 0x0A])]
      in if signum = SIGINT \<or> signum = SIGKILL then (out @ [Prints_stack], d, Exits (signum + 128))
         else if signum = SIGTERM \<or> signum = SIGUSR2
         then (out @ [Prints_stack, Flushes, Sleeps 1], d, Exits (signum + 128))
         else (out @ [Prints_stack,
                 Prints (''Waiting up to '' @ dec_int 20 @ '' seconds to attach with a debugger.'' @ [CHR 0x0A]),
                 Sleeps 20], d, Exits 1))"

definition init_signalhandlers :: "CptFlags \<Rightarrow> (sig \<Rightarrow> sighandler) \<Rightarrow> act list \<times> (sig \<Rightarrow> sighandler)" where
  "init_signalhandlers f d =
     (if \<not> stacktrace f then ([], d)
      else ((if verbose f then [Prints (''Setting signal handlers'' @ [CHR 0x0A])] else []),
            set_signalhandlers MySignalHandler d))"

text \<open>
  A signal arrives at a process with the dispositions \<open>d\<close>; the default action of all signals above is
  that the process ends.  A handler of the application is outside the tool: \<^const>\<open>None\<close>.
\<close>

definition deliver :: "int \<Rightarrow> sig \<Rightarrow> (sig \<Rightarrow> sighandler) \<Rightarrow> (act list \<times> ending) option" where
  "deliver pid signum d =
     (case d signum of
        SIG_DFL \<Rightarrow> Some ([], Killed_by signum)
      | MySignalHandler \<Rightarrow> (case mySignalHandler pid signum d of (out, _, e) \<Rightarrow> Some (out, e))
      | App_handler _ \<Rightarrow> None)"

section \<open>MPI errors\<close>

text \<open>\<open>None\<close> is \<^verbatim>\<open>MPI_ERRHANDLER_NULL\<close>; an MPI library makes error handlers, numbered as \<open>new_handler\<close>.\<close>

record err_state =
  CommErrHandler :: "nat option"
  comm_errhandler :: "nat \<Rightarrow> nat option"

definition err_state_new :: err_state where
  "err_state_new = \<lparr>CommErrHandler = None, comm_errhandler = (\<lambda>_. None)\<rparr>"

definition createErrHandler :: "CptFlags \<Rightarrow> nat \<Rightarrow> err_state \<Rightarrow> err_state" where
  "createErrHandler f new_handler s = (if \<not> stacktrace f then s else s\<lparr>CommErrHandler := Some new_handler\<rparr>)"

definition registerErrHandler :: "CptFlags \<Rightarrow> nat \<Rightarrow> err_state \<Rightarrow> err_state" where
  "registerErrHandler f comm s =
     (if \<not> stacktrace f then s
      else s\<lparr>comm_errhandler := (comm_errhandler s)(comm := CommErrHandler s)\<rparr>)"

text \<open>The handler: after ten seconds \<^verbatim>\<open>abort\<close>, which is the signal \<^verbatim>\<open>SIGABRT\<close>.\<close>

definition myMpiErrHandler :: "int \<Rightarrow> int \<Rightarrow> (sig \<Rightarrow> sighandler) \<Rightarrow> (act list \<times> ending) option" where
  "myMpiErrHandler pid errCode d =
     (let out = [Prints (''Handling MPI Error '' @ dec_int errCode @ '' at pid '' @ dec_int pid @ [CHR 0x0A]), Sleeps 10];
          d = disable_signalhandlers d
      in map_option (\<lambda>(out', e). (out @ out', e)) (deliver pid SIGABRT d))"

section \<open>What is shown\<close>

definition tool_signals :: "sig list" where
  "tool_signals = [SIGSEGV, SIGINT, SIGHUP, SIGABRT, SIGTERM, SIGUSR2, SIGQUIT, SIGALRM]"

lemma set_signalhandlers_at: "set_signalhandlers h d n = (if n \<in> set tool_signals then h else d n)"
  by (auto simp: set_signalhandlers_def tool_signals_def signal_numbers)

lemma disable_signalhandlers_at: "disable_signalhandlers d n = (if n \<in> set tool_signals then SIG_DFL else d n)"
  by (simp add: disable_signalhandlers_def set_signalhandlers_at)

lemma handler_disables: "fst (snd (mySignalHandler pid n d)) = disable_signalhandlers d"
  by (simp add: mySignalHandler_def Let_def)

text \<open>
  With stack traces on, each of the eight signals ends the process with a stack trace, with 128 and the number
  of the signal for those that ask it to end, and with 1 for all others.  While the handler runs, a second signal of
  the eight ends the process at once, so that the handler cannot interrupt itself.  Other signals keep what they had;
  in particular the test for \<^verbatim>\<open>SIGKILL\<close> in the handler never succeeds.
\<close>

definition end_status :: "sig \<Rightarrow> ending" where
  "end_status signum = Exits (if signum \<in> {SIGINT, SIGTERM, SIGUSR2} then signum + 128 else 1)"

theorem signal_ends_process:
  assumes "stacktrace f" and "signum \<in> set tool_signals" and "init_signalhandlers f d0 = (msg, d)"
  shows "\<exists>out d'. mySignalHandler pid signum d = (out, d', end_status signum) \<and>
           deliver pid signum d = Some (out, end_status signum) \<and> Prints_stack \<in> set out \<and>
           (\<forall>n \<in> set tool_signals. deliver pid n d' = Some ([], Killed_by n)) \<and>
           (\<forall>n. n \<notin> set tool_signals \<longrightarrow> d' n = d0 n)"
proof -
  have k: "signum \<noteq> SIGKILL" using assms(2) by (auto simp: tool_signals_def signal_numbers)
  obtain out d' e where h: "mySignalHandler pid signum d = (out, d', e)" by (cases "mySignalHandler pid signum d")
  have d: "d n = (if n \<in> set tool_signals then MySignalHandler else d0 n)" for n
    using assms(1,3) by (auto simp: init_signalhandlers_def set_signalhandlers_at)
  have d': "d' = disable_signalhandlers d" using handler_disables [of pid signum d] h by simp
  have e: "e = end_status signum" and out: "Prints_stack \<in> set out"
    using h k by (auto simp: mySignalHandler_def end_status_def Let_def split: if_splits)
  have "deliver pid signum d = Some (out, end_status signum)" using assms(2) h e by (simp add: deliver_def d)
  moreover have "deliver pid n d' = Some ([], Killed_by n)" if "n \<in> set tool_signals" for n
    using that by (simp add: deliver_def d' disable_signalhandlers_at)
  ultimately show ?thesis using h e out d by (auto simp: d' disable_signalhandlers_at)
qed

lemma no_handlers_without_stacktrace: "\<not> stacktrace f \<Longrightarrow> init_signalhandlers f d = ([], d)"
  by (simp add: init_signalhandlers_def)

text \<open>
  An MPI error ends the process with \<^verbatim>\<open>SIGABRT\<close> whatever handlers the tool has set: its own handler, which
  would print a second stack trace and wait for a debugger, does not run.
\<close>

theorem mpi_error_aborts:
  "myMpiErrHandler pid errCode d =
     Some ([Prints (''Handling MPI Error '' @ dec_int errCode @ '' at pid '' @ dec_int pid @ [CHR 0x0A]), Sleeps 10], Killed_by SIGABRT)"
  by (simp add: myMpiErrHandler_def Let_def deliver_def disable_signalhandlers_at tool_signals_def)

text \<open>As the wrapper of \<^verbatim>\<open>MPI_Init\<close> calls them: the world communicator then has the handler of the tool.\<close>

lemma err_handler_registered:
  "comm_errhandler (registerErrHandler f world (createErrHandler f n s)) world =
     (if stacktrace f then Some n else comm_errhandler s world)"
  by (simp add: registerErrHandler_def createErrHandler_def)

end
