(* ===== verification/Spec2Isabelle.thy ===== *)
theory Spec2Isabelle
  imports Cpt_Critical_Path Cpt_Atomic Cpt_State_Stack Cpt_HashMap Cpt_Flags Cpt_Task Cpt_Barrier Cpt_Fortran
    Cpt_Offsets Cpt_Kmpc Cpt_Buffers Cpt_Mprobe Cpt_Omp_Order Cpt_Concurrent Cpt_Help Cpt_Array Cpt_Ipc
    Cpt_Timing Cpt_Signals
begin

text \<open>
  A verification development of OTF-CPT, the on-the-fly critical-path tool for MPI and OpenMP programs.

  \<^bold>\<open>The program.\<close>  The tool is a library that runs inside a parallel application.  Every thread has a clock
  (\<^verbatim>\<open>threadClock\<close>) with a stack of states (useful computation, OpenMP, MPI, ...).  A change of state starts and
  stops the metric clocks; a synchronisation of the application (a barrier, a task dependence, a lock, a
  message) carries the clock values along as a maximum.  At the end the tool adds up the clocks over threads
  and processes and reports the POP efficiency metrics.  The parts are:

  \<^item> the clocks (\<^verbatim>\<open>include/criticalPath.h\<close>), which everything else calls;
  \<^item> the measurement core (\<^verbatim>\<open>src/critical-core.cpp\<close>): start, stop, finish, aggregation, report;
  \<^item> the OMPT tool (\<^verbatim>\<open>src/ompt-critical.cpp\<close>): the callbacks of the OpenMP runtime and the objects behind them;
  \<^item> the interception of the OpenMP runtime (\<^verbatim>\<open>src/kmpc-intercept.c\<close>) where the runtime has no callback;
  \<^item> the MPI tool: handle factories (\<^verbatim>\<open>include/tracking.h\<close>), data per handle (\<^verbatim>\<open>include/handle-data.h\<close>),
    piggyback messages (\<^verbatim>\<open>include/mpi-critical.h\<close>, \<^verbatim>\<open>src/mpi-critical.cpp\<close>), the wrappers that complete and free
    requests and handles (\<^verbatim>\<open>src/completion-wrappers.cpp\<close>, \<^verbatim>\<open>src/man-wrappers.cpp\<close>) and their Fortran side
    (\<^verbatim>\<open>src/fort-wrappers.c\<close>);
  \<^item> options (\<^verbatim>\<open>include/parse_flags.h\<close>, \<^verbatim>\<open>src/parse_flags.cpp\<close>) and containers (\<^verbatim>\<open>include/containers\<close>).

  \<^bold>\<open>The theories.\<close>  A class is a record or datatype, a method a function with the same name from state to
  state, an object behind a pointer an address in a map; 0 is the null pointer.  Whatever C++ leaves
  undefined is the value \<^const>\<open>None\<close>; a call that ends the process is a left value.  Times are arguments:
  \<open>now\<close>, or \<open>t1\<close> and \<open>t2\<close> for the construction and the destruction of a scoped timer.  Three kinds of
  operation are total where the code is not: the state stack of a clock is a list, and \<^theory_text>\<open>Cpt_State_Stack\<close> shows that
  the tool never reads the back of an empty one; the callbacks of OpenMP take the task and team data the
  runtime hands over as existing objects, apart from those that follow a pointer which is null in
  some of the tasks (completion, suspension and dependences of a task), and a child task is made with a parent; the
  metrics are real numbers, in which a quotient by 0 is 0 and not a NaN, and the theorems on them assume the
  denominators positive.  The assertions of the code (\<^verbatim>\<open>DCHECK\<close>) report and go on by default; where one restricts an
  operation it is a predicate beside the operation (\<open>exitState_dchecks\<close>, \<open>CheckArc_dcheck\<close>, \<open>String_insert_dcheck\<close>), the
  one against cancelling a request twice is left out.

  \<^item> \<^theory_text>\<open>Cpt_Prelude\<close>: numeric types, collections of rewrite rules, list lemmas.
  \<^item> \<^theory_text>\<open>Cpt_Clock\<close>: metrics, synchronisation clocks, thread clocks.  \<^theory_text>\<open>Cpt_Stopwatch\<close>: the offset arithmetic
    implements a stopwatch for the states in which a clock is on.  \<^theory_text>\<open>Cpt_Critical_Path\<close>: the critical clock of
    a thread is the longest happens-before path of useful work.  \<^theory_text>\<open>Cpt_Atomic\<close>: the compare-exchange loops
    under every interleaving compute the maximum and the sum and return.  \<^theory_text>\<open>Cpt_State_Stack\<close>: the operations of a clock
    with the state stack on the tool's own vector simulate those on the list.
  \<^item> \<^theory_text>\<open>Cpt_Vector\<close>, \<^theory_text>\<open>Cpt_HashMap\<close>: the containers refine lists and maps; no operation reaches undefined
    behaviour.  The vector offers its stack operations, the hash map its map operations as a locale.
    \<^theory_text>\<open>Cpt_String\<close>: strings on the vector.  \<^theory_text>\<open>Cpt_Stream\<close>: formatted input and output
    over a buffer, with the contracts of a source and a sink as locales.  \<^theory_text>\<open>Cpt_Buffers\<close>: the buffers on
    strings and files, which satisfy these contracts or do not, and the round trip of a number through a file.
  \<^item> \<^theory_text>\<open>Cpt_Text\<close>, \<^theory_text>\<open>Cpt_Flags\<close>: number conversion of the C library, the option parser and its round trips and
    error branches.  \<^theory_text>\<open>Cpt_Help\<close>: the list of options it prints.
  \<^item> \<^theory_text>\<open>Cpt_Debug\<close>: the stack buffer, the assertion macros and what a failed assertion does.  \<^theory_text>\<open>Cpt_Signals\<close>: signals and MPI
    errors end the process, and with which status.  \<^theory_text>\<open>Cpt_Timing\<close>: the
    debugging timer.  \<^theory_text>\<open>Cpt_Array\<close>: arrays of fixed size, copies and moves of overlapping ranges.
  \<^item> \<^theory_text>\<open>Cpt_Measure\<close>: life cycle of a measurement, metrics and their bounds and factorisation.
    \<^theory_text>\<open>Cpt_Offsets\<close>: the clock offsets of the processes and their accuracy.
  \<^item> \<^theory_text>\<open>Cpt_Pool\<close>: the object pools as allocators.  \<^theory_text>\<open>Cpt_Ompt\<close>: the data of threads, teams, tasks, task
    groups, dependences and locks, and every callback.  \<^theory_text>\<open>Cpt_Task\<close>: which task objects are in use, in every
    reachable state; the callback for a finished task returns, unless the task has no parent.  \<^theory_text>\<open>Cpt_Barrier\<close>: a thread that leaves a barrier has the
    clocks of all threads.  \<^theory_text>\<open>Cpt_Omp_Arcs\<close>, \<^theory_text>\<open>Cpt_Omp_Path\<close>: every callback does to the clocks what a table of
    releases, acquires and clears says, so that over any run of callbacks the critical clock of a thread is the
    longest path of useful work through the arcs of that table.  \<^theory_text>\<open>Cpt_Omp_Order\<close>: in every state the
    callbacks lead to the data are well-formed; locks, \<open>taskwait\<close>, \<open>taskgroup\<close> and dependences hand the clock of what
    went before to what comes after; what a recycled task object does to that.  \<^theory_text>\<open>Cpt_Kmpc\<close>:
    intercepted calls restore the state and do not count as useful.
  \<^item> \<^theory_text>\<open>Cpt_Handle\<close>: the handle factories, generic in the data class; a locale states their contract and is
    interpreted for integer and for pointer handles.  \<^theory_text>\<open>Cpt_Concurrent\<close>: any number of threads in the integer
    factory, cut at its mutexes: the threads see only complete tables and never block each other.
    \<^theory_text>\<open>Cpt_Request\<close>: communicator and request data.
    \<^theory_text>\<open>Cpt_Ipc\<close>: the tool's own communicator and its reduction operation.
    \<^theory_text>\<open>Cpt_Mpi\<close>, \<^theory_text>\<open>Cpt_Piggyback\<close>: happens-before functions, callbacks of requests, the structures around each
    kind of call.  \<^theory_text>\<open>Cpt_Message\<close>: a system of processes; the critical clock of a process is the longest path
    of useful work over all messages, as long as the network takes each payload before its buffer on the stack ends.  \<^theory_text>\<open>Cpt_Completion\<close>: the completion wrappers.  \<^theory_text>\<open>Cpt_Mprobe\<close>: matched
    probes and receives.  \<^theory_text>\<open>Cpt_Fortran\<close>: the Fortran entry points of the completion wrappers.

  \<^bold>\<open>Parameters.\<close>  MPI, the OpenMP runtime, the dynamic linker and the C file functions are arguments of the
  definitions that use them: what a call returns, what has been written into a buffer, the order of
  callbacks.  Theorems that need more of them say so: for example that a barrier of the runtime lets no thread
  leave before all have entered, or that an allocation returns the next fresh addresses.

  \<^bold>\<open>Bounds and fuel.\<close>  A \<^verbatim>\<open>double\<close> is a real number: no rounding.  Hash values, integer options and the
  arguments of intercepted calls are words of their width.  Sizes and addresses are natural numbers,
  apart from the sizes of the stack buffer, which are 64-bit words that wrap around; the
  theorems on handles state the room that is left below the null handle.  The chain search of the hash map
  has the number of items as fuel, the walk of \<^verbatim>\<open>freeTask\<close> the number of objects ever allocated; that this is
  enough is part of the theorems that use them.  The loops that read a stream are partial functions: whether
  they end depends on the buffer, and the theorems say when they do.

  \<^bold>\<open>Not modelled.\<close>  Stack traces (\<^verbatim>\<open>PrintStack\<close>, the vendored backward-cpp), which are I/O of the process;
  concurrent calls of the request and pointer factories;
  the debugging output of the clocks; the wrappers that \<^verbatim>\<open>wrap.py\<close> generates at
  build time from \<^verbatim>\<open>src/gen-wrappers.w\<close> and \<^verbatim>\<open>src/gen-nb-wrappers.w\<close>, of which the structures they
  instantiate are modelled; the vendored code under \<^verbatim>\<open>external\<close>, tests, scripts and build files.
\<close>

end
